(* ===== verification/Kernel_Prelude.thy ===== *)
theory Kernel_Prelude
  imports Main "HOL-Library.Word"
begin

unbundle bit_operations_syntax

text \<open>
  The prelude of the development: the machine integers of the C sources, the ways a
  kernel function can go wrong, byte buffers, ioctl numbers, and the locales that several
  components instantiate.

  A C function is modelled by a HOL function into \<open>'a kres\<close> when its body can reach
  undefined behaviour (a null dereference, a division by zero, a dead pointer, an access
  outside a buffer); the fault is then a value of its own, so that \<open>no operation faults\<close>
  is a statement that can be proved.  Error codes that the function returns are values of
  \<open>errno\<close>.  What the Linux kernel decides (allocator results, user-copy results,
  device registration, \<open>hash_64\<close>) is an argument of the definitions.
\<close>

section \<open>Types\<close>

type_synonym u8 = "8 word"
type_synonym u16 = "16 word"
type_synonym u32 = "32 word"
type_synonym u64 = "64 word"
type_synonym byte = u8

text \<open>Error codes of the sources; \<open>Ekernel\<close> is a code handed through from a kernel call.\<close>

datatype errno =
    EINVAL | ENOMEM | EFAULT | ENOTTY | ENODATA | ENODEV | EIO | ECANCELED | EAGAIN
  | ERESTARTSYS | EOPNOTSUPP | ENAMETOOLONG | EBADF | ENOENT | ENOTDIR | E2BIG | ENOSYS | ENXIO
  | ENOTSOCK | EACCES | EEXIST | Ekernel int

text \<open>The C convention \<open>0 or -errno\<close>: \<open>None\<close> is the zero return.\<close>

type_synonym ret = "errno option"

datatype kfault = NullDeref | DivByZero | OutOfBounds | UseAfterFree | UninitRead

type_synonym 'a kres = "kfault + 'a"

named_theorems kres_simps \<open>rewriting of computations that may fault\<close>
named_theorems buf_simps \<open>byte buffers\<close>

section \<open>Computations that may fault\<close>

definition kbind :: "'a kres \<Rightarrow> ('a \<Rightarrow> 'b kres) \<Rightarrow> 'b kres" where
  "kbind r f = (case r of Inl e \<Rightarrow> Inl e | Inr x \<Rightarrow> f x)"

definition deref :: "('p \<rightharpoonup> 'o) \<Rightarrow> 'p \<Rightarrow> 'o kres" where
  "deref H p = (case H p of None \<Rightarrow> Inl UseAfterFree | Some x \<Rightarrow> Inr x)"

definition kguard :: "kfault \<Rightarrow> bool \<Rightarrow> 'a kres \<Rightarrow> 'a kres" where
  "kguard e b r = (if b then r else Inl e)"

lemma kbind_Inl [simp]: "kbind (Inl e) f = Inl e"
  by (simp add: kbind_def)

lemma kbind_Inr [simp]: "kbind (Inr x) f = f x"
  by (simp add: kbind_def)

lemma kbind_assoc: "kbind (kbind r f) g = kbind r (\<lambda>x. kbind (f x) g)"
  by (cases r) simp_all

lemma kbind_eq_Inr [kres_simps]: "kbind r f = Inr y \<longleftrightarrow> (\<exists>x. r = Inr x \<and> f x = Inr y)"
  by (cases r) auto

lemma kbind_eq_Inl [kres_simps]:
  "kbind r f = Inl e \<longleftrightarrow> r = Inl e \<or> (\<exists>x. r = Inr x \<and> f x = Inl e)"
  by (cases r) auto

lemma deref_Some [simp]: "H p = Some x \<Longrightarrow> deref H p = Inr x"
  by (simp add: deref_def)

lemma deref_None [simp]: "H p = None \<Longrightarrow> deref H p = Inl UseAfterFree"
  by (simp add: deref_def)

lemma deref_eq_Inr [kres_simps]: "deref H p = Inr x \<longleftrightarrow> H p = Some x"
  by (simp add: deref_def split: option.splits)

lemma kguard_True [simp]: "b \<Longrightarrow> kguard e b r = r"
  by (simp add: kguard_def)

lemma kguard_False [simp]: "\<not> b \<Longrightarrow> kguard e b r = Inl e"
  by (simp add: kguard_def)

lemma kguard_eq_Inr [kres_simps]: "kguard e b r = Inr x \<longleftrightarrow> b \<and> r = Inr x"
  by (simp add: kguard_def)

section \<open>Byte buffers\<close>

text \<open>
  \<open>slice\<close> and \<open>splice\<close> are the effect of a \<open>memcpy\<close> out of and into a buffer;
  \<open>mem_read\<close> and \<open>mem_write\<close> add the check that the C code leaves to its caller.
\<close>

definition slice :: "'a list \<Rightarrow> nat \<Rightarrow> nat \<Rightarrow> 'a list" where
  "slice buf off n = take n (drop off buf)"

definition splice :: "'a list \<Rightarrow> nat \<Rightarrow> 'a list \<Rightarrow> 'a list" where
  "splice buf off src = take off buf @ src @ drop (off + length src) buf"

definition mem_read :: "'a list \<Rightarrow> nat \<Rightarrow> nat \<Rightarrow> 'a list kres" where
  "mem_read buf off n =
     (if off + n \<le> length buf then Inr (slice buf off n) else Inl OutOfBounds)"

definition mem_write :: "'a list \<Rightarrow> nat \<Rightarrow> 'a list \<Rightarrow> 'a list kres" where
  "mem_write buf off src =
     (if off + length src \<le> length buf then Inr (splice buf off src) else Inl OutOfBounds)"

lemma length_splice [simp, buf_simps]:
  "off + length src \<le> length buf \<Longrightarrow> length (splice buf off src) = length buf"
  by (simp add: splice_def)

lemma length_slice [simp, buf_simps]: "off + n \<le> length buf \<Longrightarrow> length (slice buf off n) = n"
  by (simp add: slice_def)

lemma nth_splice:
  assumes "off + length src \<le> length buf" and "i < length buf"
  shows "splice buf off src ! i =
           (if off \<le> i \<and> i < off + length src then src ! (i - off) else buf ! i)"
  using assms by (auto simp: splice_def nth_append min_def)

lemma nth_slice: "off + n \<le> length buf \<Longrightarrow> i < n \<Longrightarrow> slice buf off n ! i = buf ! (off + i)"
  by (simp add: slice_def)

lemma slice_splice_same [simp, buf_simps]:
  "off + length src \<le> length buf \<Longrightarrow> slice (splice buf off src) off (length src) = src"
  by (simp add: slice_def splice_def)

lemma slice_splice_disjoint:
  assumes "off + length src \<le> length buf" and "a + n \<le> length buf"
    and "a + n \<le> off \<or> off + length src \<le> a"
  shows "slice (splice buf off src) a n = slice buf a n"
  by (rule nth_equalityI) (use assms in \<open>auto simp: nth_slice nth_splice\<close>)

lemma splice_append:
  assumes "off + length a + length b \<le> length buf"
  shows "splice (splice buf off a) (off + length a) b = splice buf off (a @ b)"
  by (rule nth_equalityI) (use assms in \<open>auto simp: nth_splice nth_append\<close>)

lemma slice_append:
  "off + n + k \<le> length buf \<Longrightarrow> slice buf off n @ slice buf (off + n) k = slice buf off (n + k)"
  by (simp add: slice_def take_add add.commute [of off n])

lemma splice_slice_id [simp, buf_simps]:
  "off + n \<le> length buf \<Longrightarrow> splice buf off (slice buf off n) = buf"
  by (rule nth_equalityI) (auto simp: nth_splice nth_slice)

lemma splice_Nil [simp, buf_simps]: "splice buf off [] = buf"
  by (simp add: splice_def)

lemma slice_0 [simp, buf_simps]: "slice buf off 0 = []"
  by (simp add: slice_def)

lemma mem_write_ok [simp]:
  "off + length src \<le> length buf \<Longrightarrow> mem_write buf off src = Inr (splice buf off src)"
  by (simp add: mem_write_def)

lemma mem_read_ok [simp]: "off + n \<le> length buf \<Longrightarrow> mem_read buf off n = Inr (slice buf off n)"
  by (simp add: mem_read_def)

section \<open>Bitmaps of unsigned longs\<close>

text \<open>\<open>BITS_TO_LONGS\<close>, \<open>set_bit\<close> and \<open>test_bit\<close> on an array of 64-bit words.\<close>

definition BITS_TO_LONGS :: "nat \<Rightarrow> nat" where
  "BITS_TO_LONGS n = (n + 63) div 64"

definition set_bit_in :: "nat \<Rightarrow> u64 list \<Rightarrow> u64 list kres" where
  "set_bit_in nr ws =
     kguard OutOfBounds (nr div 64 < length ws)
       (Inr (ws[nr div 64 := (ws ! (nr div 64)) OR push_bit (nr mod 64) 1]))"

definition test_bit_in :: "nat \<Rightarrow> u64 list \<Rightarrow> bool" where
  "test_bit_in nr ws \<longleftrightarrow> nr div 64 < length ws \<and> bit (ws ! (nr div 64)) (nr mod 64)"

lemma BITS_TO_LONGS_bound: "nr < n \<Longrightarrow> nr div 64 < BITS_TO_LONGS n"
proof -
  assume "nr < n"
  then have "(nr + 64) div 64 \<le> (n + 63) div 64"
    by (intro div_le_mono) simp
  then show ?thesis by (simp add: BITS_TO_LONGS_def)
qed

lemma div_mod_64_eq: "a div 64 = b div 64 \<Longrightarrow> a mod 64 = b mod 64 \<Longrightarrow> a = (b::nat)"
  by (metis div_mult_mod_eq)

lemma bit_or_exp: "bit ((w::u64) OR 2 ^ k) j \<longleftrightarrow> bit w j \<or> (j = k \<and> k < 64)"
  by (auto simp: bit_simps)

lemma test_set_bit_in:
  assumes "set_bit_in nr ws = Inr ws'"
  shows "test_bit_in k ws' \<longleftrightarrow> k = nr \<or> test_bit_in k ws"
proof -
  from assms have lt: "nr div 64 < length ws"
    and ws': "ws' = ws[nr div 64 := (ws ! (nr div 64)) OR push_bit (nr mod 64) 1]"
    by (auto simp: set_bit_in_def kguard_def split: if_splits)
  show ?thesis
  proof (cases "k div 64 = nr div 64")
    case True
    then show ?thesis
      using lt by (auto simp: ws' test_bit_in_def bit_or_exp intro: div_mod_64_eq)
  next
    case False
    then show ?thesis
      using lt by (auto simp: ws' test_bit_in_def nth_list_update)
  qed
qed

lemma set_bit_in_total:
  "length ws = BITS_TO_LONGS n \<Longrightarrow> nr < n \<Longrightarrow> \<exists>ws'. set_bit_in nr ws = Inr ws' \<and> length ws' = length ws"
  using BITS_TO_LONGS_bound by (auto simp: set_bit_in_def)

section \<open>Ioctl numbers\<close>

text \<open>The layout of an ioctl command word: direction, size, type and number.\<close>

definition IOC :: "u32 \<Rightarrow> u32 \<Rightarrow> u32 \<Rightarrow> u32 \<Rightarrow> u32" where
  "IOC dir ty nr sz = push_bit 30 dir OR push_bit 16 sz OR push_bit 8 ty OR nr"

definition IOC_TYPE :: "u32 \<Rightarrow> u32" where
  "IOC_TYPE cmd = drop_bit 8 cmd AND 255"

definition IOC_NR :: "u32 \<Rightarrow> u32" where
  "IOC_NR cmd = cmd AND 255"

abbreviation "IO ty nr \<equiv> IOC 0 ty nr 0"
abbreviation "IOW ty nr sz \<equiv> IOC 1 ty nr sz"
abbreviation "IOR ty nr sz \<equiv> IOC 2 ty nr sz"

section \<open>Decimal text\<close>

text \<open>The conversions \<open>%u\<close> and \<open>%d\<close>, and the value of a string of digits.\<close>

definition digit :: "nat \<Rightarrow> char" where
  "digit d = char_of (48 + d)"

definition undigit :: "char \<Rightarrow> nat" where
  "undigit c = of_char c - 48"

fun dec :: "nat \<Rightarrow> string" where
  "dec n = (if n < 10 then [digit n] else dec (n div 10) @ [digit (n mod 10)])"

definition dec_int :: "int \<Rightarrow> string" where
  "dec_int i = (if i < 0 then CHR ''-'' # dec (nat (- i)) else dec (nat i))"

definition undec :: "string \<Rightarrow> nat" where
  "undec cs = foldl (\<lambda>a c. a * 10 + undigit c) 0 cs"

declare dec.simps [simp del]

lemma undigit_digit [simp]: "d < 10 \<Longrightarrow> undigit (digit d) = d"
  by (simp add: undigit_def digit_def)

lemma undec_dec [simp]: "undec (dec n) = n"
proof (induction n rule: dec.induct)
  case (1 n)
  show ?case
  proof (cases "n < 10")
    case True
    then show ?thesis by (subst dec.simps) (simp add: undec_def)
  next
    case False
    with 1 have "undec (dec (n div 10)) = n div 10" by simp
    with False show ?thesis by (subst dec.simps) (simp add: undec_def)
  qed
qed

lemma dec_digits: "c \<in> set (dec n) \<Longrightarrow> 48 \<le> (of_char c :: nat) \<and> (of_char c :: nat) < 58"
proof (induction n rule: dec.induct)
  case (1 n)
  have d: "d < 10 \<Longrightarrow> 48 \<le> (of_char (digit d) :: nat) \<and> (of_char (digit d) :: nat) < 58" for d
    by (simp add: digit_def)
  from 1 d [of n] d [of "n mod 10"] show ?case
    by (subst (asm) (2) dec.simps) (auto split: if_splits)
qed

section \<open>Interfaces shared by the components\<close>

text \<open>A device that handles a sequence of calls, each of which keeps its invariant.\<close>

locale call_machine =
  fixes step :: "'e \<Rightarrow> 's \<Rightarrow> 's"
    and inv :: "'s \<Rightarrow> bool"
  assumes inv_step: "inv s \<Longrightarrow> inv (step e s)"
begin

lemma inv_run: "inv s \<Longrightarrow> inv (fold step es s)"
  by (induction es arbitrary: s) (auto intro: inv_step)

end

text \<open>
  A map that is filled on demand: \<open>get\<close> returns what is stored under a key and creates
  an entry when there is none (or reports that it could not).  Entries are never shared
  between keys and never replaced.
\<close>

locale demand_map =
  fixes inv :: "'s \<Rightarrow> bool"
    and view :: "'s \<Rightarrow> 'k \<Rightarrow> 'v option"
    and in_range :: "'s \<Rightarrow> 'k \<Rightarrow> bool"
    and env_ok :: "'a \<Rightarrow> 's \<Rightarrow> bool"
    and get :: "'a \<Rightarrow> 'k \<Rightarrow> 's \<Rightarrow> ('v option \<times> 's) kres"
  assumes get_ok: "inv s \<Longrightarrow> in_range s n \<Longrightarrow> env_ok a s \<Longrightarrow>
      \<exists>r s'. get a n s = Inr (r, s') \<and> inv s' \<and> in_range s' = in_range s \<and>
        view s' = (case r of None \<Rightarrow> view s | Some p \<Rightarrow> (view s)(n \<mapsto> p)) \<and>
        (view s n \<noteq> None \<longrightarrow> r = None \<or> r = view s n)"
    and view_inj: "inv s \<Longrightarrow> in_range s n \<Longrightarrow> in_range s k \<Longrightarrow>
        view s n = Some p \<Longrightarrow> view s k = Some p \<Longrightarrow> n = k"
begin

lemma getD:
  assumes "inv s" and "in_range s n" and "env_ok a s" and "get a n s = Inr (Some p, s')"
  shows "inv s'" and "in_range s' = in_range s" and "view s' = (view s)(n \<mapsto> p)"
  using get_ok [OF assms(1-3)] assms(4) by auto

text \<open>A second request for the same key returns the same entry, if it returns one.\<close>

lemma get_again:
  assumes "inv s" and "in_range s n" and "env_ok a s" and "get a n s = Inr (Some p, s')"
    and "env_ok b s'" and "get b n s' = Inr (Some q, s'')"
  shows "q = p"
  using get_ok [of s' n b] getD [OF assms(1-4)] assms(2,5,6) by auto

text \<open>Different keys get different entries.\<close>

lemma get_other:
  assumes "inv s" and "in_range s n" and "env_ok a s" and "get a n s = Inr (Some p, s')"
    and "in_range s k" and "env_ok b s'" and "get b k s' = Inr (Some q, s'')" and "n \<noteq> k"
  shows "p \<noteq> q"
proof -
  note d = getD [OF assms(1-4)]
  from assms(5) d(2) have k: "in_range s' k" by simp
  note e = getD [OF d(1) k assms(6,7)]
  have "in_range s'' k" "in_range s'' n" using e(2) d(2) assms(2,5) by simp_all
  moreover have "view s'' k = Some q" using e(3) by simp
  moreover have "view s'' n = Some p" using e(3) d(3) assms(8) by simp
  ultimately show ?thesis using view_inj [OF e(1)] assms(8) by blast
qed

end

section \<open>Lists\<close>

lemma count_Some_list_update:
  "i < length xs \<Longrightarrow> xs ! i = None \<Longrightarrow>
     length (filter (\<lambda>x. x \<noteq> None) (xs[i := Some y])) =
     Suc (length (filter (\<lambda>x. x \<noteq> None) xs))"
  by (induction xs arbitrary: i) (auto split: nat.splits)

lemma concat_update_perm:
  "i < length xss \<Longrightarrow> set (concat (xss[i := y # xss ! i])) = insert y (set (concat xss))"
  by (induction xss arbitrary: i) (auto split: nat.splits)

lemma distinct_concat_update:
  "i < length xss \<Longrightarrow> distinct (concat xss) \<Longrightarrow> y \<notin> set (concat xss) \<Longrightarrow>
     distinct (concat (xss[i := y # xss ! i]))"
proof (induction xss arbitrary: i)
  case (Cons xs xss)
  then show ?case
  proof (cases i)
    case (Suc j)
    with Cons.prems have j: "j < length xss" by simp
    with Cons Suc show ?thesis using concat_update_perm [OF j, of y] by auto
  qed auto
qed simp

lemma sum_list_concat_update:
  "i < length xss \<Longrightarrow>
     sum_list (map f (concat (xss[i := y # xss ! i]))) = (f y :: nat) + sum_list (map f (concat xss))"
  by (induction xss arbitrary: i) (auto split: nat.splits)

end
