(* ===== verification/Cp_Pool.thy ===== *)
theory Cp_Pool
  imports Kernel_Prelude
begin

text \<open>
  The canonical page pool of \<^verbatim>\<open>src/src/cp_pool.c\<close>: three 64-bit atomic counters
  around the kernel's page allocator.  What \<open>alloc_page\<close> returns is an argument.
  \<open>page_refs\<close> is the ledger of references that the module holds on each page: one from
  \<open>alloc_page\<close>, one from every \<open>get_page\<close>, given back by \<open>__free_page\<close>.
\<close>

section \<open>State and operations\<close>

type_synonym page_ptr = nat

record cp_pool =
  cp_allocated :: u64
  cp_total_allocs :: u64
  cp_total_frees :: u64
  page_refs :: "page_ptr \<Rightarrow> nat"

text \<open>The kernel log lines of the cache module that report a condition.\<close>

datatype kmsg =
    Pool_still_allocated u64
  | Pool_stats u64 u64 u64
  | Lp_refcount_zero

definition cp_pool_init :: "cp_pool \<Rightarrow> ret \<times> cp_pool" where
  "cp_pool_init s = (None, s\<lparr>cp_allocated := 0, cp_total_allocs := 0, cp_total_frees := 0\<rparr>)"

definition cp_pool_exit :: "cp_pool \<Rightarrow> kmsg list" where
  "cp_pool_exit s =
     (let allocated = cp_allocated s; total_allocs = cp_total_allocs s;
          total_frees = cp_total_frees s
      in (if allocated > 0 then [Pool_still_allocated allocated] else []) @
         [Pool_stats total_allocs total_frees allocated])"

definition cp_pool_alloc :: "page_ptr option \<Rightarrow> cp_pool \<Rightarrow> page_ptr option \<times> cp_pool" where
  "cp_pool_alloc page s =
     (case page of
        None \<Rightarrow> (None, s)
      | Some pg \<Rightarrow> (Some pg, s\<lparr>cp_allocated := cp_allocated s + 1,
                              cp_total_allocs := cp_total_allocs s + 1,
                              page_refs := (page_refs s)(pg := 1)\<rparr>))"

definition cp_pool_free :: "page_ptr option \<Rightarrow> cp_pool \<Rightarrow> cp_pool" where
  "cp_pool_free page s =
     (case page of
        None \<Rightarrow> s
      | Some pg \<Rightarrow> s\<lparr>cp_allocated := cp_allocated s - 1,
                    cp_total_frees := cp_total_frees s + 1,
                    page_refs := (page_refs s)(pg := page_refs s pg - 1)\<rparr>)"

text \<open>A null output pointer asks for nothing: the flags say which outputs were requested.\<close>

definition cp_pool_stats :: "bool \<Rightarrow> bool \<Rightarrow> bool \<Rightarrow> cp_pool \<Rightarrow> u64 option \<times> u64 option \<times> u64 option" where
  "cp_pool_stats want_allocated want_allocs want_frees s =
     (if want_allocated then Some (cp_allocated s) else None,
      if want_allocs then Some (cp_total_allocs s) else None,
      if want_frees then Some (cp_total_frees s) else None)"

text \<open>\<open>get_page\<close>: one more reference on a page.\<close>

definition get_page :: "page_ptr \<Rightarrow> cp_pool \<Rightarrow> cp_pool" where
  "get_page pg s = s\<lparr>page_refs := (page_refs s)(pg := Suc (page_refs s pg))\<rparr>"

text \<open>
  The bookkeeping of \<open>vma_ctx_destroy\<close> for one page: the counters move as in
  \<open>cp_pool_free\<close>, the page itself is left alone.
\<close>

definition cp_untrack :: "cp_pool \<Rightarrow> cp_pool" where
  "cp_untrack s = s\<lparr>cp_allocated := cp_allocated s - 1, cp_total_frees := cp_total_frees s + 1\<rparr>"

section \<open>Counters\<close>

text \<open>The conservation law of the three counters, modulo \<open>2 ^ 64\<close>.\<close>

definition pool_balanced :: "cp_pool \<Rightarrow> bool" where
  "pool_balanced s \<longleftrightarrow> cp_allocated s = cp_total_allocs s - cp_total_frees s"

lemma pool_balanced_init: "pool_balanced (snd (cp_pool_init s))"
  by (simp add: pool_balanced_def cp_pool_init_def)

lemma pool_balanced_alloc: "pool_balanced s \<Longrightarrow> pool_balanced (snd (cp_pool_alloc pg s))"
  by (simp add: pool_balanced_def cp_pool_alloc_def split: option.split)

lemma pool_balanced_free: "pool_balanced s \<Longrightarrow> pool_balanced (cp_pool_free pg s)"
  by (simp add: pool_balanced_def cp_pool_free_def split: option.split)

lemma pool_balanced_get_page [simp]: "pool_balanced (get_page pg s) = pool_balanced s"
  by (simp add: pool_balanced_def get_page_def)

lemma pool_balanced_untrack: "pool_balanced s \<Longrightarrow> pool_balanced (cp_untrack s)"
  by (simp add: pool_balanced_def cp_untrack_def)

lemma get_page_counters [simp]:
  "cp_allocated (get_page pg s) = cp_allocated s"
  "cp_total_allocs (get_page pg s) = cp_total_allocs s"
  "cp_total_frees (get_page pg s) = cp_total_frees s"
  by (simp_all add: get_page_def)

lemma cp_untrack_simps [simp]:
  "cp_allocated (cp_untrack s) = cp_allocated s - 1"
  "cp_total_allocs (cp_untrack s) = cp_total_allocs s"
  "cp_total_frees (cp_untrack s) = cp_total_frees s + 1"
  "page_refs (cp_untrack s) = page_refs s"
  by (simp_all add: cp_untrack_def)

text \<open>A history of pool calls: what the allocator answered, what was given back.\<close>

datatype pool_call = Palloc "page_ptr option" | Pfree "page_ptr option"

fun pool_step :: "pool_call \<Rightarrow> cp_pool \<Rightarrow> cp_pool" where
  "pool_step (Palloc pg) s = snd (cp_pool_alloc pg s)"
| "pool_step (Pfree pg) s = cp_pool_free pg s"

definition n_allocs :: "pool_call list \<Rightarrow> nat" where
  "n_allocs es = length (filter (\<lambda>e. \<exists>pg. e = Palloc (Some pg)) es)"

definition n_frees :: "pool_call list \<Rightarrow> nat" where
  "n_frees es = length (filter (\<lambda>e. \<exists>pg. e = Pfree (Some pg)) es)"

interpretation pool_calls: call_machine pool_step pool_balanced
proof
  fix s e
  assume "pool_balanced s"
  then show "pool_balanced (pool_step e s)"
    by (cases e) (simp_all add: pool_balanced_alloc pool_balanced_free)
qed

lemma pool_step_counters:
  "cp_total_allocs (fold pool_step es s) = cp_total_allocs s + of_nat (n_allocs es)
   \<and> cp_total_frees (fold pool_step es s) = cp_total_frees s + of_nat (n_frees es)"
proof (induction es arbitrary: s)
  case (Cons e es)
  then show ?case
    by (cases e rule: pool_call.exhaust)
      (auto simp: n_allocs_def n_frees_def cp_pool_alloc_def cp_pool_free_def split: option.splits)
qed (simp add: n_allocs_def n_frees_def)

end
