(* ===== verification/Lp_State.thy ===== *)
theory Lp_State
  imports Cp_Pool
begin

text \<open>
  Logical page states (\<^verbatim>\<open>src/src/lp_state.c\<close>, \<^verbatim>\<open>src/src/lp_state.h\<close>): the VMA context, its
  hash table from logical page numbers to \<open>lp_state\<close> objects, and the operations on both.

  Objects live in explicit heaps, so that freeing an object makes every later access
  through an old pointer a \<open>UseAfterFree\<close> fault.  The two critical sections of
  \<open>lp_get_or_create\<close> are definitions of their own (\<open>lp_find_ref\<close> and \<open>lp_insert\<close>):
  the sequential function composes them, and the theory of concurrent callers interleaves
  them.  Arguments stand for the kernel: \<open>hash_64\<close>, and what each allocation returned.
\<close>

section \<open>Data\<close>

type_synonym lp_ptr = nat
type_synonym ctx_ptr = nat
type_synonym hash64 = "u64 \<Rightarrow> u32 \<Rightarrow> u32"

definition LP_CP_MAX :: "'a::len word" where
  "LP_CP_MAX = 1024"

definition LP_HASH_BITS :: u32 where
  "LP_HASH_BITS = 10"

definition LP_HASH_SIZE :: nat where
  "LP_HASH_SIZE = 1024"

record lp_state =
  lp_lpn :: u64
  lp_cp_per_lp :: u32
  lp_cp :: "page_ptr option list"
  lp_dirty_bitmap :: "u64 list"
  lp_refcount :: u32

record vma_ctx =
  ctx_cp_size :: u64
  ctx_lp_size :: u64
  ctx_n_lpn :: u64
  ctx_cp_per_lp :: u32
  ctx_lp_hash :: "lp_ptr list list"
  ctx_lp_hash_bits :: u32
  ctx_total_faults :: u64
  ctx_total_mkwrite :: u64
  ctx_total_lp_created :: u64

text \<open>The memory of the cache module: both slab heaps, the page pool, the kernel log.\<close>

record kmem =
  lps :: "lp_ptr \<rightharpoonup> lp_state"
  ctxs :: "ctx_ptr \<rightharpoonup> vma_ctx"
  pool :: cp_pool
  klog :: "kmsg list"

text \<open>What the three allocations of \<open>lp_get_or_create\<close> returned.\<close>

record lp_mem =
  lm_state :: "lp_ptr option"
  lm_cp :: bool
  lm_bitmap :: bool

section \<open>Operations\<close>

definition vma_ctx_create ::
  "ctx_ptr option \<Rightarrow> bool \<Rightarrow> u64 \<Rightarrow> u64 \<Rightarrow> u64 \<Rightarrow> kmem \<Rightarrow> ctx_ptr option \<times> kmem" where
  "vma_ctx_create ctx_mem hash_mem cp_size lp_size n_lpn m =
     (if cp_size = 0 \<or> lp_size = 0 \<or> n_lpn = 0 then (None, m)
      else if lp_size mod cp_size \<noteq> 0 then (None, m)
      else let cp_per_lp = (ucast (lp_size div cp_size) :: u32) in
        if cp_per_lp > LP_CP_MAX then (None, m)
        else case ctx_mem of
            None \<Rightarrow> (None, m)
          | Some c \<Rightarrow>
              if \<not> hash_mem then (None, m\<lparr>ctxs := (ctxs m)(c := None)\<rparr>)
              else (Some c, m\<lparr>ctxs := (ctxs m)(c \<mapsto>
                \<lparr>ctx_cp_size = cp_size, ctx_lp_size = lp_size, ctx_n_lpn = n_lpn,
                 ctx_cp_per_lp = cp_per_lp, ctx_lp_hash = replicate LP_HASH_SIZE [],
                 ctx_lp_hash_bits = LP_HASH_BITS, ctx_total_faults = 0,
                 ctx_total_mkwrite = 0, ctx_total_lp_created = 0\<rparr>)\<rparr>))"

definition lp_hash_fn :: "hash64 \<Rightarrow> u64 \<Rightarrow> u32 \<Rightarrow> u32" where
  "lp_hash_fn hash_64 n bits = hash_64 n bits"

text \<open>The bucket \<open>&ctx->lp_hash[hash]\<close>: its index, checked against the array.\<close>

definition lp_bucket :: "hash64 \<Rightarrow> vma_ctx \<Rightarrow> u64 \<Rightarrow> nat kres" where
  "lp_bucket hash_64 ctx n =
     (let i = unat (lp_hash_fn hash_64 n (ctx_lp_hash_bits ctx))
      in kguard OutOfBounds (i < length (ctx_lp_hash ctx)) (Inr i))"

fun bucket_find :: "(lp_ptr \<rightharpoonup> lp_state) \<Rightarrow> lp_ptr list \<Rightarrow> u64 \<Rightarrow> lp_ptr option kres" where
  "bucket_find H [] n = Inr None"
| "bucket_find H (p # ps) n =
     kbind (deref H p) (\<lambda>lp. if lp_lpn lp = n then Inr (Some p) else bucket_find H ps n)"

definition lp_ref :: "lp_ptr \<Rightarrow> kmem \<Rightarrow> kmem kres" where
  "lp_ref p m = kbind (deref (lps m) p)
     (\<lambda>lp. Inr (m\<lparr>lps := (lps m)(p \<mapsto> lp\<lparr>lp_refcount := lp_refcount lp + 1\<rparr>)\<rparr>))"

text \<open>Search the bucket under the hash lock; a hit takes a reference.\<close>

definition lp_find_ref :: "hash64 \<Rightarrow> ctx_ptr \<Rightarrow> u64 \<Rightarrow> kmem \<Rightarrow> (lp_ptr option \<times> kmem) kres" where
  "lp_find_ref hash_64 c n m =
     kbind (deref (ctxs m) c) (\<lambda>ctx.
     kbind (lp_bucket hash_64 ctx n) (\<lambda>i.
     kbind (bucket_find (lps m) (ctx_lp_hash ctx ! i) n) (\<lambda>r.
       case r of None \<Rightarrow> Inr (None, m)
       | Some p \<Rightarrow> kbind (lp_ref p m) (\<lambda>m'. Inr (Some p, m')))))"

definition lp_alloc :: "lp_mem \<Rightarrow> vma_ctx \<Rightarrow> u64 \<Rightarrow> kmem \<Rightarrow> lp_ptr option \<times> kmem" where
  "lp_alloc am ctx n m =
     (case lm_state am of
        None \<Rightarrow> (None, m)
      | Some p \<Rightarrow>
          if \<not> lm_cp am then (None, m\<lparr>lps := (lps m)(p := None)\<rparr>)
          else if \<not> lm_bitmap am then (None, m\<lparr>lps := (lps m)(p := None)\<rparr>)
          else (Some p, m\<lparr>lps := (lps m)(p \<mapsto>
            \<lparr>lp_lpn = n, lp_cp_per_lp = ctx_cp_per_lp ctx,
             lp_cp = replicate (unat (ctx_cp_per_lp ctx)) None,
             lp_dirty_bitmap = replicate (BITS_TO_LONGS (unat (ctx_cp_per_lp ctx))) 0,
             lp_refcount = 1\<rparr>)\<rparr>))"

text \<open>Search again under the lock; insert the new state unless another caller was faster.\<close>

definition lp_insert :: "hash64 \<Rightarrow> ctx_ptr \<Rightarrow> u64 \<Rightarrow> lp_ptr \<Rightarrow> kmem \<Rightarrow> (lp_ptr \<times> kmem) kres" where
  "lp_insert hash_64 c n p m =
     kbind (deref (ctxs m) c) (\<lambda>ctx.
     kbind (lp_bucket hash_64 ctx n) (\<lambda>i.
     kbind (bucket_find (lps m) (ctx_lp_hash ctx ! i) n) (\<lambda>r.
       case r of
         Some q \<Rightarrow> kbind (lp_ref q m) (\<lambda>m'. Inr (q, m'\<lparr>lps := (lps m')(p := None)\<rparr>))
       | None \<Rightarrow> Inr (p, m\<lparr>ctxs := (ctxs m)(c \<mapsto>
           ctx\<lparr>ctx_lp_hash := (ctx_lp_hash ctx)[i := p # ctx_lp_hash ctx ! i],
               ctx_total_lp_created := ctx_total_lp_created ctx + 1\<rparr>)\<rparr>))))"

definition lp_get_or_create ::
  "hash64 \<Rightarrow> lp_mem \<Rightarrow> ctx_ptr option \<Rightarrow> u64 \<Rightarrow> kmem \<Rightarrow> (lp_ptr option \<times> kmem) kres" where
  "lp_get_or_create hash_64 am ctxp n m =
     (case ctxp of
        None \<Rightarrow> Inr (None, m)
      | Some c \<Rightarrow>
          kbind (deref (ctxs m) c) (\<lambda>ctx.
            if n \<ge> ctx_n_lpn ctx then Inr (None, m)
            else kbind (lp_find_ref hash_64 c n m) (\<lambda>(found, m1).
              case found of
                Some p \<Rightarrow> Inr (Some p, m1)
              | None \<Rightarrow>
                  (case lp_alloc am ctx n m1 of
                     (None, m2) \<Rightarrow> Inr (None, m2)
                   | (Some p, m2) \<Rightarrow>
                       kbind (lp_insert hash_64 c n p m2) (\<lambda>(q, m3). Inr (Some q, m3))))))"

definition lp_lookup :: "hash64 \<Rightarrow> ctx_ptr option \<Rightarrow> u64 \<Rightarrow> kmem \<Rightarrow> (lp_ptr option \<times> kmem) kres" where
  "lp_lookup hash_64 ctxp n m =
     (case ctxp of
        None \<Rightarrow> Inr (None, m)
      | Some c \<Rightarrow>
          kbind (deref (ctxs m) c) (\<lambda>ctx.
            if n \<ge> ctx_n_lpn ctx then Inr (None, m) else lp_find_ref hash_64 c n m))"

text \<open>Drop a reference; reaching zero is reported and nothing is freed.\<close>

definition lp_put :: "lp_ptr option \<Rightarrow> kmem \<Rightarrow> kmem kres" where
  "lp_put lpp m =
     (case lpp of
        None \<Rightarrow> Inr m
      | Some p \<Rightarrow>
          kbind (deref (lps m) p) (\<lambda>lp.
            let rc = lp_refcount lp - 1;
                m' = m\<lparr>lps := (lps m)(p \<mapsto> lp\<lparr>lp_refcount := rc\<rparr>)\<rparr>
            in Inr (if rc = 0 then m'\<lparr>klog := klog m' @ [Lp_refcount_zero]\<rparr> else m')))"

text \<open>The loops of \<open>vma_ctx_destroy\<close>: over the pages of a state, a bucket, the table.\<close>

definition untrack_pages :: "u32 \<Rightarrow> page_ptr option list \<Rightarrow> cp_pool \<Rightarrow> cp_pool kres" where
  "untrack_pages k cps s =
     kguard OutOfBounds (unat k \<le> length cps)
       (Inr (fold (\<lambda>slot s. case slot of None \<Rightarrow> s | Some _ \<Rightarrow> cp_untrack s)
               (take (unat k) cps) s))"

fun destroy_bucket :: "u32 \<Rightarrow> lp_ptr list \<Rightarrow> kmem \<Rightarrow> kmem kres" where
  "destroy_bucket k [] m = Inr m"
| "destroy_bucket k (p # ps) m =
     kbind (deref (lps m) p) (\<lambda>lp.
     kbind (untrack_pages k (lp_cp lp) (pool m)) (\<lambda>s.
       destroy_bucket k ps (m\<lparr>pool := s, lps := (lps m)(p := None)\<rparr>)))"

fun destroy_table :: "u32 \<Rightarrow> lp_ptr list list \<Rightarrow> kmem \<Rightarrow> kmem kres" where
  "destroy_table k [] m = Inr m"
| "destroy_table k (b # bs) m = kbind (destroy_bucket k b m) (destroy_table k bs)"

definition vma_ctx_destroy :: "ctx_ptr option \<Rightarrow> kmem \<Rightarrow> kmem kres" where
  "vma_ctx_destroy ctxp m =
     (case ctxp of
        None \<Rightarrow> Inr m
      | Some c \<Rightarrow>
          kbind (deref (ctxs m) c) (\<lambda>ctx.
          kguard OutOfBounds (LP_HASH_SIZE \<le> length (ctx_lp_hash ctx))
            (kbind (destroy_table (ctx_cp_per_lp ctx) (take LP_HASH_SIZE (ctx_lp_hash ctx)) m)
              (\<lambda>m'. Inr (m'\<lparr>ctxs := (ctxs m')(c := None)\<rparr>)))))"

end
