(* ===== verification/Lp_Invariant.thy ===== *)
theory Lp_Invariant
  imports Lp_State
begin

text \<open>
  The well-formedness invariant of the LPN hash table and of the module's memory, the
  abstraction of a context to a finite map from logical page numbers to \<open>lp_state\<close>
  pointers, and how every operation of \<open>lp_state.c\<close> acts on both.
\<close>

section \<open>Invariant and abstraction\<close>

definition hash_ok :: "hash64 \<Rightarrow> bool" where
  "hash_ok h \<longleftrightarrow> (\<forall>n. unat (h n LP_HASH_BITS) < LP_HASH_SIZE)"

definition ctx_table :: "vma_ctx \<Rightarrow> lp_ptr list" where
  "ctx_table x = concat (ctx_lp_hash x)"

definition lp_ok :: "vma_ctx \<Rightarrow> lp_state \<Rightarrow> bool" where
  "lp_ok x lp \<longleftrightarrow>
     lp_lpn lp < ctx_n_lpn x \<and> lp_cp_per_lp lp = ctx_cp_per_lp x \<and>
     length (lp_cp lp) = unat (ctx_cp_per_lp x) \<and>
     length (lp_dirty_bitmap lp) = BITS_TO_LONGS (unat (ctx_cp_per_lp x))"

text \<open>The geometry of a context: no truncation, and the divisor of the fault handler is positive.\<close>

definition ctx_geom :: "vma_ctx \<Rightarrow> bool" where
  "ctx_geom x \<longleftrightarrow>
     0 < unat (ctx_cp_size x) \<and> 0 < unat (ctx_n_lpn x) \<and>
     0 < unat (ctx_cp_per_lp x) \<and> unat (ctx_cp_per_lp x) \<le> 1024 \<and>
     unat (ctx_lp_size x) = unat (ctx_cp_size x) * unat (ctx_cp_per_lp x)"

definition table_ok :: "hash64 \<Rightarrow> (lp_ptr \<rightharpoonup> lp_state) \<Rightarrow> vma_ctx \<Rightarrow> bool" where
  "table_ok h H x \<longleftrightarrow>
     length (ctx_lp_hash x) = LP_HASH_SIZE \<and> ctx_lp_hash_bits x = LP_HASH_BITS \<and>
     distinct (ctx_table x) \<and>
     (\<forall>i < LP_HASH_SIZE. \<forall>p \<in> set (ctx_lp_hash x ! i).
        \<exists>lp. H p = Some lp \<and> lp_ok x lp \<and> unat (h (lp_lpn lp) LP_HASH_BITS) = i) \<and>
     (\<forall>p q lp lq. p \<in> set (ctx_table x) \<longrightarrow> q \<in> set (ctx_table x) \<longrightarrow>
        H p = Some lp \<longrightarrow> H q = Some lq \<longrightarrow> lp_lpn lp = lp_lpn lq \<longrightarrow> p = q)"

definition kmem_ok :: "hash64 \<Rightarrow> kmem \<Rightarrow> bool" where
  "kmem_ok h m \<longleftrightarrow>
     hash_ok h \<and> finite (dom (ctxs m)) \<and>
     (\<forall>c x. ctxs m c = Some x \<longrightarrow> ctx_geom x \<and> table_ok h (lps m) x) \<and>
     (\<forall>c d x y. ctxs m c = Some x \<longrightarrow> ctxs m d = Some y \<longrightarrow> c \<noteq> d \<longrightarrow>
        set (ctx_table x) \<inter> set (ctx_table y) = {})"

text \<open>The abstract map of a context, independent of the hash function.\<close>

definition lp_view :: "(lp_ptr \<rightharpoonup> lp_state) \<Rightarrow> vma_ctx \<Rightarrow> u64 \<Rightarrow> lp_ptr option" where
  "lp_view H x n =
     find (\<lambda>p. case H p of None \<Rightarrow> False | Some lp \<Rightarrow> lp_lpn lp = n) (ctx_table x)"

text \<open>Pointwise update of an object through its pointer.\<close>

definition upd_lp :: "lp_ptr \<Rightarrow> (lp_state \<Rightarrow> lp_state) \<Rightarrow> kmem \<Rightarrow> kmem" where
  "upd_lp p f m = m\<lparr>lps := (lps m)(p := map_option f (lps m p))\<rparr>"

definition shape_pres :: "(lp_state \<Rightarrow> lp_state) \<Rightarrow> bool" where
  "shape_pres f \<longleftrightarrow> (\<forall>lp. lp_lpn (f lp) = lp_lpn lp \<and> lp_cp_per_lp (f lp) = lp_cp_per_lp lp \<and>
     length (lp_cp (f lp)) = length (lp_cp lp) \<and>
     length (lp_dirty_bitmap (f lp)) = length (lp_dirty_bitmap lp))"

abbreviation inc_ref :: "lp_state \<Rightarrow> lp_state" where
  "inc_ref lp \<equiv> lp\<lparr>lp_refcount := lp_refcount lp + 1\<rparr>"

abbreviation dec_ref :: "lp_state \<Rightarrow> lp_state" where
  "dec_ref lp \<equiv> lp\<lparr>lp_refcount := lp_refcount lp - 1\<rparr>"

section \<open>The abstract map\<close>

lemma ctx_table_mem: "p \<in> set (ctx_table x) \<longleftrightarrow> (\<exists>i < length (ctx_lp_hash x). p \<in> set (ctx_lp_hash x ! i))"
  by (auto simp: ctx_table_def in_set_conv_nth) (metis nth_mem)+

lemma table_okD:
  assumes "table_ok h H x" and "p \<in> set (ctx_table x)"
  shows "\<exists>lp. H p = Some lp \<and> lp_ok x lp \<and> p \<in> set (ctx_lp_hash x ! unat (h (lp_lpn lp) LP_HASH_BITS))"
  using assms by (auto simp: table_ok_def ctx_table_mem) metis

lemma table_ok_inj:
  "table_ok h H x \<Longrightarrow> p \<in> set (ctx_table x) \<Longrightarrow> q \<in> set (ctx_table x) \<Longrightarrow>
     H p = Some lp \<Longrightarrow> H q = Some lq \<Longrightarrow> lp_lpn lp = lp_lpn lq \<Longrightarrow> p = q"
  unfolding table_ok_def by metis

lemma lp_view_SomeD:
  assumes "lp_view H x n = Some p"
  shows "p \<in> set (ctx_table x) \<and> (\<exists>lp. H p = Some lp \<and> lp_lpn lp = n)"
  using assms by (auto simp: lp_view_def find_Some_iff split: option.splits)

lemma lp_view_NoneD:
  "lp_view H x n = None \<Longrightarrow> p \<in> set (ctx_table x) \<Longrightarrow> H p = Some lp \<Longrightarrow> lp_lpn lp \<noteq> n"
  by (auto simp: lp_view_def find_None_iff)

lemma lp_view_eq_Some:
  assumes "table_ok h H x"
  shows "lp_view H x n = Some p \<longleftrightarrow> p \<in> set (ctx_table x) \<and> (\<exists>lp. H p = Some lp \<and> lp_lpn lp = n)"
proof
  assume r: "p \<in> set (ctx_table x) \<and> (\<exists>lp. H p = Some lp \<and> lp_lpn lp = n)"
  then obtain q where q: "lp_view H x n = Some q"
    using lp_view_NoneD by (cases "lp_view H x n") blast+
  with r show "lp_view H x n = Some p"
    using table_ok_inj [OF assms] by (metis lp_view_SomeD)
qed (rule lp_view_SomeD)

lemma bucket_find_total:
  assumes "\<forall>p \<in> set b. H p \<noteq> None"
  shows "bucket_find H b n = Inr (find (\<lambda>p. case H p of None \<Rightarrow> False | Some lp \<Rightarrow> lp_lpn lp = n) b)"
  using assms by (induction b) (auto simp: deref_def split: option.splits)

lemma lp_bucket_ok:
  assumes "hash_ok h" and "table_ok h H x"
  shows "lp_bucket h x n = Inr (unat (h n LP_HASH_BITS))"
  using assms by (simp add: lp_bucket_def lp_hash_fn_def hash_ok_def table_ok_def)

text \<open>Searching one bucket finds what a search of the whole table finds.\<close>

lemma bucket_find_view:
  assumes h: "hash_ok h" and t: "table_ok h H x"
  shows "bucket_find H (ctx_lp_hash x ! unat (h n LP_HASH_BITS)) n = Inr (lp_view H x n)"
proof -
  let ?i = "unat (h n LP_HASH_BITS)"
  let ?P = "\<lambda>p. case H p of None \<Rightarrow> False | Some lp \<Rightarrow> lp_lpn lp = n"
  let ?b = "ctx_lp_hash x ! ?i"
  from h t have len: "?i < length (ctx_lp_hash x)"
    by (simp add: hash_ok_def table_ok_def)
  have sub: "p \<in> set ?b \<Longrightarrow> p \<in> set (ctx_table x)" for p
    using len by (auto simp: ctx_table_mem)
  have live: "\<forall>p \<in> set ?b. H p \<noteq> None"
    using table_okD [OF t] sub by blast
  have "find ?P ?b = lp_view H x n"
  proof (cases "find ?P ?b")
    case (Some p)
    then have "p \<in> set ?b" and "?P p" by (auto simp: find_Some_iff)
    then have "lp_view H x n = Some p"
      using sub by (auto simp: lp_view_eq_Some [OF t] split: option.splits)
    with Some show ?thesis by simp
  next
    case None
    have "lp_view H x n \<noteq> Some p" for p
    proof
      assume "lp_view H x n = Some p"
      then obtain lp where lp: "p \<in> set (ctx_table x)" "H p = Some lp" "lp_lpn lp = n"
        by (metis lp_view_SomeD)
      with table_okD [OF t lp(1)] have "p \<in> set ?b" by auto
      with None lp show False by (auto simp: find_None_iff)
    qed
    with None show ?thesis by (cases "lp_view H x n") auto
  qed
  with bucket_find_total [OF live] show ?thesis by simp
qed

section \<open>Preservation under elementary updates\<close>

lemma kmem_okD:
  assumes "kmem_ok h m"
  shows "hash_ok h" and "finite (dom (ctxs m))"
    and "ctxs m c = Some x \<Longrightarrow> ctx_geom x" and "ctxs m c = Some x \<Longrightarrow> table_ok h (lps m) x"
    and "ctxs m c = Some x \<Longrightarrow> ctxs m d = Some y \<Longrightarrow> c \<noteq> d \<Longrightarrow>
           set (ctx_table x) \<inter> set (ctx_table y) = {}"
  using assms unfolding kmem_ok_def by blast+

lemma table_ok_heap_cong:
  assumes "table_ok h H x" and "\<And>p. p \<in> set (ctx_table x) \<Longrightarrow> H' p = H p"
  shows "table_ok h H' x"
proof -
  have "H' p = H p" if "p \<in> set (ctx_lp_hash x ! i)" "i < LP_HASH_SIZE" for p i
    using that assms by (auto simp: ctx_table_mem table_ok_def)
  with assms show ?thesis unfolding table_ok_def by (metis (no_types, lifting))
qed

lemma table_okI:
  assumes "length (ctx_lp_hash x) = LP_HASH_SIZE" and "ctx_lp_hash_bits x = LP_HASH_BITS"
    and "distinct (ctx_table x)"
    and "\<And>i p. i < LP_HASH_SIZE \<Longrightarrow> p \<in> set (ctx_lp_hash x ! i) \<Longrightarrow>
           \<exists>lp. H p = Some lp \<and> lp_ok x lp \<and> unat (h (lp_lpn lp) LP_HASH_BITS) = i"
    and "\<And>p q lp lq. p \<in> set (ctx_table x) \<Longrightarrow> q \<in> set (ctx_table x) \<Longrightarrow>
           H p = Some lp \<Longrightarrow> H q = Some lq \<Longrightarrow> lp_lpn lp = lp_lpn lq \<Longrightarrow> p = q"
  shows "table_ok h H x"
  unfolding table_ok_def using assms by blast

lemma table_ok_bucket:
  "table_ok h H x \<Longrightarrow> i < LP_HASH_SIZE \<Longrightarrow> p \<in> set (ctx_lp_hash x ! i) \<Longrightarrow>
     \<exists>lp. H p = Some lp \<and> lp_ok x lp \<and> unat (h (lp_lpn lp) LP_HASH_BITS) = i"
  unfolding table_ok_def by blast

lemma table_ok_shape:
  "table_ok h H x \<Longrightarrow> length (ctx_lp_hash x) = LP_HASH_SIZE"
  "table_ok h H x \<Longrightarrow> ctx_lp_hash_bits x = LP_HASH_BITS"
  "table_ok h H x \<Longrightarrow> distinct (ctx_table x)"
  by (simp_all add: table_ok_def)

lemma table_ok_upd:
  assumes t: "table_ok h H x" and f: "shape_pres f"
  shows "table_ok h (H(p := map_option f (H p))) x"
proof (rule table_okI)
  have ok: "lp_ok x (f lp) = lp_ok x lp" and n: "lp_lpn (f lp) = lp_lpn lp" for lp
    using f by (auto simp: lp_ok_def shape_pres_def)
  fix i q
  assume "i < LP_HASH_SIZE" and "q \<in> set (ctx_lp_hash x ! i)"
  from table_ok_bucket [OF t this] obtain lp
    where "H q = Some lp" "lp_ok x lp" "unat (h (lp_lpn lp) LP_HASH_BITS) = i" by blast
  then show "\<exists>lp. (H(p := map_option f (H p))) q = Some lp \<and> lp_ok x lp \<and>
      unat (h (lp_lpn lp) LP_HASH_BITS) = i"
    by (cases "q = p") (simp_all add: ok n)
next
  have n: "lp_lpn (f lp) = lp_lpn lp" for lp
    using f by (simp add: shape_pres_def)
  fix q r lq lr
  assume q: "q \<in> set (ctx_table x)" and r: "r \<in> set (ctx_table x)"
    and "(H(p := map_option f (H p))) q = Some lq" and "(H(p := map_option f (H p))) r = Some lr"
    and "lp_lpn lq = lp_lpn lr"
  then obtain lq' lr' where "H q = Some lq'" "H r = Some lr'" "lp_lpn lq' = lp_lpn lr'"
    by (auto simp: n split: if_splits)
  then show "q = r" by (rule table_ok_inj [OF t q r])
qed (simp_all add: table_ok_shape [OF t])

lemma lp_view_upd:
  "shape_pres f \<Longrightarrow> lp_view (H(p := map_option f (H p))) x n = lp_view H x n"
  unfolding lp_view_def
  by (rule find_cong) (auto simp: shape_pres_def split: option.splits)

lemma upd_lp_simps [simp]:
  "ctxs (upd_lp p f m) = ctxs m" "pool (upd_lp p f m) = pool m" "klog (upd_lp p f m) = klog m"
  "lps (upd_lp p f m) = (lps m)(p := map_option f (lps m p))"
  by (simp_all add: upd_lp_def)

lemma kmem_ok_upd_lp: "kmem_ok h m \<Longrightarrow> shape_pres f \<Longrightarrow> kmem_ok h (upd_lp p f m)"
  unfolding kmem_ok_def by (auto intro: table_ok_upd)

lemma kmem_ok_cong:
  "lps m' = lps m \<Longrightarrow> ctxs m' = ctxs m \<Longrightarrow> kmem_ok h m' = kmem_ok h m"
  by (simp add: kmem_ok_def)

lemma shape_pres_refcount [simp]: "shape_pres (\<lambda>lp. lp\<lparr>lp_refcount := g lp\<rparr>)"
  by (simp add: shape_pres_def)

section \<open>The operations on the abstract map\<close>

lemma lp_ref_eq: "lps m p = Some lp \<Longrightarrow> lp_ref p m = Inr (upd_lp p inc_ref m)"
  by (simp add: lp_ref_def upd_lp_def)

lemma lp_find_ref_eq:
  assumes ok: "kmem_ok h m" and c: "ctxs m c = Some x"
  shows "lp_find_ref h c n m =
           Inr (case lp_view (lps m) x n of None \<Rightarrow> (None, m)
                | Some p \<Rightarrow> (Some p, upd_lp p inc_ref m))"
proof -
  note t = kmem_okD(4) [OF ok c] and h = kmem_okD(1) [OF ok]
  show ?thesis
  proof (cases "lp_view (lps m) x n")
    case None
    then show ?thesis
      using c by (simp add: lp_find_ref_def lp_bucket_ok [OF h t] bucket_find_view [OF h t])
  next
    case (Some p)
    then obtain lp where "lps m p = Some lp" by (metis lp_view_SomeD)
    with Some show ?thesis
      using c by (simp add: lp_find_ref_def lp_bucket_ok [OF h t] bucket_find_view [OF h t] lp_ref_eq)
  qed
qed

lemma lp_lookup_eq:
  assumes ok: "kmem_ok h m" and c: "ctxs m c = Some x" and n: "n < ctx_n_lpn x"
  shows "lp_lookup h (Some c) n m =
           Inr (case lp_view (lps m) x n of None \<Rightarrow> (None, m)
                | Some p \<Rightarrow> (Some p, upd_lp p inc_ref m))"
proof -
  from n have "\<not> ctx_n_lpn x \<le> n" by simp
  with c show ?thesis by (simp add: lp_lookup_def lp_find_ref_eq [OF ok c])
qed

lemma lp_put_eq:
  "lps m p = Some lp \<Longrightarrow> lp_put (Some p) m =
     Inr (let m' = upd_lp p dec_ref m
          in if lp_refcount lp = 1 then m'\<lparr>klog := klog m @ [Lp_refcount_zero]\<rparr> else m')"
  by (simp add: lp_put_def Let_def upd_lp_def)

section \<open>Creating and inserting states\<close>

definition unlinked :: "kmem \<Rightarrow> lp_ptr \<Rightarrow> bool" where
  "unlinked m p \<longleftrightarrow> (\<forall>c x. ctxs m c = Some x \<longrightarrow> p \<notin> set (ctx_table x))"

definition lp_new :: "vma_ctx \<Rightarrow> u64 \<Rightarrow> lp_state" where
  "lp_new x n =
     \<lparr>lp_lpn = n, lp_cp_per_lp = ctx_cp_per_lp x,
      lp_cp = replicate (unat (ctx_cp_per_lp x)) None,
      lp_dirty_bitmap = replicate (BITS_TO_LONGS (unat (ctx_cp_per_lp x))) 0,
      lp_refcount = 1\<rparr>"

definition link_ctx :: "hash64 \<Rightarrow> lp_ptr \<Rightarrow> u64 \<Rightarrow> vma_ctx \<Rightarrow> vma_ctx" where
  "link_ctx h p n x =
     (let i = unat (h n LP_HASH_BITS)
      in x\<lparr>ctx_lp_hash := (ctx_lp_hash x)[i := p # ctx_lp_hash x ! i],
          ctx_total_lp_created := ctx_total_lp_created x + 1\<rparr>)"

text \<open>The allocator's promises: a new pointer refers to no live object.\<close>

definition lp_fresh :: "lp_mem \<Rightarrow> kmem \<Rightarrow> bool" where
  "lp_fresh am m \<longleftrightarrow> (\<forall>p. lm_state am = Some p \<longrightarrow> lps m p = None)"

definition lp_mem_ok :: "lp_mem \<Rightarrow> bool" where
  "lp_mem_ok am \<longleftrightarrow> lm_state am \<noteq> None \<and> lm_cp am \<and> lm_bitmap am"

lemma dead_unlinked: "kmem_ok h m \<Longrightarrow> lps m p = None \<Longrightarrow> unlinked m p"
  unfolding unlinked_def by (metis kmem_okD(4) option.distinct(1) table_okD)

lemma kmem_ok_heap_update:
  assumes ok: "kmem_ok h m" and "unlinked m p"
  shows "kmem_ok h (m\<lparr>lps := (lps m)(p := v)\<rparr>)"
proof -
  have "table_ok h ((lps m)(p := v)) x" if "ctxs m c = Some x" for c x
    using that assms
    by (auto intro!: table_ok_heap_cong [OF kmem_okD(4) [OF ok that]] simp: unlinked_def)
  with ok show ?thesis by (simp add: kmem_ok_def)
qed

lemma lp_view_heap_update:
  "p \<notin> set (ctx_table x) \<Longrightarrow> lp_view (H(p := v)) x n = lp_view H x n"
  unfolding lp_view_def by (rule find_cong) auto

lemma lp_alloc_eq:
  "lp_alloc am x n m =
     (if lp_mem_ok am then (lm_state am, m\<lparr>lps := (lps m)(the (lm_state am) \<mapsto> lp_new x n)\<rparr>)
      else (None, case lm_state am of None \<Rightarrow> m | Some p \<Rightarrow> m\<lparr>lps := (lps m)(p := None)\<rparr>))"
  by (auto simp: lp_alloc_def lp_mem_ok_def lp_new_def split: option.splits)

lemma lp_alloc_fail: "lp_fresh am m \<Longrightarrow> \<not> lp_mem_ok am \<Longrightarrow> lp_alloc am x n m = (None, m)"
  by (auto simp: lp_alloc_eq lp_fresh_def fun_upd_idem split: option.splits)

lemma lp_ok_new: "n < ctx_n_lpn x \<Longrightarrow> lp_ok x (lp_new x n)"
  by (simp add: lp_ok_def lp_new_def)

lemma link_ctx_simps [simp]:
  "ctx_n_lpn (link_ctx h p n x) = ctx_n_lpn x"
  "ctx_cp_per_lp (link_ctx h p n x) = ctx_cp_per_lp x"
  "ctx_geom (link_ctx h p n x) = ctx_geom x"
  "lp_ok (link_ctx h p n x) = lp_ok x"
  by (simp_all add: link_ctx_def Let_def ctx_geom_def lp_ok_def fun_eq_iff)

lemma set_table_link:
  "hash_ok h \<Longrightarrow> length (ctx_lp_hash x) = LP_HASH_SIZE \<Longrightarrow>
     set (ctx_table (link_ctx h p n x)) = insert p (set (ctx_table x))"
  using concat_update_perm [of "unat (h n LP_HASH_BITS)" "ctx_lp_hash x" p]
  by (simp add: ctx_table_def link_ctx_def Let_def hash_ok_def)

lemma table_ok_link:
  assumes h: "hash_ok h" and t: "table_ok h H x" and p: "H p = Some lp"
    and lp: "lp_ok x lp" "lp_lpn lp = n" and new: "lp_view H x n = None"
    and np: "p \<notin> set (ctx_table x)"
  shows "table_ok h H (link_ctx h p n x)"
proof (rule table_okI)
  let ?i = "unat (h n LP_HASH_BITS)"
  note len = table_ok_shape(1) [OF t]
  have i: "?i < LP_HASH_SIZE" using h by (simp add: hash_ok_def)
  show "distinct (ctx_table (link_ctx h p n x))"
    using distinct_concat_update [of ?i "ctx_lp_hash x" p] table_ok_shape(3) [OF t] np i
    by (simp add: ctx_table_def link_ctx_def Let_def len)
  fix j q
  assume "j < LP_HASH_SIZE" and "q \<in> set (ctx_lp_hash (link_ctx h p n x) ! j)"
  then show "\<exists>lq. H q = Some lq \<and> lp_ok (link_ctx h p n x) lq \<and>
      unat (h (lp_lpn lq) LP_HASH_BITS) = j"
    using table_ok_bucket [OF t] p lp i len
    by (cases "j = ?i") (auto simp: link_ctx_def Let_def lp_ok_def)
next
  note len = table_ok_shape(1) [OF t]
  fix q r lq lr
  assume "q \<in> set (ctx_table (link_ctx h p n x))" "r \<in> set (ctx_table (link_ctx h p n x))"
    and "H q = Some lq" "H r = Some lr" "lp_lpn lq = lp_lpn lr"
  then show "q = r"
    using lp_view_NoneD [OF new] table_ok_inj [OF t] p lp
    by (metis insertE option.inject set_table_link [OF h len])
qed (simp_all add: link_ctx_def Let_def table_ok_shape [OF t])

lemma lp_view_link:
  assumes h: "hash_ok h" and t: "table_ok h H x" and p: "H p = Some lp"
    and lp: "lp_ok x lp" "lp_lpn lp = n" and new: "lp_view H x n = None"
    and np: "p \<notin> set (ctx_table x)"
  shows "lp_view H (link_ctx h p n x) = (lp_view H x)(n \<mapsto> p)"
proof
  fix k
  note t' = table_ok_link [OF assms]
  note st = set_table_link [OF h table_ok_shape(1) [OF t], of p n]
  show "lp_view H (link_ctx h p n x) k = ((lp_view H x)(n \<mapsto> p)) k"
  proof (cases "lp_view H x k")
    case (Some q)
    then have "lp_view H (link_ctx h p n x) k = Some q"
      using lp_view_eq_Some [OF t] lp_view_eq_Some [OF t'] st by auto
    with Some new show ?thesis by (cases "k = n") auto
  next
    case None
    show ?thesis
    proof (cases "k = n")
      case True
      then have "lp_view H (link_ctx h p n x) k = Some p"
        using lp_view_eq_Some [OF t'] st p lp by auto
      with True show ?thesis by simp
    next
      case False
      have "lp_view H (link_ctx h p n x) k \<noteq> Some q" for q
        using lp_view_eq_Some [OF t', of k q] st p lp False lp_view_NoneD [OF None] by auto
      with False None show ?thesis by (cases "lp_view H (link_ctx h p n x) k") auto
    qed
  qed
qed

lemma lp_insert_eq:
  assumes ok: "kmem_ok h m" and c: "ctxs m c = Some x"
  shows "lp_insert h c n p m =
           Inr (case lp_view (lps m) x n of
                  Some q \<Rightarrow> (q, (upd_lp q inc_ref m)\<lparr>lps := (lps (upd_lp q inc_ref m))(p := None)\<rparr>)
                | None \<Rightarrow> (p, m\<lparr>ctxs := (ctxs m)(c \<mapsto> link_ctx h p n x)\<rparr>))"
proof -
  note t = kmem_okD(4) [OF ok c] and h = kmem_okD(1) [OF ok]
  show ?thesis
  proof (cases "lp_view (lps m) x n")
    case None
    then show ?thesis
      using c by (simp add: lp_insert_def lp_bucket_ok [OF h t] bucket_find_view [OF h t]
          link_ctx_def Let_def)
  next
    case (Some q)
    then obtain lq where "lps m q = Some lq" by (metis lp_view_SomeD)
    with Some show ?thesis
      using c by (simp add: lp_insert_def lp_bucket_ok [OF h t] bucket_find_view [OF h t] lp_ref_eq)
  qed
qed

lemma kmem_ok_link:
  assumes ok: "kmem_ok h m" and c: "ctxs m c = Some x" and p: "lps m p = Some lp"
    and lp: "lp_ok x lp" "lp_lpn lp = n" and new: "lp_view (lps m) x n = None"
    and np: "unlinked m p"
  shows "kmem_ok h (m\<lparr>ctxs := (ctxs m)(c \<mapsto> link_ctx h p n x)\<rparr>)"
proof -
  note h = kmem_okD(1) [OF ok] and t = kmem_okD(4) [OF ok c]
  from np c have npx: "p \<notin> set (ctx_table x)" by (auto simp: unlinked_def)
  note st = set_table_link [OF h table_ok_shape(1) [OF t], of p n]
  have "set (ctx_table (link_ctx h p n x)) \<inter> set (ctx_table y) = {}"
    if "ctxs m d = Some y" "d \<noteq> c" for d y
    using that np kmem_okD(5) [OF ok c that(1)] by (auto simp: st unlinked_def)
  then show ?thesis
    using ok table_ok_link [OF h t p lp new npx] kmem_okD(3) [OF ok c]
    unfolding kmem_ok_def by (auto simp: Int_commute c)
qed

text \<open>The three outcomes of \<open>lp_get_or_create\<close>: hit, out of memory, new state.\<close>

definition goc_result :: "hash64 \<Rightarrow> lp_mem \<Rightarrow> ctx_ptr \<Rightarrow> vma_ctx \<Rightarrow> u64 \<Rightarrow> kmem \<Rightarrow> lp_ptr option \<times> kmem" where
  "goc_result h am c x n m =
     (case lp_view (lps m) x n of
        Some p \<Rightarrow> (Some p, upd_lp p inc_ref m)
      | None \<Rightarrow>
          if lp_mem_ok am
          then (lm_state am, m\<lparr>lps := (lps m)(the (lm_state am) \<mapsto> lp_new x n),
                  ctxs := (ctxs m)(c \<mapsto> link_ctx h (the (lm_state am)) n x)\<rparr>)
          else (None, m))"

lemma lp_get_or_create_eq:
  assumes ok: "kmem_ok h m" and c: "ctxs m c = Some x" and n: "n < ctx_n_lpn x"
    and fr: "lp_fresh am m"
  shows "lp_get_or_create h am (Some c) n m = Inr (goc_result h am c x n m)"
proof -
  from n have nn: "\<not> ctx_n_lpn x \<le> n" by simp
  show ?thesis
  proof (cases "lp_view (lps m) x n")
    case (Some p)
    with c nn show ?thesis
      by (simp add: lp_get_or_create_def lp_find_ref_eq [OF ok c] goc_result_def)
  next
    case None
    show ?thesis
    proof (cases "lp_mem_ok am")
      case False
      with c nn None fr show ?thesis
        by (simp add: lp_get_or_create_def lp_find_ref_eq [OF ok c] lp_alloc_fail goc_result_def)
    next
      case True
      then obtain p where p: "lm_state am = Some p" by (auto simp: lp_mem_ok_def)
      with fr have "lps m p = None" by (simp add: lp_fresh_def)
      with ok have u: "unlinked m p" by (rule dead_unlinked)
      let ?m = "m\<lparr>lps := (lps m)(p \<mapsto> lp_new x n)\<rparr>"
      have "kmem_ok h ?m" using ok u by (rule kmem_ok_heap_update)
      moreover have "ctxs ?m c = Some x" using c by simp
      ultimately have "lp_insert h c n p ?m =
          Inr (case lp_view (lps ?m) x n of
                  Some q \<Rightarrow> (q, (upd_lp q inc_ref ?m)\<lparr>lps := (lps (upd_lp q inc_ref ?m))(p := None)\<rparr>)
                | None \<Rightarrow> (p, ?m\<lparr>ctxs := (ctxs ?m)(c \<mapsto> link_ctx h p n x)\<rparr>))"
        by (rule lp_insert_eq)
      moreover have "lp_view (lps ?m) x n = None"
        using None u c by (simp add: lp_view_heap_update unlinked_def)
      ultimately show ?thesis
        using c nn None True p
        by (simp add: lp_get_or_create_def lp_find_ref_eq [OF ok c] lp_alloc_eq goc_result_def)
    qed
  qed
qed

lemma kmem_ok_goc:
  assumes ok: "kmem_ok h m" and c: "ctxs m c = Some x" and n: "n < ctx_n_lpn x"
    and fr: "lp_fresh am m"
  shows "kmem_ok h (snd (goc_result h am c x n m))"
proof (cases "lp_view (lps m) x n")
  case (Some p)
  with ok show ?thesis by (simp add: goc_result_def kmem_ok_upd_lp)
next
  case None
  show ?thesis
  proof (cases "lp_mem_ok am")
    case True
    then obtain p where p: "lm_state am = Some p" by (auto simp: lp_mem_ok_def)
    with fr have "lps m p = None" by (simp add: lp_fresh_def)
    with ok have u: "unlinked m p" by (rule dead_unlinked)
    let ?m = "m\<lparr>lps := (lps m)(p \<mapsto> lp_new x n)\<rparr>"
    have "kmem_ok h (?m\<lparr>ctxs := (ctxs ?m)(c \<mapsto> link_ctx h p n x)\<rparr>)"
    proof (rule kmem_ok_link)
      show "kmem_ok h ?m" using ok u by (rule kmem_ok_heap_update)
      show "lp_view (lps ?m) x n = None"
        using None u c by (simp add: lp_view_heap_update unlinked_def)
    qed (use c u n in \<open>auto simp: lp_ok_new unlinked_def\<close>, simp add: lp_new_def)
    with None True p show ?thesis by (simp add: goc_result_def)
  qed (use None ok in \<open>simp add: goc_result_def\<close>)
qed

end
