(* ===== verification/Lp_Lifecycle.thy ===== *)
theory Lp_Lifecycle
  imports Lp_Invariant
begin

text \<open>
  The LPN index as an interface (a locale that the page-fault code relies on, interpreted
  on the hash table), and the life cycle of a context: what creation establishes, what
  destruction releases, and how many canonical pages are resident in between.
\<close>

section \<open>The index interface\<close>

locale lpn_index = demand_map inv view in_range env_ok get
  for inv :: "'s \<Rightarrow> bool"
    and view :: "'s \<Rightarrow> u64 \<Rightarrow> lp_ptr option"
    and in_range :: "'s \<Rightarrow> u64 \<Rightarrow> bool"
    and env_ok :: "'a \<Rightarrow> 's \<Rightarrow> bool"
    and get :: "'a \<Rightarrow> u64 \<Rightarrow> 's \<Rightarrow> (lp_ptr option \<times> 's) kres" +
  fixes lookup :: "u64 \<Rightarrow> 's \<Rightarrow> (lp_ptr option \<times> 's) kres"
  assumes hit: "inv s \<Longrightarrow> in_range s n \<Longrightarrow> env_ok a s \<Longrightarrow> view s n = Some p \<Longrightarrow>
      \<exists>s'. get a n s = Inr (Some p, s')"
    and lookup_ok: "inv s \<Longrightarrow> in_range s n \<Longrightarrow>
      \<exists>s'. lookup n s = Inr (view s n, s') \<and> inv s' \<and> in_range s' = in_range s \<and> view s' = view s"
begin

text \<open>An existing entry is found whatever the allocator says.\<close>

lemma get_hit_again:
  assumes "inv s" and "in_range s n" and "env_ok a s" and "get a n s = Inr (Some p, s')"
    and "env_ok b s'"
  shows "\<exists>s''. get b n s' = Inr (Some p, s'')"
  using hit [of s' n b p] getD [OF assms(1-4)] assms(2,5) by auto

lemma get_then_lookup:
  assumes "inv s" and "in_range s n" and "env_ok a s" and "get a n s = Inr (Some p, s')"
  shows "\<exists>s''. lookup n s' = Inr (Some p, s'')"
  using lookup_ok [of s' n] getD [OF assms] assms(2) by auto

end

section \<open>The hash table implements the index\<close>

definition ctx_view :: "kmem \<Rightarrow> ctx_ptr \<Rightarrow> u64 \<Rightarrow> lp_ptr option" where
  "ctx_view m c n = (case ctxs m c of None \<Rightarrow> None | Some x \<Rightarrow> lp_view (lps m) x n)"

definition lpn_in_range :: "kmem \<Rightarrow> ctx_ptr \<Rightarrow> u64 \<Rightarrow> bool" where
  "lpn_in_range m c n = (case ctxs m c of None \<Rightarrow> False | Some x \<Rightarrow> n < ctx_n_lpn x)"

lemma ctx_view_upd_lp [simp]: "shape_pres f \<Longrightarrow> ctx_view (upd_lp p f m) c = ctx_view m c"
  by (auto simp: ctx_view_def lp_view_upd fun_eq_iff split: option.split)

lemma lpn_in_range_upd_lp [simp]: "lpn_in_range (upd_lp p f m) c = lpn_in_range m c"
  by (simp add: lpn_in_range_def fun_eq_iff split: option.split)

lemma ctx_view_inj:
  "ctx_view m c n = Some p \<Longrightarrow> ctx_view m c k = Some p \<Longrightarrow> n = k"
  by (auto simp: ctx_view_def split: option.splits dest!: lp_view_SomeD)

lemma goc_view:
  assumes ok: "kmem_ok h m" and c: "ctxs m c = Some x" and n: "n < ctx_n_lpn x"
    and fr: "lp_fresh am m" and r: "goc_result h am c x n m = (r, m')"
  shows "ctx_view m' c = (case r of None \<Rightarrow> ctx_view m c | Some p \<Rightarrow> (ctx_view m c)(n \<mapsto> p))"
    and "lpn_in_range m' d = lpn_in_range m d"
    and "ctx_view m c n \<noteq> None \<Longrightarrow> r = ctx_view m c n"
    and "d \<noteq> c \<Longrightarrow> ctx_view m' d = ctx_view m d"
proof -
  note h = kmem_okD(1) [OF ok] and t = kmem_okD(4) [OF ok c]
  consider (hit) p where "lp_view (lps m) x n = Some p"
    | (new) p where "lp_view (lps m) x n = None" "lp_mem_ok am" "lm_state am = Some p"
    | (nomem) "lp_view (lps m) x n = None" "\<not> lp_mem_ok am"
    by (cases "lp_view (lps m) x n"; cases "lm_state am") (auto simp: lp_mem_ok_def)
  then have "ctx_view m' c = (case r of None \<Rightarrow> ctx_view m c | Some p \<Rightarrow> (ctx_view m c)(n \<mapsto> p))
    \<and> lpn_in_range m' d = lpn_in_range m d \<and> (ctx_view m c n \<noteq> None \<longrightarrow> r = ctx_view m c n)
    \<and> (d \<noteq> c \<longrightarrow> ctx_view m' d = ctx_view m d)"
  proof cases
    case hit
    then have "ctx_view m c n = Some p" using c by (simp add: ctx_view_def)
    moreover from hit r have "r = Some p" and "m' = upd_lp p inc_ref m"
      by (auto simp: goc_result_def)
    ultimately show ?thesis by (auto simp: fun_upd_idem)
  next
    case new
    let ?H = "(lps m)(p \<mapsto> lp_new x n)"
    from new fr have dead: "lps m p = None" by (simp add: lp_fresh_def)
    with ok have u: "unlinked m p" by (rule dead_unlinked)
    with c have np: "p \<notin> set (ctx_table x)" by (auto simp: unlinked_def)
    from new r have rm: "r = Some p"
      "m' = m\<lparr>lps := ?H, ctxs := (ctxs m)(c \<mapsto> link_ctx h p n x)\<rparr>"
      by (auto simp: goc_result_def)
    have t': "table_ok h ?H x"
      using t np by (auto intro: table_ok_heap_cong)
    have "lp_view ?H (link_ctx h p n x) = (lp_view ?H x)(n \<mapsto> p)"
      by (rule lp_view_link [OF h t' _ lp_ok_new [OF n] _ _ np])
        (use new np in \<open>simp_all add: lp_view_heap_update lp_new_def\<close>)
    moreover have "lp_view ?H y = lp_view (lps m) y" if "ctxs m e = Some y" for e y
      using u that by (auto simp: lp_view_heap_update unlinked_def fun_eq_iff)
    ultimately show ?thesis
      using rm c new(1)
      by (auto simp: ctx_view_def lpn_in_range_def fun_eq_iff split: option.splits)
  next
    case nomem
    with r c show ?thesis by (auto simp: goc_result_def ctx_view_def)
  qed
  then show "ctx_view m' c = (case r of None \<Rightarrow> ctx_view m c | Some p \<Rightarrow> (ctx_view m c)(n \<mapsto> p))"
    and "lpn_in_range m' d = lpn_in_range m d"
    and "ctx_view m c n \<noteq> None \<Longrightarrow> r = ctx_view m c n"
    and "d \<noteq> c \<Longrightarrow> ctx_view m' d = ctx_view m d"
    by blast+
qed

interpretation lp_idx: lpn_index "kmem_ok h" "\<lambda>m. ctx_view m c" "\<lambda>m. lpn_in_range m c" lp_fresh
  "\<lambda>am. lp_get_or_create h am (Some c)" "lp_lookup h (Some c)" for h c
proof
  fix s n and a :: lp_mem
  assume ok: "kmem_ok h s" and rg: "lpn_in_range s c n" and fr: "lp_fresh a s"
  from rg obtain x where c: "ctxs s c = Some x" and n: "n < ctx_n_lpn x"
    by (auto simp: lpn_in_range_def split: option.splits)
  obtain r s' where g: "goc_result h a c x n s = (r, s')" by (rule prod.exhaust)
  from kmem_ok_goc [OF ok c n fr] g have "kmem_ok h s'" by simp
  moreover have "lpn_in_range s' c = lpn_in_range s c" by (rule goc_view(2) [OF ok c n fr g])
  ultimately show "\<exists>r s'. lp_get_or_create h a (Some c) n s = Inr (r, s') \<and> kmem_ok h s' \<and>
      lpn_in_range s' c = lpn_in_range s c \<and>
      ctx_view s' c = (case r of None \<Rightarrow> ctx_view s c | Some p \<Rightarrow> (ctx_view s c)(n \<mapsto> p)) \<and>
      (ctx_view s c n \<noteq> None \<longrightarrow> r = None \<or> r = ctx_view s c n)"
    using lp_get_or_create_eq [OF ok c n fr] g goc_view(1,3) [OF ok c n fr g] by simp
next
  fix s n p and a :: lp_mem
  assume ok: "kmem_ok h s" and rg: "lpn_in_range s c n" and fr: "lp_fresh a s"
    and v: "ctx_view s c n = Some p"
  from rg obtain x where c: "ctxs s c = Some x" and n: "n < ctx_n_lpn x"
    by (auto simp: lpn_in_range_def split: option.splits)
  with v show "\<exists>s'. lp_get_or_create h a (Some c) n s = Inr (Some p, s')"
    by (simp add: lp_get_or_create_eq [OF ok c n fr] goc_result_def ctx_view_def)
next
  fix s n
  assume ok: "kmem_ok h s" and rg: "lpn_in_range s c n"
  from rg obtain x where c: "ctxs s c = Some x" and n: "n < ctx_n_lpn x"
    by (auto simp: lpn_in_range_def split: option.splits)
  show "\<exists>s'. lp_lookup h (Some c) n s = Inr (ctx_view s c n, s') \<and> kmem_ok h s' \<and>
      lpn_in_range s' c = lpn_in_range s c \<and> ctx_view s' c = ctx_view s c"
  proof (cases "lp_view (lps s) x n")
    case None
    with c ok show ?thesis by (simp add: lp_lookup_eq [OF ok c n] ctx_view_def)
  next
    case (Some p)
    then have "ctx_view s c n = Some p" using c by (simp add: ctx_view_def)
    with Some ok show ?thesis by (simp add: lp_lookup_eq [OF ok c n] kmem_ok_upd_lp)
  qed
qed (rule ctx_view_inj)

section \<open>Resident pages\<close>

definition resident_lp :: "lp_state \<Rightarrow> nat" where
  "resident_lp lp = length (filter (\<lambda>slot. slot \<noteq> None) (lp_cp lp))"

definition res_at :: "(lp_ptr \<rightharpoonup> lp_state) \<Rightarrow> lp_ptr \<Rightarrow> nat" where
  "res_at H p = (case H p of None \<Rightarrow> 0 | Some lp \<Rightarrow> resident_lp lp)"

definition resident_ctx :: "(lp_ptr \<rightharpoonup> lp_state) \<Rightarrow> vma_ctx \<Rightarrow> nat" where
  "resident_ctx H x = sum_list (map (res_at H) (ctx_table x))"

definition resident :: "kmem \<Rightarrow> nat" where
  "resident m = (\<Sum>c \<in> dom (ctxs m). resident_ctx (lps m) (the (ctxs m c)))"

text \<open>
  What \<open>cp_allocated\<close> is meant to count: the canonical pages that the live contexts
  hold, modulo the counter's width.
\<close>

definition acct_ok :: "kmem \<Rightarrow> bool" where
  "acct_ok m \<longleftrightarrow> cp_allocated (pool m) = of_nat (resident m) \<and> pool_balanced (pool m)"

lemma res_at_upd:
  "(\<And>lp. resident_lp (f lp) = resident_lp lp) \<Longrightarrow> res_at (H(p := map_option f (H p))) = res_at H"
  by (auto simp: res_at_def fun_eq_iff split: option.split)

lemma resident_upd_lp:
  "(\<And>lp. resident_lp (f lp) = resident_lp lp) \<Longrightarrow> resident (upd_lp p f m) = resident m"
  by (simp add: resident_def resident_ctx_def res_at_upd)

lemma resident_ctx_cong:
  "(\<And>p. p \<in> set (ctx_table x) \<Longrightarrow> res_at H' p = res_at H p) \<Longrightarrow> resident_ctx H' x = resident_ctx H x"
  by (simp add: resident_ctx_def cong: map_cong)

lemma resident_lp_new [simp]: "resident_lp (lp_new x n) = 0"
  by (simp add: resident_lp_def lp_new_def)

lemma resident_ctx_link:
  assumes "hash_ok h" and "length (ctx_lp_hash x) = LP_HASH_SIZE"
  shows "resident_ctx H (link_ctx h p n x) = res_at H p + resident_ctx H x"
  using assms
  by (simp add: resident_ctx_def ctx_table_def link_ctx_def Let_def hash_ok_def sum_list_concat_update)

text \<open>Replacing one context in the sum.\<close>

lemma resident_replace:
  assumes "finite (dom (ctxs m))" and "ctxs m c = Some x"
  shows "resident (m\<lparr>ctxs := (ctxs m)(c \<mapsto> y)\<rparr>) + resident_ctx (lps m) x =
         resident m + resident_ctx (lps m) y"
proof -
  let ?D = "dom (ctxs m) - {c}" and ?r = "\<lambda>d. resident_ctx (lps m) (the (ctxs m d))"
  have "resident m = resident_ctx (lps m) x + sum ?r ?D"
    using assms by (simp add: resident_def sum.remove [of "dom (ctxs m)" c] domI)
  moreover have "resident (m\<lparr>ctxs := (ctxs m)(c \<mapsto> y)\<rparr>) = resident_ctx (lps m) y + sum ?r ?D"
    using assms by (auto simp: resident_def sum.insert_remove intro!: sum.cong)
  ultimately show ?thesis by simp
qed

lemma resident_remove:
  assumes "finite (dom (ctxs m))" and "ctxs m c = Some x"
  shows "resident (m\<lparr>ctxs := (ctxs m)(c := None)\<rparr>) + resident_ctx (lps m) x = resident m"
  using assms
  by (simp add: resident_def sum.remove [of "dom (ctxs m)" c] domI)

lemma resident_heap_cong:
  "(\<And>c x p. ctxs m c = Some x \<Longrightarrow> p \<in> set (ctx_table x) \<Longrightarrow> res_at H p = res_at (lps m) p) \<Longrightarrow>
     resident (m\<lparr>lps := H\<rparr>) = resident m"
  by (auto simp: resident_def intro!: sum.cong resident_ctx_cong)

lemma resident_goc:
  assumes ok: "kmem_ok h m" and c: "ctxs m c = Some x" and n: "n < ctx_n_lpn x"
    and fr: "lp_fresh am m"
  shows "resident (snd (goc_result h am c x n m)) = resident m"
    and "pool (snd (goc_result h am c x n m)) = pool m"
proof -
  show "pool (snd (goc_result h am c x n m)) = pool m"
    by (simp add: goc_result_def split: option.split)
  show "resident (snd (goc_result h am c x n m)) = resident m"
  proof (cases "lp_view (lps m) x n")
    case (Some p)
    then show ?thesis by (simp add: goc_result_def resident_upd_lp resident_lp_def)
  next
    case None
    show ?thesis
    proof (cases "lp_mem_ok am")
      case True
      then obtain p where p: "lm_state am = Some p" by (auto simp: lp_mem_ok_def)
      with fr have "lps m p = None" by (simp add: lp_fresh_def)
      with ok have u: "unlinked m p" by (rule dead_unlinked)
      let ?m = "m\<lparr>lps := (lps m)(p \<mapsto> lp_new x n)\<rparr>"
      have "resident ?m = resident m"
        using u by (intro resident_heap_cong) (auto simp: unlinked_def res_at_def)
      moreover have "resident (?m\<lparr>ctxs := (ctxs ?m)(c \<mapsto> link_ctx h p n x)\<rparr>) = resident ?m"
        using resident_replace [of ?m c x "link_ctx h p n x"] c kmem_okD(2) [OF ok]
          resident_ctx_link [OF kmem_okD(1) [OF ok] table_ok_shape(1) [OF kmem_okD(4) [OF ok c]]]
        by (simp add: res_at_def)
      ultimately show ?thesis using None True p by (simp add: goc_result_def)
    qed (simp add: None goc_result_def)
  qed
qed

text \<open>No call is in flight between two steps: every reference has been given back.\<close>

definition rc_zero :: "kmem \<Rightarrow> bool" where
  "rc_zero m \<longleftrightarrow> (\<forall>p lp. lps m p = Some lp \<longrightarrow> lp_refcount lp = 0)"

section \<open>Creating a context\<close>

lemma vma_ctx_create_ok:
  assumes ok: "kmem_ok h m" and c: "ctxs m c = None"
    and v: "cp_size \<noteq> 0" "lp_size \<noteq> 0" "n_lpn \<noteq> 0" "lp_size mod cp_size = 0"
      "lp_size div cp_size \<le> LP_CP_MAX"
  shows "\<exists>x. vma_ctx_create (Some c) True cp_size lp_size n_lpn m =
           (Some c, m\<lparr>ctxs := (ctxs m)(c \<mapsto> x)\<rparr>) \<and>
           ctx_geom x \<and> ctx_table x = [] \<and> ctx_n_lpn x = n_lpn \<and> ctx_cp_size x = cp_size \<and>
           ctx_lp_size x = lp_size \<and> table_ok h (lps m) x"
proof -
  let ?k = "ucast (lp_size div cp_size) :: u32"
  define x where "x = \<lparr>ctx_cp_size = cp_size, ctx_lp_size = lp_size, ctx_n_lpn = n_lpn,
     ctx_cp_per_lp = ?k, ctx_lp_hash = replicate LP_HASH_SIZE [],
     ctx_lp_hash_bits = LP_HASH_BITS, ctx_total_faults = 0,
     ctx_total_mkwrite = 0, ctx_total_lp_created = 0\<rparr>"
  have q: "unat (lp_size div cp_size) \<le> 1024"
    using v(5) by (simp add: LP_CP_MAX_def word_le_nat_alt)
  then have k: "unat ?k = unat (lp_size div cp_size)"
    by (simp add: unsigned_ucast_eq unsigned_take_bit_eq take_bit_nat_eq_self_iff)
  have kle: "\<not> ?k > LP_CP_MAX"
    using k q by (simp add: LP_CP_MAX_def word_less_nat_alt)
  have "unat lp_size mod unat cp_size = 0"
    using v(4) by (metis unat_0 unat_mod)
  then have lp: "unat lp_size = unat cp_size * unat (lp_size div cp_size)"
    by (simp add: unat_div) (metis mod_0_imp_dvd dvd_mult_div_cancel)
  moreover have "0 < unat lp_size" using v(2) by (simp add: unat_gt_0)
  ultimately have pos: "0 < unat (lp_size div cp_size)" by (metis gr0I mult_0_right less_irrefl)
  have geom: "ctx_geom x"
    using v q pos lp by (simp add: ctx_geom_def x_def k unat_gt_0)
  have tab: "ctx_table x = []" by (simp add: x_def ctx_table_def)
  have "table_ok h (lps m) x"
    by (rule table_okI) (simp_all add: tab, simp_all add: x_def)
  moreover have "vma_ctx_create (Some c) True cp_size lp_size n_lpn m =
      (Some c, m\<lparr>ctxs := (ctxs m)(c \<mapsto> x)\<rparr>)"
    using v kle by (simp add: vma_ctx_create_def x_def)
  ultimately show ?thesis
    using geom tab by (intro exI [of _ x]) (simp add: x_def)
qed

lemma kmem_ok_add_ctx:
  assumes ok: "kmem_ok h m" and "ctxs m c = None" and "ctx_geom x" and "table_ok h (lps m) x"
    and "ctx_table x = []"
  shows "kmem_ok h (m\<lparr>ctxs := (ctxs m)(c \<mapsto> x)\<rparr>)"
    and "resident (m\<lparr>ctxs := (ctxs m)(c \<mapsto> x)\<rparr>) = resident m"
proof -
  show "kmem_ok h (m\<lparr>ctxs := (ctxs m)(c \<mapsto> x)\<rparr>)"
    using assms unfolding kmem_ok_def by auto
  have "c \<notin> dom (ctxs m)" using assms(2) by auto
  then show "resident (m\<lparr>ctxs := (ctxs m)(c \<mapsto> x)\<rparr>) = resident m"
    using kmem_okD(2) [OF ok] assms(5)
    by (auto simp: resident_def resident_ctx_def intro!: sum.cong)
qed

section \<open>Destroying a context\<close>

lemma untrack_funpow:
  "cp_allocated ((cp_untrack ^^ k) s) = cp_allocated s - of_nat k"
  "cp_total_allocs ((cp_untrack ^^ k) s) = cp_total_allocs s"
  "cp_total_frees ((cp_untrack ^^ k) s) = cp_total_frees s + of_nat k"
  "page_refs ((cp_untrack ^^ k) s) = page_refs s"
  by (induction k) (simp_all add: algebra_simps)

lemma untrack_fold:
  "fold (\<lambda>slot s. case slot of None \<Rightarrow> s | Some _ \<Rightarrow> cp_untrack s) cps s =
     (cp_untrack ^^ length (filter (\<lambda>slot. slot \<noteq> None) cps)) s"
  by (induction cps arbitrary: s) (auto simp: funpow_swap1 split: option.split)

lemma untrack_pages_eq:
  "length (lp_cp lp) = unat k \<Longrightarrow>
     untrack_pages k (lp_cp lp) s = Inr ((cp_untrack ^^ resident_lp lp) s)"
  by (simp add: untrack_pages_def untrack_fold resident_lp_def)

lemma untrack_untrack: "(cp_untrack ^^ a) ((cp_untrack ^^ b) s) = (cp_untrack ^^ (b + a)) s"
  by (metis add.commute comp_apply funpow_add)

text \<open>Dropping a list of states: their pages leave the counters, the objects are dead.\<close>

definition wipe :: "lp_ptr list \<Rightarrow> kmem \<Rightarrow> kmem" where
  "wipe ps m = m\<lparr>pool := (cp_untrack ^^ sum_list (map (res_at (lps m)) ps)) (pool m),
                 lps := lps m |` (- set ps)\<rparr>"

definition sized :: "u32 \<Rightarrow> kmem \<Rightarrow> lp_ptr \<Rightarrow> bool" where
  "sized k m p \<longleftrightarrow> (\<exists>lp. lps m p = Some lp \<and> length (lp_cp lp) = unat k)"

lemma wipe_Nil [simp]: "wipe [] m = m"
  by (simp add: wipe_def restrict_map_def)

lemma wipe_append:
  assumes "set ps \<inter> set qs = {}"
  shows "wipe qs (wipe ps m) = wipe (ps @ qs) m"
proof -
  have "map (res_at (lps m |` (- set ps))) qs = map (res_at (lps m)) qs"
    using assms by (auto simp: res_at_def restrict_map_def)
  then show ?thesis
    by (simp add: wipe_def untrack_untrack del: map_eq_conv)
qed

lemma wipe_single:
  "lps m p = Some lp \<Longrightarrow>
     wipe [p] m = m\<lparr>pool := (cp_untrack ^^ resident_lp lp) (pool m), lps := (lps m)(p := None)\<rparr>"
  by (simp add: wipe_def res_at_def restrict_map_def fun_eq_iff fun_upd_def)

lemma sized_wipe: "p \<notin> set ps \<Longrightarrow> sized k (wipe ps m) p = sized k m p"
  by (simp add: sized_def wipe_def)

lemma destroy_bucket_eq:
  "distinct ps \<Longrightarrow> (\<And>p. p \<in> set ps \<Longrightarrow> sized k m p) \<Longrightarrow> destroy_bucket k ps m = Inr (wipe ps m)"
proof (induction ps arbitrary: m)
  case (Cons p ps)
  then obtain lp where lp: "lps m p = Some lp" "length (lp_cp lp) = unat k"
    by (auto simp: sized_def)
  have "sized k (wipe [p] m) q" if "q \<in> set ps" for q
    using Cons.prems that by (subst sized_wipe) auto
  with Cons have "destroy_bucket k ps (wipe [p] m) = Inr (wipe ps (wipe [p] m))"
    by auto
  moreover have "wipe ps (wipe [p] m) = wipe (p # ps) m"
    using Cons.prems(1) by (subst wipe_append) auto
  ultimately show ?case
    using lp by (simp add: untrack_pages_eq wipe_single)
qed simp

lemma destroy_table_eq:
  "distinct (concat bs) \<Longrightarrow> (\<And>p. p \<in> set (concat bs) \<Longrightarrow> sized k m p) \<Longrightarrow>
     destroy_table k bs m = Inr (wipe (concat bs) m)"
proof (induction bs arbitrary: m)
  case (Cons b bs)
  have dis: "distinct b" "distinct (concat bs)" "set b \<inter> set (concat bs) = {}"
    using Cons.prems(1) by auto
  have "sized k (wipe b m) q" if "q \<in> set (concat bs)" for q
    using Cons.prems(2) [of q] that dis(3) by (subst sized_wipe) auto
  with Cons.IH dis(2) have "destroy_table k bs (wipe b m) = Inr (wipe (concat bs) (wipe b m))"
    by blast
  with Cons.prems(2) dis show ?case
    by (simp add: destroy_bucket_eq wipe_append del: set_concat)
qed simp

lemma vma_ctx_destroy_eq:
  assumes ok: "kmem_ok h m" and c: "ctxs m c = Some x"
  shows "vma_ctx_destroy (Some c) m =
     Inr (m\<lparr>pool := (cp_untrack ^^ resident_ctx (lps m) x) (pool m),
           lps := lps m |` (- set (ctx_table x)), ctxs := (ctxs m)(c := None)\<rparr>)"
proof -
  note t = kmem_okD(4) [OF ok c]
  have "sized (ctx_cp_per_lp x) m p" if "p \<in> set (ctx_table x)" for p
    using table_okD [OF t that] by (auto simp: sized_def lp_ok_def)
  then have "destroy_table (ctx_cp_per_lp x) (ctx_lp_hash x) m = Inr (wipe (ctx_table x) m)"
    using table_ok_shape(3) [OF t] unfolding ctx_table_def by (rule destroy_table_eq [rotated])
  then show ?thesis
    using c table_ok_shape(1) [OF t]
    by (simp add: vma_ctx_destroy_def wipe_def resident_ctx_def)
qed

lemma vma_ctx_destroy_inv:
  assumes ok: "kmem_ok h m" and c: "ctxs m c = Some x" and d: "vma_ctx_destroy (Some c) m = Inr m'"
  shows "kmem_ok h m'" and "resident m' + resident_ctx (lps m) x = resident m"
    and "\<And>e. e \<noteq> c \<Longrightarrow> ctx_view m' e = ctx_view m e"
proof -
  let ?H = "lps m |` (- set (ctx_table x))"
  from d vma_ctx_destroy_eq [OF ok c]
  have m': "m' = m\<lparr>pool := (cp_untrack ^^ resident_ctx (lps m) x) (pool m),
                  lps := ?H, ctxs := (ctxs m)(c := None)\<rparr>" by simp
  have same: "?H p = lps m p" if "ctxs m e = Some y" "e \<noteq> c" "p \<in> set (ctx_table y)" for e y p
    using kmem_okD(5) [OF ok c that(1)] that by (auto simp: restrict_map_def)
  have "table_ok h ?H y" if "ctxs m e = Some y" "e \<noteq> c" for e y
    using same [OF that] kmem_okD(4) [OF ok that(1)] by (auto intro: table_ok_heap_cong)
  then show "kmem_ok h m'"
    using ok unfolding m' kmem_ok_def by auto
  have "resident m' = resident (m\<lparr>ctxs := (ctxs m)(c := None)\<rparr>)"
    unfolding m' resident_def
    by (rule sum.cong) (auto intro!: resident_ctx_cong simp: res_at_def same)
  then show "resident m' + resident_ctx (lps m) x = resident m"
    using resident_remove [OF kmem_okD(2) [OF ok] c] by simp
  show "ctx_view m' e = ctx_view m e" if "e \<noteq> c" for e
    using that same by (auto simp: m' ctx_view_def lp_view_def fun_eq_iff
        split: option.splits intro!: find_cong)
qed

lemma acct_ok_destroy:
  assumes ok: "kmem_ok h m" and c: "ctxs m c = Some x" and a: "acct_ok m"
    and d: "vma_ctx_destroy (Some c) m = Inr m'"
  shows "acct_ok m'"
proof -
  have p: "pool m' = (cp_untrack ^^ resident_ctx (lps m) x) (pool m)"
    using d vma_ctx_destroy_eq [OF ok c] by auto
  have "(of_nat (resident m) :: u64) = of_nat (resident m') + of_nat (resident_ctx (lps m) x)"
    by (metis of_nat_add vma_ctx_destroy_inv(2) [OF ok c d])
  with a have "cp_allocated (pool m') = of_nat (resident m')"
    by (simp add: acct_ok_def p untrack_funpow)
  moreover have "pool_balanced (pool m')"
    using a unfolding acct_ok_def p pool_balanced_def untrack_funpow by auto
  ultimately show ?thesis by (simp add: acct_ok_def)
qed

end
