(* ===== verification/Kdb_Vma.thy ===== *)
theory Kdb_Vma
  imports Lp_Lifecycle
begin

text \<open>
  The VM operations of \<^verbatim>\<open>src/src/vma.c\<close>: the page-fault handler, the write notification, and
  the open and close callbacks of a mapping.  \<open>vm_private_data\<close> is an optional context
  pointer.  Both handlers read \<open>ctx->cp_per_lp\<close> in their declarations, before the test
  \<open>if (!ctx)\<close>: a null context is the fault \<open>NullDeref\<close> and that test is never reached
  with a null pointer.
\<close>

section \<open>Operations\<close>

datatype vm_fault_ret = VM_FAULT_LOCKED | VM_FAULT_SIGBUS | VM_FAULT_OOM

record vm_area =
  vm_start :: u64
  vm_end :: u64
  vm_pgoff :: u64
  vm_ops_set :: bool
  vm_private_data :: "ctx_ptr option"

text \<open>Map the page, drop the reference on the logical page, count the fault.\<close>

definition kdb_fault_map ::
  "ctx_ptr \<Rightarrow> lp_ptr \<Rightarrow> page_ptr \<Rightarrow> kmem \<Rightarrow> (vm_fault_ret \<times> page_ptr option \<times> kmem) kres" where
  "kdb_fault_map c p pg m =
     (let m1 = m\<lparr>pool := get_page pg (pool m)\<rparr> in
      kbind (lp_put (Some p) m1) (\<lambda>m2.
      kbind (deref (ctxs m2) c) (\<lambda>ctx.
        Inr (VM_FAULT_LOCKED, Some pg,
             m2\<lparr>ctxs := (ctxs m2)(c \<mapsto> ctx\<lparr>ctx_total_faults := ctx_total_faults ctx + 1\<rparr>)\<rparr>))))"

text \<open>Under the lock of the logical page: find or allocate the canonical page.\<close>

definition kdb_fault_page ::
  "page_ptr option \<Rightarrow> ctx_ptr \<Rightarrow> lp_ptr \<Rightarrow> u32 \<Rightarrow> kmem \<Rightarrow>
     (vm_fault_ret \<times> page_ptr option \<times> kmem) kres" where
  "kdb_fault_page page c p cpi m =
     kbind (deref (lps m) p) (\<lambda>lp.
     kguard OutOfBounds (unat cpi < length (lp_cp lp))
       (case lp_cp lp ! unat cpi of
          None \<Rightarrow>
            (case cp_pool_alloc page (pool m) of
               (None, s) \<Rightarrow> kbind (lp_put (Some p) (m\<lparr>pool := s\<rparr>)) (\<lambda>m'. Inr (VM_FAULT_OOM, None, m'))
             | (Some pg, s) \<Rightarrow>
                 kdb_fault_map c p pg
                   (m\<lparr>pool := s,
                      lps := (lps m)(p \<mapsto> lp\<lparr>lp_cp := (lp_cp lp)[unat cpi := Some pg]\<rparr>)\<rparr>))
        | Some pg \<Rightarrow> kdb_fault_map c p pg m))"

definition kdb_fault ::
  "hash64 \<Rightarrow> lp_mem \<Rightarrow> page_ptr option \<Rightarrow> ctx_ptr option \<Rightarrow> u64 \<Rightarrow> kmem \<Rightarrow>
     (vm_fault_ret \<times> page_ptr option \<times> kmem) kres" where
  "kdb_fault hash_64 am page ctxp pgoff m =
     (case ctxp of
        None \<Rightarrow> Inl NullDeref
      | Some c \<Rightarrow>
          kbind (deref (ctxs m) c) (\<lambda>ctx.
          kguard DivByZero (ctx_cp_per_lp ctx \<noteq> 0)
            (let n = pgoff div ucast (ctx_cp_per_lp ctx);
                 cpi = (ucast (pgoff mod ucast (ctx_cp_per_lp ctx)) :: u32)
             in if n \<ge> ctx_n_lpn ctx then Inr (VM_FAULT_SIGBUS, None, m)
                else kbind (lp_get_or_create hash_64 am ctxp n m) (\<lambda>(lpp, m1).
                  case lpp of
                    None \<Rightarrow> Inr (VM_FAULT_OOM, None, m1)
                  | Some p \<Rightarrow> kdb_fault_page page c p cpi m1))))"

definition kdb_page_mkwrite ::
  "hash64 \<Rightarrow> ctx_ptr option \<Rightarrow> u64 \<Rightarrow> kmem \<Rightarrow> (vm_fault_ret \<times> kmem) kres" where
  "kdb_page_mkwrite hash_64 ctxp pgoff m =
     (case ctxp of
        None \<Rightarrow> Inl NullDeref
      | Some c \<Rightarrow>
          kbind (deref (ctxs m) c) (\<lambda>ctx.
          kguard DivByZero (ctx_cp_per_lp ctx \<noteq> 0)
            (let n = pgoff div ucast (ctx_cp_per_lp ctx);
                 cpi = (ucast (pgoff mod ucast (ctx_cp_per_lp ctx)) :: u32)
             in if n \<ge> ctx_n_lpn ctx then Inr (VM_FAULT_SIGBUS, m)
                else kbind (lp_lookup hash_64 ctxp n m) (\<lambda>(lpp, m1).
                  case lpp of
                    None \<Rightarrow> Inr (VM_FAULT_SIGBUS, m1)
                  | Some p \<Rightarrow>
                      kbind (deref (lps m1) p) (\<lambda>lp.
                      kbind (set_bit_in (unat cpi) (lp_dirty_bitmap lp)) (\<lambda>bm.
                      kbind (lp_put (Some p) (m1\<lparr>lps := (lps m1)(p \<mapsto> lp\<lparr>lp_dirty_bitmap := bm\<rparr>)\<rparr>)) (\<lambda>m2.
                      kbind (deref (ctxs m2) c) (\<lambda>ctx2.
                        Inr (VM_FAULT_LOCKED, m2\<lparr>ctxs := (ctxs m2)(c \<mapsto>
                          ctx2\<lparr>ctx_total_mkwrite := ctx_total_mkwrite ctx2 + 1\<rparr>)\<rparr>)))))))))"

text \<open>Duplicating a mapping takes no reference on its context.\<close>

definition kdb_vma_open :: "vm_area \<Rightarrow> kmem \<Rightarrow> vm_area \<times> kmem" where
  "kdb_vma_open vma m = (vma, m)"

definition kdb_vma_close :: "vm_area \<Rightarrow> kmem \<Rightarrow> (vm_area \<times> kmem) kres" where
  "kdb_vma_close vma m =
     (case vm_private_data vma of
        None \<Rightarrow> Inr (vma, m)
      | Some c \<Rightarrow> kbind (vma_ctx_destroy (Some c) m)
                  (\<lambda>m'. Inr (vma\<lparr>vm_private_data := None\<rparr>, m')))"

section \<open>Auxiliary updates\<close>

definition upd_ctx :: "ctx_ptr \<Rightarrow> (vma_ctx \<Rightarrow> vma_ctx) \<Rightarrow> kmem \<Rightarrow> kmem" where
  "upd_ctx c f m = m\<lparr>ctxs := (ctxs m)(c := map_option f (ctxs m c))\<rparr>"

text \<open>Updates that touch the statistics of a context only.\<close>

definition stat_pres :: "(vma_ctx \<Rightarrow> vma_ctx) \<Rightarrow> bool" where
  "stat_pres f \<longleftrightarrow> (\<forall>x. ctx_cp_size (f x) = ctx_cp_size x \<and> ctx_lp_size (f x) = ctx_lp_size x \<and>
     ctx_n_lpn (f x) = ctx_n_lpn x \<and> ctx_cp_per_lp (f x) = ctx_cp_per_lp x \<and>
     ctx_lp_hash (f x) = ctx_lp_hash x \<and> ctx_lp_hash_bits (f x) = ctx_lp_hash_bits x)"

lemma stat_presD:
  assumes "stat_pres f"
  shows "ctx_table (f x) = ctx_table x" and "ctx_geom (f x) = ctx_geom x"
    and "lp_ok (f x) = lp_ok x" and "table_ok h H (f x) = table_ok h H x"
    and "lp_view H (f x) = lp_view H x" and "ctx_n_lpn (f x) = ctx_n_lpn x"
    and "ctx_cp_per_lp (f x) = ctx_cp_per_lp x"
  using assms
  by (auto simp: stat_pres_def ctx_table_def ctx_geom_def lp_ok_def table_ok_def lp_view_def fun_eq_iff)

lemma upd_ctx_simps [simp]:
  "lps (upd_ctx c f m) = lps m" "pool (upd_ctx c f m) = pool m" "klog (upd_ctx c f m) = klog m"
  "ctxs (upd_ctx c f m) = (ctxs m)(c := map_option f (ctxs m c))"
  by (simp_all add: upd_ctx_def)

lemma kmem_ok_upd_ctx: "stat_pres f \<Longrightarrow> kmem_ok h m \<Longrightarrow> kmem_ok h (upd_ctx c f m)"
  unfolding kmem_ok_def
  by (auto simp: stat_presD) (metis disjoint_iff)+

lemma ctx_view_upd_ctx [simp]: "stat_pres f \<Longrightarrow> ctx_view (upd_ctx c f m) d = ctx_view m d"
  by (auto simp: ctx_view_def fun_eq_iff stat_presD split: option.splits)

lemma resident_upd_ctx: "stat_pres f \<Longrightarrow> resident (upd_ctx c f m) = resident m"
proof -
  assume f: "stat_pres f"
  have "dom (ctxs (upd_ctx c f m)) = dom (ctxs m)" by (auto simp: dom_def split: if_splits)
  moreover have "resident_ctx (lps m) (the (((ctxs m)(c := map_option f (ctxs m c))) d)) =
      resident_ctx (lps m) (the (ctxs m d))" if "d \<in> dom (ctxs m)" for d
    using that f by (auto simp: resident_ctx_def stat_presD)
  ultimately show ?thesis by (simp add: resident_def)
qed

lemma stat_pres_counters [simp]:
  "stat_pres (\<lambda>x. x\<lparr>ctx_total_faults := g x\<rparr>)" "stat_pres (\<lambda>x. x\<lparr>ctx_total_mkwrite := g x\<rparr>)"
  by (simp_all add: stat_pres_def)

end
