(* ===== verification/Kdb_Fault.thy ===== *)
theory Kdb_Fault
  imports Kdb_Vma
begin

text \<open>
  What the page-fault path guarantees: the invariant of the cache (well-formed tables,
  exclusively owned pages, exact accounting), and the mapping of page offsets to canonical
  pages as a demand-filled map.
\<close>

section \<open>Page ownership and the page map of a context\<close>

definition page_slot :: "(lp_ptr \<rightharpoonup> lp_state) \<Rightarrow> lp_ptr \<Rightarrow> nat \<Rightarrow> page_ptr option" where
  "page_slot H p i =
     (case H p of None \<Rightarrow> None | Some lp \<Rightarrow> if i < length (lp_cp lp) then lp_cp lp ! i else None)"

text \<open>No page sits in two slots, and the module holds a reference on every page in a slot.\<close>

definition pages_ok :: "kmem \<Rightarrow> bool" where
  "pages_ok m \<longleftrightarrow>
     (\<forall>p q i j pg. page_slot (lps m) p i = Some pg \<longrightarrow> page_slot (lps m) q j = Some pg \<longrightarrow>
        p = q \<and> i = j) \<and>
     (\<forall>p i pg. page_slot (lps m) p i = Some pg \<longrightarrow> 0 < page_refs (pool m) pg)"

definition kdb_ok :: "hash64 \<Rightarrow> kmem \<Rightarrow> bool" where
  "kdb_ok h m \<longleftrightarrow> kmem_ok h m \<and> pages_ok m \<and> acct_ok m"

definition page_at :: "kmem \<Rightarrow> ctx_ptr \<Rightarrow> u64 \<Rightarrow> page_ptr option" where
  "page_at m c pgoff =
     (case ctxs m c of None \<Rightarrow> None
      | Some x \<Rightarrow> (case lp_view (lps m) x (pgoff div ucast (ctx_cp_per_lp x)) of
          None \<Rightarrow> None
        | Some p \<Rightarrow> page_slot (lps m) p (unat (pgoff mod ucast (ctx_cp_per_lp x)))))"

definition pg_in_range :: "kmem \<Rightarrow> ctx_ptr \<Rightarrow> u64 \<Rightarrow> bool" where
  "pg_in_range m c pgoff =
     (case ctxs m c of None \<Rightarrow> False
      | Some x \<Rightarrow> pgoff div ucast (ctx_cp_per_lp x) < ctx_n_lpn x)"

text \<open>The page allocator's promise: nobody holds a reference on the page it returns.\<close>

definition page_fresh :: "page_ptr option \<Rightarrow> kmem \<Rightarrow> bool" where
  "page_fresh page m \<longleftrightarrow> (\<forall>pg. page = Some pg \<longrightarrow> page_refs (pool m) pg = 0)"

lemma pages_okD:
  assumes "pages_ok m"
  shows "page_slot (lps m) p i = Some pg \<Longrightarrow> page_slot (lps m) q j = Some pg \<Longrightarrow> p = q"
    and "page_slot (lps m) p i = Some pg \<Longrightarrow> page_slot (lps m) q j = Some pg \<Longrightarrow> i = j"
    and "page_slot (lps m) p i = Some pg \<Longrightarrow> 0 < page_refs (pool m) pg"
  using assms unfolding pages_ok_def by blast+

lemma pages_ok_mono:
  assumes "pages_ok m" and "\<And>p i pg. page_slot H p i = Some pg \<Longrightarrow> page_slot (lps m) p i = Some pg"
    and "\<And>pg. 0 < page_refs (pool m) pg \<Longrightarrow> 0 < page_refs s pg"
    and "lps m' = H" and "pool m' = s"
  shows "pages_ok m'"
  using assms unfolding pages_ok_def by metis

lemma page_slot_upd:
  "(\<And>lp. lp_cp (f lp) = lp_cp lp) \<Longrightarrow> page_slot (H(p := map_option f (H p))) = page_slot H"
  by (auto simp: page_slot_def fun_eq_iff split: option.split)

section \<open>Decoding a page offset\<close>

lemma unat_ucast_k: "unat (ucast (k::u32) :: u64) = unat k"
  by (simp add: unsigned_ucast_eq unsigned_take_bit_eq take_bit_nat_eq_self_iff order_less_trans [OF unsigned_less])

lemma cpi_decode:
  fixes pgoff :: u64
  assumes "ctx_geom x"
  shows "unat (ucast (pgoff mod ucast (ctx_cp_per_lp x)) :: u32) =
           unat (pgoff mod ucast (ctx_cp_per_lp x))"
    and "unat (pgoff mod ucast (ctx_cp_per_lp x)) < unat (ctx_cp_per_lp x)"
    and "unat (pgoff mod ucast (ctx_cp_per_lp x)) = unat pgoff mod unat (ctx_cp_per_lp x)"
    and "unat (pgoff div ucast (ctx_cp_per_lp x)) = unat pgoff div unat (ctx_cp_per_lp x)"
proof -
  let ?k = "ctx_cp_per_lp x"
  show m: "unat (pgoff mod ucast ?k) = unat pgoff mod unat ?k"
    and "unat (pgoff div ucast ?k) = unat pgoff div unat ?k"
    by (simp_all add: unat_mod unat_div unat_ucast_k)
  from assms have k: "0 < unat ?k" "unat ?k \<le> 1024" by (auto simp: ctx_geom_def)
  then show lt: "unat (pgoff mod ucast ?k) < unat ?k" by (simp add: m)
  with k have "unat (pgoff mod ucast ?k) < 2 ^ 32" by simp
  then show "unat (ucast (pgoff mod ucast ?k) :: u32) = unat (pgoff mod ucast ?k)"
    by (simp add: unsigned_ucast_eq unsigned_take_bit_eq take_bit_nat_eq_self_iff)
qed

lemma pgoff_decode_inj:
  fixes pgoff off :: u64
  assumes "pgoff div ucast (ctx_cp_per_lp x) = off div ucast (ctx_cp_per_lp x)"
    and "unat (pgoff mod ucast (ctx_cp_per_lp x)) = unat (off mod ucast (ctx_cp_per_lp x))"
  shows "pgoff = off"
  using assms by (metis div_mult_mod_eq word_unat_eq_iff)

section \<open>The stages of a fault\<close>

abbreviation set_page :: "nat \<Rightarrow> page_ptr \<Rightarrow> lp_state \<Rightarrow> lp_state" where
  "set_page i pg lp \<equiv> lp\<lparr>lp_cp := (lp_cp lp)[i := Some pg]\<rparr>"

abbreviation count_fault :: "vma_ctx \<Rightarrow> vma_ctx" where
  "count_fault x \<equiv> x\<lparr>ctx_total_faults := ctx_total_faults x + 1\<rparr>"

abbreviation put_log :: "lp_state \<Rightarrow> kmem \<Rightarrow> kmsg list" where
  "put_log lp m \<equiv> (if lp_refcount lp = 1 then klog m @ [Lp_refcount_zero] else klog m)"

lemma shape_pres_set_page [simp]: "shape_pres (set_page i pg)"
  by (simp add: shape_pres_def)

lemma kdb_fault_map_eq:
  assumes "lps m p = Some lp" and "ctxs m c = Some x"
  shows "kdb_fault_map c p pg m =
     Inr (VM_FAULT_LOCKED, Some pg,
          (upd_ctx c count_fault (upd_lp p dec_ref m))
            \<lparr>pool := get_page pg (pool m), klog := put_log lp m\<rparr>)"
  using assms by (simp add: kdb_fault_map_def lp_put_eq Let_def upd_lp_def upd_ctx_def)

lemma kdb_fault_page_hit:
  assumes "lps m p = Some lp" and "ctxs m c = Some x" and "unat cpi < length (lp_cp lp)"
    and "lp_cp lp ! unat cpi = Some pg"
  shows "kdb_fault_page page c p cpi m =
     Inr (VM_FAULT_LOCKED, Some pg,
          (upd_ctx c count_fault (upd_lp p dec_ref m))
            \<lparr>pool := get_page pg (pool m), klog := put_log lp m\<rparr>)"
  using assms by (simp add: kdb_fault_page_def kdb_fault_map_eq)

lemma kdb_fault_page_oom:
  assumes "lps m p = Some lp" and "unat cpi < length (lp_cp lp)" and "lp_cp lp ! unat cpi = None"
  shows "kdb_fault_page None c p cpi m =
     Inr (VM_FAULT_OOM, None, (upd_lp p dec_ref m)\<lparr>klog := put_log lp m\<rparr>)"
  using assms by (simp add: kdb_fault_page_def cp_pool_alloc_def lp_put_eq Let_def upd_lp_def)

lemma kdb_fault_page_fill:
  assumes lp: "lps m p = Some lp" and x: "ctxs m c = Some x" and i: "unat cpi < length (lp_cp lp)"
    and n: "lp_cp lp ! unat cpi = None"
  shows "kdb_fault_page (Some pg) c p cpi m =
     Inr (VM_FAULT_LOCKED, Some pg,
          (upd_ctx c count_fault (upd_lp p dec_ref (upd_lp p (set_page (unat cpi) pg) m)))
            \<lparr>pool := get_page pg (snd (cp_pool_alloc (Some pg) (pool m))), klog := put_log lp m\<rparr>)"
proof -
  let ?m = "m\<lparr>pool := snd (cp_pool_alloc (Some pg) (pool m)),
              lps := (lps m)(p \<mapsto> set_page (unat cpi) pg lp)\<rparr>"
  have "kdb_fault_page (Some pg) c p cpi m = kdb_fault_map c p pg ?m"
    using assms by (simp add: kdb_fault_page_def cp_pool_alloc_def)
  also have "\<dots> = Inr (VM_FAULT_LOCKED, Some pg,
      (upd_ctx c count_fault (upd_lp p dec_ref ?m))
        \<lparr>pool := get_page pg (pool ?m), klog := put_log (set_page (unat cpi) pg lp) ?m\<rparr>)"
    by (rule kdb_fault_map_eq) (use x in simp_all)
  finally show ?thesis using lp by (simp add: upd_lp_def upd_ctx_def)
qed

section \<open>Accounting of a new page\<close>

lemma sum_list_bump:
  assumes "distinct xs" and "p \<in> set xs" and "f' p = Suc (f p)"
    and "\<And>q. q \<in> set xs \<Longrightarrow> q \<noteq> p \<Longrightarrow> f' q = f q"
  shows "sum_list (map f' xs) = Suc (sum_list (map f xs))"
  using assms
proof (induction xs)
  case (Cons a xs)
  show ?case
  proof (cases "a = p")
    case True
    then have "map f' xs = map f xs" using Cons.prems by (intro map_cong) auto
    then have "sum_list (map f' xs) = sum_list (map f xs)" by (rule arg_cong)
    with True Cons.prems(3) show ?thesis by simp
  next
    case False
    with Cons have "sum_list (map f' xs) = Suc (sum_list (map f xs))" by simp
    with False Cons.prems(4) [of a] show ?thesis by simp
  qed
qed simp

lemma sum_bump:
  fixes g g' :: "'a \<Rightarrow> nat"
  assumes "finite A" and "c \<in> A" and "g' c = Suc (g c)" and "\<And>d. d \<in> A \<Longrightarrow> d \<noteq> c \<Longrightarrow> g' d = g d"
  shows "sum g' A = Suc (sum g A)"
proof -
  have "sum g' (A - {c}) = sum g (A - {c})"
    using assms(4) by (intro sum.cong) auto
  with assms(1-3) show ?thesis by (simp add: sum.remove [of A c])
qed

lemma resident_set_page:
  assumes ok: "kmem_ok h m" and c: "ctxs m c = Some x" and p: "p \<in> set (ctx_table x)"
    and lp: "lps m p = Some lp" and i: "i < length (lp_cp lp)" "lp_cp lp ! i = None"
  shows "resident (upd_lp p (set_page i pg) m) = Suc (resident m)"
proof -
  let ?H = "(lps m)(p := map_option (set_page i pg) (lps m p))"
  have at: "res_at ?H p = Suc (res_at (lps m) p)"
    using lp i by (simp add: res_at_def resident_lp_def count_Some_list_update del: not_None_eq)
  have other: "q \<noteq> p \<Longrightarrow> res_at ?H q = res_at (lps m) q" for q
    by (simp add: res_at_def)
  have "resident_ctx ?H x = Suc (resident_ctx (lps m) x)"
    unfolding resident_ctx_def
    by (rule sum_list_bump [OF table_ok_shape(3) [OF kmem_okD(4) [OF ok c]] p], rule at, rule other)
  moreover have "resident_ctx ?H y = resident_ctx (lps m) y" if "ctxs m d = Some y" "d \<noteq> c" for d y
    using kmem_okD(5) [OF ok c that(1)] that(2) p
    by (intro resident_ctx_cong other) auto
  ultimately show ?thesis
    unfolding resident_def upd_lp_simps using kmem_okD(2) [OF ok] c
    by (intro sum_bump [of _ c]) auto
qed

lemma ok_frame [simp]:
  "kmem_ok h (m\<lparr>pool := s\<rparr>) = kmem_ok h m" "kmem_ok h (m\<lparr>klog := l\<rparr>) = kmem_ok h m"
  "resident (m\<lparr>pool := s\<rparr>) = resident m" "resident (m\<lparr>klog := l\<rparr>) = resident m"
  "ctx_view (m\<lparr>pool := s\<rparr>) = ctx_view m" "ctx_view (m\<lparr>klog := l\<rparr>) = ctx_view m"
  by (simp_all add: kmem_ok_def resident_def ctx_view_def fun_eq_iff split: option.split)

section \<open>The stages keep the invariant\<close>

lemma pages_ok_goc:
  assumes "pages_ok m" and fr: "lp_fresh am m"
  shows "pages_ok (snd (goc_result h am c x n m))"
    and "page_slot (lps (snd (goc_result h am c x n m))) = page_slot (lps m)"
proof -
  show slots: "page_slot (lps (snd (goc_result h am c x n m))) = page_slot (lps m)"
    using fr
    by (auto simp: goc_result_def page_slot_upd lp_mem_ok_def lp_fresh_def page_slot_def lp_new_def
        fun_eq_iff split: option.split)
  have "pool (snd (goc_result h am c x n m)) = pool m"
    by (simp add: goc_result_def split: option.split)
  with assms(1) slots show "pages_ok (snd (goc_result h am c x n m))"
    by (simp add: pages_ok_def)
qed

lemma kdb_ok_goc:
  assumes ok: "kdb_ok h m" and c: "ctxs m c = Some x" and n: "n < ctx_n_lpn x"
    and fr: "lp_fresh am m"
  shows "kdb_ok h (snd (goc_result h am c x n m))"
proof -
  from ok have k: "kmem_ok h m" and p: "pages_ok m" and a: "acct_ok m"
    by (simp_all add: kdb_ok_def)
  show ?thesis
    using kmem_ok_goc [OF k c n fr] pages_ok_goc [OF p fr] a resident_goc [OF k c n fr]
    by (simp add: kdb_ok_def acct_ok_def)
qed

text \<open>Dropping a reference, counting, logging and taking page references keep everything.\<close>

lemma kdb_ok_finish:
  assumes ok: "kdb_ok h m" and f: "stat_pres f" and g: "shape_pres g"
    and gc: "\<And>lp. lp_cp (g lp) = lp_cp lp"
  shows "kdb_ok h ((upd_ctx c f (upd_lp p g m))\<lparr>pool := get_page pg (pool m), klog := l\<rparr>)"
    and "kdb_ok h ((upd_ctx c f (upd_lp p g m))\<lparr>klog := l\<rparr>)"
    and "kdb_ok h ((upd_lp p g m)\<lparr>klog := l\<rparr>)"
proof -
  let ?m = "upd_ctx c f (upd_lp p g m)"
  from ok have k: "kmem_ok h m" and pg: "pages_ok m" and a: "acct_ok m"
    by (simp_all add: kdb_ok_def)
  have k1: "kmem_ok h (upd_lp p g m)" using k g by (rule kmem_ok_upd_lp)
  then have k2: "kmem_ok h ?m" by (rule kmem_ok_upd_ctx [OF f])
  have r1: "resident (upd_lp p g m) = resident m"
    by (rule resident_upd_lp) (simp add: resident_lp_def gc)
  then have r2: "resident ?m = resident m" by (simp add: resident_upd_ctx [OF f])
  have pk: "pages_ok m'" if "lps m' = lps (upd_lp p g m)" "pool m' = pool m \<or> pool m' = get_page pg (pool m)"
    for m'
    using pg that by (intro pages_ok_mono [OF pg, of "lps m'" "pool m'"])
      (auto simp: page_slot_upd [OF gc] get_page_def)
  show "kdb_ok h (?m\<lparr>pool := get_page pg (pool m), klog := l\<rparr>)"
    using a k2 r2 by (simp add: kdb_ok_def acct_ok_def pk)
  show "kdb_ok h (?m\<lparr>klog := l\<rparr>)"
    using a k2 r2 by (simp add: kdb_ok_def acct_ok_def pk)
  show "kdb_ok h ((upd_lp p g m)\<lparr>klog := l\<rparr>)"
    using a k1 r1 by (simp add: kdb_ok_def acct_ok_def pk)
qed

lemma page_slot_set_page:
  assumes "H p = Some lp" and "i < length (lp_cp lp)"
  shows "page_slot (H(p := map_option (set_page i pg) (H p))) =
           (page_slot H)(p := (page_slot H p)(i \<mapsto> pg))"
  using assms by (auto simp: page_slot_def fun_eq_iff nth_list_update split: option.split)

lemma pages_ok_set_page:
  assumes pk: "pages_ok m" and lp: "lps m p = Some lp" and i: "i < length (lp_cp lp)"
    and fr: "page_refs (pool m) pg = 0" and s: "page_refs (pool m') pg > 0"
    and s': "\<And>q. page_refs (pool m) q > 0 \<Longrightarrow> page_refs (pool m') q > 0"
    and H: "lps m' = (lps m)(p := map_option (set_page i pg) (lps m p))"
  shows "pages_ok m'"
proof -
  have new: "page_slot (lps m) q j \<noteq> Some pg" for q j
    using pages_okD(3) [OF pk, of q j pg] fr by auto
  show ?thesis
    unfolding pages_ok_def H page_slot_set_page [where H = "lps m", OF lp i]
    using new pages_okD [OF pk] s s' by (auto split: if_splits)
qed

lemma kdb_ok_set_page:
  assumes ok: "kdb_ok h m" and c: "ctxs m c = Some x" and p: "p \<in> set (ctx_table x)"
    and lp: "lps m p = Some lp" and i: "i < length (lp_cp lp)" "lp_cp lp ! i = None"
    and fr: "page_refs (pool m) pg = 0"
  shows "kdb_ok h ((upd_lp p (set_page i pg) m)\<lparr>pool := snd (cp_pool_alloc (Some pg) (pool m))\<rparr>)"
    (is "kdb_ok h ?m'")
proof -
  from ok have k: "kmem_ok h m" and pk: "pages_ok m" and a: "acct_ok m"
    by (simp_all add: kdb_ok_def)
  have "kmem_ok h ?m'"
    using kmem_ok_upd_lp [OF k shape_pres_set_page] by simp
  moreover have "resident ?m' = Suc (resident m)"
    using resident_set_page [OF k c p lp i, of pg] by simp
  then have "acct_ok ?m'"
    using a by (simp add: acct_ok_def pool_balanced_alloc) (simp add: cp_pool_alloc_def)
  moreover have "pages_ok ?m'"
    by (rule pages_ok_set_page [OF pk lp i(1) fr]) (simp_all add: cp_pool_alloc_def)
  ultimately show ?thesis by (simp add: kdb_ok_def)
qed

section \<open>A fault from end to end\<close>

text \<open>Everything that must survive a fault besides the page map: views and ranges.\<close>

definition same_frame :: "kmem \<Rightarrow> kmem \<Rightarrow> bool" where
  "same_frame m m' \<longleftrightarrow> ctx_view m' = ctx_view m \<and>
     (\<forall>c. map_option (\<lambda>x. (ctx_n_lpn x, ctx_cp_per_lp x)) (ctxs m' c) =
          map_option (\<lambda>x. (ctx_n_lpn x, ctx_cp_per_lp x)) (ctxs m c))"

lemma same_frame_finish:
  assumes "stat_pres f" and "shape_pres g"
  shows "same_frame m ((upd_ctx c f (upd_lp p g m))\<lparr>pool := s, klog := l\<rparr>)"
    and "same_frame m ((upd_lp p g m)\<lparr>klog := l\<rparr>)"
    and "same_frame m (upd_ctx c f (upd_lp p g m))"
  using assms by (auto simp: same_frame_def stat_presD fun_eq_iff option.map_comp comp_def)

lemma same_frame_trans: "same_frame m m' \<Longrightarrow> same_frame m' m'' \<Longrightarrow> same_frame m m''"
  by (simp add: same_frame_def)

text \<open>What the page stage of a fault on slot \<open>i\<close> of \<open>p\<close> establishes.\<close>

definition fault_post ::
  "hash64 \<Rightarrow> kmem \<Rightarrow> lp_ptr \<Rightarrow> nat \<Rightarrow> page_ptr option \<Rightarrow> page_ptr option \<Rightarrow> kmem \<Rightarrow> bool" where
  "fault_post h m p i page pgo m' \<longleftrightarrow>
     kdb_ok h m' \<and> same_frame m m' \<and>
     page_slot (lps m') = (case pgo of None \<Rightarrow> page_slot (lps m)
       | Some pg \<Rightarrow> (page_slot (lps m))(p := (page_slot (lps m) p)(i \<mapsto> pg))) \<and>
     pgo = (case page_slot (lps m) p i of None \<Rightarrow> page | Some pg \<Rightarrow> Some pg)"

lemma fault_post_hit:
  assumes ok: "kdb_ok h m" and slot: "page_slot (lps m) p i = Some pg"
  shows "fault_post h m p i page (Some pg)
           ((upd_ctx c count_fault (upd_lp p dec_ref m))\<lparr>pool := get_page pg (pool m), klog := l\<rparr>)"
    (is "fault_post _ _ _ _ _ _ ?m'")
proof -
  have "kdb_ok h ?m'" by (rule kdb_ok_finish(1) [OF ok]) simp_all
  moreover have "same_frame m ?m'" by (rule same_frame_finish(1)) simp_all
  moreover have "page_slot (lps ?m') = page_slot (lps m)" by (simp add: page_slot_upd)
  moreover have "(page_slot (lps m))(p := (page_slot (lps m) p)(i \<mapsto> pg)) = page_slot (lps m)"
    using slot by (simp add: fun_upd_idem)
  ultimately show ?thesis using slot by (simp add: fault_post_def)
qed

lemma fault_post_oom:
  assumes ok: "kdb_ok h m" and slot: "page_slot (lps m) p i = None"
  shows "fault_post h m p i None None ((upd_lp p dec_ref m)\<lparr>klog := l\<rparr>)" (is "fault_post _ _ _ _ _ _ ?m'")
proof -
  have "kdb_ok h ?m'" by (rule kdb_ok_finish(3) [where f = count_fault, OF ok]) simp_all
  moreover have "same_frame m ?m'" by (rule same_frame_finish(2) [where f = count_fault]) simp_all
  moreover have "page_slot (lps ?m') = page_slot (lps m)" by (simp add: page_slot_upd)
  ultimately show ?thesis using slot by (simp add: fault_post_def)
qed

lemma fault_post_fill:
  assumes ok: "kdb_ok h m" and c: "ctxs m c = Some x" and p: "p \<in> set (ctx_table x)"
    and lp: "lps m p = Some lp" and i: "i < length (lp_cp lp)" "lp_cp lp ! i = None"
    and fr: "page_refs (pool m) pg = 0"
  shows "fault_post h m p i (Some pg) (Some pg)
           ((upd_ctx c count_fault (upd_lp p dec_ref (upd_lp p (set_page i pg) m)))
              \<lparr>pool := get_page pg (snd (cp_pool_alloc (Some pg) (pool m))), klog := l\<rparr>)"
    (is "fault_post _ _ _ _ _ _ ?m'")
proof -
  let ?m1 = "(upd_lp p (set_page i pg) m)\<lparr>pool := snd (cp_pool_alloc (Some pg) (pool m))\<rparr>"
  have ok1: "kdb_ok h ?m1" using ok c p lp i fr by (rule kdb_ok_set_page)
  have m': "?m' = (upd_ctx c count_fault (upd_lp p dec_ref ?m1))
                    \<lparr>pool := get_page pg (pool ?m1), klog := l\<rparr>"
    by (simp add: upd_ctx_def upd_lp_def)
  have "kdb_ok h ?m'" unfolding m' by (rule kdb_ok_finish(1) [OF ok1]) simp_all
  moreover have "same_frame ?m1 ?m'" unfolding m' by (rule same_frame_finish(1)) simp_all
  then have "same_frame m ?m'"
    by (rule same_frame_trans [rotated]) (simp add: same_frame_def fun_eq_iff)
  moreover have "page_slot (lps ?m') = (page_slot (lps m))(p := (page_slot (lps m) p)(i \<mapsto> pg))"
    using lp i by (auto simp: page_slot_def fun_eq_iff nth_list_update split: option.split)
  moreover have "page_slot (lps m) p i = None" using lp i by (simp add: page_slot_def)
  ultimately show ?thesis by (simp add: fault_post_def)
qed

lemma kdb_fault_page_ok:
  assumes ok: "kdb_ok h m" and c: "ctxs m c = Some x" and v: "lp_view (lps m) x n = Some p"
    and i: "unat cpi < unat (ctx_cp_per_lp x)" and fr: "page_fresh page m"
  shows "\<exists>pgo m'. kdb_fault_page page c p cpi m =
             Inr (if pgo = None then VM_FAULT_OOM else VM_FAULT_LOCKED, pgo, m') \<and>
           fault_post h m p (unat cpi) page pgo m'"
proof -
  from ok have k: "kmem_ok h m" by (simp add: kdb_ok_def)
  from v have pt: "p \<in> set (ctx_table x)" by (metis lp_view_SomeD)
  from table_okD [OF kmem_okD(4) [OF k c] pt] obtain lp where lp: "lps m p = Some lp" "lp_ok x lp"
    by blast
  with i have il: "unat cpi < length (lp_cp lp)" by (simp add: lp_ok_def)
  have slot: "page_slot (lps m) p (unat cpi) = lp_cp lp ! unat cpi"
    using lp il by (simp add: page_slot_def)
  show ?thesis
  proof (cases "lp_cp lp ! unat cpi")
    case (Some pg)
    with slot have "page_slot (lps m) p (unat cpi) = Some pg" by simp
    from kdb_fault_page_hit [OF lp(1) c il Some, of page] fault_post_hit [OF ok this]
    show ?thesis by fastforce
  next
    case None
    with slot have s: "page_slot (lps m) p (unat cpi) = None" by simp
    show ?thesis
    proof (cases page)
      case None': None
      from kdb_fault_page_oom [OF lp(1) il None] fault_post_oom [OF ok s] None'
      show ?thesis by fastforce
    next
      case (Some pg)
      with fr have "page_refs (pool m) pg = 0" by (simp add: page_fresh_def)
      from kdb_fault_page_fill [OF lp(1) c il None] fault_post_fill [OF ok c pt lp(1) il None this] Some
      show ?thesis by fastforce
    qed
  qed
qed

lemma page_at_view:
  "ctxs m c = Some x \<Longrightarrow> page_at m c off =
     (case ctx_view m c (off div ucast (ctx_cp_per_lp x)) of None \<Rightarrow> None
      | Some p \<Rightarrow> page_slot (lps m) p (unat (off mod ucast (ctx_cp_per_lp x))))"
  by (simp add: page_at_def ctx_view_def)

lemma same_frame_ctx:
  assumes "same_frame m m'" and "ctxs m c = Some x"
  shows "\<exists>y. ctxs m' c = Some y \<and> ctx_n_lpn y = ctx_n_lpn x \<and> ctx_cp_per_lp y = ctx_cp_per_lp x"
proof -
  from assms have "map_option (\<lambda>x. (ctx_n_lpn x, ctx_cp_per_lp x)) (ctxs m' c) =
      Some (ctx_n_lpn x, ctx_cp_per_lp x)"
    by (simp add: same_frame_def)
  then show ?thesis by (cases "ctxs m' c") auto
qed

lemma same_frame_None: "same_frame m m' \<Longrightarrow> ctxs m c = None \<Longrightarrow> ctxs m' c = None"
proof -
  assume "same_frame m m'" and n: "ctxs m c = None"
  then have "map_option (\<lambda>x. (ctx_n_lpn x, ctx_cp_per_lp x)) (ctxs m' c) =
      map_option (\<lambda>x. (ctx_n_lpn x, ctx_cp_per_lp x)) (ctxs m c)"
    by (simp only: same_frame_def)
  with n show ?thesis by simp
qed

lemma same_frame_range: "same_frame m m' \<Longrightarrow> pg_in_range m' = pg_in_range m"
proof (intro ext)
  fix c off
  assume f: "same_frame m m'"
  show "pg_in_range m' c off = pg_in_range m c off"
  proof (cases "ctxs m c")
    case (Some x)
    with same_frame_ctx [OF f this] show ?thesis by (auto simp: pg_in_range_def)
  next
    case None
    with same_frame_None [OF f this] show ?thesis by (simp add: pg_in_range_def)
  qed
qed

text \<open>From slots to page offsets: installing a page changes the map at one offset.\<close>

lemma page_at_install:
  assumes f: "same_frame m m'" and c: "ctxs m c = Some x"
    and v: "ctx_view m c (off div ucast (ctx_cp_per_lp x)) = Some p"
    and s: "page_slot (lps m') =
      (page_slot (lps m))(p := (page_slot (lps m) p)(unat (off mod ucast (ctx_cp_per_lp x)) \<mapsto> pg))"
  shows "page_at m' c = (page_at m c)(off \<mapsto> pg)"
proof
  fix k
  from same_frame_ctx [OF f c] obtain y
    where y: "ctxs m' c = Some y" "ctx_cp_per_lp y = ctx_cp_per_lp x" by blast
  from f have view: "ctx_view m' c = ctx_view m c" by (simp add: same_frame_def)
  show "page_at m' c k = ((page_at m c)(off \<mapsto> pg)) k"
  proof (cases "k = off")
    case True
    then show ?thesis using y v view s by (simp add: page_at_view)
  next
    case False
    then have "ctx_view m c (k div ucast (ctx_cp_per_lp x)) = Some p \<Longrightarrow>
        unat (k mod ucast (ctx_cp_per_lp x)) \<noteq> unat (off mod ucast (ctx_cp_per_lp x))"
      using v ctx_view_inj pgoff_decode_inj by blast
    with False show ?thesis
      using y view s c by (auto simp: page_at_view split: option.splits)
  qed
qed

lemma page_at_frame:
  assumes f: "same_frame m m'" and s: "page_slot (lps m') = page_slot (lps m)"
  shows "page_at m' c = page_at m c"
proof (cases "ctxs m c")
  case (Some x)
  with same_frame_ctx [OF f Some] f s show ?thesis
    by (auto simp: page_at_view same_frame_def fun_eq_iff split: option.split)
next
  case None
  with same_frame_None [OF f this] show ?thesis by (simp add: page_at_def fun_eq_iff)
qed

text \<open>Finding or creating the logical page leaves the page map alone.\<close>

lemma goc_ctx:
  assumes "ctxs m c = Some x" and "goc_result h am c x n m = (r, m1)"
  shows "\<exists>y. ctxs m1 c = Some y \<and> ctx_n_lpn y = ctx_n_lpn x \<and> ctx_cp_per_lp y = ctx_cp_per_lp x"
    and "d \<noteq> c \<Longrightarrow> ctxs m1 d = ctxs m d"
  using assms by (auto simp: goc_result_def split: option.splits if_splits)

lemma goc_range: "ctxs m c = Some x \<Longrightarrow> goc_result h am c x n m = (r, m1) \<Longrightarrow> pg_in_range m1 = pg_in_range m"
proof (intro ext)
  fix d off
  assume c: "ctxs m c = Some x" and r: "goc_result h am c x n m = (r, m1)"
  show "pg_in_range m1 d off = pg_in_range m d off"
    using goc_ctx(1) [OF c r] goc_ctx(2) [OF c r, of d] c
    by (cases "d = c") (auto simp: pg_in_range_def)
qed

lemma goc_page_at:
  assumes ok: "kdb_ok h m" and c: "ctxs m c = Some x" and n: "n < ctx_n_lpn x"
    and fr: "lp_fresh am m" and r: "goc_result h am c x n m = (r, m1)"
  shows "page_at m1 c = page_at m c"
proof
  fix off
  from ok have k: "kmem_ok h m" and pk: "pages_ok m" by (simp_all add: kdb_ok_def)
  from goc_ctx(1) [OF c r] obtain y where y: "ctxs m1 c = Some y" "ctx_cp_per_lp y = ctx_cp_per_lp x"
    by blast
  have slots: "page_slot (lps m1) = page_slot (lps m)"
    using pages_ok_goc(2) [OF pk fr, of h c x n] r by simp
  have new: "page_slot (lps m) p i = None" if "r = Some p" "ctx_view m c n = None" for p i
    using that r c fr
    by (auto simp: goc_result_def ctx_view_def page_slot_def lp_fresh_def split: if_splits)
  show "page_at m1 c off = page_at m c off"
  proof (cases "off div ucast (ctx_cp_per_lp x) = n \<and> ctx_view m c n = None")
    case True
    then show ?thesis
      using goc_view(1) [OF k c n fr r] y c slots new
      by (auto simp: page_at_view split: option.splits)
  next
    case False
    then have "ctx_view m1 c (off div ucast (ctx_cp_per_lp x)) = ctx_view m c (off div ucast (ctx_cp_per_lp x))"
      using goc_view(1,3) [OF k c n fr r] by (auto split: option.splits)
    with y c slots show ?thesis by (simp add: page_at_view split: option.split)
  qed
qed

text \<open>The fault handler for an offset inside the configured range.\<close>

lemma kdb_fault_run:
  assumes k: "kmem_ok h m" and c: "ctxs m c = Some x"
    and n: "off div ucast (ctx_cp_per_lp x) < ctx_n_lpn x" and fr: "lp_fresh am m"
    and res: "goc_result h am c x (off div ucast (ctx_cp_per_lp x)) m = (r, m1)"
  shows "kdb_fault h am page (Some c) off m =
      (case r of None \<Rightarrow> Inr (VM_FAULT_OOM, None, m1)
       | Some p \<Rightarrow> kdb_fault_page page c p (ucast (off mod ucast (ctx_cp_per_lp x))) m1)"
proof -
  have "ctx_cp_per_lp x \<noteq> 0" using kmem_okD(3) [OF k c] by (auto simp: ctx_geom_def)
  moreover from n have "\<not> ctx_n_lpn x \<le> off div ucast (ctx_cp_per_lp x)" by simp
  ultimately show ?thesis
    using c by (simp add: kdb_fault_def lp_get_or_create_eq [OF k c n fr] res Let_def)
qed

definition fault_spec ::
  "hash64 \<Rightarrow> kmem \<Rightarrow> ctx_ptr \<Rightarrow> u64 \<Rightarrow> vm_fault_ret \<Rightarrow> page_ptr option \<Rightarrow> kmem \<Rightarrow> bool" where
  "fault_spec h m c off r pgo m' \<longleftrightarrow>
     kdb_ok h m' \<and> pg_in_range m' = pg_in_range m \<and>
     r = (if pgo = None then VM_FAULT_OOM else VM_FAULT_LOCKED) \<and>
     page_at m' c = (case pgo of None \<Rightarrow> page_at m c | Some pg \<Rightarrow> (page_at m c)(off \<mapsto> pg)) \<and>
     (page_at m c off \<noteq> None \<longrightarrow> pgo = page_at m c off)"

text \<open>
  Which page a fault returns: the resident one; otherwise the page the allocator gave,
  provided that the logical page existed or could be created.
\<close>

definition lp_present :: "kmem \<Rightarrow> ctx_ptr \<Rightarrow> u64 \<Rightarrow> bool" where
  "lp_present m c off = (case ctxs m c of None \<Rightarrow> False
     | Some x \<Rightarrow> lp_view (lps m) x (off div ucast (ctx_cp_per_lp x)) \<noteq> None)"

definition fault_result :: "lp_mem \<Rightarrow> page_ptr option \<Rightarrow> kmem \<Rightarrow> ctx_ptr \<Rightarrow> u64 \<Rightarrow> page_ptr option" where
  "fault_result am page m c off =
     (case page_at m c off of Some pg \<Rightarrow> Some pg
      | None \<Rightarrow> if lp_present m c off \<or> lp_mem_ok am then page else None)"

lemma goc_outcome:
  assumes "ctxs m c = Some x" and "goc_result h am c x (off div ucast (ctx_cp_per_lp x)) m = (r, m1)"
  shows "r \<noteq> None \<longleftrightarrow> lp_present m c off \<or> lp_mem_ok am"
proof (cases "lp_view (lps m) x (off div ucast (ctx_cp_per_lp x))")
  case None
  with assms show ?thesis
    by (auto simp: goc_result_def lp_present_def lp_mem_ok_def split: if_splits)
next
  case (Some p)
  then have "lp_present m c off" using assms(1) by (simp add: lp_present_def)
  moreover have "r = Some p" using Some assms(2) by (simp add: goc_result_def)
  ultimately show ?thesis by simp
qed

lemma kdb_fault_ok:
  assumes ok: "kdb_ok h m" and rg: "pg_in_range m c off"
    and fr: "lp_fresh am m" and pf: "page_fresh page m"
  shows "\<exists>r pgo m'. kdb_fault h am page (Some c) off m = Inr (r, pgo, m') \<and> fault_spec h m c off r pgo m' \<and>
           pgo = fault_result am page m c off"
proof -
  from ok have k: "kmem_ok h m" by (simp add: kdb_ok_def)
  from rg obtain x where c: "ctxs m c = Some x"
    and n: "off div ucast (ctx_cp_per_lp x) < ctx_n_lpn x"
    by (auto simp: pg_in_range_def split: option.splits)
  let ?n = "off div ucast (ctx_cp_per_lp x)"
  let ?i = "ucast (off mod ucast (ctx_cp_per_lp x)) :: u32"
  obtain r m1 where res: "goc_result h am c x ?n m = (r, m1)" by (rule prod.exhaust)
  from kdb_ok_goc [OF ok c n fr] res have ok1: "kdb_ok h m1" by simp
  note gv = goc_view [OF k c n fr res] and at = goc_page_at [OF ok c n fr res]
    and rng = goc_range [OF c res] and run = kdb_fault_run [OF k c n fr res, of page]
  show ?thesis
  proof (cases r)
    case None
    with gv(3) have "page_at m c off = None"
      using c by (cases "ctx_view m c ?n") (simp_all add: page_at_view)
    with None run ok1 at rng goc_outcome [OF c res] show ?thesis
      by (simp add: fault_spec_def fault_result_def)
  next
    case (Some p)
    from goc_ctx(1) [OF c res] obtain y
      where y: "ctxs m1 c = Some y" "ctx_cp_per_lp y = ctx_cp_per_lp x" by blast
    with Some gv(1) have v: "ctx_view m1 c (off div ucast (ctx_cp_per_lp y)) = Some p" by simp
    have "pool m1 = pool m" using resident_goc(2) [OF k c n fr] res by simp
    with pf have pf1: "page_fresh page m1" by (simp add: page_fresh_def)
    note dec = cpi_decode [OF kmem_okD(3) [OF k c], of off]
    from v y(1) have "lp_view (lps m1) y ?n = Some p" by (simp add: ctx_view_def y(2))
    moreover have "unat ?i < unat (ctx_cp_per_lp y)" using dec by (simp add: y(2))
    ultimately obtain pgo m'
      where f: "kdb_fault_page page c p ?i m1 =
               Inr (if pgo = None then VM_FAULT_OOM else VM_FAULT_LOCKED, pgo, m')"
        and post: "fault_post h m1 p (unat ?i) page pgo m'"
      using kdb_fault_page_ok [OF ok1 y(1) _ _ pf1] by blast
    from post have fr': "same_frame m1 m'" by (simp add: fault_post_def)
    have "page_at m' c = (case pgo of None \<Rightarrow> page_at m c | Some pg \<Rightarrow> (page_at m c)(off \<mapsto> pg))"
      unfolding at [symmetric]
      using post page_at_frame [OF fr', of c] page_at_install [OF fr' y(1) v]
      by (auto simp: fault_post_def dec(1) y(2) split: option.splits)
    moreover have "page_at m c off = page_slot (lps m1) p (unat ?i)"
      unfolding at [symmetric] using y v by (simp add: page_at_view dec(1))
    then have res': "pgo = fault_result am page m c off"
      using post goc_outcome [OF c res] Some
      by (auto simp: fault_post_def fault_result_def split: option.splits)
    then have "page_at m c off \<noteq> None \<Longrightarrow> pgo = page_at m c off"
      by (auto simp: fault_result_def)
    moreover have "kdb_ok h m'" using post by (simp add: fault_post_def)
    ultimately have "fault_spec h m c off (if pgo = None then VM_FAULT_OOM else VM_FAULT_LOCKED) pgo m'"
      using rng same_frame_range [OF fr'] by (simp add: fault_spec_def)
    with run Some f res' show ?thesis by auto
  qed
qed

section \<open>The fault handler fills a page map on demand\<close>

definition fault_get ::
  "hash64 \<Rightarrow> ctx_ptr \<Rightarrow> lp_mem \<times> page_ptr option \<Rightarrow> u64 \<Rightarrow> kmem \<Rightarrow> (page_ptr option \<times> kmem) kres" where
  "fault_get h c env off m =
     kbind (kdb_fault h (fst env) (snd env) (Some c) off m) (\<lambda>(r, pg, m'). Inr (pg, m'))"

lemma page_at_inj:
  assumes ok: "kdb_ok h m" and rg: "pg_in_range m c a"
    and v: "page_at m c a = Some pg" "page_at m c b = Some pg"
  shows "a = b"
proof -
  from rg obtain x where c: "ctxs m c = Some x"
    by (auto simp: pg_in_range_def split: option.splits)
  let ?k = "ucast (ctx_cp_per_lp x) :: u64"
  from v c obtain p q where
    p: "ctx_view m c (a div ?k) = Some p" "page_slot (lps m) p (unat (a mod ?k)) = Some pg" and
    q: "ctx_view m c (b div ?k) = Some q" "page_slot (lps m) q (unat (b mod ?k)) = Some pg"
    by (auto simp: page_at_view split: option.splits)
  from ok have pk: "pages_ok m" by (simp add: kdb_ok_def)
  from pages_okD(1,2) [OF pk p(2) q(2)] p(1) q(1) show ?thesis
    using ctx_view_inj pgoff_decode_inj by blast
qed

interpretation page_map: demand_map "kdb_ok h" "\<lambda>m. page_at m c" "\<lambda>m. pg_in_range m c"
  "\<lambda>env m. lp_fresh (fst env) m \<and> page_fresh (snd env) m" "fault_get h c" for h c
proof
  fix s off and env :: "lp_mem \<times> page_ptr option"
  assume "kdb_ok h s" and "pg_in_range s c off"
    and "lp_fresh (fst env) s \<and> page_fresh (snd env) s"
  then obtain r pgo m' where "kdb_fault h (fst env) (snd env) (Some c) off s = Inr (r, pgo, m')"
    and "fault_spec h s c off r pgo m'"
    using kdb_fault_ok by blast
  then show "\<exists>r s'. fault_get h c env off s = Inr (r, s') \<and> kdb_ok h s' \<and>
      pg_in_range s' c = pg_in_range s c \<and>
      page_at s' c = (case r of None \<Rightarrow> page_at s c | Some p \<Rightarrow> (page_at s c)(off \<mapsto> p)) \<and>
      (page_at s c off \<noteq> None \<longrightarrow> r = None \<or> r = page_at s c off)"
    by (auto simp: fault_get_def fault_spec_def)
qed (rule page_at_inj)

end
