(* ===== verification/Kdb_Mkwrite.thy ===== *)
theory Kdb_Mkwrite
  imports Kdb_Fault
begin

text \<open>
  What the write notification and the close callback of a mapping guarantee: exactly one
  dirty bit is set and the page map is unchanged; closing destroys the context and keeps
  the invariant of everything else.
\<close>

section \<open>Dirty tracking\<close>

definition dirty_slot :: "(lp_ptr \<rightharpoonup> lp_state) \<Rightarrow> lp_ptr \<Rightarrow> nat \<Rightarrow> bool" where
  "dirty_slot H p i = (case H p of None \<Rightarrow> False | Some lp \<Rightarrow> test_bit_in i (lp_dirty_bitmap lp))"

definition dirty_at :: "kmem \<Rightarrow> ctx_ptr \<Rightarrow> u64 \<Rightarrow> bool" where
  "dirty_at m c off =
     (case ctxs m c of None \<Rightarrow> False
      | Some x \<Rightarrow> (case lp_view (lps m) x (off div ucast (ctx_cp_per_lp x)) of
          None \<Rightarrow> False
        | Some p \<Rightarrow> dirty_slot (lps m) p (unat (off mod ucast (ctx_cp_per_lp x)))))"

lemma dirty_at_view:
  "ctxs m c = Some x \<Longrightarrow> dirty_at m c off =
     (case ctx_view m c (off div ucast (ctx_cp_per_lp x)) of None \<Rightarrow> False
      | Some p \<Rightarrow> dirty_slot (lps m) p (unat (off mod ucast (ctx_cp_per_lp x))))"
  by (simp add: dirty_at_def ctx_view_def)

abbreviation count_mkwrite :: "vma_ctx \<Rightarrow> vma_ctx" where
  "count_mkwrite x \<equiv> x\<lparr>ctx_total_mkwrite := ctx_total_mkwrite x + 1\<rparr>"

text \<open>
  The dirty bit, the released reference and the counter, in one update.  The reference
  that \<open>lp_lookup\<close> took is given back, so the count of the logical page is unchanged.
\<close>

lemma kdb_page_mkwrite_run:
  assumes k: "kmem_ok h m" and c: "ctxs m c = Some x"
    and n: "off div ucast (ctx_cp_per_lp x) < ctx_n_lpn x"
    and v: "lp_view (lps m) x (off div ucast (ctx_cp_per_lp x)) = Some p"
    and lp: "lps m p = Some lp"
    and b: "set_bit_in (unat (off mod ucast (ctx_cp_per_lp x))) (lp_dirty_bitmap lp) = Inr bm"
  shows "kdb_page_mkwrite h (Some c) off m =
      Inr (VM_FAULT_LOCKED,
           (upd_ctx c count_mkwrite (upd_lp p (\<lambda>l. l\<lparr>lp_dirty_bitmap := bm\<rparr>) m))
             \<lparr>klog := (if lp_refcount lp = 0 then klog m @ [Lp_refcount_zero] else klog m)\<rparr>)"
proof -
  note g = kmem_okD(3) [OF k c]
  have nz: "ctx_cp_per_lp x \<noteq> 0" using g by (auto simp: ctx_geom_def)
  from n have nn: "\<not> ctx_n_lpn x \<le> off div ucast (ctx_cp_per_lp x)" by simp
  have z: "lp\<lparr>lp_dirty_bitmap := bm, lp_refcount := 0\<rparr> = lp\<lparr>lp_dirty_bitmap := bm\<rparr>"
    if "lp_refcount lp = 0"
    using that by (cases lp) simp
  show ?thesis
    using c lp v b nz nn cpi_decode(1) [OF g, of off]
    by (cases "lp_refcount lp = 0")
      (simp_all add: kdb_page_mkwrite_def lp_lookup_eq [OF k c n] Let_def lp_put_def upd_lp_def
        upd_ctx_def z)
qed

lemma shape_pres_dirty:
  "length bm = length (lp_dirty_bitmap lp) \<Longrightarrow> lps m p = Some lp \<Longrightarrow>
     upd_lp p (\<lambda>l. l\<lparr>lp_dirty_bitmap := bm\<rparr>) m =
     upd_lp p (\<lambda>l. if length (lp_dirty_bitmap l) = length bm then l\<lparr>lp_dirty_bitmap := bm\<rparr> else l) m"
  by (simp add: upd_lp_def)

lemma dirty_at_set:
  assumes fr: "same_frame m m'" and c: "ctxs m c = Some x"
    and v: "ctx_view m c (off div ucast (ctx_cp_per_lp x)) = Some p"
    and slot: "\<And>q a. dirty_slot (lps m') q a \<longleftrightarrow>
        (q = p \<and> a = unat (off mod ucast (ctx_cp_per_lp x))) \<or> dirty_slot (lps m) q a"
  shows "dirty_at m' c j \<longleftrightarrow> j = off \<or> dirty_at m c j"
proof -
  from same_frame_ctx [OF fr c] obtain y
    where y: "ctxs m' c = Some y" "ctx_cp_per_lp y = ctx_cp_per_lp x" by blast
  have view: "ctx_view m' c = ctx_view m c" using fr by (simp only: same_frame_def)
  show ?thesis
  proof (cases "j = off")
    case True
    then show ?thesis
      using v slot by (simp add: dirty_at_view [OF y(1)] view y(2))
  next
    case False
    have "\<not> (ctx_view m c (j div ucast (ctx_cp_per_lp x)) = Some p \<and>
             unat (j mod ucast (ctx_cp_per_lp x)) = unat (off mod ucast (ctx_cp_per_lp x)))"
      using False v ctx_view_inj pgoff_decode_inj by blast
    then show ?thesis
      using False slot
      by (auto simp: dirty_at_view [OF y(1)] dirty_at_view [OF c] view y(2) split: option.splits)
  qed
qed

lemma kdb_page_mkwrite_ok:
  assumes ok: "kdb_ok h m" and c: "ctxs m c = Some x"
    and n: "off div ucast (ctx_cp_per_lp x) < ctx_n_lpn x"
    and v: "ctx_view m c (off div ucast (ctx_cp_per_lp x)) = Some p"
  shows "\<exists>m'. kdb_page_mkwrite h (Some c) off m = Inr (VM_FAULT_LOCKED, m') \<and> kdb_ok h m' \<and>
           same_frame m m' \<and> page_at m' = page_at m \<and>
           (\<forall>k. dirty_at m' c k \<longleftrightarrow> k = off \<or> dirty_at m c k) \<and>
           (\<forall>q a. q \<noteq> p \<longrightarrow> dirty_slot (lps m') q a = dirty_slot (lps m) q a)"
proof -
  from ok have k: "kmem_ok h m" by (simp add: kdb_ok_def)
  from v c have v': "lp_view (lps m) x (off div ucast (ctx_cp_per_lp x)) = Some p"
    by (simp add: ctx_view_def)
  then have pt: "p \<in> set (ctx_table x)" by (metis lp_view_SomeD)
  from table_okD [OF kmem_okD(4) [OF k c] pt] obtain lp where lp: "lps m p = Some lp" "lp_ok x lp"
    by blast
  let ?i = "unat (off mod ucast (ctx_cp_per_lp x))"
  have i: "?i < unat (ctx_cp_per_lp x)" by (rule cpi_decode(2) [OF kmem_okD(3) [OF k c]])
  from lp(2) have "length (lp_dirty_bitmap lp) = BITS_TO_LONGS (unat (ctx_cp_per_lp x))"
    by (simp add: lp_ok_def)
  from set_bit_in_total [OF this i] obtain bm
    where bm: "set_bit_in ?i (lp_dirty_bitmap lp) = Inr bm" "length bm = length (lp_dirty_bitmap lp)"
    by blast
  define f where "f = (\<lambda>l::lp_state. if length (lp_dirty_bitmap l) = length bm then l\<lparr>lp_dirty_bitmap := bm\<rparr> else l)"
  let ?m' = "(upd_ctx c count_mkwrite (upd_lp p f m))
             \<lparr>klog := (if lp_refcount lp = 0 then klog m @ [Lp_refcount_zero] else klog m)\<rparr>"
  have sp: "shape_pres f" and cp: "\<And>l. lp_cp (f l) = lp_cp l" by (auto simp: f_def shape_pres_def)
  have run: "kdb_page_mkwrite h (Some c) off m = Inr (VM_FAULT_LOCKED, ?m')"
    using kdb_page_mkwrite_run [OF k c n v' lp(1) bm(1)] shape_pres_dirty [OF bm(2) lp(1)]
    by (simp add: f_def)
  have "kdb_ok h ?m'" by (rule kdb_ok_finish(2) [OF ok _ sp cp]) simp
  moreover have fr: "same_frame m ?m'"
    using same_frame_finish(3) [OF _ sp, of count_mkwrite m c p] by (simp add: same_frame_def)
  moreover have "page_at ?m' = page_at m"
    using page_at_frame [OF fr] by (simp add: page_slot_upd [OF cp] fun_eq_iff)
  moreover have ds: "dirty_slot (lps ?m') q a \<longleftrightarrow> (q = p \<and> a = ?i) \<or> dirty_slot (lps m) q a" for q a
    using lp(1) bm test_set_bit_in [OF bm(1), of a] by (auto simp: dirty_slot_def f_def)
  then have "dirty_at ?m' c j \<longleftrightarrow> j = off \<or> dirty_at m c j" for j
    by (rule dirty_at_set [OF fr c v])
  ultimately show ?thesis using run ds by blast
qed

section \<open>Closing a mapping\<close>

lemma pages_ok_restrict:
  "pages_ok m \<Longrightarrow> lps m' = lps m |` A \<Longrightarrow> page_refs (pool m') = page_refs (pool m) \<Longrightarrow> pages_ok m'"
  by (rule pages_ok_mono) (auto simp: page_slot_def restrict_map_def split: if_splits)

lemma kdb_page_mkwrite_range:
  assumes ok: "kdb_ok h m" and c: "ctxs m c = Some x" and w: "kdb_page_mkwrite h (Some c) off m = Inr (r, m')"
  shows "pg_in_range m' = pg_in_range m"
proof -
  from ok have k: "kmem_ok h m" by (simp add: kdb_ok_def)
  let ?n = "off div ucast (ctx_cp_per_lp x)"
  have nz: "ctx_cp_per_lp x \<noteq> 0" using kmem_okD(3) [OF k c] by (auto simp: ctx_geom_def)
  show ?thesis
  proof (cases "?n < ctx_n_lpn x")
    case False
    with w c nz have "m' = m" by (simp add: kdb_page_mkwrite_def Let_def linorder_not_less)
    then show ?thesis by simp
  next
    case n: True
    show ?thesis
    proof (cases "ctx_view m c ?n")
      case None
      moreover have "\<not> ctx_n_lpn x \<le> ?n" using n by simp
      ultimately have "m' = m" using w c nz
        by (simp add: kdb_page_mkwrite_def Let_def lp_lookup_eq [OF k c n] ctx_view_def)
      then show ?thesis by simp
    next
      case (Some p)
      with kdb_page_mkwrite_ok [OF ok c n] w same_frame_range show ?thesis by auto
    qed
  qed
qed

lemma kdb_vma_close_ok:
  assumes ok: "kdb_ok h m" and v: "vm_private_data vma = Some c" and c: "ctxs m c = Some x"
  shows "\<exists>m'. kdb_vma_close vma m = Inr (vma\<lparr>vm_private_data := None\<rparr>, m') \<and> kdb_ok h m' \<and>
           ctxs m' = (ctxs m)(c := None) \<and> page_refs (pool m') = page_refs (pool m) \<and>
           cp_allocated (pool m') = cp_allocated (pool m) - of_nat (resident_ctx (lps m) x)"
proof -
  from ok have k: "kmem_ok h m" and pk: "pages_ok m" and a: "acct_ok m"
    by (simp_all add: kdb_ok_def)
  let ?m' = "m\<lparr>pool := (cp_untrack ^^ resident_ctx (lps m) x) (pool m),
               lps := lps m |` (- set (ctx_table x)), ctxs := (ctxs m)(c := None)\<rparr>"
  note d = vma_ctx_destroy_eq [OF k c]
  have "kdb_ok h ?m'"
    using vma_ctx_destroy_inv(1) [OF k c d] acct_ok_destroy [OF k c a d]
      pages_ok_restrict [OF pk, of ?m'] by (simp add: kdb_ok_def untrack_funpow)
  with d v show ?thesis by (simp add: kdb_vma_close_def untrack_funpow)
qed

text \<open>A mapping whose context is already gone: the destructor runs on a dead object.\<close>

lemma kdb_vma_close_dead:
  "vm_private_data vma = Some c \<Longrightarrow> ctxs m c = None \<Longrightarrow> kdb_vma_close vma m = Inl UseAfterFree"
  by (simp add: kdb_vma_close_def vma_ctx_destroy_def)

end
