(* ===== verification/Lp_Concurrent.thy ===== *)
theory Lp_Concurrent
  imports Lp_Lifecycle
begin

text \<open>
  Concurrent callers of \<open>lp_get_or_create\<close> on one context.  The function takes the hash lock
  twice and allocates in between, so another caller may insert the same logical page while
  it allocates.  A thread is a program counter; its two critical sections and the allocation
  are the atomic steps, interleaved in any order, and a thread that got a state gives its
  reference back with \<open>lp_put\<close> at any later time.
\<close>

section \<open>Threads and steps\<close>

datatype goc_pc =
    Start u64
  | Alloc u64
  | Insert u64 lp_ptr
  | Return u64 "lp_ptr option"
  | Finished

record goc_sys =
  g_mem :: kmem
  g_pcs :: "goc_pc list"

inductive goc_step :: "hash64 \<Rightarrow> ctx_ptr \<Rightarrow> goc_sys \<Rightarrow> goc_sys \<Rightarrow> bool" for h c where
  range: "t < length (g_pcs s) \<Longrightarrow> g_pcs s ! t = Start n \<Longrightarrow> ctxs (g_mem s) c = Some x \<Longrightarrow>
     \<not> n < ctx_n_lpn x \<Longrightarrow> goc_step h c s \<lparr>g_mem = g_mem s, g_pcs = (g_pcs s)[t := Return n None]\<rparr>"
| find: "t < length (g_pcs s) \<Longrightarrow> g_pcs s ! t = Start n \<Longrightarrow> ctxs (g_mem s) c = Some x \<Longrightarrow>
     n < ctx_n_lpn x \<Longrightarrow> lp_find_ref h c n (g_mem s) = Inr (r, m) \<Longrightarrow>
     goc_step h c s \<lparr>g_mem = m, g_pcs = (g_pcs s)[t := (if r = None then Alloc n else Return n r)]\<rparr>"
| alloc: "t < length (g_pcs s) \<Longrightarrow> g_pcs s ! t = Alloc n \<Longrightarrow> ctxs (g_mem s) c = Some x \<Longrightarrow>
     lp_fresh am (g_mem s) \<Longrightarrow> lp_alloc am x n (g_mem s) = (r, m) \<Longrightarrow>
     goc_step h c s \<lparr>g_mem = m,
       g_pcs = (g_pcs s)[t := (case r of None \<Rightarrow> Return n None | Some p \<Rightarrow> Insert n p)]\<rparr>"
| insert: "t < length (g_pcs s) \<Longrightarrow> g_pcs s ! t = Insert n p \<Longrightarrow>
     lp_insert h c n p (g_mem s) = Inr (q, m) \<Longrightarrow>
     goc_step h c s \<lparr>g_mem = m, g_pcs = (g_pcs s)[t := Return n (Some q)]\<rparr>"
| put: "t < length (g_pcs s) \<Longrightarrow> g_pcs s ! t = Return n r \<Longrightarrow> lp_put r (g_mem s) = Inr m \<Longrightarrow>
     goc_step h c s \<lparr>g_mem = m, g_pcs = (g_pcs s)[t := Finished]\<rparr>"

definition goc_start :: "kmem \<Rightarrow> u64 list \<Rightarrow> goc_sys" where
  "goc_start m ns = \<lparr>g_mem = m, g_pcs = map Start ns\<rparr>"

section \<open>Invariant\<close>

text \<open>The references that the running threads hold on a state.\<close>

definition holds :: "lp_ptr \<Rightarrow> goc_pc \<Rightarrow> bool" where
  "holds p k \<longleftrightarrow> (\<exists>n. k = Return n (Some p))"

definition n_refs :: "lp_ptr \<Rightarrow> goc_pc list \<Rightarrow> nat" where
  "n_refs p ks = length (filter (holds p) ks)"

definition pc_ok :: "kmem \<Rightarrow> ctx_ptr \<Rightarrow> vma_ctx \<Rightarrow> goc_pc \<Rightarrow> bool" where
  "pc_ok m c x k = (case k of
      Alloc n \<Rightarrow> n < ctx_n_lpn x
    | Insert n p \<Rightarrow> n < ctx_n_lpn x \<and> unlinked m p \<and> lps m p = Some (lp_new x n)
    | Return n (Some p) \<Rightarrow> lp_view (lps m) x n = Some p
    | _ \<Rightarrow> True)"

definition private_lps :: "goc_pc list \<Rightarrow> bool" where
  "private_lps ks \<longleftrightarrow> (\<forall>i j a b p. i < length ks \<longrightarrow> j < length ks \<longrightarrow> ks ! i = Insert a p \<longrightarrow>
     ks ! j = Insert b p \<longrightarrow> i = j)"

definition goc_ok :: "hash64 \<Rightarrow> ctx_ptr \<Rightarrow> goc_sys \<Rightarrow> bool" where
  "goc_ok h c s \<longleftrightarrow> kmem_ok h (g_mem s) \<and> private_lps (g_pcs s) \<and>
     (\<exists>x. ctxs (g_mem s) c = Some x \<and> (\<forall>k \<in> set (g_pcs s). pc_ok (g_mem s) c x k) \<and>
        (\<forall>p lp. p \<in> set (ctx_table x) \<longrightarrow> lps (g_mem s) p = Some lp \<longrightarrow>
           lp_refcount lp = of_nat (n_refs p (g_pcs s))))"

lemma n_refs_update:
  "t < length ks \<Longrightarrow> n_refs p (ks[t := k]) + (if holds p (ks ! t) then 1 else 0) =
     n_refs p ks + (if holds p k then 1 else 0)"
proof (induction ks arbitrary: t)
  case (Cons a ks)
  then show ?case by (cases t) (fastforce simp: n_refs_def)+
qed simp

lemma n_refs_same:
  "t < length ks \<Longrightarrow> holds p (ks ! t) = holds p k \<Longrightarrow> n_refs p (ks[t := k]) = n_refs p ks"
  using n_refs_update [of t ks p k] by (simp split: if_splits)

lemma n_refs_0: "(\<And>i n. i < length ks \<Longrightarrow> ks ! i \<noteq> Return n (Some p)) \<Longrightarrow> n_refs p ks = 0"
  by (auto simp: n_refs_def filter_empty_conv holds_def in_set_conv_nth)

lemma holds_simps [simp]:
  "\<not> holds p (Start n)" "\<not> holds p (Alloc n)" "\<not> holds p (Insert n q)" "\<not> holds p Finished"
  "\<not> holds p (Return n None)" "holds p (Return n (Some q)) \<longleftrightarrow> q = p"
  by (auto simp: holds_def)

lemma pc_ok_simps [simp]:
  "pc_ok m c x (Start n)" "pc_ok m c x (Alloc n) \<longleftrightarrow> n < ctx_n_lpn x" "pc_ok m c x (Return n None)"
  "pc_ok m c x (Insert n p) \<longleftrightarrow> n < ctx_n_lpn x \<and> unlinked m p \<and> lps m p = Some (lp_new x n)"
  "pc_ok m c x (Return n (Some p)) \<longleftrightarrow> lp_view (lps m) x n = Some p" "pc_ok m c x Finished"
  by (simp_all add: pc_ok_def)

lemma pc_ok_klog [simp]: "pc_ok (m\<lparr>klog := l\<rparr>) c x k = pc_ok m c x k"
  by (simp add: pc_ok_def unlinked_def split: goc_pc.split option.split)

lemma private_lps_update:
  "t < length ks \<Longrightarrow> private_lps ks \<Longrightarrow>
     (\<And>n p. k = Insert n p \<Longrightarrow> \<forall>j b. j < length ks \<longrightarrow> ks ! j \<noteq> Insert b p) \<Longrightarrow>
     private_lps (ks[t := k])"
  unfolding private_lps_def by (auto simp: nth_list_update)

lemma goc_okI:
  assumes "kmem_ok h m" and "private_lps ks" and "ctxs m c = Some x"
    and "\<And>k. k \<in> set ks \<Longrightarrow> pc_ok m c x k"
    and "\<And>p lp. p \<in> set (ctx_table x) \<Longrightarrow> lps m p = Some lp \<Longrightarrow> lp_refcount lp = of_nat (n_refs p ks)"
  shows "goc_ok h c \<lparr>g_mem = m, g_pcs = ks\<rparr>"
  using assms by (auto simp: goc_ok_def)

lemma goc_okD:
  assumes "goc_ok h c s" and "ctxs (g_mem s) c = Some x"
  shows "kmem_ok h (g_mem s)" and "private_lps (g_pcs s)"
    and "i < length (g_pcs s) \<Longrightarrow> pc_ok (g_mem s) c x (g_pcs s ! i)"
    and "p \<in> set (ctx_table x) \<Longrightarrow> lps (g_mem s) p = Some lp \<Longrightarrow>
       lp_refcount lp = of_nat (n_refs p (g_pcs s))"
  using assms by (auto simp: goc_ok_def)

lemma goc_ok_ctx: "goc_ok h c s \<Longrightarrow> \<exists>x. ctxs (g_mem s) c = Some x"
  by (auto simp: goc_ok_def)

lemma set_update_cases: "t < length ks \<Longrightarrow> k \<in> set (ks[t := a]) \<Longrightarrow> k = a \<or> (\<exists>i < length ks. i \<noteq> t \<and> k = ks ! i)"
  by (auto simp: in_set_conv_nth nth_list_update split: if_splits)

section \<open>The steps keep the invariant\<close>

lemma pc_ok_upd_lp:
  assumes "ctxs m c = Some x" and "q \<in> set (ctx_table x)" and "shape_pres f" and "pc_ok m c x k"
  shows "pc_ok (upd_lp q f m) c x k"
  using assms by (auto simp: pc_ok_def unlinked_def lp_view_upd split: goc_pc.splits option.splits)

lemma pc_ok_heap:
  assumes "ctxs m c = Some x" and "unlinked m p" and "\<And>n. k \<noteq> Insert n p" and "pc_ok m c x k"
  shows "pc_ok (m\<lparr>lps := (lps m)(p := v)\<rparr>) c x k"
  using assms
  by (auto simp: pc_ok_def unlinked_def lp_view_heap_update split: goc_pc.splits option.splits)

lemma goc_find_hit:
  assumes ok: "goc_ok h c s" and t: "t < length (g_pcs s)" and k: "\<And>p. \<not> holds p (g_pcs s ! t)"
    and x: "ctxs (g_mem s) c = Some x" and v: "lp_view (lps (g_mem s)) x n = Some q"
  shows "goc_ok h c \<lparr>g_mem = upd_lp q inc_ref (g_mem s), g_pcs = (g_pcs s)[t := Return n (Some q)]\<rparr>"
proof -
  note o = goc_okD [OF ok x]
  from v have q: "q \<in> set (ctx_table x)" by (metis lp_view_SomeD)
  show ?thesis
  proof (rule goc_okI [where x = x])
    show "kmem_ok h (upd_lp q inc_ref (g_mem s))" using o(1) by (rule kmem_ok_upd_lp) simp
    show "private_lps ((g_pcs s)[t := Return n (Some q)])" using o(2) by (intro private_lps_update [OF t]) simp_all
    show "ctxs (upd_lp q inc_ref (g_mem s)) c = Some x" using x by simp
    show "pc_ok (upd_lp q inc_ref (g_mem s)) c x k" if "k \<in> set ((g_pcs s)[t := Return n (Some q)])" for k
      using set_update_cases [OF t that] v o(3) pc_ok_upd_lp [OF x q] by (auto simp: lp_view_upd)
    show "lp_refcount lp = of_nat (n_refs p ((g_pcs s)[t := Return n (Some q)]))"
      if "p \<in> set (ctx_table x)" "lps (upd_lp q inc_ref (g_mem s)) p = Some lp" for p lp
      using that o(4) [of p] n_refs_update [OF t, of p "Return n (Some q)"] k [of p]
      by (auto split: if_splits)
  qed
qed

lemma goc_pc_move:
  assumes ok: "goc_ok h c s" and t: "t < length (g_pcs s)" and x: "ctxs (g_mem s) c = Some x"
    and k: "\<And>p. holds p (g_pcs s ! t) = holds p k" "\<And>n p. k \<noteq> Insert n p" "pc_ok (g_mem s) c x k"
  shows "goc_ok h c \<lparr>g_mem = g_mem s, g_pcs = (g_pcs s)[t := k]\<rparr>"
proof (rule goc_okI [where x = x])
  note o = goc_okD [OF ok x]
  show "private_lps ((g_pcs s)[t := k])" using o(2) k(2) by (intro private_lps_update [OF t]) blast+
  show "pc_ok (g_mem s) c x j" if "j \<in> set ((g_pcs s)[t := k])" for j
    using set_update_cases [OF t that] o(3) k(3) by auto
  show "lp_refcount lp = of_nat (n_refs p ((g_pcs s)[t := k]))"
    if "p \<in> set (ctx_table x)" "lps (g_mem s) p = Some lp" for p lp
    using o(4) [OF that] n_refs_same [OF t k(1)] by simp
qed (use goc_okD [OF ok x] x in simp_all)

text \<open>Allocation: the new object is private to its thread.\<close>

lemma goc_alloc:
  assumes ok: "goc_ok h c s" and t: "t < length (g_pcs s)" and k: "g_pcs s ! t = Alloc n"
    and x: "ctxs (g_mem s) c = Some x" and p: "lps (g_mem s) p = None"
  shows "goc_ok h c \<lparr>g_mem = (g_mem s)\<lparr>lps := (lps (g_mem s))(p \<mapsto> lp_new x n)\<rparr>,
                     g_pcs = (g_pcs s)[t := Insert n p]\<rparr>" (is "goc_ok h c \<lparr>g_mem = ?m, g_pcs = ?ks\<rparr>")
proof (rule goc_okI [where x = x])
  note o = goc_okD [OF ok x]
  have u: "unlinked (g_mem s) p" using o(1) p by (rule dead_unlinked)
  have new: "g_pcs s ! j \<noteq> Insert b p" if "j < length (g_pcs s)" for j b
    using o(3) [OF that] p by auto
  have nx: "n < ctx_n_lpn x" using o(3) [OF t] k by simp
  show "kmem_ok h ?m" using o(1) u by (rule kmem_ok_heap_update)
  show "private_lps ?ks" using o(2) new by (intro private_lps_update [OF t]) auto
  show "ctxs ?m c = Some x" using x by simp
  show "pc_ok ?m c x j" if "j \<in> set ?ks" for j
    using set_update_cases [OF t that]
  proof
    assume "j = Insert n p"
    with nx u show ?thesis by (simp add: unlinked_def)
  next
    assume "\<exists>i < length (g_pcs s). i \<noteq> t \<and> j = g_pcs s ! i"
    then show ?thesis using new o(3) by (auto intro!: pc_ok_heap [OF x u])
  qed
  show "lp_refcount lp = of_nat (n_refs q ?ks)"
    if "q \<in> set (ctx_table x)" "lps ?m q = Some lp" for q lp
    using that u x o(4) n_refs_same [OF t, of q "Insert n p"] k by (auto simp: unlinked_def split: if_splits)
qed

text \<open>Insertion, when no other caller was faster.\<close>

lemma goc_link:
  assumes ok: "goc_ok h c s" and t: "t < length (g_pcs s)" and k: "g_pcs s ! t = Insert n p"
    and x: "ctxs (g_mem s) c = Some x" and v: "lp_view (lps (g_mem s)) x n = None"
  shows "goc_ok h c \<lparr>g_mem = (g_mem s)\<lparr>ctxs := (ctxs (g_mem s))(c \<mapsto> link_ctx h p n x)\<rparr>,
                     g_pcs = (g_pcs s)[t := Return n (Some p)]\<rparr>" (is "goc_ok h c \<lparr>g_mem = ?m, g_pcs = ?ks\<rparr>")
proof (rule goc_okI [where x = "link_ctx h p n x"])
  note o = goc_okD [OF ok x]
  from o(3) [OF t] k have nx: "n < ctx_n_lpn x" and u: "unlinked (g_mem s) p"
    and p: "lps (g_mem s) p = Some (lp_new x n)" by auto
  note h = kmem_okD(1) [OF o(1)] and tab = kmem_okD(4) [OF o(1) x]
  have np: "p \<notin> set (ctx_table x)" using u x by (auto simp: unlinked_def)
  have lpn: "lp_lpn (lp_new x n) = n" by (simp add: lp_new_def)
  note st = set_table_link [OF h table_ok_shape(1) [OF tab], of p n]
    and vw = lp_view_link [OF h tab p lp_ok_new [OF nx] lpn v np]
  show "kmem_ok h ?m" by (rule kmem_ok_link [OF o(1) x p lp_ok_new [OF nx] lpn v u])
  show "private_lps ?ks" using o(2) by (intro private_lps_update [OF t]) simp_all
  show "ctxs ?m c = Some (link_ctx h p n x)" by simp
  show "pc_ok ?m c (link_ctx h p n x) j" if "j \<in> set ?ks" for j
    using set_update_cases [OF t that]
  proof
    assume "j = Return n (Some p)"
    with vw show ?thesis by simp
  next
    assume "\<exists>i < length (g_pcs s). i \<noteq> t \<and> j = g_pcs s ! i"
    then obtain i where i: "i < length (g_pcs s)" "i \<noteq> t" "j = g_pcs s ! i" by blast
    then have ne: "j \<noteq> Insert b p" for b using o(2) k t by (auto simp: private_lps_def)
    have "lp_new (link_ctx h p n x) b = lp_new x b" for b by (simp add: lp_new_def)
    with o(3) [OF i(1)] ne vw v x st show ?thesis
      unfolding i(3) [symmetric] by (auto simp: pc_ok_def unlinked_def split: goc_pc.splits option.splits)
  qed
  have none: "n_refs p (g_pcs s) = 0"
  proof (rule n_refs_0)
    fix i b assume "i < length (g_pcs s)"
    from o(3) [OF this] np show "g_pcs s ! i \<noteq> Return b (Some p)" by (auto dest: lp_view_SomeD)
  qed
  show "lp_refcount lp = of_nat (n_refs q ?ks)"
    if "q \<in> set (ctx_table (link_ctx h p n x))" "lps ?m q = Some lp" for q lp
    using that p np o(4) [of q lp] n_refs_update [OF t, of q "Return n (Some p)"] k none
    by (cases "q = p") (auto simp: st lp_new_def)
qed

text \<open>Insertion, when another caller was faster: the private object is freed, a reference taken.\<close>

lemma goc_drop:
  assumes ok: "goc_ok h c s" and t: "t < length (g_pcs s)" and k: "g_pcs s ! t = Insert n p"
    and x: "ctxs (g_mem s) c = Some x" and j: "\<And>a b. j \<noteq> Insert a b" "\<And>q. \<not> holds q j"
      "pc_ok (g_mem s) c x j"
  shows "goc_ok h c \<lparr>g_mem = (g_mem s)\<lparr>lps := (lps (g_mem s))(p := None)\<rparr>, g_pcs = (g_pcs s)[t := j]\<rparr>"
    (is "goc_ok h c \<lparr>g_mem = ?m, g_pcs = ?ks\<rparr>")
proof (rule goc_okI [where x = x])
  note o = goc_okD [OF ok x]
  from o(3) [OF t] k have u: "unlinked (g_mem s) p" by auto
  show "kmem_ok h ?m" using o(1) u by (rule kmem_ok_heap_update)
  show "private_lps ?ks" using o(2) j(1) by (intro private_lps_update [OF t]) blast+
  show "ctxs ?m c = Some x" using x by simp
  show "pc_ok ?m c x i" if "i \<in> set ?ks" for i
    using set_update_cases [OF t that]
  proof
    assume "i = j"
    with j show ?thesis by (auto intro!: pc_ok_heap [OF x u])
  next
    assume "\<exists>l < length (g_pcs s). l \<noteq> t \<and> i = g_pcs s ! l"
    then obtain l where l: "l < length (g_pcs s)" "l \<noteq> t" "i = g_pcs s ! l" by blast
    then have "i \<noteq> Insert b p" for b using o(2) k t by (auto simp: private_lps_def)
    with l o(3) [OF l(1)] show ?thesis by (auto intro!: pc_ok_heap [OF x u])
  qed
  show "lp_refcount lp = of_nat (n_refs q ?ks)"
    if "q \<in> set (ctx_table x)" "lps ?m q = Some lp" for q lp
    using that u x o(4) n_refs_same [OF t, of q j] k j(2) by (auto simp: unlinked_def split: if_splits)
qed

lemma goc_put:
  assumes ok: "goc_ok h c s" and t: "t < length (g_pcs s)" and k: "g_pcs s ! t = Return n (Some p)"
    and m: "lp_put (Some p) (g_mem s) = Inr m"
  shows "goc_ok h c \<lparr>g_mem = m, g_pcs = (g_pcs s)[t := Finished]\<rparr>" (is "goc_ok h c \<lparr>g_mem = m, g_pcs = ?ks\<rparr>")
proof -
  from goc_ok_ctx [OF ok] obtain x where x: "ctxs (g_mem s) c = Some x" by blast
  note o = goc_okD [OF ok x]
  from o(3) [OF t] k have v: "lp_view (lps (g_mem s)) x n = Some p" by simp
  then obtain lp where p: "p \<in> set (ctx_table x)" "lps (g_mem s) p = Some lp" by (metis lp_view_SomeD)
  from m lp_put_eq [OF p(2)] obtain l where m': "m = (upd_lp p dec_ref (g_mem s))\<lparr>klog := l\<rparr>"
    by (auto simp: Let_def split: if_splits) (metis kmem.surjective kmem.update_convs(4))
  show ?thesis
  proof (rule goc_okI [where x = x])
    show "kmem_ok h m" using kmem_ok_upd_lp [OF o(1), of dec_ref p] kmem_ok_cong [of m "upd_lp p dec_ref (g_mem s)"]
      by (simp add: m')
    show "private_lps ?ks" using o(2) by (intro private_lps_update [OF t]) simp_all
    show "ctxs m c = Some x" using x by (simp add: m')
    show "pc_ok m c x j" if "j \<in> set ?ks" for j
    proof -
      have "pc_ok (upd_lp p dec_ref (g_mem s)) c x j"
        using set_update_cases [OF t that] o(3) by (auto intro: pc_ok_upd_lp [OF x p(1)])
      then show ?thesis by (simp add: m')
    qed
    show "lp_refcount l = of_nat (n_refs q ?ks)" if "q \<in> set (ctx_table x)" "lps m q = Some l" for q l
    proof (cases "q = p")
      case True
      have "n_refs p (g_pcs s) = Suc (n_refs p ?ks)" using n_refs_update [OF t, of p Finished] k by simp
      then have "lp_refcount lp - 1 = of_nat (n_refs p ?ks)" using o(4) [OF p] by simp
      with that(2) True p(2) show ?thesis by (auto simp: m')
    next
      case False
      with that o(4) [of q l] n_refs_same [OF t, of q Finished] k show ?thesis by (simp add: m')
    qed
  qed
qed

lemma goc_insert_found:
  assumes ok: "goc_ok h c s" and t: "t < length (g_pcs s)" and k: "g_pcs s ! t = Insert n p" and x: "ctxs (g_mem s) c = Some x"
    and q: "lp_view (lps (g_mem s)) x n = Some q"
  shows "goc_ok h c \<lparr>g_mem = upd_lp q inc_ref ((g_mem s)\<lparr>lps := (lps (g_mem s))(p := None)\<rparr>),
    g_pcs = (g_pcs s)[t := Return n (Some q)]\<rparr>" and "q \<noteq> p"
proof -
  let ?s = "\<lparr>g_mem = (g_mem s)\<lparr>lps := (lps (g_mem s))(p := None)\<rparr>, g_pcs = (g_pcs s)[t := Start n]\<rparr>"
  have u: "p \<notin> set (ctx_table x)" using goc_okD(3) [OF ok x t] k x by (auto simp: unlinked_def)
  have "goc_ok h c ?s" using goc_drop [OF ok t k x, of "Start n"] by simp
  moreover have "lp_view (lps (g_mem ?s)) x n = Some q" using q u by (simp add: lp_view_heap_update)
  ultimately have "goc_ok h c \<lparr>g_mem = upd_lp q inc_ref (g_mem ?s), g_pcs = (g_pcs ?s)[t := Return n (Some q)]\<rparr>"
    using t x by (intro goc_find_hit [where x = x]) simp_all
  then show "goc_ok h c \<lparr>g_mem = upd_lp q inc_ref ((g_mem s)\<lparr>lps := (lps (g_mem s))(p := None)\<rparr>),
    g_pcs = (g_pcs s)[t := Return n (Some q)]\<rparr>" by simp
  show "q \<noteq> p" using q u by (metis lp_view_SomeD)
qed

lemma goc_ok_step:
  assumes ok: "goc_ok h c s" and st: "goc_step h c s s'"
  shows "goc_ok h c s'"
  using st
proof cases
  case (range t n x)
  with goc_pc_move [OF ok range(2) range(4), of "Return n None"] show ?thesis by simp
next
  case (find t n x r m)
  note o = goc_okD(1) [OF ok find(4)]
  from find(6) lp_find_ref_eq [OF o find(4)]
  have rm: "(r, m) = (case lp_view (lps (g_mem s)) x n of None \<Rightarrow> (None, g_mem s)
      | Some p \<Rightarrow> (Some p, upd_lp p inc_ref (g_mem s)))" by simp
  show ?thesis
  proof (cases "lp_view (lps (g_mem s)) x n")
    case None
    with rm find goc_pc_move [OF ok find(2) find(4), of "Alloc n"] show ?thesis by simp
  next
    case (Some p)
    with rm find goc_find_hit [OF ok find(2) _ find(4) Some] show ?thesis by simp
  qed
next
  case (alloc t n x am r m)
  show ?thesis
  proof (cases "lp_mem_ok am")
    case True
    then obtain p where p: "lm_state am = Some p" by (auto simp: lp_mem_ok_def)
    then have "lps (g_mem s) p = None" using alloc(5) by (simp add: lp_fresh_def)
    moreover have "r = Some p" "m = (g_mem s)\<lparr>lps := (lps (g_mem s))(p \<mapsto> lp_new x n)\<rparr>"
      using alloc(6) p True by (simp_all add: lp_alloc_eq)
    ultimately show ?thesis using goc_alloc [OF ok alloc(2,3,4)] alloc(1) by simp
  next
    case False
    with alloc lp_alloc_fail [OF alloc(5)] goc_pc_move [OF ok alloc(2) alloc(4), of "Return n None"]
    show ?thesis by simp
  qed
next
  case (insert t n p q m)
  from goc_ok_ctx [OF ok] obtain x where x: "ctxs (g_mem s) c = Some x" by blast
  note eq = lp_insert_eq [OF goc_okD(1) [OF ok x] x, of n p]
  show ?thesis
  proof (cases "lp_view (lps (g_mem s)) x n")
    case None
    with eq insert goc_link [OF ok insert(2,3) x None] show ?thesis by simp
  next
    case (Some q')
    from goc_insert_found [OF ok insert(2,3) x Some] eq insert(1,4) Some show ?thesis
      by (simp add: upd_lp_def fun_upd_twist)
  qed
next
  case (put t n r m)
  show ?thesis
  proof (cases r)
    case None
    from goc_ok_ctx [OF ok] obtain x where x: "ctxs (g_mem s) c = Some x" by blast
    from None put goc_pc_move [OF ok put(2) x, of Finished] show ?thesis by (simp add: lp_put_def)
  next
    case (Some p)
    with put goc_put [OF ok put(2), of n p m] show ?thesis by simp
  qed
qed

lemma n_refs_start [simp]: "n_refs p (map Start ns) = 0"
  by (rule n_refs_0) simp

lemma goc_ok_start:
  assumes "kmem_ok h m" and "rc_zero m" and "ctxs m c = Some x"
  shows "goc_ok h c (goc_start m ns)"
  unfolding goc_start_def
  by (rule goc_okI [OF assms(1) _ assms(3)])
    (use assms(2) in \<open>auto simp: private_lps_def rc_zero_def\<close>)

lemma goc_ok_reach: "(goc_step h c)\<^sup>*\<^sup>* s s' \<Longrightarrow> goc_ok h c s \<Longrightarrow> goc_ok h c s'"
  by (induction rule: rtranclp_induct) (auto intro: goc_ok_step)

section \<open>Progress and termination\<close>

fun pc_rank :: "goc_pc \<Rightarrow> nat" where
  "pc_rank (Start n) = 4"
| "pc_rank (Alloc n) = 3"
| "pc_rank (Insert n p) = 2"
| "pc_rank (Return n r) = 1"
| "pc_rank Finished = 0"

definition goc_rank :: "goc_sys \<Rightarrow> nat" where
  "goc_rank s = sum_list (map pc_rank (g_pcs s))"

lemma sum_rank_update:
  "t < length ks \<Longrightarrow> pc_rank k < pc_rank (ks ! t) \<Longrightarrow>
     sum_list (map pc_rank (ks[t := k])) < sum_list (map pc_rank ks)"
proof (induction ks arbitrary: t)
  case (Cons a ks)
  then show ?case by (cases t) fastforce+
qed simp

lemma goc_step_rank: "goc_step h c s s' \<Longrightarrow> goc_rank s' < goc_rank s"
  by (induction rule: goc_step.induct)
    (auto simp: goc_rank_def intro!: sum_rank_update split: option.split)

lemma goc_steps_bound: "(goc_step h c ^^ k) s s' \<Longrightarrow> k + goc_rank s' \<le> goc_rank s"
proof (induction k arbitrary: s')
  case (Suc k)
  then obtain t where "(goc_step h c ^^ k) s t" "goc_step h c t s'" by auto
  with Suc.IH goc_step_rank show ?case by fastforce
qed simp

text \<open>Every thread that has not finished can take its next step, whatever the others did.\<close>

lemma goc_progress:
  assumes ok: "goc_ok h c s" and t: "t < length (g_pcs s)" and k: "g_pcs s ! t \<noteq> Finished"
  shows "\<exists>s'. goc_step h c s s'"
proof -
  from goc_ok_ctx [OF ok] obtain x where x: "ctxs (g_mem s) c = Some x" by blast
  note o = goc_okD [OF ok x]
  show ?thesis
  proof (cases "g_pcs s ! t")
    case (Start n)
    show ?thesis
    proof (cases "n < ctx_n_lpn x")
      case True
      obtain r m where "lp_find_ref h c n (g_mem s) = Inr (r, m)"
        using lp_find_ref_eq [OF o(1) x, of n] by (cases "lp_view (lps (g_mem s)) x n") auto
      from goc_step.find [OF t Start x True this] show ?thesis ..
    next
      case False
      from goc_step.range [OF t Start x False] show ?thesis ..
    qed
  next
    case (Alloc n)
    let ?am = "\<lparr>lm_state = None, lm_cp = True, lm_bitmap = True\<rparr>"
    have "lp_fresh ?am (g_mem s)" by (simp add: lp_fresh_def)
    moreover have "lp_alloc ?am x n (g_mem s) = (None, g_mem s)" by (simp add: lp_alloc_def)
    ultimately show ?thesis using goc_step.alloc [OF t Alloc x] by blast
  next
    case (Insert n p)
    obtain q m where "lp_insert h c n p (g_mem s) = Inr (q, m)"
      using lp_insert_eq [OF o(1) x, of n p] by (cases "lp_view (lps (g_mem s)) x n") auto
    from goc_step.insert [OF t Insert this] show ?thesis ..
  next
    case (Return n r)
    have "\<exists>m. lp_put r (g_mem s) = Inr m"
    proof (cases r)
      case (Some p)
      with o(3) [OF t] Return have "lp_view (lps (g_mem s)) x n = Some p" by simp
      then obtain lp where "lps (g_mem s) p = Some lp" by (metis lp_view_SomeD)
      from lp_put_eq [OF this] Some show ?thesis by auto
    qed (simp add: lp_put_def)
    with goc_step.put [OF t Return] show ?thesis by blast
  qed (use k in simp)
qed

end
