(* ===== verification/Interleaving.thy ===== *)
theory Interleaving
  imports Kernel_Prelude
begin

text \<open>
  Threads over a shared state.  A thread is a control state; \<open>R k s k' s'\<close> is one atomic step of
  a thread at \<open>k\<close>.  \<open>par_step\<close> lets any thread of a list move.  The locale \<open>kept_threads\<close> collects
  what a component shows of its steps: they keep an invariant of the whole system and every step brings its
  thread closer to its end.  It follows that the invariant holds in every reachable state and that every schedule ends.
  In \<open>threads\<close> some thread can move as long as not all have finished, so every schedule ends with all threads
  finished.  In \<open>wait_free\<close> each unfinished thread can move, whatever the others do.
\<close>

section \<open>Interleaved steps\<close>

inductive par_step :: "('k \<Rightarrow> 's \<Rightarrow> 'k \<Rightarrow> 's \<Rightarrow> bool) \<Rightarrow> 's \<times> 'k list \<Rightarrow> 's \<times> 'k list \<Rightarrow> bool" for R where
  move: "t < length ks \<Longrightarrow> R (ks ! t) s k s' \<Longrightarrow> par_step R (s, ks) (s', ks[t := k])"

inductive_cases par_stepE: "par_step R (s, ks) x"

definition par_reach :: "('k \<Rightarrow> 's \<Rightarrow> 'k \<Rightarrow> 's \<Rightarrow> bool) \<Rightarrow> 's \<times> 'k list \<Rightarrow> 's \<times> 'k list \<Rightarrow> bool" where
  "par_reach R = (par_step R)\<^sup>*\<^sup>*"

lemma par_reach_length: "par_reach R a b \<Longrightarrow> length (snd b) = length (snd a)"
  unfolding par_reach_def by (induction rule: rtranclp_induct) (auto elim: par_step.cases)

text \<open>What every step keeps of each thread holds of the thread at the end.\<close>

lemma par_reach_thread:
  assumes "par_reach R a b" and "\<And>k s k' s'. R k s k' s' \<Longrightarrow> f k' = f k" and "t < length (snd a)"
  shows "f (snd b ! t) = f (snd a ! t)"
  using assms(1) unfolding par_reach_def
proof (induction rule: rtranclp_induct)
  case (step x y)
  have "length (snd x) = length (snd a)" using step.hyps(1) par_reach_length unfolding par_reach_def by blast
  with step assms(2,3) show ?case by (auto elim!: par_step.cases simp: nth_list_update)
qed simp

text \<open>What every step keeps of the shared state.\<close>

lemma par_reach_state:
  assumes "par_reach R a b" and "\<And>k s k' s'. R k s k' s' \<Longrightarrow> P s \<Longrightarrow> P s'" and "P (fst a)"
  shows "P (fst b)"
  using assms(1) unfolding par_reach_def
  by (induction rule: rtranclp_induct) (use assms(2,3) in \<open>auto elim!: par_step.cases\<close>)

section \<open>Counting threads\<close>

definition n_threads :: "('k \<Rightarrow> bool) \<Rightarrow> 'k list \<Rightarrow> nat" where
  "n_threads P ks = length (filter P ks)"

lemma n_threads_update:
  "t < length ks \<Longrightarrow> n_threads P (ks[t := k]) + (if P (ks ! t) then 1 else 0) = n_threads P ks + (if P k then 1 else 0)"
proof (induction ks arbitrary: t)
  case (Cons a ks)
  then show ?case by (cases t) (fastforce simp: n_threads_def)+
qed simp

lemma n_threads_same: "t < length ks \<Longrightarrow> P (ks ! t) = P k \<Longrightarrow> n_threads P (ks[t := k]) = n_threads P ks"
  using n_threads_update [of t ks P k] by (simp split: if_splits)

lemma n_threads_more:
  "t < length ks \<Longrightarrow> \<not> P (ks ! t) \<Longrightarrow> P k \<Longrightarrow> n_threads P (ks[t := k]) = Suc (n_threads P ks)"
  using n_threads_update [of t ks P k] by simp

lemma n_threads_0: "(\<And>k. k \<in> set ks \<Longrightarrow> \<not> P k) \<Longrightarrow> n_threads P ks = 0"
  by (simp add: n_threads_def filter_empty_conv)

lemma in_update_cases: "t < length ks \<Longrightarrow> k \<in> set (ks[t := a]) \<Longrightarrow> k = a \<or> k \<in> set ks"
  by (metis insertE set_update_subset_insert subsetD)

lemma in_update_other: "k \<in> set ks \<Longrightarrow> t < length ks \<Longrightarrow> k \<in> set (ks[t := a]) \<or> k = ks ! t"
  by (metis in_set_conv_nth length_list_update nth_list_update_neq)

lemma ex_update_same:
  assumes "t < length ks" and "P k = P (ks ! t)"
  shows "(\<exists>j \<in> set (ks[t := k]). P j) \<longleftrightarrow> (\<exists>j \<in> set ks. P j)"
  using assms in_update_cases [OF assms(1)] in_update_other [OF _ assms(1)] set_update_memI [OF assms(1)] nth_mem
  by metis

lemma all_update_same:
  assumes "t < length ks" and "P k = P (ks ! t)"
  shows "(\<forall>j \<in> set (ks[t := k]). P j) \<longleftrightarrow> (\<forall>j \<in> set ks. P j)"
  using ex_update_same [of t ks "\<lambda>j. \<not> P j" k] assms by blast

section \<open>Ranks\<close>

definition rank_sum :: "('k \<Rightarrow> nat) \<Rightarrow> 'k list \<Rightarrow> nat" where
  "rank_sum rank ks = sum_list (map rank ks)"

definition all_done :: "('k \<Rightarrow> nat) \<Rightarrow> 'k list \<Rightarrow> bool" where
  "all_done rank ks \<longleftrightarrow> (\<forall>k \<in> set ks. rank k = 0)"

lemma rank_sum_update:
  "t < length ks \<Longrightarrow> rank k < rank (ks ! t) \<Longrightarrow> rank_sum rank (ks[t := k]) < rank_sum rank ks"
  unfolding rank_sum_def
proof (induction ks arbitrary: t)
  case (Cons a ks)
  then show ?case by (cases t) fastforce+
qed simp

section \<open>Contract\<close>

locale kept_threads =
  fixes R :: "'k \<Rightarrow> 's \<Rightarrow> 'k \<Rightarrow> 's \<Rightarrow> bool"
    and rank :: "'k \<Rightarrow> nat"
    and inv :: "'s \<Rightarrow> 'k list \<Rightarrow> bool"
  assumes rank_step: "R k s k' s' \<Longrightarrow> rank k' < rank k"
    and inv_step: "inv s ks \<Longrightarrow> t < length ks \<Longrightarrow> R (ks ! t) s k s' \<Longrightarrow> inv s' (ks[t := k])"
begin

lemma inv_par: "par_step R a b \<Longrightarrow> inv (fst a) (snd a) \<Longrightarrow> inv (fst b) (snd b)"
  by (auto elim!: par_step.cases intro: inv_step)

lemma inv_reach: "par_reach R (s, ks) (s', ks') \<Longrightarrow> inv s ks \<Longrightarrow> inv s' ks'"
proof -
  have "(par_step R)\<^sup>*\<^sup>* a b \<Longrightarrow> inv (fst a) (snd a) \<Longrightarrow> inv (fst b) (snd b)" for a b
    by (induction rule: rtranclp_induct) (blast intro: inv_par)+
  then show "par_reach R (s, ks) (s', ks') \<Longrightarrow> inv s ks \<Longrightarrow> inv s' ks'"
    unfolding par_reach_def by fastforce
qed

lemma sum_step: "par_step R a b \<Longrightarrow> rank_sum rank (snd b) < rank_sum rank (snd a)"
  by (erule par_step.cases) (simp add: rank_sum_update rank_step)

text \<open>No schedule is longer than the sum of the ranks.\<close>

lemma schedule_bound: "(par_step R ^^ n) a b \<Longrightarrow> n + rank_sum rank (snd b) \<le> rank_sum rank (snd a)"
proof (induction n arbitrary: b)
  case (Suc n)
  then obtain c where "(par_step R ^^ n) a c" "par_step R c b" by auto
  with Suc.IH sum_step show ?case by fastforce
qed simp

end

locale threads = kept_threads +
  assumes no_deadlock: "inv s ks \<Longrightarrow> \<not> all_done rank ks \<Longrightarrow> \<exists>t < length ks. \<exists>k s'. R (ks ! t) s k s'"
begin

lemma unfinished_moves: "inv s ks \<Longrightarrow> \<not> all_done rank ks \<Longrightarrow> \<exists>b. par_step R (s, ks) b"
  using no_deadlock by (blast intro: move)

text \<open>From every reachable state all threads can finish, and a state without a step is finished.\<close>

lemma can_finish: "inv s ks \<Longrightarrow> \<exists>s' ks'. par_reach R (s, ks) (s', ks') \<and> inv s' ks' \<and> all_done rank ks'"
proof (induction "rank_sum rank ks" arbitrary: s ks rule: less_induct)
  case less
  show ?case
  proof (cases "all_done rank ks")
    case True
    with less.prems show ?thesis unfolding par_reach_def by blast
  next
    case False
    from unfinished_moves [OF less.prems this] obtain s1 ks1 where st: "par_step R (s, ks) (s1, ks1)" by fastforce
    from sum_step [OF st] inv_par [OF st] less.prems have "rank_sum rank ks1 < rank_sum rank ks" "inv s1 ks1" by simp_all
    from less.hyps [OF this] obtain s' ks' where "par_reach R (s1, ks1) (s', ks')" "inv s' ks'" "all_done rank ks'" by blast
    with st show ?thesis unfolding par_reach_def by (meson converse_rtranclp_into_rtranclp)
  qed
qed

end

text \<open>Threads that never wait for each other.\<close>

locale wait_free =
  fixes R :: "'k \<Rightarrow> 's \<Rightarrow> 'k \<Rightarrow> 's \<Rightarrow> bool"
    and rank :: "'k \<Rightarrow> nat"
    and inv :: "'s \<Rightarrow> 'k list \<Rightarrow> bool"
  assumes free_rank: "R k s k' s' \<Longrightarrow> rank k' < rank k"
    and free_inv: "inv s ks \<Longrightarrow> t < length ks \<Longrightarrow> R (ks ! t) s k s' \<Longrightarrow> inv s' (ks[t := k])"
    and free_moves: "inv s ks \<Longrightarrow> t < length ks \<Longrightarrow> 0 < rank (ks ! t) \<Longrightarrow> \<exists>k s'. R (ks ! t) s k s'"

sublocale wait_free \<subseteq> threads R rank inv
proof
  fix s ks
  assume i: "inv s ks" and "\<not> all_done rank ks"
  then obtain t where "t < length ks" "0 < rank (ks ! t)" by (auto simp: all_done_def in_set_conv_nth)
  with free_moves [OF i this] show "\<exists>t < length ks. \<exists>k s'. R (ks ! t) s k s'" by blast
qed (fact free_rank free_inv)+

end
