(* ===== verification/Kdb_Threads.thy ===== *)
theory Kdb_Threads
  imports Kdb_Mkwrite Lp_Concurrent Interleaving
begin

text \<open>
  The fault handler and the write notification of \<^verbatim>\<open>src/src/vma.c\<close> as threads.  Linux runs them
  on many processors at once under one mapping; they exclude each other only inside the hash lock
  of the context and the lock of a logical page.  A handler is cut at these locks: each critical
  section, each allocation, each drop of a reference and each atomic counter is one step, and any
  other handler may run in between.  The sections compose to the sequential handlers.
\<close>

section \<open>Critical sections\<close>

text \<open>Between \<open>spin_lock(&lp->lock)\<close> and \<open>spin_unlock\<close> of \<open>kdb_fault\<close>: the page of the slot, or a new
  one, with a reference for the mapping.\<close>

definition fault_section :: "page_ptr option \<Rightarrow> lp_ptr \<Rightarrow> u32 \<Rightarrow> kmem \<Rightarrow> (page_ptr option \<times> kmem) kres" where
  "fault_section page p i m =
     kbind (deref (lps m) p) (\<lambda>lp.
     kguard OutOfBounds (unat i < length (lp_cp lp))
       (case lp_cp lp ! unat i of
          Some pg \<Rightarrow> Inr (Some pg, m\<lparr>pool := get_page pg (pool m)\<rparr>)
        | None \<Rightarrow>
            (case cp_pool_alloc page (pool m) of
               (None, s) \<Rightarrow> Inr (None, m\<lparr>pool := s\<rparr>)
             | (Some pg, s) \<Rightarrow> Inr (Some pg, m\<lparr>lps := (lps m)(p \<mapsto> lp\<lparr>lp_cp := (lp_cp lp)[unat i := Some pg]\<rparr>),
                 pool := get_page pg s\<rparr>))))"

text \<open>The same of \<open>kdb_page_mkwrite\<close>.\<close>

definition dirty_section :: "lp_ptr \<Rightarrow> u32 \<Rightarrow> kmem \<Rightarrow> kmem kres" where
  "dirty_section p i m =
     kbind (deref (lps m) p) (\<lambda>lp.
     kbind (set_bit_in (unat i) (lp_dirty_bitmap lp)) (\<lambda>bm.
       Inr (m\<lparr>lps := (lps m)(p \<mapsto> lp\<lparr>lp_dirty_bitmap := bm\<rparr>)\<rparr>)))"

definition count_in :: "(vma_ctx \<Rightarrow> vma_ctx) \<Rightarrow> ctx_ptr \<Rightarrow> kmem \<Rightarrow> kmem kres" where
  "count_in f c m = kbind (deref (ctxs m) c) (\<lambda>x. Inr (m\<lparr>ctxs := (ctxs m)(c \<mapsto> f x)\<rparr>))"

section \<open>Threads\<close>

text \<open>The local variables of a handler once it has decoded the page offset.\<close>

record vm_locals =
  l_pgoff :: u64
  l_lpn :: u64
  l_cpi :: u32

definition vm_decode :: "u64 \<Rightarrow> vma_ctx \<Rightarrow> vm_locals" where
  "vm_decode pgoff x = \<lparr>l_pgoff = pgoff, l_lpn = pgoff div ucast (ctx_cp_per_lp x),
     l_cpi = ucast (pgoff mod ucast (ctx_cp_per_lp x))\<rparr>"

lemma vm_decode_simps [simp]:
  "l_pgoff (vm_decode g x) = g" "l_lpn (vm_decode g x) = g div ucast (ctx_cp_per_lp x)"
  "l_cpi (vm_decode g x) = ucast (g mod ucast (ctx_cp_per_lp x))"
  by (simp_all add: vm_decode_def)

datatype vm_pc =
    Fault_find u64
  | Fault_alloc vm_locals
  | Fault_insert vm_locals lp_ptr
  | Fault_lock vm_locals lp_ptr
  | Fault_put vm_locals lp_ptr "page_ptr option"
  | Fault_count vm_locals page_ptr
  | Fault_done u64 vm_fault_ret "page_ptr option"
  | Write_find u64
  | Write_lock vm_locals lp_ptr
  | Write_put vm_locals lp_ptr
  | Write_count vm_locals
  | Write_done u64 vm_fault_ret

text \<open>Declarations and range test, then the search under the hash lock, with the two ways on.\<close>

definition vm_find ::
  "hash64 \<Rightarrow> ctx_ptr \<Rightarrow> u64 \<Rightarrow> vm_pc \<Rightarrow> (vm_locals \<Rightarrow> vm_pc) \<Rightarrow> (vm_locals \<Rightarrow> lp_ptr \<Rightarrow> vm_pc) \<Rightarrow>
     kmem \<Rightarrow> (vm_pc \<times> kmem) kres" where
  "vm_find h c pgoff outside miss hit m =
     kbind (deref (ctxs m) c) (\<lambda>x.
     kguard DivByZero (ctx_cp_per_lp x \<noteq> 0)
       (let L = vm_decode pgoff x in
        if l_lpn L \<ge> ctx_n_lpn x then Inr (outside, m)
        else kbind (lp_find_ref h c (l_lpn L) m) (\<lambda>(r, m').
          Inr (case r of None \<Rightarrow> miss L | Some p \<Rightarrow> hit L p, m'))))"

fun vm_next ::
  "hash64 \<Rightarrow> ctx_ptr \<Rightarrow> lp_mem \<Rightarrow> page_ptr option \<Rightarrow> vm_pc \<Rightarrow> kmem \<Rightarrow> (vm_pc \<times> kmem) kres" where
  "vm_next h c am page (Fault_find g) m =
     vm_find h c g (Fault_done g VM_FAULT_SIGBUS None) Fault_alloc Fault_lock m"
| "vm_next h c am page (Fault_alloc L) m =
     kbind (deref (ctxs m) c) (\<lambda>x.
       case lp_alloc am x (l_lpn L) m of
         (None, m') \<Rightarrow> Inr (Fault_done (l_pgoff L) VM_FAULT_OOM None, m')
       | (Some p, m') \<Rightarrow> Inr (Fault_insert L p, m'))"
| "vm_next h c am page (Fault_insert L p) m =
     kbind (lp_insert h c (l_lpn L) p m) (\<lambda>(q, m'). Inr (Fault_lock L q, m'))"
| "vm_next h c am page (Fault_lock L p) m =
     kbind (fault_section page p (l_cpi L) m) (\<lambda>(r, m'). Inr (Fault_put L p r, m'))"
| "vm_next h c am page (Fault_put L p r) m =
     kbind (lp_put (Some p) m) (\<lambda>m'.
       Inr (case r of None \<Rightarrow> Fault_done (l_pgoff L) VM_FAULT_OOM None | Some pg \<Rightarrow> Fault_count L pg, m'))"
| "vm_next h c am page (Fault_count L pg) m =
     kbind (count_in count_fault c m) (\<lambda>m'. Inr (Fault_done (l_pgoff L) VM_FAULT_LOCKED (Some pg), m'))"
| "vm_next h c am page (Write_find g) m =
     vm_find h c g (Write_done g VM_FAULT_SIGBUS) (\<lambda>L. Write_done g VM_FAULT_SIGBUS) Write_lock m"
| "vm_next h c am page (Write_lock L p) m =
     kbind (dirty_section p (l_cpi L) m) (\<lambda>m'. Inr (Write_put L p, m'))"
| "vm_next h c am page (Write_put L p) m =
     kbind (lp_put (Some p) m) (\<lambda>m'. Inr (Write_count L, m'))"
| "vm_next h c am page (Write_count L) m =
     kbind (count_in count_mkwrite c m) (\<lambda>m'. Inr (Write_done (l_pgoff L) VM_FAULT_LOCKED, m'))"
| "vm_next h c am page k m = Inr (k, m)"

lemma vm_alloc_cases:
  assumes "vm_next h c am page (Fault_alloc L) m = Inr (k', m')"
  obtains x where "lp_alloc am x (l_lpn L) m = (None, m')" and "k' = Fault_done (l_pgoff L) VM_FAULT_OOM None"
  | x p where "lp_alloc am x (l_lpn L) m = (Some p, m')" and "k' = Fault_insert L p"
proof -
  from assms obtain x where "ctxs m c = Some x" by (auto simp: kres_simps)
  with assms that show ?thesis by (cases "lp_alloc am x (l_lpn L) m") (auto split: option.splits)
qed

text \<open>Which step uses what an allocator returned.\<close>

lemma vm_next_unused:
  "\<nexists>L. k = Fault_alloc L \<Longrightarrow> vm_next h c am page k m = vm_next h c am' page k m"
  "\<nexists>L p. k = Fault_lock L p \<Longrightarrow> vm_next h c am page k m = vm_next h c am page' k m"
  by (cases k; simp only: vm_next.simps; blast)+

section \<open>A thread alone is the sequential handler\<close>

fun vm_rank :: "vm_pc \<Rightarrow> nat" where
  "vm_rank (Fault_find g) = 6"
| "vm_rank (Fault_alloc L) = 5"
| "vm_rank (Fault_insert L p) = 4"
| "vm_rank (Fault_lock L p) = 3"
| "vm_rank (Fault_put L p r) = 2"
| "vm_rank (Fault_count L pg) = 1"
| "vm_rank (Fault_done g r pg) = 0"
| "vm_rank (Write_find g) = 4"
| "vm_rank (Write_lock L p) = 3"
| "vm_rank (Write_put L p) = 2"
| "vm_rank (Write_count L) = 1"
| "vm_rank (Write_done g r) = 0"

primrec vm_run ::
  "nat \<Rightarrow> hash64 \<Rightarrow> ctx_ptr \<Rightarrow> lp_mem \<Rightarrow> page_ptr option \<Rightarrow> vm_pc \<Rightarrow> kmem \<Rightarrow> (vm_pc \<times> kmem) kres" where
  "vm_run 0 h c am page k m = Inr (k, m)"
| "vm_run (Suc n) h c am page k m =
     kbind (vm_next h c am page k m) (\<lambda>(k', m'). vm_run n h c am page k' m')"

lemma vm_run_done:
  "vm_run n h c am page (Fault_done g r pg) m = Inr (Fault_done g r pg, m)"
  "vm_run n h c am page (Write_done g r) m = Inr (Write_done g r, m)"
  by (induction n) simp_all

abbreviation fault_end :: "u64 \<Rightarrow> vm_fault_ret \<times> page_ptr option \<times> kmem \<Rightarrow> (vm_pc \<times> kmem) kres" where
  "fault_end g \<equiv> \<lambda>(r, pg, m). Inr (Fault_done g r pg, m)"

lemma vm_run_lock:
  "vm_run (Suc (Suc (Suc n))) h c am page (Fault_lock L p) m =
     kbind (kdb_fault_page page c p (l_cpi L) m) (fault_end (l_pgoff L))"
  by (auto simp: kbind_def kguard_def deref_def fault_section_def kdb_fault_page_def kdb_fault_map_def
      vm_run_done count_in_def Let_def split: option.splits sum.splits prod.splits)

lemma find_ref_miss: "lp_find_ref h c n m = Inr (None, m') \<Longrightarrow> m' = m"
  by (auto simp: lp_find_ref_def kres_simps split: option.splits)

lemma vm_run_insert:
  "vm_run (Suc (Suc (Suc (Suc n)))) h c am page (Fault_insert L p) m =
     kbind (lp_insert h c (l_lpn L) p m) (\<lambda>(q, m'). kbind (kdb_fault_page page c q (l_cpi L) m') (fault_end (l_pgoff L)))"
  by (subst vm_run.simps(2)) (simp add: kbind_assoc split_def vm_run_lock del: vm_run.simps(2))

lemma vm_run_alloc:
  "vm_run (Suc (Suc (Suc (Suc (Suc n))))) h c am page (Fault_alloc L) m =
     kbind (deref (ctxs m) c) (\<lambda>x. case lp_alloc am x (l_lpn L) m of
         (None, m') \<Rightarrow> Inr (Fault_done (l_pgoff L) VM_FAULT_OOM None, m')
       | (Some p, m') \<Rightarrow> kbind (lp_insert h c (l_lpn L) p m') (\<lambda>(q, m'').
           kbind (kdb_fault_page page c q (l_cpi L) m'') (fault_end (l_pgoff L))))"
  by (subst vm_run.simps(2))
    (auto simp: kbind_assoc vm_run_insert vm_run_done kbind_def split: option.split prod.split sum.split
      simp del: vm_run.simps(2))

lemma vm_run_fault:
  "vm_run 6 h c am page (Fault_find g) m = kbind (kdb_fault h am page (Some c) g m) (fault_end g)"
proof -
  have six: "6 = Suc (Suc (Suc (Suc (Suc (Suc 0)))))" by simp
  show ?thesis
  proof (cases "ctxs m c")
    case (Some x)
    let ?L = "vm_decode g x"
    show ?thesis
    proof (cases "lp_find_ref h c (l_lpn ?L) m")
      case (Inr rm)
      then obtain r m' where r: "lp_find_ref h c (g div ucast (ctx_cp_per_lp x)) m = Inr (r, m')"
        by (cases rm) simp
      show ?thesis
      proof (cases r)
        case None
        with find_ref_miss r have "m' = m" by blast
        with None r Some show ?thesis unfolding six
          by (subst vm_run.simps(2))
            (auto simp: vm_find_def kdb_fault_def lp_get_or_create_def vm_run_done vm_run_alloc Let_def split_def
              kguard_def kbind_assoc simp del: vm_run.simps(2) split: option.split)
      next
        case (Some p)
        with r \<open>ctxs m c = Some x\<close> show ?thesis unfolding six
          by (subst vm_run.simps(2))
            (auto simp: vm_find_def kdb_fault_def lp_get_or_create_def vm_run_done vm_run_lock Let_def
              kguard_def simp del: vm_run.simps(2))
      qed
    qed (use Some in \<open>auto simp: six vm_find_def kdb_fault_def lp_get_or_create_def vm_run_done kguard_def
      Let_def\<close>)
  qed (simp add: six vm_find_def kdb_fault_def)
qed

lemma vm_run_mkwrite:
  "vm_run 4 h c am page (Write_find g) m =
     kbind (kdb_page_mkwrite h (Some c) g m) (\<lambda>(r, m'). Inr (Write_done g r, m'))"
  by (auto simp: eval_nat_numeral vm_find_def kdb_page_mkwrite_def lp_lookup_def vm_run_done kguard_def kbind_def
      deref_def vm_decode_def dirty_section_def count_in_def Let_def split: option.splits sum.splits prod.splits)

end
