(* ===== verification/Kdb_Quiet.thy ===== *)
theory Kdb_Quiet
  imports Kdb_Threads
begin

text \<open>
  Steps of the handler threads that nobody can see in the page map: references, new and freed
  logical pages, log lines.  \<open>quiet\<close> collects what such a step keeps.
\<close>

section \<open>Quiet changes\<close>

definition ctx_key :: "kmem \<Rightarrow> ctx_ptr \<Rightarrow> (u64 \<times> u32 \<times> u64 \<times> u64) option" where
  "ctx_key m c = map_option (\<lambda>x. (ctx_n_lpn x, ctx_cp_per_lp x, ctx_total_faults x, ctx_total_mkwrite x)) (ctxs m c)"

definition quiet :: "ctx_ptr \<Rightarrow> kmem \<Rightarrow> kmem \<Rightarrow> bool" where
  "quiet c m m' \<longleftrightarrow> page_at m' c = page_at m c \<and> dirty_at m' c = dirty_at m c \<and>
     page_slot (lps m') = page_slot (lps m) \<and> pool m' = pool m \<and> resident m' = resident m \<and>
     ctx_key m' c = ctx_key m c"

lemma quiet_refl [simp]: "quiet c m m"
  by (simp add: quiet_def)

lemma quiet_trans [trans]: "quiet c m m' \<Longrightarrow> quiet c m' m'' \<Longrightarrow> quiet c m m''"
  by (simp add: quiet_def)

lemma quiet_pages_ok: "quiet c m m' \<Longrightarrow> pages_ok m \<Longrightarrow> pages_ok m'"
  by (simp add: quiet_def pages_ok_def)

lemma quiet_acct_ok: "quiet c m m' \<Longrightarrow> acct_ok m \<Longrightarrow> acct_ok m'"
  by (simp add: quiet_def acct_ok_def)

lemma at_cong:
  assumes "ctx_key m' c = ctx_key m c" and "ctx_view m' c = ctx_view m c"
    and "page_slot (lps m') = page_slot (lps m)"
  shows "page_at m' c = page_at m c"
proof (cases "ctxs m c")
  case (Some x)
  with assms(1) obtain y where "ctxs m' c = Some y" "ctx_cp_per_lp y = ctx_cp_per_lp x" by (auto simp: ctx_key_def)
  with Some assms(2,3) show ?thesis by (simp add: page_at_view fun_eq_iff split: option.split)
qed (use assms(1) in \<open>simp add: ctx_key_def page_at_def fun_eq_iff\<close>)

lemma dirty_cong:
  assumes "ctx_key m' c = ctx_key m c" and "ctx_view m' c = ctx_view m c"
    and "dirty_slot (lps m') = dirty_slot (lps m)"
  shows "dirty_at m' c = dirty_at m c"
proof (cases "ctxs m c")
  case (Some x)
  with assms(1) obtain y where "ctxs m' c = Some y" "ctx_cp_per_lp y = ctx_cp_per_lp x" by (auto simp: ctx_key_def)
  with Some assms(2,3) show ?thesis by (simp add: dirty_at_view fun_eq_iff split: option.split)
qed (use assms(1) in \<open>simp add: ctx_key_def dirty_at_def fun_eq_iff\<close>)

lemma quietI:
  assumes "ctx_key m' c = ctx_key m c" and "ctx_view m' c = ctx_view m c"
    and "page_slot (lps m') = page_slot (lps m)" and "dirty_slot (lps m') = dirty_slot (lps m)"
    and "pool m' = pool m" and "resident m' = resident m"
  shows "quiet c m m'"
  unfolding quiet_def using assms at_cong [OF assms(1-3)] dirty_cong [OF assms(1,2,4)] by blast

lemma quiet_klog [simp]: "quiet c m (m\<lparr>klog := l\<rparr>)"
  by (rule quietI) (simp_all add: ctx_key_def)

text \<open>References.\<close>

lemma quiet_refcount: "quiet c m (upd_lp p (\<lambda>lp. lp\<lparr>lp_refcount := f lp\<rparr>) m)" (is "quiet c m ?m'")
proof -
  have k: "ctx_key ?m' c = ctx_key m c" by (simp add: ctx_key_def)
  have v: "ctx_view ?m' c = ctx_view m c" by simp
  have ps: "page_slot (lps ?m') = page_slot (lps m)" by (simp add: page_slot_upd)
  have ds: "dirty_slot (lps ?m') = dirty_slot (lps m)"
    by (auto simp: dirty_slot_def fun_eq_iff split: option.split)
  have "resident ?m' = resident m" by (rule resident_upd_lp) (simp add: resident_lp_def)
  with k v ps ds show ?thesis by (intro quietI) simp_all
qed

text \<open>An object that is in no table appears, changes or goes; it has no pages and no dirty bits.\<close>

definition blank :: "lp_state option \<Rightarrow> bool" where
  "blank v = (case v of None \<Rightarrow> True | Some lp \<Rightarrow> (\<exists>x n. lp = lp_new x n))"

lemma test_bit_zeros [simp]: "\<not> test_bit_in i (replicate n 0)"
  by (cases "i div 64 < n") (simp_all add: test_bit_in_def)

lemma blank_slots: "blank (H p) \<Longrightarrow> page_slot H p i = None" "blank (H p) \<Longrightarrow> \<not> dirty_slot H p i"
  by (auto simp: blank_def page_slot_def dirty_slot_def lp_new_def split: option.splits)

lemma blank_simps [simp]: "blank None" "blank (Some (lp_new x n))"
  by (auto simp: blank_def)

lemma quiet_heap:
  assumes u: "unlinked m p" and b: "blank (lps m p)" "blank v"
  shows "quiet c m (m\<lparr>lps := (lps m)(p := v)\<rparr>)" (is "quiet c m ?m'")
proof -
  have k: "ctx_key ?m' c = ctx_key m c" by (simp add: ctx_key_def)
  have view: "ctx_view ?m' c = ctx_view m c"
    using u by (auto simp: ctx_view_def unlinked_def lp_view_heap_update fun_eq_iff split: option.split)
  have ps: "page_slot (lps ?m') = page_slot (lps m)"
  proof (intro ext)
    fix q i
    show "page_slot (lps ?m') q i = page_slot (lps m) q i"
      using b blank_slots(1) [of "lps m" p] blank_slots(1) [of "(lps m)(p := v)" p]
      by (cases "q = p") (simp_all add: page_slot_def)
  qed
  have ds: "dirty_slot (lps ?m') = dirty_slot (lps m)"
  proof (intro ext)
    fix q i
    show "dirty_slot (lps ?m') q i = dirty_slot (lps m) q i"
      using b blank_slots(2) [of "lps m" p] blank_slots(2) [of "(lps m)(p := v)" p]
      by (cases "q = p") (simp_all add: dirty_slot_def)
  qed
  have "resident ?m' = resident m"
    using u by (intro resident_heap_cong) (auto simp: unlinked_def res_at_def)
  with k view ps ds show ?thesis by (intro quietI) simp_all
qed

text \<open>A blank object enters the table.\<close>

lemma quiet_link:
  assumes ok: "kmem_ok h m" and c: "ctxs m c = Some x" and n: "n < ctx_n_lpn x"
    and p: "lps m p = Some (lp_new x n)" and new: "lp_view (lps m) x n = None" and u: "unlinked m p"
  shows "quiet c m (m\<lparr>ctxs := (ctxs m)(c \<mapsto> link_ctx h p n x)\<rparr>)" (is "quiet c m ?m'")
proof -
  note h = kmem_okD(1) [OF ok] and t = kmem_okD(4) [OF ok c]
  have np: "p \<notin> set (ctx_table x)" using u c by (auto simp: unlinked_def)
  have lpn: "lp_lpn (lp_new x n) = n" by (simp add: lp_new_def)
  have view: "ctx_view ?m' c = (ctx_view m c)(n \<mapsto> p)"
    using lp_view_link [OF h t p lp_ok_new [OF n] lpn new np] c by (simp add: ctx_view_def fun_eq_iff)
  have none: "ctx_view m c n = None" using new c by (simp add: ctx_view_def)
  have c': "ctxs ?m' c = Some (link_ctx h p n x)" by simp
  have k: "ctx_key ?m' c = ctx_key m c" using c by (simp add: ctx_key_def link_ctx_def Let_def)
  have b: "page_slot (lps m) p i = None" "\<not> dirty_slot (lps m) p i" for i
    using blank_slots [of "lps m" p i] p by auto
  have "page_at ?m' c = page_at m c"
    using view none b by (auto simp: page_at_view [OF c'] page_at_view [OF c] fun_eq_iff split: option.split)
  moreover have "dirty_at ?m' c = dirty_at m c"
    using view none b by (auto simp: dirty_at_view [OF c'] dirty_at_view [OF c] fun_eq_iff split: option.split)
  moreover have "resident ?m' = resident m"
    using resident_replace [OF kmem_okD(2) [OF ok] c, of "link_ctx h p n x"] p
      resident_ctx_link [OF h table_ok_shape(1) [OF t], of "lps m" p n] by (simp add: res_at_def)
  ultimately show ?thesis using k by (simp add: quiet_def)
qed

section \<open>The operations\<close>

lemma quiet_put:
  assumes "lp_put (Some p) m = Inr m'"
  shows "quiet c m m'"
proof -
  from assms obtain lp where lp: "lps m p = Some lp" by (auto simp: lp_put_def kres_simps)
  have "quiet c (upd_lp p dec_ref m) m'" using assms lp_put_eq [OF lp] by (auto simp: Let_def split: if_splits)
  with quiet_refcount show ?thesis by (rule quiet_trans)
qed

lemma quiet_find:
  assumes "kmem_ok h m" and "ctxs m c = Some x" and "lp_find_ref h c n m = Inr (r, m')"
  shows "quiet c m m'"
  using assms(3) lp_find_ref_eq [OF assms(1,2), of n] quiet_refcount [of c m]
  by (auto split: option.splits)

lemma quiet_insert:
  assumes ok: "kmem_ok h m" and c: "ctxs m c = Some x" and n: "n < ctx_n_lpn x"
    and p: "lps m p = Some (lp_new x n)" and u: "unlinked m p"
    and r: "lp_insert h c n p m = Inr (q, m')"
  shows "quiet c m m'"
proof -
  have e: "m' = snd (case lp_view (lps m) x n of
      Some q \<Rightarrow> (q, (upd_lp q inc_ref m)\<lparr>lps := (lps (upd_lp q inc_ref m))(p := None)\<rparr>)
    | None \<Rightarrow> (p, m\<lparr>ctxs := (ctxs m)(c \<mapsto> link_ctx h p n x)\<rparr>))"
    using r unfolding lp_insert_eq [OF ok c] by (simp only: sum.inject snd_conv)
  show ?thesis
  proof (cases "lp_view (lps m) x n")
    case None
    with quiet_link [OF ok c n p None u] show ?thesis unfolding e by simp
  next
    case (Some q')
    let ?m1 = "upd_lp q' inc_ref m"
    have "q' \<noteq> p" using Some u c by (auto simp: unlinked_def dest: lp_view_SomeD)
    then have "blank (lps ?m1 p)" "unlinked ?m1 p" using p u by (auto simp: unlinked_def)
    then have "quiet c ?m1 (?m1\<lparr>lps := (lps ?m1)(p := None)\<rparr>)" by (intro quiet_heap) simp_all
    with quiet_refcount have "quiet c m (?m1\<lparr>lps := (lps ?m1)(p := None)\<rparr>)" by (rule quiet_trans)
    with Some show ?thesis unfolding e by simp
  qed
qed

end
