(* ===== verification/Kdb_Concurrent.thy ===== *)
theory Kdb_Concurrent
  imports Kdb_Quiet
begin

text \<open>
  Any number of page faults and write notifications under one mapping, interleaved at the critical
  sections.  The structure of the context is kept as in \<open>Lp_Concurrent\<close> (\<open>goc_of\<close> maps a handler
  to the caller of \<open>lp_get_or_create\<close> in it); what a step does to pages, dirty bits and counters is
  one of five effects.
\<close>

section \<open>Steps and invariant\<close>

definition vm_step :: "hash64 \<Rightarrow> ctx_ptr \<Rightarrow> vm_pc \<Rightarrow> kmem \<Rightarrow> vm_pc \<Rightarrow> kmem \<Rightarrow> bool" where
  "vm_step h c k m k' m' \<longleftrightarrow> 0 < vm_rank k \<and>
     (\<exists>am page. lp_fresh am m \<and> page_fresh page m \<and> vm_next h c am page k m = Inr (k', m'))"

fun goc_of :: "vm_pc \<Rightarrow> goc_pc" where
  "goc_of (Fault_alloc L) = Alloc (l_lpn L)"
| "goc_of (Fault_insert L p) = Insert (l_lpn L) p"
| "goc_of (Fault_lock L p) = Return (l_lpn L) (Some p)"
| "goc_of (Fault_put L p r) = Return (l_lpn L) (Some p)"
| "goc_of (Write_lock L p) = Return (l_lpn L) (Some p)"
| "goc_of (Write_put L p) = Return (l_lpn L) (Some p)"
| "goc_of k = Finished"

fun locals_of :: "vm_pc \<Rightarrow> vm_locals option" where
  "locals_of (Fault_alloc L) = Some L"
| "locals_of (Fault_insert L p) = Some L"
| "locals_of (Fault_lock L p) = Some L"
| "locals_of (Fault_put L p r) = Some L"
| "locals_of (Write_lock L p) = Some L"
| "locals_of (Write_put L p) = Some L"
| "locals_of k = None"

definition decoded :: "kmem \<Rightarrow> ctx_ptr \<Rightarrow> vm_pc \<Rightarrow> bool" where
  "decoded m c k = (case (locals_of k, ctxs m c) of
     (Some L, Some x) \<Rightarrow> L = vm_decode (l_pgoff L) x | _ \<Rightarrow> True)"

definition vm_ok :: "hash64 \<Rightarrow> ctx_ptr \<Rightarrow> kmem \<Rightarrow> vm_pc list \<Rightarrow> bool" where
  "vm_ok h c m ks \<longleftrightarrow> goc_ok h c \<lparr>g_mem = m, g_pcs = map goc_of ks\<rparr> \<and> pages_ok m \<and> acct_ok m \<and>
     (\<forall>k \<in> set ks. decoded m c k)"

lemma vm_okD:
  assumes "vm_ok h c m ks" and "ctxs m c = Some x"
  shows "kmem_ok h m" and "pages_ok m" and "acct_ok m"
    and "t < length ks \<Longrightarrow> pc_ok m c x (goc_of (ks ! t))"
    and "t < length ks \<Longrightarrow> locals_of (ks ! t) = Some L \<Longrightarrow> L = vm_decode (l_pgoff L) x"
proof -
  from assms have g: "goc_ok h c \<lparr>g_mem = m, g_pcs = map goc_of ks\<rparr>" and "pages_ok m" "acct_ok m"
    and d: "\<forall>k \<in> set ks. decoded m c k" by (simp_all add: vm_ok_def)
  then show "pages_ok m" "acct_ok m" by simp_all
  note o = goc_okD [OF g, of x]
  show "kmem_ok h m" using o(1) assms(2) by simp
  show "t < length ks \<Longrightarrow> pc_ok m c x (goc_of (ks ! t))" using o(3) [of t] assms(2) by simp
  show "t < length ks \<Longrightarrow> locals_of (ks ! t) = Some L \<Longrightarrow> L = vm_decode (l_pgoff L) x"
    using bspec [OF d, of "ks ! t"] assms(2) by (simp add: decoded_def)
qed

lemma vm_ok_ctx: "vm_ok h c m ks \<Longrightarrow> \<exists>x. ctxs m c = Some x"
  using goc_ok_ctx [of h c "\<lparr>g_mem = m, g_pcs = map goc_of ks\<rparr>"] by (simp add: vm_ok_def)

lemma decoded_key: "ctx_key m' c = ctx_key m c \<Longrightarrow> decoded m' c k = decoded m c k"
  by (auto simp: decoded_def ctx_key_def vm_decode_def split: option.splits)

text \<open>A step that is quiet keeps the invariant, once the structure is kept.\<close>

lemma vm_ok_quiet:
  assumes ok: "vm_ok h c m ks" and q: "quiet c m m'" and k: "decoded m' c k" and t: "t < length ks"
    and g: "goc_ok h c \<lparr>g_mem = m', g_pcs = (map goc_of ks)[t := goc_of k]\<rparr>"
  shows "vm_ok h c m' (ks[t := k])"
proof -
  have "decoded m' c j" if "j \<in> set (ks[t := k])" for j
    using in_update_cases [OF t that] k ok decoded_key [of m' c m j] q by (auto simp: vm_ok_def quiet_def)
  with ok q g show ?thesis
    by (auto simp: vm_ok_def map_update intro: quiet_pages_ok quiet_acct_ok)
qed

section \<open>Changes inside a section\<close>

lemma pc_ok_cong: "lps m' = lps m \<Longrightarrow> ctxs m' = ctxs m \<Longrightarrow> pc_ok m' c x k = pc_ok m c x k"
  by (simp add: pc_ok_def unlinked_def split: goc_pc.split option.split)

lemma goc_ok_local:
  assumes ok: "goc_ok h c \<lparr>g_mem = m, g_pcs = ks\<rparr>" and x: "ctxs m c = Some x" and p: "p \<in> set (ctx_table x)"
    and f: "shape_pres f" "\<And>l. lp_refcount (f l) = lp_refcount l"
    and m': "lps m' = (lps m)(p := map_option f (lps m p))" "ctxs m' = ctxs m"
  shows "goc_ok h c \<lparr>g_mem = m', g_pcs = ks\<rparr>"
proof (rule goc_okI [where x = x])
  note o = goc_okD [OF ok, of x, simplified, OF x]
  have c: "kmem_ok h m' = kmem_ok h (upd_lp p f m)" by (rule kmem_ok_cong) (simp_all add: m')
  show "kmem_ok h m'" unfolding c using o(1) f(1) by (rule kmem_ok_upd_lp)
  show "private_lps ks" by (rule o(2))
  show "ctxs m' c = Some x" using x m' by simp
  have e: "pc_ok m' c x k = pc_ok (upd_lp p f m) c x k" for k by (rule pc_ok_cong) (simp_all add: m')
  show "pc_ok m' c x k" if "k \<in> set ks" for k
    unfolding e using that o(3) by (auto simp: in_set_conv_nth intro!: pc_ok_upd_lp [OF x p f(1)])
  show "lp_refcount l = of_nat (n_refs q ks)" if "q \<in> set (ctx_table x)" "lps m' q = Some l" for q l
    using that o(4) [OF that(1)] by (auto simp: m' f(2) split: if_splits)
qed

lemma goc_ok_count:
  assumes ok: "goc_ok h c \<lparr>g_mem = m, g_pcs = ks\<rparr>" and x: "ctxs m c = Some x" and f: "stat_pres f"
  shows "goc_ok h c \<lparr>g_mem = m\<lparr>ctxs := (ctxs m)(c \<mapsto> f x)\<rparr>, g_pcs = ks\<rparr>" (is "goc_ok h c \<lparr>g_mem = ?m, g_pcs = ks\<rparr>")
proof (rule goc_okI [where x = "f x"])
  note o = goc_okD [OF ok, of x, simplified, OF x]
  have m: "?m = upd_ctx c f m" using x by (simp add: upd_ctx_def)
  show "kmem_ok h ?m" unfolding m using f o(1) by (rule kmem_ok_upd_ctx)
  show "private_lps ks" by (rule o(2))
  have new: "lp_new (f x) n = lp_new x n" for n by (simp add: lp_new_def stat_presD(7) [OF f])
  show "pc_ok ?m c (f x) k" if "k \<in> set ks" for k
  proof -
    from that o(3) have "pc_ok m c x k" by (auto simp: in_set_conv_nth)
    then show ?thesis using x
      by (auto simp: pc_ok_def unlinked_def stat_presD [OF f] new split: goc_pc.splits option.splits)
  qed
  show "lp_refcount l = of_nat (n_refs q ks)" if "q \<in> set (ctx_table (f x))" "lps ?m q = Some l" for q l
    using that o(4) by (simp add: stat_presD(1) [OF f])
qed simp

text \<open>The logical page that a thread holds, and its slot for the thread's offset.\<close>

lemma held_slot:
  assumes ok: "kmem_ok h m" and x: "ctxs m c = Some x" and v: "lp_view (lps m) x (l_lpn L) = Some p"
    and L: "L = vm_decode (l_pgoff L) x"
  obtains lp where "lps m p = Some lp" and "p \<in> set (ctx_table x)" and "unat (l_cpi L) < length (lp_cp lp)"
    and "length (lp_dirty_bitmap lp) = BITS_TO_LONGS (length (lp_cp lp))"
    and "unat (l_cpi L) = unat (l_pgoff L mod ucast (ctx_cp_per_lp x))"
    and "ctx_view m c (l_pgoff L div ucast (ctx_cp_per_lp x)) = Some p"
    and "page_at m c (l_pgoff L) = lp_cp lp ! unat (l_cpi L)"
proof -
  have lL: "l_lpn L = l_pgoff L div ucast (ctx_cp_per_lp x)"
    and iL: "l_cpi L = ucast (l_pgoff L mod ucast (ctx_cp_per_lp x))"
    by (subst L, simp)+
  from v have p: "p \<in> set (ctx_table x)" by (metis lp_view_SomeD)
  from table_okD [OF kmem_okD(4) [OF ok x] p] obtain lp where lp: "lps m p = Some lp" "lp_ok x lp" by blast
  note dec = cpi_decode [OF kmem_okD(3) [OF ok x], of "l_pgoff L"]
  have i: "unat (l_cpi L) = unat (l_pgoff L mod ucast (ctx_cp_per_lp x))" using dec(1) by (simp add: iL)
  have view: "ctx_view m c (l_pgoff L div ucast (ctx_cp_per_lp x)) = Some p" using v x lL by (simp add: ctx_view_def)
  have len: "length (lp_cp lp) = unat (ctx_cp_per_lp x)" "length (lp_dirty_bitmap lp) = BITS_TO_LONGS (unat (ctx_cp_per_lp x))"
    using lp(2) by (simp_all add: lp_ok_def)
  have lt: "unat (l_cpi L) < length (lp_cp lp)" using dec(2) i len(1) by simp
  have "page_at m c (l_pgoff L) = lp_cp lp ! unat (l_cpi L)"
    using view lp(1) lt by (simp add: page_at_view [OF x] i page_slot_def)
  from that [OF lp(1) p lt _ i view this] len show ?thesis by simp
qed

lemma key_frame:
  assumes "ctxs m' = ctxs m" and "ctx_view m' = ctx_view m"
  shows "same_frame m m'" and "ctx_key m' c = ctx_key m c"
  using assms by (simp_all add: same_frame_def ctx_key_def)

lemma view_upd:
  assumes "lps m' = (lps m)(p := map_option f (lps m p))" and "ctxs m' = ctxs m" and "shape_pres f"
  shows "ctx_view m' = ctx_view m"
  by (intro ext) (simp add: ctx_view_def assms lp_view_upd split: option.split)

text \<open>What the section of a fault does.\<close>

definition served :: "ctx_ptr \<Rightarrow> u64 \<Rightarrow> page_ptr option \<Rightarrow> kmem \<Rightarrow> kmem \<Rightarrow> bool" where
  "served c g r m m' \<longleftrightarrow> (page_at m c g \<noteq> None \<longrightarrow> r = page_at m c g) \<and>
     page_at m' c = (case r of None \<Rightarrow> page_at m c | Some pg \<Rightarrow> (page_at m c)(g \<mapsto> pg)) \<and>
     page_refs (pool m') = (case r of None \<Rightarrow> page_refs (pool m)
       | Some pg \<Rightarrow> (page_refs (pool m))(pg := Suc (if page_at m c g = None then 1 else page_refs (pool m) pg))) \<and>
     (page_at m c g = None \<longrightarrow> (\<forall>pg. r = Some pg \<longrightarrow> page_refs (pool m) pg = 0)) \<and>
     dirty_at m' c = dirty_at m c \<and> ctx_key m' c = ctx_key m c"

text \<open>The critical section of a fault whose page is resident, and of one that installs a page.\<close>

lemma fault_section_hit:
  assumes ok: "vm_ok h c m ks" and x: "ctxs m c = Some x" and p: "p \<in> set (ctx_table x)"
    and at: "page_at m c g = Some pg"
  defines "m' \<equiv> m\<lparr>pool := get_page pg (pool m)\<rparr>"
  shows "served c g (Some pg) m m' \<and> goc_ok h c \<lparr>g_mem = m', g_pcs = map goc_of ks\<rparr> \<and> pages_ok m' \<and> acct_ok m'"
proof -
  note o = vm_okD [OF ok x]
  have "goc_ok h c \<lparr>g_mem = m, g_pcs = map goc_of ks\<rparr>" using ok by (simp add: vm_ok_def)
  from goc_ok_local [OF this x p, of "\<lambda>l. l" m'] have gm: "goc_ok h c \<lparr>g_mem = m', g_pcs = map goc_of ks\<rparr>"
    by (simp add: m'_def shape_pres_def option.map_ident)
  have k: "ctx_key m' c = ctx_key m c" "ctx_view m' c = ctx_view m c" by (simp_all add: m'_def ctx_key_def)
  have "page_at m' c = page_at m c" "dirty_at m' c = dirty_at m c"
    by (rule at_cong [OF k], simp add: m'_def) (rule dirty_cong [OF k], simp add: m'_def)
  then have "served c g (Some pg) m m'"
    using at k by (simp add: served_def get_page_def fun_upd_idem m'_def)
  moreover have "pages_ok m'" using o(2) by (rule pages_ok_mono) (auto simp: get_page_def m'_def)
  moreover have "acct_ok m'" using o(3) by (simp add: acct_ok_def m'_def)
  ultimately show ?thesis using gm by blast
qed

lemma fault_section_new:
  assumes ok: "vm_ok h c m ks" and x: "ctxs m c = Some x" and lp: "lps m p = Some lp" "p \<in> set (ctx_table x)"
    "unat (l_cpi L) < length (lp_cp lp)" and i: "unat (l_cpi L) = unat (l_pgoff L mod ucast (ctx_cp_per_lp x))"
    and view: "ctx_view m c (l_pgoff L div ucast (ctx_cp_per_lp x)) = Some p"
    and at: "page_at m c (l_pgoff L) = None" "lp_cp lp ! unat (l_cpi L) = None" and z: "page_refs (pool m) pg = 0"
  defines "m1 \<equiv> (upd_lp p (set_page (unat (l_cpi L)) pg) m)\<lparr>pool := snd (cp_pool_alloc (Some pg) (pool m))\<rparr>"
  defines "m' \<equiv> m1\<lparr>pool := get_page pg (pool m1)\<rparr>"
  shows "served c (l_pgoff L) (Some pg) m m' \<and> goc_ok h c \<lparr>g_mem = m', g_pcs = map goc_of ks\<rparr> \<and> pages_ok m' \<and> acct_ok m'"
proof -
  let ?f = "set_page (unat (l_cpi L)) pg"
  note o = vm_okD [OF ok x]
  have "goc_ok h c \<lparr>g_mem = m, g_pcs = map goc_of ks\<rparr>" using ok by (simp add: vm_ok_def)
  from goc_ok_local [OF this x lp(2), of ?f m'] have gm: "goc_ok h c \<lparr>g_mem = m', g_pcs = map goc_of ks\<rparr>"
    by (simp add: m'_def m1_def)
  have "kdb_ok h m1"
    unfolding m1_def by (rule kdb_ok_set_page [OF _ x lp(2,1,3) at(2) z]) (use o in \<open>simp add: kdb_ok_def\<close>)
  then have p1: "pages_ok m1" and a1: "acct_ok m1" by (simp_all add: kdb_ok_def)
  have pm: "pages_ok m'" using p1 by (rule pages_ok_mono) (auto simp: get_page_def m'_def)
  have am: "acct_ok m'" using a1 by (simp add: acct_ok_def m'_def)
  have vm: "ctx_view m' = ctx_view m" by (rule view_upd [of _ _ p ?f]) (simp_all add: m'_def m1_def)
  have cm: "ctxs m' = ctxs m" by (simp add: m'_def m1_def)
  have "page_slot (lps m') = (page_slot (lps m))(p := (page_slot (lps m) p)(unat (l_pgoff L mod ucast (ctx_cp_per_lp x)) \<mapsto> pg))"
    using page_slot_set_page [of "lps m" p lp "unat (l_cpi L)" pg] lp by (simp add: i m'_def m1_def)
  from page_at_install [OF key_frame(1) [OF cm vm] x view this]
  have "page_at m' c = (page_at m c)(l_pgoff L \<mapsto> pg)" .
  moreover have "dirty_at m' c = dirty_at m c"
    by (rule dirty_cong [OF key_frame(2) [OF cm vm]])
      (use vm in \<open>auto simp: m'_def m1_def dirty_slot_def fun_eq_iff split: option.split\<close>)
  moreover have "page_refs (pool m') = (page_refs (pool m))(pg := Suc 1)"
    by (simp add: get_page_def cp_pool_alloc_def m'_def m1_def)
  ultimately have "served c (l_pgoff L) (Some pg) m m'"
    using at z key_frame(2) [OF cm vm, of c] by (simp add: served_def)
  with gm pm am show ?thesis by blast
qed

lemma fault_section_served:
  assumes ok: "vm_ok h c m ks" and x: "ctxs m c = Some x" and v: "lp_view (lps m) x (l_lpn L) = Some p"
    and L: "L = vm_decode (l_pgoff L) x" and fr: "page_fresh page m"
  obtains r m' where "fault_section page p (l_cpi L) m = Inr (r, m')" and "served c (l_pgoff L) r m m'"
    and "goc_ok h c \<lparr>g_mem = m', g_pcs = map goc_of ks\<rparr>" and "pages_ok m'" and "acct_ok m'"
proof -
  note o = vm_okD [OF ok x]
  from held_slot [OF o(1) x v L] obtain lp where lp: "lps m p = Some lp" "p \<in> set (ctx_table x)"
    "unat (l_cpi L) < length (lp_cp lp)" and i: "unat (l_cpi L) = unat (l_pgoff L mod ucast (ctx_cp_per_lp x))"
    and view: "ctx_view m c (l_pgoff L div ucast (ctx_cp_per_lp x)) = Some p"
    and at: "page_at m c (l_pgoff L) = lp_cp lp ! unat (l_cpi L)" by blast
  show ?thesis
  proof (cases "lp_cp lp ! unat (l_cpi L)")
    case (Some pg)
    with at have "page_at m c (l_pgoff L) = Some pg" by simp
    from fault_section_hit [OF ok x lp(2) this] show ?thesis
      using that lp Some by (auto simp: fault_section_def)
  next
    case None
    show ?thesis
    proof (cases page)
      case None': None
      have "served c (l_pgoff L) None m m" using at None by (simp add: served_def)
      with that lp None None' o(2,3) ok show ?thesis by (simp add: fault_section_def cp_pool_alloc_def vm_ok_def)
    next
      case (Some pg)
      with fr have "page_refs (pool m) pg = 0" by (simp add: page_fresh_def)
      from fault_section_new [OF ok x lp i view _ None this] show ?thesis
        using that lp None Some at by (auto simp: fault_section_def cp_pool_alloc_def upd_lp_def)
    qed
  qed
qed

lemma dirty_section_marks:
  assumes ok: "vm_ok h c m ks" and x: "ctxs m c = Some x" and v: "lp_view (lps m) x (l_lpn L) = Some p"
    and L: "L = vm_decode (l_pgoff L) x"
  obtains m' where "dirty_section p (l_cpi L) m = Inr m'" and "page_at m' c = page_at m c"
    and "\<forall>g. dirty_at m' c g \<longleftrightarrow> g = l_pgoff L \<or> dirty_at m c g" and "pool m' = pool m"
    and "ctx_key m' c = ctx_key m c" and "goc_ok h c \<lparr>g_mem = m', g_pcs = map goc_of ks\<rparr>"
    and "pages_ok m'" and "acct_ok m'"
proof -
  note o = vm_okD [OF ok x]
  from held_slot [OF o(1) x v L] obtain lp where lp: "lps m p = Some lp" "p \<in> set (ctx_table x)"
    "unat (l_cpi L) < length (lp_cp lp)" "length (lp_dirty_bitmap lp) = BITS_TO_LONGS (length (lp_cp lp))"
    and i: "unat (l_cpi L) = unat (l_pgoff L mod ucast (ctx_cp_per_lp x))"
    and view: "ctx_view m c (l_pgoff L div ucast (ctx_cp_per_lp x)) = Some p" by blast
  from set_bit_in_total [OF lp(4,3)] obtain bm
    where bm: "set_bit_in (unat (l_cpi L)) (lp_dirty_bitmap lp) = Inr bm" "length bm = length (lp_dirty_bitmap lp)" by blast
  define f where "f = (\<lambda>l::lp_state. if length (lp_dirty_bitmap l) = length bm then l\<lparr>lp_dirty_bitmap := bm\<rparr> else l)"
  let ?m = "upd_lp p f m"
  have sp: "shape_pres f" "\<And>l. lp_refcount (f l) = lp_refcount l" and cp: "\<And>l. lp_cp (f l) = lp_cp l"
    by (auto simp: f_def shape_pres_def)
  have ds: "dirty_section p (l_cpi L) m = Inr ?m"
    using lp(1) bm by (simp add: dirty_section_def upd_lp_def f_def)
  have vm: "ctx_view ?m = ctx_view m" by (rule view_upd [of _ _ p f]) (simp_all add: sp)
  have cm: "ctxs ?m = ctxs m" by simp
  note fr = key_frame [OF cm vm]
  have ps: "page_slot (lps ?m) = page_slot (lps m)" by (simp add: page_slot_upd [OF cp])
  have "dirty_slot (lps ?m) q a \<longleftrightarrow> (q = p \<and> a = unat (l_pgoff L mod ucast (ctx_cp_per_lp x))) \<or> dirty_slot (lps m) q a" for q a
    using lp(1) bm test_set_bit_in [OF bm(1), of a] i by (auto simp: dirty_slot_def f_def)
  then have dt: "dirty_at ?m c g \<longleftrightarrow> g = l_pgoff L \<or> dirty_at m c g" for g
    by (rule dirty_at_set [OF fr(1) x view])
  have "goc_ok h c \<lparr>g_mem = ?m, g_pcs = map goc_of ks\<rparr>"
    by (rule goc_ok_local [OF _ x lp(2) sp]) (use ok in \<open>simp_all add: vm_ok_def\<close>)
  moreover have "pages_ok ?m" using o(2) ps by (simp add: pages_ok_def)
  moreover have "resident ?m = resident m" by (rule resident_upd_lp) (simp add: resident_lp_def cp)
  then have "acct_ok ?m" using o(3) by (simp add: acct_ok_def)
  moreover have "page_at ?m c = page_at m c" using page_at_frame [OF fr(1) ps] by simp
  ultimately show ?thesis using that ds dt fr(2) by simp
qed

section \<open>Effects\<close>

text \<open>The page a fault has been given, the offset a write has marked, and the handlers that have counted
  themselves.\<close>

fun got :: "vm_pc \<Rightarrow> (u64 \<times> page_ptr) option" where
  "got (Fault_put L p r) = map_option (Pair (l_pgoff L)) r"
| "got (Fault_count L pg) = Some (l_pgoff L, pg)"
| "got (Fault_done g r pg) = map_option (Pair g) pg"
| "got k = None"

fun marked :: "vm_pc \<Rightarrow> u64 option" where
  "marked (Write_put L p) = Some (l_pgoff L)"
| "marked (Write_count L) = Some (l_pgoff L)"
| "marked (Write_done g r) = (if r = VM_FAULT_LOCKED then Some g else None)"
| "marked k = None"

fun fault_counted :: "vm_pc \<Rightarrow> bool" where
  "fault_counted (Fault_done g r pg) = (pg \<noteq> None)"
| "fault_counted k = False"

fun write_counted :: "vm_pc \<Rightarrow> bool" where
  "write_counted (Write_done g r) = (r = VM_FAULT_LOCKED)"
| "write_counted k = False"

abbreviation same_obs :: "vm_pc \<Rightarrow> vm_pc \<Rightarrow> bool" where
  "same_obs k k' \<equiv> fault_counted k' = fault_counted k \<and> write_counted k' = write_counted k"

inductive vm_effect :: "ctx_ptr \<Rightarrow> vm_pc \<Rightarrow> kmem \<Rightarrow> vm_pc \<Rightarrow> kmem \<Rightarrow> bool" for c where
  quiet: "quiet c m m' \<Longrightarrow> got k' = got k \<Longrightarrow> marked k' = marked k \<Longrightarrow> same_obs k k' \<Longrightarrow> vm_effect c k m k' m'"
| serve: "served c g r m m' \<Longrightarrow> got k = None \<Longrightarrow> got k' = map_option (Pair g) r \<Longrightarrow> marked k' = marked k \<Longrightarrow>
    same_obs k k' \<Longrightarrow> vm_effect c k m k' m'"
| mark: "page_at m' c = page_at m c \<Longrightarrow> (\<And>a. dirty_at m' c a \<longleftrightarrow> a = g \<or> dirty_at m c a) \<Longrightarrow> pool m' = pool m \<Longrightarrow>
    ctx_key m' c = ctx_key m c \<Longrightarrow> got k' = got k \<Longrightarrow> marked k = None \<Longrightarrow> marked k' = Some g \<Longrightarrow>
    same_obs k k' \<Longrightarrow> vm_effect c k m k' m'"
| count_fault: "ctxs m c = Some x \<Longrightarrow> m' = upd_ctx c count_fault m \<Longrightarrow> got k' = got k \<Longrightarrow> marked k' = marked k \<Longrightarrow>
    \<not> fault_counted k \<Longrightarrow> fault_counted k' \<Longrightarrow> write_counted k' = write_counted k \<Longrightarrow> vm_effect c k m k' m'"
| count_write: "ctxs m c = Some x \<Longrightarrow> m' = upd_ctx c count_mkwrite m \<Longrightarrow> got k' = got k \<Longrightarrow> marked k' = marked k \<Longrightarrow>
    \<not> write_counted k \<Longrightarrow> write_counted k' \<Longrightarrow> fault_counted k' = fault_counted k \<Longrightarrow> vm_effect c k m k' m'"

section \<open>Every step returns, keeps the invariant and has one of the effects\<close>

lemma goc_of_vm: "vm_ok h c m ks \<Longrightarrow> goc_ok h c \<lparr>g_mem = m, g_pcs = map goc_of ks\<rparr>"
  by (simp add: vm_ok_def)

lemma decoded_decode: "ctxs m c = Some x \<Longrightarrow> locals_of k = Some (vm_decode g x) \<or> locals_of k = None \<Longrightarrow> decoded m c k"
  by (auto simp: decoded_def)

lemma vm_find_ok:
  assumes ok: "vm_ok h c m ks" and t: "t < length ks" and k: "goc_of (ks ! t) = Finished"
    and out: "goc_of outside = Finished" "locals_of outside = None"
    and miss: "\<And>L. goc_of (miss L) = Alloc (l_lpn L) \<and> locals_of (miss L) = Some L \<or>
      goc_of (miss L) = Finished \<and> locals_of (miss L) = None"
    and hit: "\<And>L p. goc_of (hit L p) = Return (l_lpn L) (Some p) \<and> locals_of (hit L p) = Some L"
  obtains k' m' where "vm_find h c g outside miss hit m = Inr (k', m')" and "vm_ok h c m' (ks[t := k'])"
    and "quiet c m m'" and "k' = outside \<or> (\<exists>L. k' = miss L) \<or> (\<exists>L p. k' = hit L p)"
proof -
  from vm_ok_ctx [OF ok] obtain x where x: "ctxs m c = Some x" by blast
  note o = vm_okD [OF ok x] and gok = goc_of_vm [OF ok]
  let ?L = "vm_decode g x" and ?s = "\<lparr>g_mem = m, g_pcs = map goc_of ks\<rparr>"
  have t': "t < length (g_pcs ?s)" and h: "\<not> holds q (g_pcs ?s ! t)" for q using t k by simp_all
  have nz: "ctx_cp_per_lp x \<noteq> 0" using kmem_okD(3) [OF o(1) x] by (auto simp: ctx_geom_def)
  have step: "vm_ok h c m (ks[t := j])" if "goc_of j = Finished \<or> goc_of j = Alloc (l_lpn ?L) \<and> l_lpn ?L < ctx_n_lpn x"
      "locals_of j = Some ?L \<or> locals_of j = None" for j
    by (rule vm_ok_quiet [OF ok _ decoded_decode [OF x that(2)] t])
      (use goc_pc_move [OF gok t', of x "goc_of j"] x h that(1) in auto)
  show ?thesis
  proof (cases "l_lpn ?L \<ge> ctx_n_lpn x")
    case True
    then have "vm_find h c g outside miss hit m = Inr (outside, m)" using x nz by (simp add: vm_find_def)
    moreover have "vm_ok h c m (ks[t := outside])" by (rule step) (use out in simp_all)
    ultimately show ?thesis using that by simp
  next
    case False
    then have n: "l_lpn ?L < ctx_n_lpn x" by simp
    show ?thesis
    proof (cases "lp_view (lps m) x (l_lpn ?L)")
      case None
      then have "vm_find h c g outside miss hit m = Inr (miss ?L, m)"
        using x nz False by (simp add: vm_find_def lp_find_ref_eq [OF o(1) x])
      moreover have "vm_ok h c m (ks[t := miss ?L])" by (rule step) (use miss [of ?L] n in auto)
      ultimately show ?thesis using that by (metis quiet_refl)
    next
      case (Some p)
      let ?m = "upd_lp p inc_ref m"
      have f: "vm_find h c g outside miss hit m = Inr (hit ?L p, ?m)"
        using x nz False Some by (simp add: vm_find_def lp_find_ref_eq [OF o(1) x])
      have "goc_ok h c \<lparr>g_mem = ?m, g_pcs = (map goc_of ks)[t := goc_of (hit ?L p)]\<rparr>"
        using goc_find_hit [OF gok t' h, of x "l_lpn ?L" p] x Some hit [of ?L p] by simp
      moreover have "decoded ?m c (hit ?L p)" by (rule decoded_decode) (use x hit [of ?L p] in simp_all)
      ultimately have "vm_ok h c ?m (ks[t := hit ?L p])" by (intro vm_ok_quiet [OF ok quiet_refcount _ t])
      from that [OF f this quiet_refcount] show ?thesis by blast
    qed
  qed
qed

lemma vm_alloc_ok:
  assumes ok: "vm_ok h c m ks" and t: "t < length ks" and k: "ks ! t = Fault_alloc L" and fr: "lp_fresh am m"
  obtains k' m' where "vm_next h c am page (Fault_alloc L) m = Inr (k', m')" and "vm_ok h c m' (ks[t := k'])"
    and "quiet c m m'" and "k' = Fault_done (l_pgoff L) VM_FAULT_OOM None \<or> (\<exists>p. k' = Fault_insert L p)"
proof -
  from vm_ok_ctx [OF ok] obtain x where x: "ctxs m c = Some x" by blast
  note o = vm_okD [OF ok x] and gok = goc_of_vm [OF ok]
  have L: "L = vm_decode (l_pgoff L) x" using o(5) [OF t] k by simp
  let ?s = "\<lparr>g_mem = m, g_pcs = map goc_of ks\<rparr>"
  have t': "t < length (g_pcs ?s)" and ka: "g_pcs ?s ! t = Alloc (l_lpn L)" using t k by simp_all
  show ?thesis
  proof (cases "lp_mem_ok am")
    case True
    then obtain p where p: "lm_state am = Some p" by (auto simp: lp_mem_ok_def)
    with fr have d: "lps m p = None" by (simp add: lp_fresh_def)
    let ?m = "m\<lparr>lps := (lps m)(p \<mapsto> lp_new x (l_lpn L))\<rparr>"
    have "vm_next h c am page (Fault_alloc L) m = Inr (Fault_insert L p, ?m)"
      using x True p by (simp add: lp_alloc_eq)
    moreover have q: "quiet c m ?m" by (rule quiet_heap [OF dead_unlinked [OF o(1) d]]) (simp_all add: d)
    moreover have "goc_ok h c \<lparr>g_mem = ?m, g_pcs = (map goc_of ks)[t := goc_of (Fault_insert L p)]\<rparr>"
      using goc_alloc [OF gok t' ka, of x p] x d by simp
    then have "vm_ok h c ?m (ks[t := Fault_insert L p])"
      by (rule vm_ok_quiet [OF ok q _ t, rotated]) (use x L in \<open>simp add: decoded_def\<close>)
    ultimately show ?thesis using that by blast
  next
    case False
    let ?k = "Fault_done (l_pgoff L) VM_FAULT_OOM None"
    have "vm_next h c am page (Fault_alloc L) m = Inr (?k, m)" using x lp_alloc_fail [OF fr False] by simp
    moreover have "goc_ok h c \<lparr>g_mem = m, g_pcs = (map goc_of ks)[t := goc_of ?k]\<rparr>"
      using goc_pc_move [OF gok t', of x "goc_of ?k"] x ka by simp
    then have "vm_ok h c m (ks[t := ?k])"
      by (rule vm_ok_quiet [OF ok quiet_refl _ t, rotated]) (simp add: decoded_def)
    ultimately show ?thesis using that quiet_refl by blast
  qed
qed

lemma vm_insert_ok:
  assumes ok: "vm_ok h c m ks" and t: "t < length ks" and k: "ks ! t = Fault_insert L p"
  obtains q m' where "vm_next h c am page (Fault_insert L p) m = Inr (Fault_lock L q, m')"
    and "vm_ok h c m' (ks[t := Fault_lock L q])" and "quiet c m m'"
proof -
  from vm_ok_ctx [OF ok] obtain x where x: "ctxs m c = Some x" by blast
  note o = vm_okD [OF ok x] and gok = goc_of_vm [OF ok]
  have L: "L = vm_decode (l_pgoff L) x" using o(5) [OF t] k by simp
  let ?s = "\<lparr>g_mem = m, g_pcs = map goc_of ks\<rparr>"
  have t': "t < length (g_pcs ?s)" and ki: "g_pcs ?s ! t = Insert (l_lpn L) p" using t k by simp_all
  from o(4) [OF t] k have n: "l_lpn L < ctx_n_lpn x" and u: "unlinked m p" and lp: "lps m p = Some (lp_new x (l_lpn L))"
    by simp_all
  obtain q m' where r: "lp_insert h c (l_lpn L) p m = Inr (q, m')"
    unfolding lp_insert_eq [OF o(1) x] by (cases "lp_view (lps m) x (l_lpn L)") simp_all
  have q: "quiet c m m'" by (rule quiet_insert [OF o(1) x n lp u r])
  have "goc_step h c ?s \<lparr>g_mem = m', g_pcs = (g_pcs ?s)[t := Return (l_lpn L) (Some q)]\<rparr>"
    by (rule goc_step.insert [OF t' ki]) (simp add: r)
  from goc_ok_step [OF gok this] have g: "goc_ok h c \<lparr>g_mem = m', g_pcs = (map goc_of ks)[t := goc_of (Fault_lock L q)]\<rparr>"
    by simp
  have "decoded m c (Fault_lock L q)" using x L by (simp add: decoded_def)
  then have "decoded m' c (Fault_lock L q)" using q decoded_key [of m' c m] by (simp add: quiet_def)
  from vm_ok_quiet [OF ok q this t g] r q show ?thesis using that by simp
qed

lemma vm_put_ok:
  assumes ok: "vm_ok h c m ks" and t: "t < length ks" and k: "goc_of (ks ! t) = Return n (Some p)"
    and k': "goc_of k' = Finished" "locals_of k' = None"
  obtains m' where "lp_put (Some p) m = Inr m'" and "vm_ok h c m' (ks[t := k'])" and "quiet c m m'"
proof -
  from vm_ok_ctx [OF ok] obtain x where x: "ctxs m c = Some x" by blast
  note o = vm_okD [OF ok x] and gok = goc_of_vm [OF ok]
  let ?s = "\<lparr>g_mem = m, g_pcs = map goc_of ks\<rparr>"
  have t': "t < length (g_pcs ?s)" and kp: "g_pcs ?s ! t = Return n (Some p)" using t k by simp_all
  from o(4) [OF t] k have "lp_view (lps m) x n = Some p" by simp
  then obtain lp where "lps m p = Some lp" by (metis lp_view_SomeD)
  from lp_put_eq [OF this] obtain m' where r: "lp_put (Some p) m = Inr m'" by blast
  have "goc_ok h c \<lparr>g_mem = m', g_pcs = (map goc_of ks)[t := goc_of k']\<rparr>"
    using goc_put [OF gok t' kp, of m'] r k'(1) by simp
  from vm_ok_quiet [OF ok quiet_put [OF r] _ t this] r quiet_put [OF r] k'(2) show ?thesis
    using that by (simp add: decoded_def)
qed

lemma vm_count_ok:
  assumes ok: "vm_ok h c m ks" and t: "t < length ks" and k: "goc_of (ks ! t) = Finished"
    and k': "goc_of k' = Finished" "locals_of k' = None" and f: "stat_pres f"
  shows "count_in f c m = Inr (upd_ctx c f m)" and "vm_ok h c (upd_ctx c f m) (ks[t := k'])"
proof -
  from vm_ok_ctx [OF ok] obtain x where x: "ctxs m c = Some x" by blast
  note o = vm_okD [OF ok x] and gok = goc_of_vm [OF ok]
  let ?m = "m\<lparr>ctxs := (ctxs m)(c \<mapsto> f x)\<rparr>"
  have m: "upd_ctx c f m = ?m" using x by (simp add: upd_ctx_def)
  show "count_in f c m = Inr (upd_ctx c f m)" unfolding m using x by (simp add: count_in_def)
  have "(map goc_of ks)[t := goc_of k'] = map goc_of ks" using t k k'(1) by (simp add: list_update_same_conv)
  with goc_ok_count [OF gok x f] have "goc_ok h c \<lparr>g_mem = ?m, g_pcs = map goc_of (ks[t := k'])\<rparr>"
    by (simp add: map_update)
  moreover have "decoded ?m c j" if "j \<in> set (ks[t := k'])" for j
  proof -
    have "decoded m c j" using in_update_cases [OF t that] ok k'(2) by (auto simp: vm_ok_def decoded_def)
    then show ?thesis using x by (auto simp: decoded_def vm_decode_def stat_presD(7) [OF f] split: option.splits)
  qed
  moreover have "acct_ok ?m" using o(3) resident_upd_ctx [OF f, of c m] unfolding m [symmetric] by (simp add: acct_ok_def)
  ultimately show "vm_ok h c (upd_ctx c f m) (ks[t := k'])" unfolding m using o(2) by (simp add: vm_ok_def pages_ok_def)
qed

text \<open>A held logical page, as the sections find it.\<close>

lemma vm_held:
  assumes ok: "vm_ok h c m ks" and t: "t < length ks" and k: "goc_of (ks ! t) = Return (l_lpn L) (Some p)"
    and l: "locals_of (ks ! t) = Some L"
  obtains x where "ctxs m c = Some x" and "lp_view (lps m) x (l_lpn L) = Some p" and "L = vm_decode (l_pgoff L) x"
proof -
  from vm_ok_ctx [OF ok] obtain x where x: "ctxs m c = Some x" by blast
  from vm_okD(4,5) [OF ok x t] k l that [OF x] show ?thesis by simp
qed

text \<open>The change of a section, under the lock of the logical page.\<close>

lemma vm_ok_section:
  assumes ok: "vm_ok h c m ks" and t: "t < length ks" and g: "goc_ok h c \<lparr>g_mem = m', g_pcs = map goc_of ks\<rparr>"
    and k: "goc_of k' = goc_of (ks ! t)" "locals_of k' = locals_of (ks ! t)" and key: "ctx_key m' c = ctx_key m c"
    and p: "pages_ok m'" "acct_ok m'"
  shows "vm_ok h c m' (ks[t := k'])"
proof -
  have "decoded m c j" if "j \<in> set (ks[t := k'])" for j
    using in_update_cases [OF t that] ok t k(2) by (auto simp: vm_ok_def decoded_def)
  moreover have "map goc_of (ks[t := k']) = map goc_of ks" using t k(1) by (simp add: map_update list_update_same_conv)
  ultimately show ?thesis using g p decoded_key [OF key] by (simp add: vm_ok_def)
qed

lemma vm_fault_lock_ok:
  assumes ok: "vm_ok h c m ks" and t: "t < length ks" and k: "ks ! t = Fault_lock L p" and fr: "page_fresh page m"
  obtains r m' where "vm_next h c am page (Fault_lock L p) m = Inr (Fault_put L p r, m')"
    and "vm_ok h c m' (ks[t := Fault_put L p r])" and "served c (l_pgoff L) r m m'"
proof -
  obtain x where x: "ctxs m c = Some x" "lp_view (lps m) x (l_lpn L) = Some p" "L = vm_decode (l_pgoff L) x"
    by (rule vm_held [OF ok t, of L p]) (use k in simp_all)
  obtain r m' where f: "fault_section page p (l_cpi L) m = Inr (r, m')" and s: "served c (l_pgoff L) r m m'"
    and g: "goc_ok h c \<lparr>g_mem = m', g_pcs = map goc_of ks\<rparr>" and p: "pages_ok m'" "acct_ok m'"
    by (rule fault_section_served [OF ok x fr])
  have "vm_ok h c m' (ks[t := Fault_put L p r])"
    by (rule vm_ok_section [OF ok t g _ _ _ p]) (use k s in \<open>simp_all add: served_def\<close>)
  with f s show ?thesis using that by simp
qed

lemma vm_write_lock_ok:
  assumes ok: "vm_ok h c m ks" and t: "t < length ks" and k: "ks ! t = Write_lock L p"
  obtains m' where "vm_next h c am page (Write_lock L p) m = Inr (Write_put L p, m')"
    and "vm_ok h c m' (ks[t := Write_put L p])" and "vm_effect c (Write_lock L p) m (Write_put L p) m'"
proof -
  obtain x where x: "ctxs m c = Some x" "lp_view (lps m) x (l_lpn L) = Some p" "L = vm_decode (l_pgoff L) x"
    by (rule vm_held [OF ok t, of L p]) (use k in simp_all)
  obtain m' where f: "dirty_section p (l_cpi L) m = Inr m'" and pa: "page_at m' c = page_at m c"
    and d: "\<forall>g. dirty_at m' c g \<longleftrightarrow> g = l_pgoff L \<or> dirty_at m c g" and pl: "pool m' = pool m"
    and key: "ctx_key m' c = ctx_key m c" and g: "goc_ok h c \<lparr>g_mem = m', g_pcs = map goc_of ks\<rparr>"
    and p: "pages_ok m'" "acct_ok m'"
    by (rule dirty_section_marks [OF ok x])
  have "vm_ok h c m' (ks[t := Write_put L p])" by (rule vm_ok_section [OF ok t g _ _ key p]) (use k in simp_all)
  moreover have "vm_effect c (Write_lock L p) m (Write_put L p) m'"
    by (rule vm_effect.mark [OF pa spec [OF d] pl key]) simp_all
  ultimately show ?thesis using that f by simp
qed

text \<open>A thread that can take its step, and what the step does.\<close>

definition steps_ok :: "hash64 \<Rightarrow> ctx_ptr \<Rightarrow> lp_mem \<Rightarrow> page_ptr option \<Rightarrow> kmem \<Rightarrow> vm_pc list \<Rightarrow> nat \<Rightarrow> bool" where
  "steps_ok h c am page m ks t \<longleftrightarrow> (\<exists>k' m'. vm_next h c am page (ks ! t) m = Inr (k', m') \<and> vm_ok h c m' (ks[t := k']) \<and>
     vm_effect c (ks ! t) m k' m')"

lemma steps_okI:
  "vm_next h c am page (ks ! t) m = Inr (k', m') \<Longrightarrow> vm_ok h c m' (ks[t := k']) \<Longrightarrow> vm_effect c (ks ! t) m k' m' \<Longrightarrow>
   steps_ok h c am page m ks t"
  unfolding steps_ok_def by blast

lemma find_steps_ok:
  assumes ok: "vm_ok h c m ks" and t: "t < length ks" and k: "ks ! t = Fault_find g \<or> ks ! t = Write_find g"
  shows "steps_ok h c am page m ks t"
  using k
proof
  assume k: "ks ! t = Fault_find g"
  obtain k' m' where m: "vm_next h c am page (ks ! t) m = Inr (k', m')" "vm_ok h c m' (ks[t := k'])" "quiet c m m'"
    "k' = Fault_done g VM_FAULT_SIGBUS None \<or> (\<exists>L. k' = Fault_alloc L) \<or> (\<exists>L p. k' = Fault_lock L p)"
    unfolding k vm_next.simps
    by (rule vm_find_ok [OF ok t, of "Fault_done g VM_FAULT_SIGBUS None" Fault_alloc Fault_lock g]) (use k in auto)
  then have "vm_effect c (ks ! t) m k' m'" unfolding k by (auto intro!: vm_effect.quiet)
  with m(1,2) show ?thesis by (rule steps_okI)
next
  let ?k = "Write_done g VM_FAULT_SIGBUS"
  assume k: "ks ! t = Write_find g"
  obtain k' m' where m: "vm_next h c am page (ks ! t) m = Inr (k', m')" "vm_ok h c m' (ks[t := k'])" "quiet c m m'"
    "k' = ?k \<or> (\<exists>L::vm_locals. k' = ?k) \<or> (\<exists>L p. k' = Write_lock L p)"
    unfolding k vm_next.simps
    by (rule vm_find_ok [OF ok t, of ?k "\<lambda>L. ?k" Write_lock g]) (use k in auto)
  then have "vm_effect c (ks ! t) m k' m'" unfolding k by (auto intro!: vm_effect.quiet)
  with m(1,2) show ?thesis by (rule steps_okI)
qed

lemma put_steps_ok:
  assumes ok: "vm_ok h c m ks" and t: "t < length ks" and k: "ks ! t = Fault_put L p r \<or> ks ! t = Write_put L p"
  shows "steps_ok h c am page m ks t"
  using k
proof
  let ?k = "case r of None \<Rightarrow> Fault_done (l_pgoff L) VM_FAULT_OOM None | Some pg \<Rightarrow> Fault_count L pg"
  assume k: "ks ! t = Fault_put L p r"
  obtain m' where m: "lp_put (Some p) m = Inr m'" "vm_ok h c m' (ks[t := ?k])" "quiet c m m'"
    by (rule vm_put_ok [OF ok t, of "l_lpn L" p ?k]) (use k in \<open>simp_all split: option.split\<close>)
  have "vm_effect c (ks ! t) m ?k m'" unfolding k by (rule vm_effect.quiet [OF m(3)]) (simp_all split: option.split)
  with m k show ?thesis by (intro steps_okI [of _ _ _ _ _ _ _ ?k m']) simp_all
next
  assume k: "ks ! t = Write_put L p"
  obtain m' where m: "lp_put (Some p) m = Inr m'" "vm_ok h c m' (ks[t := Write_count L])" "quiet c m m'"
    by (rule vm_put_ok [OF ok t, of "l_lpn L" p "Write_count L"]) (use k in simp_all)
  have "vm_effect c (ks ! t) m (Write_count L) m'" unfolding k by (rule vm_effect.quiet [OF m(3)]) simp_all
  with m k show ?thesis by (intro steps_okI [of _ _ _ _ _ _ _ "Write_count L" m']) simp_all
qed

lemma count_steps_ok:
  assumes ok: "vm_ok h c m ks" and t: "t < length ks" and k: "ks ! t = Fault_count L pg \<or> ks ! t = Write_count L"
  shows "steps_ok h c am page m ks t"
proof -
  from vm_ok_ctx [OF ok] obtain x where x: "ctxs m c = Some x" by blast
  from k show ?thesis
  proof
    let ?k = "Fault_done (l_pgoff L) VM_FAULT_LOCKED (Some pg)" and ?m = "upd_ctx c count_fault m"
    assume k: "ks ! t = Fault_count L pg"
    have "vm_effect c (ks ! t) m ?k ?m" unfolding k by (rule vm_effect.count_fault [OF x]) simp_all
    with vm_count_ok [OF ok t, of ?k count_fault] k show ?thesis by (intro steps_okI [of _ _ _ _ _ _ _ ?k ?m]) simp_all
  next
    let ?k = "Write_done (l_pgoff L) VM_FAULT_LOCKED" and ?m = "upd_ctx c count_mkwrite m"
    assume k: "ks ! t = Write_count L"
    have "vm_effect c (ks ! t) m ?k ?m" unfolding k by (rule vm_effect.count_write [OF x]) simp_all
    with vm_count_ok [OF ok t, of ?k count_mkwrite] k show ?thesis by (intro steps_okI [of _ _ _ _ _ _ _ ?k ?m]) simp_all
  qed
qed

lemma vm_next_ok:
  assumes ok: "vm_ok h c m ks" and t: "t < length ks" and rk: "0 < vm_rank (ks ! t)"
    and fr: "lp_fresh am m" "page_fresh page m"
  shows "\<exists>k' m'. vm_next h c am page (ks ! t) m = Inr (k', m') \<and> vm_ok h c m' (ks[t := k']) \<and>
    vm_effect c (ks ! t) m k' m'"
  unfolding steps_ok_def [symmetric]
proof (cases "ks ! t")
  case (Fault_alloc L)
  obtain k' m' where m: "vm_next h c am page (ks ! t) m = Inr (k', m')" "vm_ok h c m' (ks[t := k'])" "quiet c m m'"
    "k' = Fault_done (l_pgoff L) VM_FAULT_OOM None \<or> (\<exists>p. k' = Fault_insert L p)"
    unfolding Fault_alloc by (rule vm_alloc_ok [OF ok t Fault_alloc fr(1), of page])
  then have "vm_effect c (ks ! t) m k' m'" unfolding Fault_alloc by (auto intro!: vm_effect.quiet)
  with m(1,2) show "steps_ok h c am page m ks t" by (rule steps_okI)
next
  case (Fault_insert L p)
  obtain q m' where m: "vm_next h c am page (ks ! t) m = Inr (Fault_lock L q, m')" "vm_ok h c m' (ks[t := Fault_lock L q])"
    "quiet c m m'"
    unfolding Fault_insert by (rule vm_insert_ok [OF ok t Fault_insert, of am page])
  have "vm_effect c (ks ! t) m (Fault_lock L q) m'" unfolding Fault_insert by (rule vm_effect.quiet [OF m(3)]) simp_all
  with m(1,2) show "steps_ok h c am page m ks t" by (rule steps_okI)
next
  case (Fault_lock L p)
  obtain r m' where m: "vm_next h c am page (ks ! t) m = Inr (Fault_put L p r, m')"
    "vm_ok h c m' (ks[t := Fault_put L p r])" "served c (l_pgoff L) r m m'"
    unfolding Fault_lock by (rule vm_fault_lock_ok [OF ok t Fault_lock fr(2), of am])
  then have "vm_effect c (ks ! t) m (Fault_put L p r) m'" unfolding Fault_lock by (intro vm_effect.serve) simp_all
  with m(1,2) show "steps_ok h c am page m ks t" by (rule steps_okI)
next
  case (Write_lock L p)
  from vm_write_lock_ok [OF ok t Write_lock, of am page] Write_lock show "steps_ok h c am page m ks t"
    unfolding steps_ok_def by metis
qed (use rk find_steps_ok [OF ok t] put_steps_ok [OF ok t] count_steps_ok [OF ok t] in \<open>simp_all\<close>)

end
