(* ===== verification/Kdb_Parallel.thy ===== *)
theory Kdb_Parallel
  imports Kdb_Concurrent
begin

text \<open>
  Histories of interleaved handlers: what the pages, references, dirty bits and counters of a
  mapping are after any schedule, compared with the state before it and the results of the threads.
\<close>

section \<open>Histories\<close>

definition page_hist :: "ctx_ptr \<Rightarrow> kmem \<Rightarrow> kmem \<Rightarrow> vm_pc list \<Rightarrow> bool" where
  "page_hist c m0 m ks \<longleftrightarrow>
     (\<forall>g pg. page_at m0 c g = Some pg \<longrightarrow> page_at m c g = Some pg) \<and>
     (\<forall>k \<in> set ks. \<forall>g pg. got k = Some (g, pg) \<longrightarrow> page_at m c g = Some pg) \<and>
     (\<forall>g pg. page_at m c g = Some pg \<longrightarrow> page_at m0 c g = Some pg \<or> (\<exists>k \<in> set ks. got k = Some (g, pg)))"

definition ref_hist :: "ctx_ptr \<Rightarrow> kmem \<Rightarrow> kmem \<Rightarrow> vm_pc list \<Rightarrow> bool" where
  "ref_hist c m0 m ks \<longleftrightarrow> (\<forall>g pg. page_at m c g = Some pg \<longrightarrow>
     page_refs (pool m) pg = (if page_at m0 c g = None then 1 else page_refs (pool m0) pg) +
       n_threads (\<lambda>k. got k = Some (g, pg)) ks)"

definition dirty_hist :: "ctx_ptr \<Rightarrow> kmem \<Rightarrow> kmem \<Rightarrow> vm_pc list \<Rightarrow> bool" where
  "dirty_hist c m0 m ks \<longleftrightarrow> (\<forall>g. dirty_at m c g \<longleftrightarrow> dirty_at m0 c g \<or> (\<exists>k \<in> set ks. marked k = Some g))"

definition stat_hist :: "ctx_ptr \<Rightarrow> kmem \<Rightarrow> kmem \<Rightarrow> vm_pc list \<Rightarrow> bool" where
  "stat_hist c m0 m ks \<longleftrightarrow> ctx_key m c =
     map_option (\<lambda>(n, k, f, w). (n, k, f + of_nat (n_threads fault_counted ks), w + of_nat (n_threads write_counted ks)))
       (ctx_key m0 c)"

definition vm_hist :: "ctx_ptr \<Rightarrow> kmem \<Rightarrow> kmem \<Rightarrow> vm_pc list \<Rightarrow> bool" where
  "vm_hist c m0 m ks \<longleftrightarrow> page_hist c m0 m ks \<and> ref_hist c m0 m ks \<and> dirty_hist c m0 m ks \<and> stat_hist c m0 m ks"

section \<open>Pages of a mapping\<close>

lemma page_at_slotE:
  assumes "page_at m c g = Some pg"
  obtains x p where "ctxs m c = Some x" and "ctx_view m c (g div ucast (ctx_cp_per_lp x)) = Some p"
    and "page_slot (lps m) p (unat (g mod ucast (ctx_cp_per_lp x))) = Some pg"
proof -
  from assms obtain x where x: "ctxs m c = Some x" by (auto simp: page_at_def split: option.splits)
  with assms that [OF x] show ?thesis by (auto simp: page_at_view split: option.splits)
qed

lemma page_at_refs: "pages_ok m \<Longrightarrow> page_at m c g = Some pg \<Longrightarrow> 0 < page_refs (pool m) pg"
  by (metis page_at_slotE pages_okD(3))

lemma page_at_unique:
  assumes "pages_ok m" and "page_at m c g = Some pg" and "page_at m c a = Some pg"
  shows "g = a"
proof -
  from assms(2) obtain x p where x: "ctxs m c = Some x" and p: "ctx_view m c (g div ucast (ctx_cp_per_lp x)) = Some p"
    "page_slot (lps m) p (unat (g mod ucast (ctx_cp_per_lp x))) = Some pg" by (rule page_at_slotE)
  from assms(3) x obtain q where q: "ctx_view m c (a div ucast (ctx_cp_per_lp x)) = Some q"
    "page_slot (lps m) q (unat (a mod ucast (ctx_cp_per_lp x))) = Some pg"
    by (auto elim!: page_at_slotE)
  from pages_okD(1,2) [OF assms(1) p(2) q(2)] p(1) q(1) show ?thesis
    using ctx_view_inj pgoff_decode_inj by blast
qed

lemma upd_ctx_stat_at:
  assumes "stat_pres f"
  shows "page_at (upd_ctx c f m) c = page_at m c" and "dirty_at (upd_ctx c f m) c = dirty_at m c"
proof -
  have v: "ctx_view (upd_ctx c f m) c = ctx_view m c" using assms by simp
  have "page_at (upd_ctx c f m) c = page_at m c \<and> dirty_at (upd_ctx c f m) c = dirty_at m c"
  proof (cases "ctxs m c")
    case (Some x)
    then have x: "ctxs (upd_ctx c f m) c = Some (f x)" by simp
    show ?thesis
      by (simp only: fun_eq_iff page_at_view [OF x] page_at_view [OF Some] dirty_at_view [OF x] dirty_at_view [OF Some]
        v stat_presD(7) [OF assms] upd_ctx_simps simp_thms)
  qed (simp add: page_at_def dirty_at_def fun_eq_iff)
  then show "page_at (upd_ctx c f m) c = page_at m c" and "dirty_at (upd_ctx c f m) c = dirty_at m c" by blast+
qed

section \<open>Effects extend histories\<close>

text \<open>A step after which nobody has a page that nobody had before.\<close>

lemma page_hist_same:
  assumes "page_hist c m0 m ks" and "t < length ks" and "got k' = got (ks ! t)" and "page_at m' c = page_at m c"
  shows "page_hist c m0 m' (ks[t := k'])"
  using assms(1,4) ex_update_same [OF assms(2), of _ k'] all_update_same [OF assms(2), of _ k'] assms(3)
  unfolding page_hist_def by simp

lemma ref_hist_same:
  assumes "ref_hist c m0 m ks" and "t < length ks" and "got k' = got (ks ! t)" and "page_at m' c = page_at m c"
    and "page_refs (pool m') = page_refs (pool m)"
  shows "ref_hist c m0 m' (ks[t := k'])"
  using assms by (simp add: ref_hist_def n_threads_same)

lemma dirty_hist_same:
  assumes "dirty_hist c m0 m ks" and "t < length ks" and "marked k' = marked (ks ! t)" and "dirty_at m' c = dirty_at m c"
  shows "dirty_hist c m0 m' (ks[t := k'])"
  using assms(1,4) ex_update_same [OF assms(2), of _ k'] assms(3) unfolding dirty_hist_def by simp

lemma stat_hist_same:
  assumes "stat_hist c m0 m ks" and "t < length ks" and "same_obs (ks ! t) k'" and "ctx_key m' c = ctx_key m c"
  shows "stat_hist c m0 m' (ks[t := k'])"
  using assms by (simp add: stat_hist_def n_threads_same)

lemma page_hist_serve:
  assumes h: "page_hist c m0 m ks" and t: "t < length ks" and k: "got (ks ! t) = None" "got k' = Some (g, pg)"
    and s: "page_at m c g \<noteq> None \<longrightarrow> Some pg = page_at m c g" "page_at m' c = (page_at m c)(g \<mapsto> pg)"
  shows "page_hist c m0 m' (ks[t := k'])"
proof -
  have old: "page_at m c a = Some q \<Longrightarrow> page_at m' c a = Some q" for a q using s by (cases "a = g") auto
  have new: "page_at m' c a = Some q \<Longrightarrow> page_at m c a = Some q \<or> got k' = Some (a, q)" for a q
    using s(2) k(2) by (cases "a = g") auto
  have mem: "k' \<in> set (ks[t := k'])" using t by (rule set_update_memI)
  have keep: "j \<in> set ks \<Longrightarrow> got j = Some y \<Longrightarrow> \<exists>i \<in> set (ks[t := k']). got i = Some y" for j y
    using in_update_other [OF _ t, of j k'] k(1) by auto
  show ?thesis unfolding page_hist_def
  proof (intro conjI allI ballI impI)
    show "page_at m' c a = Some q" if "page_at m0 c a = Some q" for a q
      using that h old by (auto simp: page_hist_def)
    show "page_at m' c a = Some q" if "j \<in> set (ks[t := k'])" "got j = Some (a, q)" for j a q
      using in_update_cases [OF t that(1)]
    proof
      assume "j \<in> set ks"
      with that(2) h have "page_at m c a = Some q" by (simp add: page_hist_def)
      then show ?thesis by (rule old)
    qed (use that(2) k(2) s(2) in simp)
    show "page_at m0 c a = Some q \<or> (\<exists>j \<in> set (ks[t := k']). got j = Some (a, q))" if "page_at m' c a = Some q" for a q
      using new [OF that] h mem keep unfolding page_hist_def by blast
  qed
qed

lemma served_apart:
  assumes p: "pages_ok m" and s: "served c g (Some pg) m m'" and old: "page_at m c a = Some q" and "a \<noteq> g"
  shows "q \<noteq> pg"
proof
  assume e: "q = pg"
  show False
  proof (cases "page_at m c g")
    case None
    with s have "page_refs (pool m) pg = 0" by (simp add: served_def)
    with page_at_refs [OF p old] e show False by simp
  next
    case (Some r)
    with s have "r = pg" by (simp add: served_def)
    with Some old e page_at_unique [OF p old] assms(4) show False by blast
  qed
qed

lemma ref_hist_serve:
  assumes h: "ref_hist c m0 m ks" and ph: "page_hist c m0 m ks" and p: "pages_ok m" and t: "t < length ks"
    and k: "got (ks ! t) = None" "got k' = Some (g, pg)" and s: "served c g (Some pg) m m'"
  shows "ref_hist c m0 m' (ks[t := k'])"
  unfolding ref_hist_def
proof (intro allI impI)
  fix a q assume a: "page_at m' c a = Some q"
  let ?n = "\<lambda>ks. n_threads (\<lambda>k. got k = Some (a, q)) ks"
  have at: "page_at m' c = (page_at m c)(g \<mapsto> pg)"
    and refs: "page_refs (pool m') = (page_refs (pool m))(pg := Suc (if page_at m c g = None then 1 else page_refs (pool m) pg))"
    using s by (simp_all add: served_def)
  show "page_refs (pool m') q = (if page_at m0 c a = None then 1 else page_refs (pool m0) q) + ?n (ks[t := k'])"
  proof (cases "a = g")
    case True
    with a at have q: "q = pg" by simp
    have n: "?n (ks[t := k']) = Suc (?n ks)" using t k True q by (intro n_threads_more) simp_all
    show ?thesis
    proof (cases "page_at m c g")
      case None
      with ph have z: "page_at m0 c g = None" by (cases "page_at m0 c g") (auto simp: page_hist_def)
      have "?n ks = 0" using ph None True q by (intro n_threads_0) (auto simp: page_hist_def)
      with n refs None z True q show ?thesis by simp
    next
      case (Some r)
      with s have "r = pg" by (simp add: served_def)
      with Some h have "page_refs (pool m) pg = (if page_at m0 c g = None then 1 else page_refs (pool m0) pg) +
          n_threads (\<lambda>k. got k = Some (g, pg)) ks" by (simp add: ref_hist_def)
      with Some n refs True q show ?thesis by simp
    qed
  next
    case False
    with a at have old: "page_at m c a = Some q" by simp
    have "q \<noteq> pg" by (rule served_apart [OF p s old False])
    moreover have "?n (ks[t := k']) = ?n ks" using t k False by (intro n_threads_same) auto
    ultimately show ?thesis using h old refs by (simp add: ref_hist_def)
  qed
qed

lemma dirty_hist_mark:
  assumes h: "dirty_hist c m0 m ks" and t: "t < length ks" and k: "marked (ks ! t) = None" "marked k' = Some g"
    and d: "\<And>a. dirty_at m' c a \<longleftrightarrow> a = g \<or> dirty_at m c a"
  shows "dirty_hist c m0 m' (ks[t := k'])"
proof -
  have "(\<exists>j \<in> set (ks[t := k']). marked j = Some a) \<longleftrightarrow> a = g \<or> (\<exists>j \<in> set ks. marked j = Some a)" for a
    using in_update_cases [OF t, of _ k'] in_update_other [OF _ t, of _ k'] k set_update_memI [OF t, of k'] by force
  with h d show ?thesis by (auto simp: dirty_hist_def)
qed

lemma stat_hist_count:
  assumes h: "stat_hist c m0 m ks" and t: "t < length ks" and x: "ctxs m c = Some x"
  shows "\<not> fault_counted (ks ! t) \<Longrightarrow> fault_counted k' \<Longrightarrow> write_counted k' = write_counted (ks ! t) \<Longrightarrow>
      stat_hist c m0 (upd_ctx c count_fault m) (ks[t := k'])"
    and "\<not> write_counted (ks ! t) \<Longrightarrow> write_counted k' \<Longrightarrow> fault_counted k' = fault_counted (ks ! t) \<Longrightarrow>
      stat_hist c m0 (upd_ctx c count_mkwrite m) (ks[t := k'])"
  using h t x by (cases "ctxs m0 c"; simp add: stat_hist_def ctx_key_def n_threads_more n_threads_same)+

lemma vm_hist_effect:
  assumes h: "vm_hist c m0 m ks" and p: "pages_ok m" and t: "t < length ks" and e: "vm_effect c (ks ! t) m k' m'"
  shows "vm_hist c m0 m' (ks[t := k'])"
proof -
  from h have hs: "page_hist c m0 m ks" "ref_hist c m0 m ks" "dirty_hist c m0 m ks" "stat_hist c m0 m ks"
    by (simp_all add: vm_hist_def)
  from e show ?thesis
  proof cases
    case quiet
    then show ?thesis using hs t
      by (simp add: vm_hist_def quiet_def page_hist_same [of _ _ m] ref_hist_same [of _ _ m] dirty_hist_same [of _ _ m]
        stat_hist_same [of _ _ m])
  next
    case (serve g r)
    have ds: "dirty_hist c m0 m' (ks[t := k'])" "stat_hist c m0 m' (ks[t := k'])"
      using serve by (auto simp: served_def intro!: dirty_hist_same [OF hs(3) t] stat_hist_same [OF hs(4) t])
    show ?thesis
    proof (cases r)
      case None
      with serve have "page_hist c m0 m' (ks[t := k'])" "ref_hist c m0 m' (ks[t := k'])"
        by (auto simp: served_def intro!: page_hist_same [OF hs(1) t] ref_hist_same [OF hs(2) t])
      with ds show ?thesis by (simp add: vm_hist_def)
    next
      case (Some pg)
      with serve have "page_hist c m0 m' (ks[t := k'])"
        by (intro page_hist_serve [OF hs(1) t, of k' g pg]) (auto simp: served_def)
      moreover have "ref_hist c m0 m' (ks[t := k'])"
        by (rule ref_hist_serve [OF hs(2,1) p t, of k' g pg]) (use serve Some in simp_all)
      ultimately show ?thesis using ds by (simp add: vm_hist_def)
    qed
  next
    case (mark g)
    have "dirty_hist c m0 m' (ks[t := k'])" by (rule dirty_hist_mark [OF hs(3) t]) (use mark in simp_all)
    with mark hs t show ?thesis
      by (simp add: vm_hist_def page_hist_same [of _ _ m] ref_hist_same [of _ _ m] stat_hist_same [of _ _ m])
  next
    case (count_fault x)
    note s = upd_ctx_stat_at [where f = "\<lambda>x. count_fault x"]
    have "stat_hist c m0 m' (ks[t := k'])" using stat_hist_count(1) [OF hs(4) t] count_fault by blast
    with count_fault hs t s [of c m] show ?thesis
      by (simp add: vm_hist_def page_hist_same [of _ _ m] ref_hist_same [of _ _ m] dirty_hist_same [of _ _ m])
  next
    case (count_write x)
    note s = upd_ctx_stat_at [where f = "\<lambda>x. count_mkwrite x"]
    have "stat_hist c m0 m' (ks[t := k'])" using stat_hist_count(2) [OF hs(4) t] count_write by blast
    with count_write hs t s [of c m] show ?thesis
      by (simp add: vm_hist_def page_hist_same [of _ _ m] ref_hist_same [of _ _ m] dirty_hist_same [of _ _ m])
  qed
qed

section \<open>The handlers as a system of threads\<close>

lemma vm_find_rank:
  "vm_find h c g outside miss hit m = Inr (k', m') \<Longrightarrow>
     k' = outside \<or> (\<exists>L. k' = miss L) \<or> (\<exists>L p. k' = hit L p)"
  by (auto simp: vm_find_def kres_simps Let_def split: if_splits option.splits)

lemma vm_rank_next:
  assumes "vm_next h c am page k m = Inr (k', m')" and "0 < vm_rank k"
  shows "vm_rank k' < vm_rank k"
proof (cases k)
  case (Fault_find g)
  with assms vm_find_rank [of h c g] show ?thesis by fastforce
next
  case (Write_find g)
  with assms vm_find_rank [of h c g] show ?thesis by fastforce
next
  case (Fault_alloc L)
  with assms show ?thesis by (auto elim: vm_alloc_cases simp del: vm_next.simps)
qed (use assms in \<open>auto simp: kres_simps split: prod.splits option.splits\<close>)

interpretation vm: wait_free "vm_step h c" vm_rank "\<lambda>m ks. vm_ok h c m ks \<and> vm_hist c m0 m ks" for h c m0
proof
  show "vm_rank k' < vm_rank k" if "vm_step h c k m k' m'" for k m k' m'
    using that vm_rank_next by (auto simp: vm_step_def)
  show "vm_ok h c m' (ks[t := k]) \<and> vm_hist c m0 m' (ks[t := k])"
    if "vm_ok h c m ks \<and> vm_hist c m0 m ks" "t < length ks" "vm_step h c (ks ! t) m k m'" for m ks t k m'
  proof -
    from that(3) obtain am page where s: "0 < vm_rank (ks ! t)" "lp_fresh am m" "page_fresh page m"
      "vm_next h c am page (ks ! t) m = Inr (k, m')" by (auto simp: vm_step_def)
    from that(1) have ok: "vm_ok h c m ks" and hi: "vm_hist c m0 m ks" by simp_all
    from vm_next_ok [OF ok that(2) s(1-3)] s(4) have "vm_ok h c m' (ks[t := k])" and e: "vm_effect c (ks ! t) m k m'"
      by auto
    moreover have "pages_ok m" using ok by (simp add: vm_ok_def)
    ultimately show ?thesis using vm_hist_effect [OF hi _ that(2) e] by simp
  qed
  show "\<exists>k m'. vm_step h c (ks ! t) m k m'"
    if "vm_ok h c m ks \<and> vm_hist c m0 m ks" "t < length ks" "0 < vm_rank (ks ! t)" for m ks t
  proof -
    let ?am = "\<lparr>lm_state = None, lm_cp = True, lm_bitmap = True\<rparr>"
    have fr: "lp_fresh ?am m" "page_fresh None m" by (simp_all add: lp_fresh_def page_fresh_def)
    from vm_next_ok [OF _ that(2,3) fr] that(1,3) fr show ?thesis unfolding vm_step_def by blast
  qed
qed

text \<open>A handler at its beginning.\<close>

fun vm_start :: "vm_pc \<Rightarrow> bool" where
  "vm_start (Fault_find g) = True"
| "vm_start (Write_find g) = True"
| "vm_start k = False"

lemma vm_start_simps:
  "vm_start k \<Longrightarrow> goc_of k = Finished \<and> locals_of k = None \<and> got k = None \<and> marked k = None \<and>
     \<not> fault_counted k \<and> \<not> write_counted k"
  by (cases k) simp_all

lemma vm_init:
  assumes ok: "kdb_ok h m" and rc: "rc_zero m" and c: "ctxs m c = Some x" and st: "\<forall>k \<in> set ks. vm_start k"
  shows "vm_ok h c m ks" and "vm_hist c m m ks"
proof -
  have f: "map goc_of ks = map (\<lambda>_. Finished) ks" using st vm_start_simps by simp
  have n: "n_refs p (map (\<lambda>_. Finished) ks) = 0" for p by (rule n_refs_0) simp
  have "goc_ok h c \<lparr>g_mem = m, g_pcs = map goc_of ks\<rparr>"
    unfolding f using ok rc c by (intro goc_okI [of h m _ c x]) (auto simp: kdb_ok_def private_lps_def rc_zero_def n)
  then show "vm_ok h c m ks"
    using ok st by (auto simp: vm_ok_def kdb_ok_def decoded_def vm_start_simps)
  have z: "n_threads P ks = 0" if "\<And>k. vm_start k \<Longrightarrow> \<not> P k" for P using that st by (intro n_threads_0) blast
  have no: "got k = None" "marked k = None" if "k \<in> set ks" for k using that st vm_start_simps by blast+
  have w: "0 < page_refs (pool m) pg" if "page_at m c g = Some pg" for g pg
    using that ok page_at_refs by (auto simp: kdb_ok_def)
  have "page_hist c m m ks" using no by (auto simp: page_hist_def)
  moreover have "ref_hist c m m ks" using z by (simp add: ref_hist_def vm_start_simps)
  moreover have "dirty_hist c m m ks" using no by (auto simp: dirty_hist_def)
  moreover have "stat_hist c m m ks" using z by (simp add: stat_hist_def vm_start_simps case_prod_unfold option.map_ident)
  ultimately show "vm_hist c m m ks" by (simp add: vm_hist_def)
qed

end
