(* ===== verification/Kdb_Chrdev.thy ===== *)
theory Kdb_Chrdev
  imports Kdb_Mkwrite
begin

text \<open>
  The \<open>/dev/kdbcache\<close> device (\<^verbatim>\<open>src/src/chrdev.c\<close>, \<^verbatim>\<open>src/include/uapi/kdb.h\<close>) and the module
  entry points (\<^verbatim>\<open>src/src/kdb_main.c\<close>, with \<open>lp_state_init\<close> and \<open>lp_state_exit\<close> of
  \<^verbatim>\<open>src/src/lp_state.c\<close>).  The results of \<open>copy_from_user\<close> and \<open>copy_to_user\<close>, of the
  allocators and of \<open>misc_register\<close> are arguments; what a handler hands to user space is
  part of its result.
\<close>

section \<open>The device\<close>

record kdb_layout =
  ly_cp_size :: u64
  ly_lp_size :: u64
  ly_n_lpn :: u64

record kdb_stats =
  st_total_faults :: u64
  st_total_mkwrite :: u64
  st_total_cp_alloc :: u64
  st_total_lp_created :: u64
  st_dirty_pages :: u64
  st_allocated_cp :: u64
  st_allocated_lp :: u64

definition KDB_MAGIC :: u32 where
  "KDB_MAGIC = 107"

definition KDB_SET_LAYOUT :: u32 where
  "KDB_SET_LAYOUT = IOW KDB_MAGIC 1 24"

definition KDB_GET_LAYOUT :: u32 where
  "KDB_GET_LAYOUT = IOR KDB_MAGIC 2 24"

definition KDB_GET_STATS :: u32 where
  "KDB_GET_STATS = IOR KDB_MAGIC 3 56"

definition KDB_RESET_STATS :: u32 where
  "KDB_RESET_STATS = IO KDB_MAGIC 4"

record kdb_dev =
  dev_layout :: kdb_layout
  dev_layout_set :: bool

datatype kdb_out = Out_nothing | Out_layout kdb_layout | Out_stats kdb_stats

definition kdb_open :: "kdb_dev \<Rightarrow> ret \<times> kdb_dev" where
  "kdb_open d = (None, d)"

definition kdb_release :: "kdb_dev \<Rightarrow> ret \<times> kdb_dev" where
  "kdb_release d = (None, d)"

definition kdb_mmap ::
  "ctx_ptr option \<Rightarrow> bool \<Rightarrow> kdb_dev \<Rightarrow> vm_area \<Rightarrow> kmem \<Rightarrow> ret \<times> vm_area \<times> kmem" where
  "kdb_mmap ctx_mem hash_mem d vma m =
     (if \<not> dev_layout_set d then (Some EINVAL, vma, m)
      else
        let total_size = ly_n_lpn (dev_layout d) * ly_lp_size (dev_layout d);
            size = vm_end vma - vm_start vma
        in if size > total_size then (Some EINVAL, vma, m)
           else case vma_ctx_create ctx_mem hash_mem (ly_cp_size (dev_layout d))
                       (ly_lp_size (dev_layout d)) (ly_n_lpn (dev_layout d)) m of
               (None, m1) \<Rightarrow> (Some ENOMEM, vma, m1)
             | (Some c, m1) \<Rightarrow> (None, vma\<lparr>vm_ops_set := True, vm_private_data := Some c\<rparr>, m1))"

definition kdb_ioctl ::
  "kdb_layout option \<Rightarrow> bool \<Rightarrow> u32 \<Rightarrow> cp_pool \<Rightarrow> kdb_dev \<Rightarrow> ret \<times> kdb_out \<times> kdb_dev" where
  "kdb_ioctl from_user to_user_ok cmd pl d =
     (if cmd = KDB_SET_LAYOUT then
        (case from_user of
           None \<Rightarrow> (Some EFAULT, Out_nothing, d)
         | Some layout \<Rightarrow>
             if ly_cp_size layout = 0 \<or> ly_lp_size layout = 0 \<or> ly_n_lpn layout = 0
             then (Some EINVAL, Out_nothing, d)
             else if ly_lp_size layout mod ly_cp_size layout \<noteq> 0
             then (Some EINVAL, Out_nothing, d)
             else if ly_lp_size layout div ly_cp_size layout > LP_CP_MAX
             then (Some EINVAL, Out_nothing, d)
             else (None, Out_nothing, d\<lparr>dev_layout := layout, dev_layout_set := True\<rparr>))
      else if cmd = KDB_GET_LAYOUT then
        (if \<not> dev_layout_set d then (Some ENODATA, Out_nothing, d)
         else if \<not> to_user_ok then (Some EFAULT, Out_nothing, d)
         else (None, Out_layout (dev_layout d), d))
      else if cmd = KDB_GET_STATS then
        (let stats = \<lparr>st_total_faults = 0, st_total_mkwrite = 0, st_total_cp_alloc = 0,
                      st_total_lp_created = 0, st_dirty_pages = 0,
                      st_allocated_cp = (case cp_pool_stats True False False pl of
                                           (Some a, _) \<Rightarrow> a | (None, _) \<Rightarrow> 0),
                      st_allocated_lp = 0\<rparr>
         in if \<not> to_user_ok then (Some EFAULT, Out_nothing, d)
            else (None, Out_stats stats, d))
      else if cmd = KDB_RESET_STATS then (None, Out_nothing, d)
      else (Some ENOTTY, Out_nothing, d))"

section \<open>The module\<close>

text \<open>Slab caches and the misc device are resources; destroying a dead cache is a fault.\<close>

type_synonym cache_ptr = nat

record kdb_module =
  lp_state_cache :: "cache_ptr option"
  vma_ctx_cache :: "cache_ptr option"
  live_caches :: "cache_ptr set"
  misc_registered :: bool
  mod_pool :: cp_pool
  mod_log :: "kmsg list"

definition kmem_cache_destroy :: "cache_ptr \<Rightarrow> kdb_module \<Rightarrow> kdb_module kres" where
  "kmem_cache_destroy p s =
     kguard UseAfterFree (p \<in> live_caches s) (Inr (s\<lparr>live_caches := live_caches s - {p}\<rparr>))"

definition cache_created :: "cache_ptr option \<Rightarrow> kdb_module \<Rightarrow> kdb_module" where
  "cache_created r s = (case r of None \<Rightarrow> s | Some p \<Rightarrow> s\<lparr>live_caches := insert p (live_caches s)\<rparr>)"

definition lp_state_init ::
  "cache_ptr option \<Rightarrow> cache_ptr option \<Rightarrow> kdb_module \<Rightarrow> (ret \<times> kdb_module) kres" where
  "lp_state_init lp_mem ctx_mem s =
     (let s1 = (cache_created lp_mem s)\<lparr>lp_state_cache := lp_mem\<rparr> in
      case lp_mem of
        None \<Rightarrow> Inr (Some ENOMEM, s1)
      | Some p \<Rightarrow>
          (let s2 = (cache_created ctx_mem s1)\<lparr>vma_ctx_cache := ctx_mem\<rparr> in
           case ctx_mem of
             None \<Rightarrow> kbind (kmem_cache_destroy p s2) (\<lambda>s3. Inr (Some ENOMEM, s3))
           | Some _ \<Rightarrow> Inr (None, s2)))"

definition lp_state_exit :: "kdb_module \<Rightarrow> kdb_module kres" where
  "lp_state_exit s =
     kbind (case vma_ctx_cache s of None \<Rightarrow> Inr s | Some p \<Rightarrow> kmem_cache_destroy p s) (\<lambda>s1.
       case lp_state_cache s1 of None \<Rightarrow> Inr s1 | Some p \<Rightarrow> kmem_cache_destroy p s1)"

definition kdb_chrdev_init :: "ret \<Rightarrow> kdb_module \<Rightarrow> ret \<times> kdb_module" where
  "kdb_chrdev_init reg s =
     (case reg of Some e \<Rightarrow> (Some e, s) | None \<Rightarrow> (None, s\<lparr>misc_registered := True\<rparr>))"

definition kdb_chrdev_exit :: "kdb_module \<Rightarrow> kdb_module" where
  "kdb_chrdev_exit s = s\<lparr>misc_registered := False\<rparr>"

definition mod_pool_exit :: "kdb_module \<Rightarrow> kdb_module" where
  "mod_pool_exit s = s\<lparr>mod_log := mod_log s @ cp_pool_exit (mod_pool s)\<rparr>"

definition kdb_init ::
  "cache_ptr option \<Rightarrow> cache_ptr option \<Rightarrow> ret \<Rightarrow> kdb_module \<Rightarrow> (ret \<times> kdb_module) kres" where
  "kdb_init lp_mem ctx_mem reg s =
     (case cp_pool_init (mod_pool s) of
        (Some e, pl) \<Rightarrow> Inr (Some e, s\<lparr>mod_pool := pl\<rparr>)
      | (None, pl) \<Rightarrow>
          kbind (lp_state_init lp_mem ctx_mem (s\<lparr>mod_pool := pl\<rparr>)) (\<lambda>(r1, s1).
            case r1 of
              Some e \<Rightarrow> Inr (Some e, mod_pool_exit s1)
            | None \<Rightarrow>
                (case kdb_chrdev_init reg s1 of
                   (Some e, s2) \<Rightarrow>
                     kbind (lp_state_exit s2) (\<lambda>s3. Inr (Some e, mod_pool_exit s3))
                 | (None, s2) \<Rightarrow> Inr (None, s2))))"

definition kdb_exit :: "kdb_module \<Rightarrow> kdb_module kres" where
  "kdb_exit s = kbind (lp_state_exit (kdb_chrdev_exit s)) (\<lambda>s1. Inr (mod_pool_exit s1))"

section \<open>Layouts\<close>

definition layout_valid :: "kdb_layout \<Rightarrow> bool" where
  "layout_valid l \<longleftrightarrow>
     ly_cp_size l \<noteq> 0 \<and> ly_lp_size l \<noteq> 0 \<and> ly_n_lpn l \<noteq> 0 \<and>
     ly_lp_size l mod ly_cp_size l = 0 \<and> ly_lp_size l div ly_cp_size l \<le> LP_CP_MAX"

definition dev_ok :: "kdb_dev \<Rightarrow> bool" where
  "dev_ok d \<longleftrightarrow> (dev_layout_set d \<longrightarrow> layout_valid (dev_layout d))"

lemmas kdb_cmd_defs = KDB_MAGIC_def KDB_SET_LAYOUT_def KDB_GET_LAYOUT_def KDB_GET_STATS_def
  KDB_RESET_STATS_def IOC_def

lemma kdb_cmds_distinct [simp]:
  "KDB_GET_LAYOUT \<noteq> KDB_SET_LAYOUT" "KDB_GET_STATS \<noteq> KDB_SET_LAYOUT"
  "KDB_GET_STATS \<noteq> KDB_GET_LAYOUT" "KDB_RESET_STATS \<noteq> KDB_SET_LAYOUT"
  "KDB_RESET_STATS \<noteq> KDB_GET_LAYOUT" "KDB_RESET_STATS \<noteq> KDB_GET_STATS"
  by (simp_all add: kdb_cmd_defs)

lemma kdb_set_layout_eq:
  "kdb_ioctl (Some l) tu KDB_SET_LAYOUT pl d =
     (if layout_valid l then (None, Out_nothing, d\<lparr>dev_layout := l, dev_layout_set := True\<rparr>)
      else (Some EINVAL, Out_nothing, d))"
  by (simp add: kdb_ioctl_def layout_valid_def linorder_not_less linorder_not_le)

lemma kdb_ioctl_other:
  "cmd \<noteq> KDB_SET_LAYOUT \<or> fu = None \<Longrightarrow> snd (snd (kdb_ioctl fu tu cmd pl d)) = d"
  by (auto simp: kdb_ioctl_def Let_def)

lemma kdb_ioctl_dev_ok: "dev_ok d \<Longrightarrow> dev_ok (snd (snd (kdb_ioctl fu tu cmd pl d)))"
  by (cases "cmd \<noteq> KDB_SET_LAYOUT \<or> fu = None")
    (auto simp: kdb_ioctl_other kdb_set_layout_eq dev_ok_def)

text \<open>A mapping that \<open>kdb_mmap\<close> accepts: the context it creates and what stays the same.\<close>

lemma kdb_mmap_ok:
  assumes ok: "kdb_ok h m" and d: "dev_ok d" and c: "ctxs m c = None"
    and r: "kdb_mmap (Some c) True d vma m = (None, vma', m')"
  shows "\<exists>x. m' = m\<lparr>ctxs := (ctxs m)(c \<mapsto> x)\<rparr> \<and> kdb_ok h m' \<and> vm_private_data vma' = Some c \<and>
           ctx_geom x \<and> ctx_table x = [] \<and> ctx_n_lpn x = ly_n_lpn (dev_layout d) \<and>
           ctx_cp_size x = ly_cp_size (dev_layout d) \<and> ctx_lp_size x = ly_lp_size (dev_layout d)"
proof -
  from ok have k: "kmem_ok h m" and pk: "pages_ok m" and a: "acct_ok m"
    by (simp_all add: kdb_ok_def)
  from r have "dev_layout_set d" by (simp add: kdb_mmap_def split: if_splits)
  with d have l: "layout_valid (dev_layout d)" by (simp add: dev_ok_def)
  from l vma_ctx_create_ok [OF k c, of "ly_cp_size (dev_layout d)" "ly_lp_size (dev_layout d)"
      "ly_n_lpn (dev_layout d)"]
  obtain x where x: "vma_ctx_create (Some c) True (ly_cp_size (dev_layout d))
        (ly_lp_size (dev_layout d)) (ly_n_lpn (dev_layout d)) m =
        (Some c, m\<lparr>ctxs := (ctxs m)(c \<mapsto> x)\<rparr>)"
      "ctx_geom x" "ctx_table x = []" "ctx_n_lpn x = ly_n_lpn (dev_layout d)"
      "ctx_cp_size x = ly_cp_size (dev_layout d)" "ctx_lp_size x = ly_lp_size (dev_layout d)"
      "table_ok h (lps m) x"
    by (auto simp: layout_valid_def)
  with r have m': "m' = m\<lparr>ctxs := (ctxs m)(c \<mapsto> x)\<rparr>" "vm_private_data vma' = Some c"
    by (auto simp: kdb_mmap_def Let_def split: if_splits)
  have "kdb_ok h m'"
    using kmem_ok_add_ctx [OF k c x(2) x(7) x(3)] pk a m'(1)
    by (simp add: kdb_ok_def acct_ok_def pages_ok_def)
  with x m' show ?thesis by blast
qed

end
