(* ===== verification/Kdb_Cache.thy ===== *)
theory Kdb_Cache
  imports Kdb_Chrdev
begin

text \<open>
  The cache module as a state machine: ioctl calls, mappings, page faults, write
  notifications, duplicated mappings and unmapping, in any order, against any behaviour of the allocators.
  A step exists only where the handler returns; that the handlers do return, in every
  reachable state, is a theorem of its own.
\<close>

section \<open>States and steps\<close>

record ksys =
  s_dev :: kdb_dev
  s_mem :: kmem
  s_vmas :: "nat \<rightharpoonup> vm_area"

definition kmem_init :: kmem where
  "kmem_init = \<lparr>lps = Map.empty, ctxs = Map.empty,
     pool = \<lparr>cp_allocated = 0, cp_total_allocs = 0, cp_total_frees = 0, page_refs = (\<lambda>_. 0)\<rparr>,
     klog = []\<rparr>"

definition ksys_init :: "kdb_layout \<Rightarrow> ksys" where
  "ksys_init l = \<lparr>s_dev = \<lparr>dev_layout = l, dev_layout_set = False\<rparr>, s_mem = kmem_init,
     s_vmas = Map.empty\<rparr>"

text \<open>The calls of one process, and the callback of a duplicated mapping: \<open>fork\<close>, and the splitting of a mapping,
  copy it with its private data and then call \<open>kdb_vma_open\<close> on the copy, whose range may be another.\<close>

inductive kdb_call :: "hash64 \<Rightarrow> ksys \<Rightarrow> ksys \<Rightarrow> bool" for h where
  ioctl: "kdb_ioctl fu tu cmd (pool (s_mem s)) (s_dev s) = (r, out, d) \<Longrightarrow>
     kdb_call h s (s\<lparr>s_dev := d\<rparr>)"
| mmap: "s_vmas s v = None \<Longrightarrow> vm_private_data vma = None \<Longrightarrow> ctxs (s_mem s) c = None \<Longrightarrow>
     kdb_mmap (Some c) True (s_dev s) vma (s_mem s) = (None, vma', m) \<Longrightarrow>
     kdb_call h s (s\<lparr>s_mem := m, s_vmas := (s_vmas s)(v \<mapsto> vma')\<rparr>)"
| fault: "s_vmas s v = Some vma \<Longrightarrow> lp_fresh am (s_mem s) \<Longrightarrow> page_fresh page (s_mem s) \<Longrightarrow>
     kdb_fault h am page (vm_private_data vma) off (s_mem s) = Inr (r, pg, m) \<Longrightarrow>
     kdb_call h s (s\<lparr>s_mem := m\<rparr>)"
| mkwrite: "s_vmas s v = Some vma \<Longrightarrow>
     kdb_page_mkwrite h (vm_private_data vma) off (s_mem s) = Inr (r, m) \<Longrightarrow>
     kdb_call h s (s\<lparr>s_mem := m\<rparr>)"
| close: "s_vmas s v = Some vma \<Longrightarrow> kdb_vma_close vma (s_mem s) = Inr (vma', m) \<Longrightarrow>
     kdb_call h s (s\<lparr>s_mem := m, s_vmas := (s_vmas s)(v := None)\<rparr>)"

inductive kdb_step :: "hash64 \<Rightarrow> ksys \<Rightarrow> ksys \<Rightarrow> bool" for h where
  call: "kdb_call h s t \<Longrightarrow> kdb_step h s t"
| dup: "s_vmas s v = Some vma \<Longrightarrow> s_vmas s w = None \<Longrightarrow> vm_private_data copy = vm_private_data vma \<Longrightarrow>
     kdb_vma_open copy (s_mem s) = (vma', m) \<Longrightarrow>
     kdb_step h s (s\<lparr>s_mem := m, s_vmas := (s_vmas s)(w \<mapsto> vma')\<rparr>)"

inductive kdb_reach :: "hash64 \<Rightarrow> ksys \<Rightarrow> bool" for h where
  start: "kdb_reach h (ksys_init l)"
| step: "kdb_reach h s \<Longrightarrow> kdb_step h s t \<Longrightarrow> kdb_reach h t"

text \<open>What holds in every reachable state: memory is well formed, every mapping has a context pointer, and no
  context is without a mapping.\<close>

definition sys_wf :: "hash64 \<Rightarrow> ksys \<Rightarrow> bool" where
  "sys_wf h s \<longleftrightarrow>
     dev_ok (s_dev s) \<and> kdb_ok h (s_mem s) \<and> rc_zero (s_mem s) \<and>
     (\<forall>v vma. s_vmas s v = Some vma \<longrightarrow> vm_private_data vma \<noteq> None) \<and>
     (\<forall>c. ctxs (s_mem s) c \<noteq> None \<longrightarrow> (\<exists>v vma. s_vmas s v = Some vma \<and> vm_private_data vma = Some c))"

text \<open>As long as no mapping has been duplicated, every mapping moreover owns a live context of its own.\<close>

definition sys_ok :: "hash64 \<Rightarrow> ksys \<Rightarrow> bool" where
  "sys_ok h s \<longleftrightarrow>
     dev_ok (s_dev s) \<and> kdb_ok h (s_mem s) \<and> rc_zero (s_mem s) \<and>
     (\<forall>v vma. s_vmas s v = Some vma \<longrightarrow>
        (\<exists>c. vm_private_data vma = Some c \<and> ctxs (s_mem s) c \<noteq> None)) \<and>
     (\<forall>v w a b. s_vmas s v = Some a \<longrightarrow> s_vmas s w = Some b \<longrightarrow>
        vm_private_data a = vm_private_data b \<longrightarrow> v = w)"

section \<open>References and the log\<close>

lemma fault_map_refs:
  assumes "kdb_fault_map c p pg m = Inr (r, pgo, m')" and "lps m p = Some lp"
  shows "r = VM_FAULT_LOCKED" and "klog m' = put_log lp m"
    and "lps m' = (lps m)(p \<mapsto> dec_ref lp)" and "dom (ctxs m') = dom (ctxs m)"
proof -
  from assms have "ctxs m c \<noteq> None"
    by (auto simp: kdb_fault_map_def Let_def lp_put_eq kres_simps deref_def split: option.splits if_splits)
  then obtain x where "ctxs m c = Some x" by blast
  from kdb_fault_map_eq [OF assms(2) this] assms
  show "r = VM_FAULT_LOCKED" and "klog m' = put_log lp m"
    and "lps m' = (lps m)(p \<mapsto> dec_ref lp)" and "dom (ctxs m') = dom (ctxs m)"
    using \<open>ctxs m c = Some x\<close> by (auto split: if_splits)
qed

lemma fault_page_refs:
  assumes "kdb_fault_page page c p cpi m = Inr (r, pgo, m')" and "lps m p = Some lp"
  shows "\<exists>lp'. lps m' = (lps m)(p \<mapsto> lp') \<and> lp_refcount lp' = lp_refcount lp - 1"
    and "klog m' = put_log lp m" and "dom (ctxs m') = dom (ctxs m)"
proof -
  from assms have i: "unat cpi < length (lp_cp lp)"
    by (auto simp: kdb_fault_page_def kres_simps)
  have "(\<exists>lp'. lps m' = (lps m)(p \<mapsto> lp') \<and> lp_refcount lp' = lp_refcount lp - 1) \<and>
        klog m' = put_log lp m \<and> dom (ctxs m') = dom (ctxs m)"
  proof (cases "lp_cp lp ! unat cpi")
    case (Some pg)
    with assms i have "kdb_fault_map c p pg m = Inr (r, pgo, m')"
      by (simp add: kdb_fault_page_def)
    from fault_map_refs [OF this assms(2)] show ?thesis by auto
  next
    case None
    show ?thesis
    proof (cases page)
      case None': None
      with kdb_fault_page_oom [OF assms(2) i None, of c] assms show ?thesis by auto
    next
      case (Some pg)
      let ?m = "m\<lparr>pool := snd (cp_pool_alloc (Some pg) (pool m)),
                  lps := (lps m)(p \<mapsto> set_page (unat cpi) pg lp)\<rparr>"
      from assms i None Some have "kdb_fault_map c p pg ?m = Inr (r, pgo, m')"
        by (simp add: kdb_fault_page_def cp_pool_alloc_def)
      moreover have "lps ?m p = Some (set_page (unat cpi) pg lp)" by simp
      ultimately show ?thesis using fault_map_refs by (fastforce simp del: fun_upd_apply)
    qed
  qed
  then show "\<exists>lp'. lps m' = (lps m)(p \<mapsto> lp') \<and> lp_refcount lp' = lp_refcount lp - 1"
    and "klog m' = put_log lp m" and "dom (ctxs m') = dom (ctxs m)" by blast+
qed

lemma goc_refs:
  assumes z: "rc_zero m" and c: "ctxs m c = Some x" and r: "goc_result h am c x n m = (r, m1)"
  shows "klog m1 = klog m" and "dom (ctxs m1) = dom (ctxs m)"
    and "r = Some p \<Longrightarrow> \<exists>lp. lps m1 p = Some lp \<and> lp_refcount lp = 1"
    and "\<forall>q lq. r \<noteq> Some q \<longrightarrow> lps m1 q = Some lq \<longrightarrow> lp_refcount lq = 0"
proof -
  show "klog m1 = klog m" and "dom (ctxs m1) = dom (ctxs m)"
    using r c by (auto simp: goc_result_def split: option.splits if_splits)
  show "\<exists>lp. lps m1 p = Some lp \<and> lp_refcount lp = 1" if p: "r = Some p"
  proof (cases "lp_view (lps m) x n")
    case None
    with p r show ?thesis
      by (auto simp: goc_result_def lp_mem_ok_def lp_new_def split: if_splits)
  next
    case (Some q)
    with lp_view_SomeD obtain lp where "lps m q = Some lp" by metis
    with Some p r z show ?thesis by (auto simp: goc_result_def rc_zero_def)
  qed
  show "\<forall>q lq. r \<noteq> Some q \<longrightarrow> lps m1 q = Some lq \<longrightarrow> lp_refcount lq = 0"
    using r z
    by (auto simp: goc_result_def rc_zero_def lp_mem_ok_def split: option.splits if_splits)
qed

lemma mkwrite_refs:
  assumes k: "kmem_ok h m" and z: "rc_zero m" and c: "ctxs m c = Some x"
    and n: "off div ucast (ctx_cp_per_lp x) < ctx_n_lpn x"
    and v: "ctx_view m c (off div ucast (ctx_cp_per_lp x)) = Some p"
    and r: "kdb_page_mkwrite h (Some c) off m = Inr (r, m')"
  shows "rc_zero m'" and "dom (ctxs m') = dom (ctxs m)"
proof -
  from v c have v': "lp_view (lps m) x (off div ucast (ctx_cp_per_lp x)) = Some p"
    by (simp add: ctx_view_def)
  then have "p \<in> set (ctx_table x)" by (metis lp_view_SomeD)
  from table_okD [OF kmem_okD(4) [OF k c] this] obtain lp where lp: "lps m p = Some lp" "lp_ok x lp"
    by blast
  have "length (lp_dirty_bitmap lp) = BITS_TO_LONGS (unat (ctx_cp_per_lp x))"
    using lp(2) by (simp add: lp_ok_def)
  from set_bit_in_total [OF this cpi_decode(2) [OF kmem_okD(3) [OF k c]]] obtain bm
    where "set_bit_in (unat (off mod ucast (ctx_cp_per_lp x))) (lp_dirty_bitmap lp) = Inr bm"
    by blast
  from kdb_page_mkwrite_run [OF k c n v' lp(1) this] r z lp(1) c
  show "rc_zero m'" and "dom (ctxs m') = dom (ctxs m)"
    by (auto simp: rc_zero_def split: if_splits)
qed

section \<open>The handlers between two quiescent states\<close>

lemma kdb_fault_out:
  "kmem_ok h m \<Longrightarrow> ctxs m c = Some x \<Longrightarrow> \<not> pg_in_range m c off \<Longrightarrow>
     kdb_fault h am page (Some c) off m = Inr (VM_FAULT_SIGBUS, None, m)"
  using kmem_okD(3) [of h m c x]
  by (auto simp: kdb_fault_def pg_in_range_def ctx_geom_def Let_def linorder_not_less kguard_def)

lemma pg_in_range_nat:
  assumes "kmem_ok h m" and "ctxs m c = Some x"
  shows "pg_in_range m c off \<longleftrightarrow> unat off < unat (ctx_n_lpn x) * unat (ctx_cp_per_lp x)"
proof -
  note g = kmem_okD(3) [OF assms]
  have "0 < unat (ctx_cp_per_lp x)" using g by (auto simp: ctx_geom_def unat_gt_0)
  with assms(2) cpi_decode(4) [OF g, of off] show ?thesis
    by (simp add: pg_in_range_def word_less_nat_alt div_less_iff_less_mult)
qed

lemma kdb_fault_refs:
  assumes ok: "kdb_ok h m" and z: "rc_zero m" and rg: "pg_in_range m c off"
    and fr: "lp_fresh am m" and r: "kdb_fault h am page (Some c) off m = Inr (r, pg, m')"
  shows "rc_zero m' \<and> dom (ctxs m') = dom (ctxs m) \<and>
         (pg \<noteq> None \<longrightarrow> klog m' = klog m @ [Lp_refcount_zero])"
proof -
  from ok have k: "kmem_ok h m" by (simp add: kdb_ok_def)
  from rg obtain x where c: "ctxs m c = Some x"
    and n: "off div ucast (ctx_cp_per_lp x) < ctx_n_lpn x"
    by (auto simp: pg_in_range_def split: option.splits)
  obtain q m1 where res: "goc_result h am c x (off div ucast (ctx_cp_per_lp x)) m = (q, m1)"
    by (rule prod.exhaust)
  note g = goc_refs [OF z c res]
  show ?thesis
  proof (cases q)
    case None
    with kdb_fault_run [OF k c n fr res] r g show ?thesis by (auto simp: rc_zero_def)
  next
    case (Some p)
    with g(3) obtain lp where lp: "lps m1 p = Some lp" "lp_refcount lp = 1" by blast
    from Some kdb_fault_run [OF k c n fr res] r
    have "kdb_fault_page page c p (ucast (off mod ucast (ctx_cp_per_lp x))) m1 = Inr (r, pg, m')"
      by simp
    from fault_page_refs [OF this lp(1)] lp(2) g(1,2,4) Some show ?thesis
      by (fastforce simp: rc_zero_def)
  qed
qed

text \<open>A fault always returns; out of range it changes nothing.\<close>

lemma kdb_fault_total:
  assumes ok: "kdb_ok h m" and z: "rc_zero m" and c: "ctxs m c = Some x"
    and fr: "lp_fresh am m" "page_fresh page m"
  shows "\<exists>r pg m'. kdb_fault h am page (Some c) off m = Inr (r, pg, m') \<and>
           kdb_ok h m' \<and> rc_zero m' \<and> dom (ctxs m') = dom (ctxs m)"
proof (cases "pg_in_range m c off")
  case True
  from kdb_fault_ok [OF ok True fr] obtain r pg m'
    where f: "kdb_fault h am page (Some c) off m = Inr (r, pg, m')" "kdb_ok h m'"
    by (auto simp: fault_spec_def)
  with kdb_fault_refs [OF ok z True fr(1) f(1)] show ?thesis by blast
next
  case False
  from kdb_fault_out [OF _ c False] ok z show ?thesis by (auto simp: kdb_ok_def)
qed

lemma kdb_page_mkwrite_total:
  assumes ok: "kdb_ok h m" and z: "rc_zero m" and c: "ctxs m c = Some x"
  shows "\<exists>r m'. kdb_page_mkwrite h (Some c) off m = Inr (r, m') \<and>
           kdb_ok h m' \<and> rc_zero m' \<and> dom (ctxs m') = dom (ctxs m) \<and> page_at m' = page_at m"
proof -
  from ok have k: "kmem_ok h m" by (simp add: kdb_ok_def)
  let ?n = "off div ucast (ctx_cp_per_lp x)"
  have nz: "ctx_cp_per_lp x \<noteq> 0" using kmem_okD(3) [OF k c] by (auto simp: ctx_geom_def)
  show ?thesis
  proof (cases "?n < ctx_n_lpn x")
    case False
    with c nz ok z show ?thesis by (auto simp: kdb_page_mkwrite_def Let_def)
  next
    case n: True
    show ?thesis
    proof (cases "ctx_view m c ?n")
      case None
      with c nz n ok z show ?thesis
        by (auto simp: kdb_page_mkwrite_def Let_def lp_lookup_eq [OF k c n] ctx_view_def)
    next
      case (Some p)
      from kdb_page_mkwrite_ok [OF ok c n Some] obtain m'
        where w: "kdb_page_mkwrite h (Some c) off m = Inr (VM_FAULT_LOCKED, m')" "kdb_ok h m'"
          "page_at m' = page_at m" by blast
      from mkwrite_refs [OF k z c n Some w(1)] w show ?thesis by blast
    qed
  qed
qed

section \<open>The invariant of the state machine\<close>

lemma sys_okD:
  assumes "sys_ok h s"
  shows "dev_ok (s_dev s)" and "kdb_ok h (s_mem s)" and "rc_zero (s_mem s)"
    and "s_vmas s v = Some vma \<Longrightarrow> \<exists>c x. vm_private_data vma = Some c \<and> ctxs (s_mem s) c = Some x"
    and "s_vmas s v = Some a \<Longrightarrow> s_vmas s w = Some b \<Longrightarrow>
           vm_private_data a = vm_private_data b \<Longrightarrow> v = w"
  using assms unfolding sys_ok_def by blast+

lemma sys_ok_mem:
  assumes "sys_ok h s" and "kdb_ok h m" and "rc_zero m" and "dom (ctxs m) = dom (ctxs (s_mem s))"
  shows "sys_ok h (s\<lparr>s_mem := m\<rparr>)"
  using assms unfolding sys_ok_def by (auto simp: set_eq_iff) (metis domD domI option.distinct(1))

lemma sys_ok_init: "hash_ok h \<Longrightarrow> sys_ok h (ksys_init l)"
  by (simp add: sys_ok_def ksys_init_def dev_ok_def kdb_ok_def kmem_ok_def kmem_init_def pages_ok_def
      page_slot_def acct_ok_def resident_def pool_balanced_def rc_zero_def)

lemma sys_ok_mmap:
  assumes ok: "sys_ok h s" and v: "s_vmas s v = None" and c: "ctxs (s_mem s) c = None"
    and r: "kdb_mmap (Some c) True (s_dev s) vma (s_mem s) = (None, vma', m)"
  shows "sys_ok h (s\<lparr>s_mem := m, s_vmas := (s_vmas s)(v \<mapsto> vma')\<rparr>)"
proof -
  note k = sys_okD [OF ok]
  from kdb_mmap_ok [OF k(2) k(1) c r] obtain x
    where m: "m = (s_mem s)\<lparr>ctxs := (ctxs (s_mem s))(c \<mapsto> x)\<rparr>" "kdb_ok h m"
      "vm_private_data vma' = Some c" by blast
  have new: "vm_private_data a \<noteq> Some c" if "s_vmas s w = Some a" for w a
    using k(4) [OF that] c by auto
  with m k(1,3) k(4) k(5) v show ?thesis
    by (auto simp: sys_ok_def rc_zero_def) metis+
qed

lemma sys_ok_close:
  assumes ok: "sys_ok h s" and v: "s_vmas s v = Some vma"
  shows "\<exists>vma' m. kdb_vma_close vma (s_mem s) = Inr (vma', m) \<and>
           sys_ok h (s\<lparr>s_mem := m, s_vmas := (s_vmas s)(v := None)\<rparr>)"
proof -
  note k = sys_okD [OF ok]
  from k(4) [OF v] obtain c x where c: "vm_private_data vma = Some c" "ctxs (s_mem s) c = Some x"
    by blast
  from kdb_vma_close_ok [OF k(2) c] obtain m
    where m: "kdb_vma_close vma (s_mem s) = Inr (vma\<lparr>vm_private_data := None\<rparr>, m)" "kdb_ok h m"
      "ctxs m = (ctxs (s_mem s))(c := None)" by blast
  have l: "lps m = lps (s_mem s) |` (- set (ctx_table x))"
    using m(1) vma_ctx_destroy_eq [OF _ c(2), of h] k(2) c(1)
    by (auto simp: kdb_vma_close_def kdb_ok_def)
  have rc: "rc_zero m" using k(3) by (auto simp: rc_zero_def l restrict_map_def)
  have "\<exists>d. vm_private_data a = Some d \<and> ctxs m d \<noteq> None" if "s_vmas s w = Some a" "w \<noteq> v" for w a
  proof -
    from k(4) [OF that(1)] obtain d y where d: "vm_private_data a = Some d" "ctxs (s_mem s) d = Some y"
      by blast
    with k(5) [OF that(1) v] that(2) c(1) show ?thesis by (auto simp: m(3))
  qed
  with m rc k(1) k(5) show ?thesis by (auto simp: sys_ok_def)
qed

lemma sys_ok_step:
  assumes ok: "sys_ok h s" and "kdb_call h s t"
  shows "sys_ok h t"
  using assms(2)
proof cases
  case (ioctl fu tu cmd r out d)
  then have "dev_ok d" using kdb_ioctl_dev_ok [OF sys_okD(1) [OF ok]] by (metis snd_conv)
  with ok ioctl(1) show ?thesis by (simp add: sys_ok_def)
next
  case (mmap v vma c vma' m)
  from sys_ok_mmap [OF ok mmap(2,4,5)] mmap(1) show ?thesis by simp
next
  case (fault v vma am page off r pg m)
  from sys_okD(4) [OF ok fault(2)] obtain c x
    where c: "vm_private_data vma = Some c" "ctxs (s_mem s) c = Some x" by blast
  from kdb_fault_total [OF sys_okD(2,3) [OF ok] c(2) fault(3,4), of off] fault(5) c(1)
  show ?thesis using fault(1) by (auto intro: sys_ok_mem [OF ok])
next
  case (mkwrite v vma off r m)
  from sys_okD(4) [OF ok mkwrite(2)] obtain c x
    where c: "vm_private_data vma = Some c" "ctxs (s_mem s) c = Some x" by blast
  from kdb_page_mkwrite_total [OF sys_okD(2,3) [OF ok] c(2), of off] mkwrite(3) c(1)
  show ?thesis using mkwrite(1) by (auto intro: sys_ok_mem [OF ok])
next
  case (close v vma vma' m)
  from sys_ok_close [OF ok close(2)] close(1,3) show ?thesis by auto
qed

lemma sys_ok_calls: "(kdb_call h)\<^sup>*\<^sup>* (ksys_init l) s \<Longrightarrow> hash_ok h \<Longrightarrow> sys_ok h s"
  by (induction rule: rtranclp_induct) (auto intro: sys_ok_init sys_ok_step)

section \<open>The invariant of all reachable states\<close>

lemma sys_wfD:
  assumes "sys_wf h s"
  shows "dev_ok (s_dev s)" and "kdb_ok h (s_mem s)" and "rc_zero (s_mem s)"
    and "s_vmas s v = Some vma \<Longrightarrow> \<exists>c. vm_private_data vma = Some c"
    and "ctxs (s_mem s) c = Some x \<Longrightarrow> \<exists>v vma. s_vmas s v = Some vma \<and> vm_private_data vma = Some c"
  using assms unfolding sys_wf_def by blast+

lemma sys_wf_mem:
  assumes "sys_wf h s" and "kdb_ok h m" and "rc_zero m" and "dom (ctxs m) = dom (ctxs (s_mem s))"
  shows "sys_wf h (s\<lparr>s_mem := m\<rparr>)"
  using assms unfolding sys_wf_def by (auto simp: set_eq_iff domIff)

lemma sys_wf_init: "hash_ok h \<Longrightarrow> sys_wf h (ksys_init l)"
  using sys_ok_init [of h l] by (auto simp: sys_ok_def sys_wf_def ksys_init_def kmem_init_def)

text \<open>A handler that returned was given a live context.\<close>

lemma fault_returned: "kdb_fault h am page cp off m = Inr x \<Longrightarrow> \<exists>c y. cp = Some c \<and> ctxs m c = Some y"
  by (cases x) (auto simp: kdb_fault_def kres_simps deref_def split: option.splits)

lemma mkwrite_returned: "kdb_page_mkwrite h cp off m = Inr x \<Longrightarrow> \<exists>c y. cp = Some c \<and> ctxs m c = Some y"
  by (cases x) (auto simp: kdb_page_mkwrite_def kres_simps deref_def split: option.splits)

lemma close_returned:
  "kdb_vma_close vma m = Inr x \<Longrightarrow> vm_private_data vma = Some c \<Longrightarrow> \<exists>y. ctxs m c = Some y"
  using kdb_vma_close_dead [of vma c m] by (cases "ctxs m c") auto

lemma sys_wf_close:
  assumes ok: "sys_wf h s" and v: "s_vmas s v = Some vma" and r: "kdb_vma_close vma (s_mem s) = Inr (vma', m)"
  shows "sys_wf h (s\<lparr>s_mem := m, s_vmas := (s_vmas s)(v := None)\<rparr>)"
proof -
  note k = sys_wfD [OF ok]
  from k(4) [OF v] obtain c where c: "vm_private_data vma = Some c" by blast
  from close_returned [OF r c] obtain x where x: "ctxs (s_mem s) c = Some x" by blast
  from kdb_vma_close_ok [OF k(2) c x] r have m: "kdb_ok h m" "ctxs m = (ctxs (s_mem s))(c := None)" by auto
  have "lps m = lps (s_mem s) |` (- set (ctx_table x))"
    using r vma_ctx_destroy_eq [OF _ x, of h] k(2) c by (auto simp: kdb_vma_close_def kdb_ok_def)
  then have "rc_zero m" using k(3) by (auto simp: rc_zero_def restrict_map_def)
  moreover have "\<exists>w a. ((s_vmas s)(v := None)) w = Some a \<and> vm_private_data a = Some d" if "ctxs m d \<noteq> None" for d
  proof -
    from that have d: "d \<noteq> c" "ctxs (s_mem s) d \<noteq> None" by (auto simp: m(2) split: if_splits)
    with k(5) obtain w a where w: "s_vmas s w = Some a" "vm_private_data a = Some d" by blast
    with d c v show ?thesis by (intro exI [of _ w] exI [of _ a]) auto
  qed
  ultimately show ?thesis using m k(1,4) by (auto simp: sys_wf_def)
qed

lemma sys_wf_mmap:
  assumes ok: "sys_wf h s" and v: "s_vmas s v = None" and c: "ctxs (s_mem s) c = None"
    and r: "kdb_mmap (Some c) True (s_dev s) vma (s_mem s) = (None, vma', m)"
  shows "sys_wf h (s\<lparr>s_mem := m, s_vmas := (s_vmas s)(v \<mapsto> vma')\<rparr>)"
proof -
  note k = sys_wfD [OF ok]
  from kdb_mmap_ok [OF k(2) k(1) c r] obtain x
    where m: "m = (s_mem s)\<lparr>ctxs := (ctxs (s_mem s))(c \<mapsto> x)\<rparr>" "kdb_ok h m" "vm_private_data vma' = Some c" by blast
  have "\<exists>w a. ((s_vmas s)(v \<mapsto> vma')) w = Some a \<and> vm_private_data a = Some d" if "ctxs m d \<noteq> None" for d
  proof (cases "d = c")
    case True
    with m(3) show ?thesis by (intro exI [of _ v]) simp
  next
    case False
    with that m(1) obtain y where "ctxs (s_mem s) d = Some y" by auto
    from k(5) [OF this] obtain w a where "s_vmas s w = Some a" "vm_private_data a = Some d" by blast
    with v show ?thesis by (intro exI [of _ w] exI [of _ a]) auto
  qed
  with m k(1,3,4) show ?thesis by (auto simp: sys_wf_def rc_zero_def)
qed

lemma sys_wf_call:
  assumes ok: "sys_wf h s" and "kdb_call h s t"
  shows "sys_wf h t"
  using assms(2)
proof cases
  case (ioctl fu tu cmd r out d)
  then have "dev_ok d" using kdb_ioctl_dev_ok [OF sys_wfD(1) [OF ok]] by (metis snd_conv)
  with ok ioctl(1) show ?thesis by (simp add: sys_wf_def)
next
  case (mmap v vma c vma' m)
  from sys_wf_mmap [OF ok mmap(2,4,5)] mmap(1) show ?thesis by simp
next
  case (fault v vma am page off r pg m)
  from fault_returned [OF fault(5)] obtain c x
    where c: "vm_private_data vma = Some c" "ctxs (s_mem s) c = Some x" by blast
  from kdb_fault_total [OF sys_wfD(2,3) [OF ok] c(2) fault(3,4), of off] fault(5) c(1)
  show ?thesis using fault(1) by (auto intro: sys_wf_mem [OF ok])
next
  case (mkwrite v vma off r m)
  from mkwrite_returned [OF mkwrite(3)] obtain c x
    where c: "vm_private_data vma = Some c" "ctxs (s_mem s) c = Some x" by blast
  from kdb_page_mkwrite_total [OF sys_wfD(2,3) [OF ok] c(2), of off] mkwrite(3) c(1)
  show ?thesis using mkwrite(1) by (auto intro: sys_wf_mem [OF ok])
next
  case (close v vma vma' m)
  from sys_wf_close [OF ok close(2,3)] close(1) show ?thesis by simp
qed

lemma sys_wf_open:
  assumes ok: "sys_wf h s" and "s_vmas s v = Some vma" and "s_vmas s w = None"
    and "vm_private_data copy = vm_private_data vma" and "kdb_vma_open copy (s_mem s) = (vma', m)"
  shows "sys_wf h (s\<lparr>s_mem := m, s_vmas := (s_vmas s)(w \<mapsto> vma')\<rparr>)"
proof -
  note k = sys_wfD [OF ok]
  have o: "vma' = copy" "m = s_mem s" using assms(5) by (simp_all add: kdb_vma_open_def)
  have "\<exists>u a. ((s_vmas s)(w \<mapsto> copy)) u = Some a \<and> vm_private_data a = Some d" if d: "ctxs (s_mem s) d = Some x" for d x
  proof -
    from k(5) [OF d] obtain u a where "s_vmas s u = Some a" "vm_private_data a = Some d" by blast
    with assms(3) show ?thesis by (intro exI [of _ u] exI [of _ a]) auto
  qed
  then have "\<forall>d. ctxs (s_mem s) d \<noteq> None \<longrightarrow>
      (\<exists>u a. ((s_vmas s)(w \<mapsto> copy)) u = Some a \<and> vm_private_data a = Some d)" by blast
  moreover have "\<forall>u a. ((s_vmas s)(w \<mapsto> copy)) u = Some a \<longrightarrow> vm_private_data a \<noteq> None"
    using k(4) assms(2,4) by (auto split: if_splits)
  ultimately show ?thesis using k(1-3) unfolding o sys_wf_def by simp
qed

lemma sys_wf_step: "sys_wf h s \<Longrightarrow> kdb_step h s t \<Longrightarrow> sys_wf h t"
  by (erule kdb_step.cases) (auto intro: sys_wf_call sys_wf_open)

lemma sys_wf_reach: "kdb_reach h s \<Longrightarrow> hash_ok h \<Longrightarrow> sys_wf h s"
  by (induction rule: kdb_reach.induct) (auto intro: sys_wf_init sys_wf_step)

end
