(* ===== verification/Kdb_Pages.thy ===== *)
theory Kdb_Pages
  imports Kdb_Cache
begin

text \<open>
  The page maps of all mappings under the steps of the cache: what one step does to the
  maps of the other contexts, that a resident page stays where it is as long as its mapping
  lives, and that two mappings never see the same page.
\<close>

section \<open>Frame of a fault\<close>

lemma page_at_other_frame:
  assumes f: "same_frame m m'"
    and s: "\<And>n q i. ctx_view m d n = Some q \<Longrightarrow> page_slot (lps m') q i = page_slot (lps m) q i"
  shows "page_at m' d off = page_at m d off"
proof (cases "ctxs m d")
  case (Some x)
  from same_frame_ctx [OF f Some] obtain y
    where y: "ctxs m' d = Some y" "ctx_cp_per_lp y = ctx_cp_per_lp x" by blast
  have "ctx_view m' d = ctx_view m d" using f by (simp only: same_frame_def)
  with Some y s show ?thesis by (simp add: page_at_view split: option.split)
next
  case None
  with same_frame_None [OF f this] show ?thesis by (simp add: page_at_def)
qed

lemma page_at_cong:
  assumes "ctxs m' d = ctxs m d" and "ctx_view m' d = ctx_view m d"
    and "\<And>n q i. ctx_view m d n = Some q \<Longrightarrow> page_slot (lps m') q i = page_slot (lps m) q i"
  shows "page_at m' d = page_at m d"
proof
  fix off
  show "page_at m' d off = page_at m d off"
  proof (cases "ctxs m d")
    case (Some x)
    with assms show ?thesis by (simp add: page_at_view split: option.split)
  next
    case None
    with assms(1) show ?thesis by (simp add: page_at_def)
  qed
qed

lemma ctx_view_disjoint:
  assumes k: "kmem_ok h m" and "c \<noteq> d" and "ctx_view m c a = Some p" and "ctx_view m d b = Some q"
  shows "p \<noteq> q"
proof -
  from assms(3,4) obtain x y where x: "ctxs m c = Some x" "p \<in> set (ctx_table x)"
    and y: "ctxs m d = Some y" "q \<in> set (ctx_table y)"
    by (auto simp: ctx_view_def split: option.splits dest!: lp_view_SomeD)
  with kmem_okD(5) [OF k x(1) y(1) assms(2)] show ?thesis by auto
qed

lemma fault_post_other:
  assumes k: "kmem_ok h m" and post: "fault_post h m p i page pgo m'"
    and v: "ctx_view m c n = Some p" and d: "d \<noteq> c"
  shows "page_at m' d = page_at m d"
proof
  fix off
  have f: "same_frame m m'" using post by (simp add: fault_post_def)
  have "page_slot (lps m') q j = page_slot (lps m) q j" if "ctx_view m d k = Some q" for q j k
    using ctx_view_disjoint [OF k d that v] post
    by (auto simp: fault_post_def split: option.splits)
  from page_at_other_frame [OF f this] show "page_at m' d off = page_at m d off" .
qed

lemma goc_page_at_other:
  assumes ok: "kdb_ok h m" and c: "ctxs m c = Some x" and n: "n < ctx_n_lpn x"
    and fr: "lp_fresh am m" and r: "goc_result h am c x n m = (r, m1)" and d: "d \<noteq> c"
  shows "page_at m1 d = page_at m d"
proof -
  from ok have k: "kmem_ok h m" and pk: "pages_ok m" by (simp_all add: kdb_ok_def)
  have "page_slot (lps m1) = page_slot (lps m)" using pages_ok_goc(2) [OF pk fr, of h c x n] r by simp
  moreover have "ctxs m1 d = ctxs m d" by (rule goc_ctx(2) [OF c r d])
  moreover have "ctx_view m1 d = ctx_view m d" by (rule goc_view(4) [OF k c n fr r d])
  ultimately show ?thesis
    by (intro page_at_cong) simp_all
qed

text \<open>A fault inside the range: the logical page is found or created, then the page of its slot.\<close>

lemma kdb_fault_stages:
  assumes ok: "kdb_ok h m" and rg: "pg_in_range m c off" and fr: "lp_fresh am m" "page_fresh page m"
    and f: "kdb_fault h am page (Some c) off m = Inr (r, pgo, m')"
  obtains (oom) x where "ctxs m c = Some x" "off div ucast (ctx_cp_per_lp x) < ctx_n_lpn x"
      "goc_result h am c x (off div ucast (ctx_cp_per_lp x)) m = (None, m')"
  | (page) x p m1 where "ctxs m c = Some x" "off div ucast (ctx_cp_per_lp x) < ctx_n_lpn x"
      "goc_result h am c x (off div ucast (ctx_cp_per_lp x)) m = (Some p, m1)" "kdb_ok h m1"
      "ctx_view m1 c (off div ucast (ctx_cp_per_lp x)) = Some p"
      "kdb_fault_page page c p (ucast (off mod ucast (ctx_cp_per_lp x))) m1 = Inr (r, pgo, m')"
      "fault_post h m1 p (unat (ucast (off mod ucast (ctx_cp_per_lp x)) :: u32)) page pgo m'"
proof -
  from ok have k: "kmem_ok h m" by (simp add: kdb_ok_def)
  from rg obtain x where c: "ctxs m c = Some x" and n: "off div ucast (ctx_cp_per_lp x) < ctx_n_lpn x"
    by (auto simp: pg_in_range_def split: option.splits)
  let ?n = "off div ucast (ctx_cp_per_lp x)" and ?i = "ucast (off mod ucast (ctx_cp_per_lp x)) :: u32"
  obtain q m1 where res: "goc_result h am c x ?n m = (q, m1)" by (rule prod.exhaust)
  note run = kdb_fault_run [OF k c n fr(1) res, of page]
  show ?thesis
  proof (cases q)
    case None
    with run f res show ?thesis by (intro oom [OF c n]) simp
  next
    case (Some p)
    from kdb_ok_goc [OF ok c n fr(1)] res have ok1: "kdb_ok h m1" by simp
    from goc_ctx(1) [OF c res] obtain y where y: "ctxs m1 c = Some y" "ctx_cp_per_lp y = ctx_cp_per_lp x"
      by blast
    from Some goc_view(1) [OF k c n fr(1) res] have v: "ctx_view m1 c ?n = Some p" by simp
    with y have lv: "lp_view (lps m1) y ?n = Some p" by (simp add: ctx_view_def)
    have "pool m1 = pool m" using resident_goc(2) [OF k c n fr(1)] res by simp
    with fr(2) have pf1: "page_fresh page m1" by (simp add: page_fresh_def)
    have "unat ?i < unat (ctx_cp_per_lp y)"
      using cpi_decode [OF kmem_okD(3) [OF k c], of off] by (simp add: y(2))
    from kdb_fault_page_ok [OF ok1 y(1) lv this pf1] run Some f
    have "kdb_fault_page page c p ?i m1 = Inr (r, pgo, m')" "fault_post h m1 p (unat ?i) page pgo m'" by auto
    with page [OF c n] res Some ok1 v show ?thesis by blast
  qed
qed

lemma kdb_fault_other:
  assumes ok: "kdb_ok h m" and rg: "pg_in_range m c off" and fr: "lp_fresh am m" "page_fresh page m"
    and f: "kdb_fault h am page (Some c) off m = Inr (r, pgo, m')" and d: "d \<noteq> c"
  shows "page_at m' d = page_at m d"
  using assms(1-5)
proof (cases rule: kdb_fault_stages)
  case (oom x)
  from goc_page_at_other [OF ok oom(1,2) fr(1) oom(3) d] show ?thesis .
next
  case (page x p m1)
  from fault_post_other [OF _ page(7,5) d] page(4) goc_page_at_other [OF ok page(1,2) fr(1) page(3) d]
  show ?thesis by (simp add: kdb_ok_def)
qed

section \<open>Frame of the other steps\<close>

lemma page_at_new_ctx: "ctxs m c = None \<Longrightarrow> d \<noteq> c \<Longrightarrow>
    page_at (m\<lparr>ctxs := (ctxs m)(c \<mapsto> x)\<rparr>) d = page_at m d"
  by (rule page_at_cong) (simp_all add: ctx_view_def fun_eq_iff split: option.split)

lemma kdb_vma_close_other:
  assumes k: "kmem_ok h m" and c: "vm_private_data vma = Some c" "ctxs m c = Some x"
    and r: "kdb_vma_close vma m = Inr (vma', m')" and d: "d \<noteq> c"
  shows "page_at m' d = page_at m d"
proof -
  from r c(1) have des: "vma_ctx_destroy (Some c) m = Inr m'" by (auto simp: kdb_vma_close_def kres_simps)
  note eq = vma_ctx_destroy_eq [OF k c(2)] and view = vma_ctx_destroy_inv(3) [OF k c(2) des d]
  have m': "ctxs m' = (ctxs m)(c := None)" "lps m' = lps m |` (- set (ctx_table x))"
    using eq des by auto
  have "page_slot (lps m') q i = page_slot (lps m) q i" if "ctx_view m d n = Some q" for n q i
  proof -
    from that obtain y where "ctxs m d = Some y" "q \<in> set (ctx_table y)"
      by (auto simp: ctx_view_def split: option.splits dest!: lp_view_SomeD)
    with kmem_okD(5) [OF k c(2) this(1)] d have "q \<notin> set (ctx_table x)" by auto
    then show ?thesis by (simp add: page_slot_def m')
  qed
  with view d show ?thesis by (intro page_at_cong) (simp_all add: m')
qed

lemma page_at_present:
  assumes k: "kmem_ok h m" and "page_at m c off = Some pg"
  shows "\<exists>x p. ctxs m c = Some x \<and> ctx_view m c (off div ucast (ctx_cp_per_lp x)) = Some p \<and>
           off div ucast (ctx_cp_per_lp x) < ctx_n_lpn x"
proof -
  from assms(2) obtain x p where x: "ctxs m c = Some x"
    and p: "lp_view (lps m) x (off div ucast (ctx_cp_per_lp x)) = Some p"
    by (auto simp: page_at_def split: option.splits)
  from lp_view_SomeD [OF p] obtain lp where lp: "p \<in> set (ctx_table x)" "lps m p = Some lp"
      "lp_lpn lp = off div ucast (ctx_cp_per_lp x)" by blast
  from table_okD [OF kmem_okD(4) [OF k x] lp(1)] lp have "off div ucast (ctx_cp_per_lp x) < ctx_n_lpn x"
    by (auto simp: lp_ok_def)
  with x p show ?thesis by (auto simp: ctx_view_def)
qed

lemma dirty_at_other:
  assumes k: "kmem_ok h m" and f: "same_frame m m'" and v: "ctx_view m c n = Some p" and d: "d \<noteq> c"
    and s: "\<And>q a. q \<noteq> p \<Longrightarrow> dirty_slot (lps m') q a = dirty_slot (lps m) q a"
  shows "dirty_at m' d j = dirty_at m d j"
proof (cases "ctxs m d")
  case (Some x)
  from same_frame_ctx [OF f Some] obtain y
    where y: "ctxs m' d = Some y" "ctx_cp_per_lp y = ctx_cp_per_lp x" by blast
  have "ctx_view m' d = ctx_view m d" using f by (simp only: same_frame_def)
  with Some y s ctx_view_disjoint [OF k d _ v] show ?thesis
    by (simp add: dirty_at_view split: option.split)
next
  case None
  with same_frame_None [OF f this] show ?thesis by (simp add: dirty_at_def)
qed

lemma mkwrite_resident:
  assumes ok: "kdb_ok h m" and pg: "page_at m c off = Some pg"
  shows "\<exists>m'. kdb_page_mkwrite h (Some c) off m = Inr (VM_FAULT_LOCKED, m') \<and> page_at m' = page_at m \<and>
           (\<forall>d k. dirty_at m' d k \<longleftrightarrow> (d = c \<and> k = off) \<or> dirty_at m d k)"
proof -
  from ok have k: "kmem_ok h m" by (simp add: kdb_ok_def)
  from page_at_present [OF k pg] obtain x p where x: "ctxs m c = Some x"
    and v: "ctx_view m c (off div ucast (ctx_cp_per_lp x)) = Some p"
    and n: "off div ucast (ctx_cp_per_lp x) < ctx_n_lpn x" by blast
  from kdb_page_mkwrite_ok [OF ok x n v] obtain m'
    where w: "kdb_page_mkwrite h (Some c) off m = Inr (VM_FAULT_LOCKED, m')" "same_frame m m'"
      "page_at m' = page_at m" "\<forall>k. dirty_at m' c k \<longleftrightarrow> k = off \<or> dirty_at m c k"
      "\<forall>q a. q \<noteq> p \<longrightarrow> dirty_slot (lps m') q a = dirty_slot (lps m) q a" by blast
  have "dirty_at m' d j = dirty_at m d j" if "d \<noteq> c" for d j
    using dirty_at_other [OF k w(2) v that] w(5) by blast
  with w(4) have "\<forall>d j. dirty_at m' d j \<longleftrightarrow> (d = c \<and> j = off) \<or> dirty_at m d j" by metis
  with w(1,3) show ?thesis by blast
qed

section \<open>Pages under the steps of the cache\<close>

lemma page_at_fault:
  assumes ok: "kdb_ok h m" and d: "ctxs m d = Some y" and fr: "lp_fresh am m" "page_fresh page m"
    and f: "kdb_fault h am page (Some d) k m = Inr (r, pgo, m')" and pg: "page_at m c off = Some pg"
  shows "page_at m' c off = Some pg"
proof (cases "pg_in_range m d k")
  case False
  have "kmem_ok h m" using ok by (simp add: kdb_ok_def)
  from kdb_fault_out [OF this d False] f pg show ?thesis by simp
next
  case True
  from kdb_fault_ok [OF ok True fr] f have "fault_spec h m d k r pgo m'" by auto
  with kdb_fault_other [OF ok True fr] f pg show ?thesis
    by (cases "d = c") (auto simp: fault_spec_def split: option.splits)
qed

text \<open>A step after which all mappings that shared a context are still there.\<close>

definition keeps :: "ctx_ptr \<Rightarrow> ksys \<Rightarrow> ksys \<Rightarrow> bool" where
  "keeps c s t \<longleftrightarrow> (\<forall>v vma. s_vmas s v = Some vma \<longrightarrow> vm_private_data vma = Some c \<longrightarrow> s_vmas t v \<noteq> None)"

text \<open>Such a step leaves the context alive, with its range and its pages.\<close>

definition ctx_stays :: "ctx_ptr \<Rightarrow> kmem \<Rightarrow> kmem \<Rightarrow> bool" where
  "ctx_stays c m m' \<longleftrightarrow> ctxs m' c \<noteq> None \<and> (\<forall>off. pg_in_range m' c off = pg_in_range m c off) \<and>
     (\<forall>off pg. page_at m c off = Some pg \<longrightarrow> page_at m' c off = Some pg)"

lemma fault_stays:
  assumes ok: "kdb_ok h m" "rc_zero m" and d: "ctxs m d = Some y" and fr: "lp_fresh am m" "page_fresh page m"
    and f: "kdb_fault h am page (Some d) k m = Inr (r, pgo, m')" and c: "ctxs m c \<noteq> None"
  shows "ctx_stays c m m'"
proof -
  have "pg_in_range m' = pg_in_range m"
  proof (cases "pg_in_range m d k")
    case True
    from kdb_fault_ok [OF ok(1) True fr] f show ?thesis by (auto simp: fault_spec_def)
  next
    case False
    from kdb_fault_out [OF _ d False] ok(1) f show ?thesis by (auto simp: kdb_ok_def)
  qed
  moreover have "dom (ctxs m') = dom (ctxs m)" using kdb_fault_total [OF ok d fr, of k] f by auto
  ultimately show ?thesis using page_at_fault [OF ok(1) d fr f] c by (auto simp: ctx_stays_def)
qed

lemma mkwrite_stays:
  assumes ok: "kdb_ok h m" "rc_zero m" and d: "ctxs m d = Some y"
    and f: "kdb_page_mkwrite h (Some d) k m = Inr (r, m')" and c: "ctxs m c \<noteq> None"
  shows "ctx_stays c m m'"
proof -
  from kdb_page_mkwrite_total [OF ok d, of k] f have "dom (ctxs m') = dom (ctxs m)" "page_at m' = page_at m" by auto
  moreover have "pg_in_range m' = pg_in_range m" using kdb_page_mkwrite_range [OF ok(1) d f] .
  ultimately show ?thesis using c by (auto simp: ctx_stays_def)
qed

lemma close_stays:
  assumes ok: "kdb_ok h m" and d: "vm_private_data vma = Some d" "ctxs m d = Some y" "c \<noteq> d"
    and r: "kdb_vma_close vma m = Inr (vma', m')" and c: "ctxs m c \<noteq> None"
  shows "ctx_stays c m m'"
proof -
  have "kmem_ok h m" using ok by (simp add: kdb_ok_def)
  from kdb_vma_close_other [OF this d(1,2) r d(3)] kdb_vma_close_ok [OF ok d(1,2)] r c d(3) show ?thesis
    by (auto simp: ctx_stays_def pg_in_range_def)
qed

lemma kept_step:
  assumes ok: "sys_wf h s" and st: "kdb_step h s t" and kp: "keeps c s t" and c: "ctxs (s_mem s) c \<noteq> None"
  shows "ctx_stays c (s_mem s) (s_mem t)"
  using st
proof cases
  case (dup v vma w copy vma' m)
  with c show ?thesis by (simp add: kdb_vma_open_def ctx_stays_def)
next
  case call
  note k = sys_wfD [OF ok]
  from call show ?thesis
  proof cases
    case (ioctl fu tu cmd r out d)
    with c show ?thesis by (simp add: ctx_stays_def)
  next
    case (mmap w vma0 d vma' m)
    from kdb_mmap_ok [OF k(2,1) mmap(4,5)] obtain y
      where "m = (s_mem s)\<lparr>ctxs := (ctxs (s_mem s))(d \<mapsto> y)\<rparr>" by blast
    moreover have "c \<noteq> d" using c mmap(4) by auto
    ultimately show ?thesis using mmap(1) c page_at_new_ctx [OF mmap(4), of c y] by (simp add: ctx_stays_def pg_in_range_def)
  next
    case (fault w vma0 am page k0 r pgo m)
    from fault_returned [OF fault(5)] obtain d y
      where d: "vm_private_data vma0 = Some d" "ctxs (s_mem s) d = Some y" by blast
    with fault_stays [OF k(2,3) d(2) fault(3,4) _ c] fault(1,5) show ?thesis by simp
  next
    case (mkwrite w vma0 k0 r m)
    from mkwrite_returned [OF mkwrite(3)] obtain d y
      where d: "vm_private_data vma0 = Some d" "ctxs (s_mem s) d = Some y" by blast
    with mkwrite_stays [OF k(2,3) d(2) _ c] mkwrite(1,3) show ?thesis by simp
  next
    case (close w vma0 vma' m)
    from k(4) [OF close(2)] obtain d where d: "vm_private_data vma0 = Some d" by blast
    from close_returned [OF close(3) d] obtain y where y: "ctxs (s_mem s) d = Some y" by blast
    have "s_vmas t w = None" using close(1) by simp
    then have "c \<noteq> d" using kp close(2) d unfolding keeps_def by metis
    from close_stays [OF k(2) d y this close(3) c] close(1) show ?thesis by simp
  qed
qed

text \<open>Any number of such steps.\<close>

lemma kept_path:
  assumes "(\<lambda>a b. kdb_step h a b \<and> keeps c a b)\<^sup>*\<^sup>* s t" and "sys_wf h s" and "ctxs (s_mem s) c \<noteq> None"
  shows "sys_wf h t \<and> ctx_stays c (s_mem s) (s_mem t)"
  using assms(1)
proof (induction rule: rtranclp_induct)
  case base
  with assms(2,3) show ?case by (simp add: ctx_stays_def)
next
  case (step a b)
  then have "ctx_stays c (s_mem a) (s_mem b)" by (intro kept_step [of h]) (auto simp: ctx_stays_def)
  with step sys_wf_step show ?case by (auto simp: ctx_stays_def)
qed

lemma page_exclusive:
  assumes ok: "kdb_ok h m" and "page_at m c a = Some pg" and "page_at m d b = Some pg"
  shows "c = d \<and> a = b"
proof -
  from assms(2,3) obtain x y where x: "ctxs m c = Some x" and y: "ctxs m d = Some y"
    by (auto simp: page_at_def split: option.splits)
  let ?k = "\<lambda>x. ucast (ctx_cp_per_lp x) :: u64"
  from assms(2,3) obtain p q where
    p: "ctx_view m c (a div ?k x) = Some p" "page_slot (lps m) p (unat (a mod ?k x)) = Some pg" and
    q: "ctx_view m d (b div ?k y) = Some q" "page_slot (lps m) q (unat (b mod ?k y)) = Some pg"
    by (auto simp: page_at_view [OF x] page_at_view [OF y] split: option.splits)
  from ok have pk: "pages_ok m" and k: "kmem_ok h m" by (simp_all add: kdb_ok_def)
  note e = pages_okD(1,2) [OF pk p(2) q(2)]
  have cd: "c = d" using ctx_view_disjoint [OF k _ p(1) q(1)] e(1) by blast
  with x y have "x = y" by simp
  with e p(1) q(1) cd show ?thesis using ctx_view_inj pgoff_decode_inj by blast
qed

end
