(* ===== verification/Kdb_Theorems.thy ===== *)
theory Kdb_Theorems
  imports Kdb_Pages Lp_Concurrent
begin

text \<open>
  The properties of the cache module, over its reachable states, and the concrete states
  at which the ones with hypotheses are exercised: a layout of 4 KiB canonical pages and
  16 KiB logical pages, one mapping of eight logical pages, and one resident page.
\<close>

section \<open>A concrete run\<close>

definition low_hash :: hash64 where
  "low_hash n b = ucast n AND 1023"

definition ex_layout :: kdb_layout where
  "ex_layout = \<lparr>ly_cp_size = 4096, ly_lp_size = 16384, ly_n_lpn = 8\<rparr>"

definition ex_vma :: vm_area where
  "ex_vma = \<lparr>vm_start = 0, vm_end = 131072, vm_pgoff = 0, vm_ops_set = False, vm_private_data = None\<rparr>"

definition ex_configured :: ksys where
  "ex_configured = (ksys_init ex_layout)
     \<lparr>s_dev := snd (snd (kdb_ioctl (Some ex_layout) True KDB_SET_LAYOUT (pool kmem_init)
                          (s_dev (ksys_init ex_layout))))\<rparr>"

definition ex_mapped :: ksys where
  "ex_mapped = (case kdb_mmap (Some 0) True (s_dev ex_configured) ex_vma kmem_init of
     (_, vma, m) \<Rightarrow> ex_configured\<lparr>s_mem := m, s_vmas := [0 \<mapsto> vma]\<rparr>)"

definition ex_alloc :: lp_mem where
  "ex_alloc = \<lparr>lm_state = Some 3, lm_cp = True, lm_bitmap = True\<rparr>"

definition ex_faulted :: ksys where
  "ex_faulted = (case kdb_fault low_hash ex_alloc (Some 7) (Some 0) 5 (s_mem ex_mapped) of
     Inl _ \<Rightarrow> ex_mapped | Inr (_, _, m) \<Rightarrow> ex_mapped\<lparr>s_mem := m\<rparr>)"

definition ex_module :: kdb_module where
  "ex_module = \<lparr>lp_state_cache = None, vma_ctx_cache = None, live_caches = {}, misc_registered = False,
     mod_pool = pool kmem_init, mod_log = []\<rparr>"

definition ex_ctx :: vma_ctx where
  "ex_ctx = \<lparr>ctx_cp_size = 4096, ctx_lp_size = 16384, ctx_n_lpn = 8, ctx_cp_per_lp = 4,
     ctx_lp_hash = replicate LP_HASH_SIZE [], ctx_lp_hash_bits = LP_HASH_BITS,
     ctx_total_faults = 0, ctx_total_mkwrite = 0, ctx_total_lp_created = 0\<rparr>"

lemma low_hash_ok: "hash_ok low_hash"
proof -
  have "low_hash n b \<le> 1023" for n b
    by (simp add: low_hash_def word_and_le1)
  then have "unat (low_hash n b) \<le> 1023" for n b
    by (simp add: word_le_nat_alt)
  then have "unat (low_hash n b) < 1024" for n b
    by (rule le_less_trans) simp
  then show ?thesis by (simp add: hash_ok_def LP_HASH_SIZE_def)
qed

lemma ex_layout_valid: "layout_valid ex_layout"
  by (simp add: layout_valid_def ex_layout_def LP_CP_MAX_def)

lemma ex_configured_eq:
  "ex_configured = (ksys_init ex_layout)\<lparr>s_dev := \<lparr>dev_layout = ex_layout, dev_layout_set = True\<rparr>\<rparr>"
  using ex_layout_valid by (simp add: ex_configured_def kdb_set_layout_eq ksys_init_def)

lemma ex_configured_step: "kdb_call h (ksys_init ex_layout) ex_configured"
  using kdb_call.ioctl [of "Some ex_layout" True KDB_SET_LAYOUT "ksys_init ex_layout"]
  by (simp add: ex_configured_eq kdb_set_layout_eq ex_layout_valid) (simp add: ksys_init_def)

lemma ex_configured_reach: "kdb_reach h ex_configured"
  by (rule kdb_reach.step [OF kdb_reach.start kdb_step.call [OF ex_configured_step]])

lemma ex_mmap_eq:
  "kdb_mmap (Some 0) True (s_dev ex_configured) ex_vma kmem_init =
     (None, ex_vma\<lparr>vm_ops_set := True, vm_private_data := Some 0\<rparr>,
      kmem_init\<lparr>ctxs := [0 \<mapsto> ex_ctx]\<rparr>)"
  by (simp add: kdb_mmap_def ex_configured_eq ex_layout_def ex_vma_def vma_ctx_create_def
      LP_CP_MAX_def ex_ctx_def kmem_init_def)

lemma ex_mapped_eq:
  "s_vmas ex_mapped = [0 \<mapsto> ex_vma\<lparr>vm_ops_set := True, vm_private_data := Some 0\<rparr>]"
  "s_mem ex_mapped = kmem_init\<lparr>ctxs := [0 \<mapsto> ex_ctx]\<rparr>"
  "s_dev ex_mapped = s_dev ex_configured"
  by (simp_all add: ex_mapped_def ex_mmap_eq)

lemma ex_mapped_step:
  "s_vmas ex_configured = Map.empty" "s_mem ex_configured = kmem_init" "ctxs kmem_init c = None"
  "kdb_mmap (Some 0) True (s_dev ex_configured) ex_vma kmem_init =
     (None, ex_vma\<lparr>vm_ops_set := True, vm_private_data := Some 0\<rparr>, kmem_init\<lparr>ctxs := [0 \<mapsto> ex_ctx]\<rparr>)"
  "ex_configured\<lparr>s_mem := kmem_init\<lparr>ctxs := [0 \<mapsto> ex_ctx]\<rparr>,
     s_vmas := [0 \<mapsto> ex_vma\<lparr>vm_ops_set := True, vm_private_data := Some 0\<rparr>]\<rparr> = ex_mapped"
  by (simp_all add: ex_mmap_eq ex_mapped_def) (simp_all add: ex_configured_eq ksys_init_def kmem_init_def)

lemma ex_mapped_call: "kdb_call h ex_configured ex_mapped"
proof -
  have "vm_private_data ex_vma = None" by (simp add: ex_vma_def)
  with kdb_call.mmap [of ex_configured 0 ex_vma 0 _ _ h] ex_mapped_step show ?thesis by metis
qed

lemma ex_mapped_reach: "kdb_reach h ex_mapped"
  by (rule kdb_reach.step [OF ex_configured_reach kdb_step.call [OF ex_mapped_call]])

lemma ex_fresh:
  "lp_fresh ex_alloc (s_mem ex_mapped)" "page_fresh (Some 7) (s_mem ex_mapped)"
  by (simp_all add: ex_mapped_eq kmem_init_def lp_fresh_def page_fresh_def)

lemma ex_in_range: "pg_in_range (s_mem ex_mapped) 0 5"
  by (simp add: pg_in_range_def ex_mapped_eq ex_ctx_def)

lemma ex_fault_spec:
  "\<exists>r m. kdb_fault low_hash ex_alloc (Some 7) (Some 0) 5 (s_mem ex_mapped) = Inr (r, Some 7, m) \<and>
     fault_spec low_hash (s_mem ex_mapped) 0 5 r (Some 7) m"
proof -
  note ok = sys_wfD(2) [OF sys_wf_reach [OF ex_mapped_reach low_hash_ok]]
  have no: "page_at (s_mem ex_mapped) 0 k = None" for k
    by (simp add: page_at_def ex_mapped_eq ex_ctx_def lp_view_def ctx_table_def)
  have c: "ctxs (s_mem ex_mapped) 0 = Some ex_ctx" by (simp add: ex_mapped_eq)
  have "fault_result ex_alloc (Some 7) (s_mem ex_mapped) 0 5 = Some 7"
    by (simp add: fault_result_def no lp_mem_ok_def ex_alloc_def)
  with kdb_fault_ok [OF ok ex_in_range ex_fresh] show ?thesis by metis
qed

lemma ex_faulted_mem: "page_at (s_mem ex_faulted) 0 5 = Some 7" "s_vmas ex_faulted = s_vmas ex_mapped"
  using ex_fault_spec by (auto simp: ex_faulted_def fault_spec_def)

lemma ex_faulted_step: "kdb_call low_hash ex_mapped ex_faulted"
proof -
  from ex_fault_spec obtain r m
    where "kdb_fault low_hash ex_alloc (Some 7) (Some 0) 5 (s_mem ex_mapped) = Inr (r, Some 7, m)" by blast
  with kdb_call.fault [of ex_mapped 0 _ ex_alloc "Some 7" low_hash 5 r "Some 7" m] ex_fresh
  show ?thesis by (simp add: ex_mapped_eq ex_faulted_def)
qed

lemma ex_faulted_reach: "kdb_reach low_hash ex_faulted"
  by (rule kdb_reach.step [OF ex_mapped_reach kdb_step.call [OF ex_faulted_step]])

lemma ex_faulted_calls: "(kdb_call low_hash)\<^sup>*\<^sup>* (ksys_init ex_layout) ex_faulted"
  using ex_configured_step ex_mapped_call ex_faulted_step by (blast intro: rtranclp.rtrancl_into_rtrancl)

text \<open>The same state after a \<open>fork\<close>: the child has a copy of the mapping.\<close>

definition ex_forked :: ksys where
  "ex_forked = (case kdb_vma_open (ex_vma\<lparr>vm_ops_set := True, vm_private_data := Some 0\<rparr>) (s_mem ex_faulted) of
     (vma, m) \<Rightarrow> ex_faulted\<lparr>s_mem := m, s_vmas := (s_vmas ex_faulted)(1 \<mapsto> vma)\<rparr>)"

lemma ex_forked_step: "kdb_step low_hash ex_faulted ex_forked"
  using kdb_step.dup [of ex_faulted 0 _ 1 "ex_vma\<lparr>vm_ops_set := True, vm_private_data := Some 0\<rparr>"]
  by (simp add: ex_forked_def kdb_vma_open_def ex_faulted_mem ex_mapped_eq)

lemma ex_forked_reach: "kdb_reach low_hash ex_forked"
  by (rule kdb_reach.step [OF ex_faulted_reach ex_forked_step])

section \<open>Properties\<close>

text \<open>A mapping that was accepted keeps its live context until a mapping that shares it is closed.\<close>

lemma mapped_path:
  assumes "kdb_reach h s" and "hash_ok h" and "s_vmas s v = None" and "ctxs (s_mem s) c = None"
    and "kdb_mmap (Some c) True (s_dev s) vma (s_mem s) = (None, vma', m)"
    and "(\<lambda>a b. kdb_step h a b \<and> keeps c a b)\<^sup>*\<^sup>* (s\<lparr>s_mem := m, s_vmas := (s_vmas s)(v \<mapsto> vma')\<rparr>) t"
  shows "sys_wf h t \<and> ctx_stays c m (s_mem t)"
proof -
  note wf = sys_wf_reach [OF assms(1,2)]
  from kdb_mmap_ok [OF sys_wfD(2,1) [OF wf] assms(4,5)] have "ctxs m c \<noteq> None" by auto
  with kept_path [OF assms(6) sys_wf_mmap [OF wf assms(3-5)]] show ?thesis by simp
qed

text \<open>C1. Whatever ioctl calls, mappings, faults, write notifications, duplications and unmappings happen, in any
  order and with any allocator results, the module's memory stays well formed: every hash
  table is consistent with the hash function and holds at most one state per logical page,
  tables of different contexts are disjoint, no page sits in two slots and each is referenced,
  \<open>cp_allocated\<close> counts the resident pages, every mapping has a context pointer, and no context is without a mapping.
  As long as no mapping has been duplicated, every mapping moreover owns a live context of its own.\<close>

theorem reachable_invariant:
  assumes "kdb_reach h s" and "hash_ok h"
  shows "sys_wf h s \<and> ((\<exists>l. (kdb_call h)\<^sup>*\<^sup>* (ksys_init l) s) \<longrightarrow> sys_ok h s)"
  using sys_wf_reach [OF assms] sys_ok_calls [OF _ assms(2)] by blast

theorem reachable_invariant_witness: "sys_wf low_hash ex_forked \<and> sys_ok low_hash ex_faulted"
  using reachable_invariant [OF ex_forked_reach low_hash_ok] reachable_invariant [OF ex_faulted_reach low_hash_ok]
    ex_faulted_calls by blast

text \<open>C14. From the moment \<open>kdb_mmap\<close> has accepted a mapping until the first of the mappings that share its context
  (itself and its duplicates) is closed, no handler of any of them reaches undefined behaviour: the page-fault
  handler, the write notification and the close callback return for every page offset.\<close>

theorem handlers_never_fault:
  assumes "kdb_reach h s" and "hash_ok h" and "s_vmas s v = None" and "ctxs (s_mem s) c = None"
    and "kdb_mmap (Some c) True (s_dev s) vma (s_mem s) = (None, vma', m)"
    and "(\<lambda>a b. kdb_step h a b \<and> keeps c a b)\<^sup>*\<^sup>* (s\<lparr>s_mem := m, s_vmas := (s_vmas s)(v \<mapsto> vma')\<rparr>) t"
    and "s_vmas t w = Some u" and "vm_private_data u = Some c"
    and "lp_fresh am (s_mem t)" and "page_fresh page (s_mem t)"
  shows "(\<exists>r pg m. kdb_fault h am page (vm_private_data u) off (s_mem t) = Inr (r, pg, m)) \<and>
         (\<exists>r m. kdb_page_mkwrite h (vm_private_data u) off (s_mem t) = Inr (r, m)) \<and>
         (\<exists>u' m. kdb_vma_close u (s_mem t) = Inr (u', m))"
proof -
  note k = mapped_path [OF assms(1-6)]
  then obtain x where x: "ctxs (s_mem t) c = Some x" by (auto simp: ctx_stays_def)
  note k' = sys_wfD [OF conjunct1 [OF k]]
  from kdb_fault_total [OF k'(2,3) x assms(9,10), of off] kdb_page_mkwrite_total [OF k'(2,3) x, of off]
    kdb_vma_close_ok [OF k'(2) assms(8) x] assms(8) show ?thesis by auto
qed

theorem handlers_never_fault_witness:
  "\<exists>r pg m. kdb_fault low_hash ex_alloc (Some 7) (Some 0) 31 (s_mem ex_mapped) = Inr (r, pg, m)"
  using handlers_never_fault [OF ex_configured_reach low_hash_ok, of 0 0 ex_vma _ _ ex_mapped 0 _ ex_alloc "Some 7" 31]
    ex_mapped_step ex_fresh by (simp add: ex_mapped_eq)

text \<open>C15. Page residency is stable: once a fault has made a page resident at an offset of a context, every
  later step of the cache (faults of this and other mappings, write notifications, other
  mappings coming and going, duplications, a new layout) leaves the same page there until a mapping that uses the
  context is closed.\<close>

theorem resident_page_stable:
  assumes "(\<lambda>a b. kdb_step h a b \<and> keeps c a b)\<^sup>*\<^sup>* s t"
    and "kdb_reach h s" and "hash_ok h" and "page_at (s_mem s) c off = Some pg"
  shows "page_at (s_mem t) c off = Some pg"
proof -
  have "ctxs (s_mem s) c \<noteq> None" using assms(4) by (auto simp: page_at_def split: option.splits)
  from kept_path [OF assms(1) sys_wf_reach [OF assms(2,3)] this] assms(4) show ?thesis
    by (simp add: ctx_stays_def)
qed

theorem resident_page_stable_witness: "page_at (s_mem ex_forked) 0 5 = Some 7"
proof -
  have "kdb_step low_hash ex_faulted ex_forked \<and> keeps 0 ex_faulted ex_forked"
    using ex_forked_step by (auto simp: keeps_def ex_forked_def kdb_vma_open_def)
  then show ?thesis
    using resident_page_stable [of low_hash 0 ex_faulted ex_forked 5 7] ex_faulted_reach low_hash_ok
    by (simp add: r_into_rtranclp ex_faulted_mem)
qed

text \<open>Isolation: in a reachable state a page is resident at one offset of one mapping only.\<close>

theorem mappings_isolated:
  assumes "kdb_reach h s" and "hash_ok h"
    and "page_at (s_mem s) c a = Some pg" and "page_at (s_mem s) d b = Some pg"
  shows "c = d \<and> a = b"
  using page_exclusive [OF sys_wfD(2) [OF sys_wf_reach [OF assms(1,2)]] assms(3,4)] .

theorem mappings_isolated_witness:
  "page_at (s_mem ex_faulted) 0 5 = Some 7 \<and> page_at (s_mem ex_faulted) 0 6 \<noteq> Some 7"
  using mappings_isolated [OF ex_faulted_reach low_hash_ok ex_faulted_mem(1), of 0 6] ex_faulted_mem(1)
  by auto

lemma fault_in_range:
  assumes ok: "kdb_ok h m0" and rg: "pg_in_range m0 c off" and fr: "lp_fresh am m0" "page_fresh page m0"
  shows "\<exists>m. let pg = fault_result am page m0 c off in
     kdb_fault h am page (Some c) off m0 = Inr (if pg = None then VM_FAULT_OOM else VM_FAULT_LOCKED, pg, m) \<and>
     page_at m c = (case pg of None \<Rightarrow> page_at m0 c | Some p \<Rightarrow> (page_at m0 c)(off \<mapsto> p)) \<and>
     (\<forall>d. d \<noteq> c \<longrightarrow> page_at m d = page_at m0 d)"
proof -
  from kdb_fault_ok [OF ok rg fr] obtain r pgo m
    where f: "kdb_fault h am page (Some c) off m0 = Inr (r, pgo, m)"
      "fault_spec h m0 c off r pgo m" "pgo = fault_result am page m0 c off" by blast
  with kdb_fault_other [OF ok rg fr f(1)] show ?thesis
    by (intro exI [of _ m]) (simp add: fault_spec_def Let_def)
qed

text \<open>C13. The result of a page fault on every branch of the handler, in every reachable state.  Without a context it is a null
  dereference, with a freed one a use after free.  An offset at or beyond the \<open>n_lpn * cp_per_lp\<close> canonical
  pages of the context ends in a bus error and changes nothing.  Below it the fault returns the resident page if
  there is one, else the new page, and reports out of memory exactly when the page or the
  missing logical page state could not be allocated; the page map changes at the faulting offset only.\<close>

theorem fault_functional:
  assumes "kdb_reach h s" and "hash_ok h" and "lp_fresh am (s_mem s)" and "page_fresh page (s_mem s)"
  shows "case cp of
      None \<Rightarrow> kdb_fault h am page cp off (s_mem s) = Inl NullDeref
    | Some c \<Rightarrow> (case ctxs (s_mem s) c of
        None \<Rightarrow> kdb_fault h am page cp off (s_mem s) = Inl UseAfterFree
      | Some x \<Rightarrow>
          if unat (ctx_n_lpn x) * unat (ctx_cp_per_lp x) \<le> unat off
          then kdb_fault h am page cp off (s_mem s) = Inr (VM_FAULT_SIGBUS, None, s_mem s)
          else \<exists>m. let pg = fault_result am page (s_mem s) c off in
            kdb_fault h am page cp off (s_mem s) =
              Inr (if pg = None then VM_FAULT_OOM else VM_FAULT_LOCKED, pg, m) \<and>
            page_at m c = (case pg of None \<Rightarrow> page_at (s_mem s) c | Some p \<Rightarrow> (page_at (s_mem s) c)(off \<mapsto> p)) \<and>
            (\<forall>d. d \<noteq> c \<longrightarrow> page_at m d = page_at (s_mem s) d))"
proof -
  note ok = sys_wfD(2) [OF sys_wf_reach [OF assms(1,2)]]
  then have k: "kmem_ok h (s_mem s)" by (simp add: kdb_ok_def)
  show ?thesis
  proof (cases "\<exists>c x. cp = Some c \<and> ctxs (s_mem s) c = Some x")
    case True
    then obtain c x where c: "cp = Some c" "ctxs (s_mem s) c = Some x" by blast
    note r = pg_in_range_nat [OF k c(2), of off]
    show ?thesis
    proof (cases "pg_in_range (s_mem s) c off")
      case True
      with r have "\<not> unat (ctx_n_lpn x) * unat (ctx_cp_per_lp x) \<le> unat off" by simp
      with fault_in_range [OF ok True assms(3,4)] c show ?thesis by (simp only: option.case if_False)
    next
      case False
      with r kdb_fault_out [OF k c(2) False] c show ?thesis by simp
    qed
  next
    case False
    then show ?thesis by (auto simp: kdb_fault_def split: option.split)
  qed
qed

theorem fault_functional_witness:
  "\<exists>m. kdb_fault low_hash ex_alloc (Some 7) (Some 0) 5 (s_mem ex_mapped) = Inr (VM_FAULT_LOCKED, Some 7, m)"
proof -
  have "fault_result ex_alloc (Some 7) (s_mem ex_mapped) 0 5 = Some 7"
    by (simp add: fault_result_def page_at_def ex_mapped_eq ex_ctx_def lp_view_def ctx_table_def
        lp_mem_ok_def ex_alloc_def)
  with fault_functional [OF ex_mapped_reach low_hash_ok ex_fresh, of "Some 0" 5] show ?thesis
    by (auto simp: Let_def ex_mapped_eq ex_ctx_def)
qed

text \<open>A write notification for a resident page sets the dirty bit of exactly that page offset, in no
  other offset and no other mapping, and leaves all page maps as they are.\<close>

theorem mkwrite_marks_exactly_one:
  assumes "kdb_reach h s" and "hash_ok h" and "page_at (s_mem s) c off = Some pg"
  shows "\<exists>m. kdb_page_mkwrite h (Some c) off (s_mem s) = Inr (VM_FAULT_LOCKED, m) \<and>
           page_at m = page_at (s_mem s) \<and>
           (\<forall>d k. dirty_at m d k \<longleftrightarrow> (d = c \<and> k = off) \<or> dirty_at (s_mem s) d k)"
  using mkwrite_resident [OF sys_wfD(2) [OF sys_wf_reach [OF assms(1,2)]] assms(3)] .

theorem mkwrite_marks_exactly_one_witness:
  "\<exists>m. kdb_page_mkwrite low_hash (Some 0) 5 (s_mem ex_faulted) = Inr (VM_FAULT_LOCKED, m) \<and>
     dirty_at m 0 5"
  using mkwrite_marks_exactly_one [OF ex_faulted_reach low_hash_ok ex_faulted_mem(1)] by blast

text \<open>\<open>KDB_GET_STATS\<close> reports in \<open>allocated_cp\<close> the number of pages that live mappings hold, modulo the
  counter's width, zero in the other fields, and changes nothing.\<close>

theorem stats_count_resident:
  assumes "kdb_reach h s" and "hash_ok h"
  shows "kdb_ioctl fu True KDB_GET_STATS (pool (s_mem s)) (s_dev s) =
     (None, Out_stats \<lparr>st_total_faults = 0, st_total_mkwrite = 0, st_total_cp_alloc = 0,
        st_total_lp_created = 0, st_dirty_pages = 0,
        st_allocated_cp = of_nat (resident (s_mem s)), st_allocated_lp = 0\<rparr>, s_dev s)"
proof -
  have "acct_ok (s_mem s)" using sys_wfD(2) [OF sys_wf_reach [OF assms]] by (simp add: kdb_ok_def)
  then show ?thesis by (simp add: kdb_ioctl_def cp_pool_stats_def acct_ok_def)
qed

theorem stats_count_resident_witness:
  "snd (snd (kdb_ioctl None True KDB_GET_STATS (pool (s_mem ex_faulted)) (s_dev ex_faulted))) = s_dev ex_faulted"
  using stats_count_resident [OF ex_faulted_reach low_hash_ok, of None] by simp

section \<open>Mapping size and canonical page size\<close>

lemma mapping_covered:
  fixes off n lps cps size :: u64
  assumes "unat lps = unat cps * k" and "unat cps \<le> 4096" and "0 < k"
    and "size \<le> n * lps" and "unat off * 4096 < unat size"
  shows "unat off div k < unat n"
proof -
  have "unat (n * lps) \<le> unat n * unat lps" by (simp add: unat_word_ariths)
  then have "unat off * 4096 < unat n * unat lps"
    using assms(4,5) by (simp add: word_le_nat_alt)
  also have "\<dots> \<le> unat n * (4096 * k)" using assms(1,2) by simp
  finally have "unat off < unat n * k" by simp
  then show ?thesis using assms(3) by (simp add: div_less_iff_less_mult)
qed

text \<open>The page offset that the kernel hands to a fault handler for an address of a mapping.\<close>

definition fault_index :: "vm_area \<Rightarrow> u64 \<Rightarrow> u64" where
  "fault_index vma addr = vm_pgoff vma + drop_bit 12 (addr - vm_start vma)"

lemma unat_page_index: "unat (drop_bit 12 (a :: u64)) = unat a div 4096"
  by (simp add: unat_drop_bit_eq drop_bit_eq_div [where 'a = nat])

text \<open>C26. When the canonical page size is at most the 4 KiB page size of the machine, a mapping of the device from file
  offset 0 that \<open>kdb_mmap\<close> accepts is backed completely: a fault on any address of it, as long as no mapping that
  shares its context has been closed, is inside the configured range, even when the product in the size
  check wraps, so it never ends in a bus error.\<close>

theorem mapping_fully_backed:
  assumes "kdb_reach h s" and "hash_ok h" and "s_vmas s v = None" and "ctxs (s_mem s) c = None"
    and "kdb_mmap (Some c) True (s_dev s) vma (s_mem s) = (None, vma', m)"
    and "(\<lambda>a b. kdb_step h a b \<and> keeps c a b)\<^sup>*\<^sup>* (s\<lparr>s_mem := m, s_vmas := (s_vmas s)(v \<mapsto> vma')\<rparr>) t"
    and "unat (ly_cp_size (dev_layout (s_dev s))) \<le> 4096" and "vm_pgoff vma = 0"
    and "vm_start vma \<le> addr" and "addr < vm_end vma"
    and "lp_fresh am (s_mem t)" and "page_fresh page (s_mem t)"
  shows "\<exists>r pg m'. kdb_fault h am page (vm_private_data vma') (fault_index vma' addr) (s_mem t) = Inr (r, pg, m') \<and>
           r \<noteq> VM_FAULT_SIGBUS"
proof -
  note k = sys_wfD [OF sys_wf_reach [OF assms(1,2)]]
  from kdb_mmap_ok [OF k(2,1) assms(4,5)] obtain x where m: "m = (s_mem s)\<lparr>ctxs := (ctxs (s_mem s))(c \<mapsto> x)\<rparr>"
    and c: "vm_private_data vma' = Some c" and x: "ctx_geom x"
      "ctx_n_lpn x = ly_n_lpn (dev_layout (s_dev s))" "ctx_cp_size x = ly_cp_size (dev_layout (s_dev s))"
      "ctx_lp_size x = ly_lp_size (dev_layout (s_dev s))" by blast
  have sz: "vm_end vma - vm_start vma \<le> ctx_n_lpn x * ctx_lp_size x" and
    v: "vm_start vma' = vm_start vma" "vm_pgoff vma' = vm_pgoff vma"
    using assms(5) by (auto simp: x kdb_mmap_def Let_def linorder_not_less split: if_splits option.splits prod.splits)
  have "unat (fault_index vma' addr) * 4096 \<le> unat (addr - vm_start vma)"
    by (simp add: fault_index_def v assms(8) unat_page_index)
  also have "\<dots> < unat (vm_end vma - vm_start vma)"
    using assms(9,10) by (simp add: unat_sub word_less_nat_alt word_le_nat_alt diff_less_mono)
  finally have "unat (fault_index vma' addr) div unat (ctx_cp_per_lp x) < unat (ctx_n_lpn x)"
    using x sz assms(7)
    by (intro mapping_covered [where cps = "ctx_cp_size x" and lps = "ctx_lp_size x" and size = "vm_end vma - vm_start vma"])
      (simp_all add: ctx_geom_def)
  then have "pg_in_range m c (fault_index vma' addr)"
    using cpi_decode(4) [OF x(1), of "fault_index vma' addr"] by (simp add: m(1) pg_in_range_def word_less_nat_alt)
  with mapped_path [OF assms(1-6)] have "sys_wf h t" "pg_in_range (s_mem t) c (fault_index vma' addr)"
    by (auto simp: ctx_stays_def)
  from kdb_fault_ok [OF sys_wfD(2) [OF this(1)] this(2) assms(11,12)] c show ?thesis by (auto simp: fault_spec_def)
qed

theorem mapping_fully_backed_witness:
  "\<exists>r pg m'. kdb_fault low_hash ex_alloc (Some 7) (Some 0) 31 (s_mem ex_mapped) = Inr (r, pg, m') \<and>
     r \<noteq> VM_FAULT_SIGBUS"
  using mapping_fully_backed [OF ex_configured_reach low_hash_ok, of 0 0 ex_vma _ _ ex_mapped 131071 ex_alloc "Some 7"]
    ex_mapped_step ex_fresh
  by (simp add: ex_configured_eq ksys_init_def ex_layout_def) (simp add: ex_vma_def fault_index_def)

text \<open>C27. \<open>kdb_mmap\<close> never looks at the file offset of a mapping, but the page offset of a fault counts from it: a
  mapping that is accepted is accepted at every other file offset too, and any address of it whose page offset is then at or
  beyond the canonical pages of the layout ends in a bus error, in any state of the allocators.\<close>

theorem offset_mapping_sigbus:
  assumes "kdb_reach h s" and "hash_ok h" and "ctxs (s_mem s) c = None"
    and "kdb_mmap (Some c) True (s_dev s) vma (s_mem s) = (None, vma', m)"
    and "unat (ly_n_lpn (dev_layout (s_dev s))) * (unat (ly_lp_size (dev_layout (s_dev s))) div unat (ly_cp_size (dev_layout (s_dev s))))
      \<le> unat (fault_index (vma\<lparr>vm_pgoff := k\<rparr>) addr)"
  shows "kdb_mmap (Some c) True (s_dev s) (vma\<lparr>vm_pgoff := k\<rparr>) (s_mem s) = (None, vma'\<lparr>vm_pgoff := k\<rparr>, m) \<and>
    kdb_fault h am page (vm_private_data (vma'\<lparr>vm_pgoff := k\<rparr>)) (fault_index (vma'\<lparr>vm_pgoff := k\<rparr>) addr) m =
      Inr (VM_FAULT_SIGBUS, None, m)"
proof -
  note w = sys_wfD [OF sys_wf_reach [OF assms(1,2)]]
  from kdb_mmap_ok [OF w(2,1) assms(3,4)] obtain x where m: "m = (s_mem s)\<lparr>ctxs := (ctxs (s_mem s))(c \<mapsto> x)\<rparr>"
    and ok: "kdb_ok h m" and c: "vm_private_data vma' = Some c" and x: "ctx_geom x"
      "ctx_n_lpn x = ly_n_lpn (dev_layout (s_dev s))" "ctx_cp_size x = ly_cp_size (dev_layout (s_dev s))"
      "ctx_lp_size x = ly_lp_size (dev_layout (s_dev s))" by blast
  have v: "vm_start vma' = vm_start vma"
    and a: "kdb_mmap (Some c) True (s_dev s) (vma\<lparr>vm_pgoff := k\<rparr>) (s_mem s) = (None, vma'\<lparr>vm_pgoff := k\<rparr>, m)"
    using assms(4) by (auto simp: kdb_mmap_def Let_def split: if_splits option.splits prod.splits)
  have d: "ctxs m c = Some x" "kmem_ok h m" using m ok by (simp_all add: kdb_ok_def)
  have "unat (ctx_lp_size x) div unat (ctx_cp_size x) = unat (ctx_cp_per_lp x)" using x(1) by (auto simp: ctx_geom_def)
  with assms(5) x v have "\<not> pg_in_range m c (fault_index (vma'\<lparr>vm_pgoff := k\<rparr>) addr)"
    by (simp add: pg_in_range_nat [OF d(2,1)] fault_index_def)
  with kdb_fault_out [OF d(2,1)] a c show ?thesis by simp
qed

theorem offset_mapping_sigbus_witness:
  "\<exists>vma' m. kdb_mmap (Some 0) True (s_dev ex_configured) (ex_vma\<lparr>vm_pgoff := 1\<rparr>) (s_mem ex_configured) = (None, vma', m) \<and>
     kdb_fault low_hash ex_alloc (Some 7) (Some 0) (fault_index vma' 131071) m = Inr (VM_FAULT_SIGBUS, None, m)"
proof -
  obtain vma' m where r: "kdb_mmap (Some 0) True (s_dev ex_configured) ex_vma (s_mem ex_configured) = (None, vma', m)"
    and p: "vm_private_data vma' = Some 0"
    by (simp add: kdb_mmap_def ex_configured_eq ex_layout_def ex_vma_def vma_ctx_create_def LP_CP_MAX_def
      kmem_init_def ksys_init_def)
  from offset_mapping_sigbus [OF ex_configured_reach low_hash_ok _ r, of 1 131071 ex_alloc "Some 7"] p show ?thesis
    by (simp add: ex_configured_eq ksys_init_def kmem_init_def ex_layout_def ex_vma_def fault_index_def)
qed

text \<open>With a canonical page size above 4 KiB the page index of a fault is still counted in 4 KiB pages:
  the layout of 8 KiB canonical and 16 KiB logical pages with one logical page is accepted, so is
  a mapping of all its 16 KiB, and the third page of that mapping ends in a bus error.\<close>

theorem large_canonical_pages_sigbus:
  "let l = \<lparr>ly_cp_size = 8192, ly_lp_size = 16384, ly_n_lpn = 1\<rparr>;
       vma = \<lparr>vm_start = 0, vm_end = 16384, vm_pgoff = 0, vm_ops_set = False, vm_private_data = None\<rparr>
   in case kdb_ioctl (Some l) True KDB_SET_LAYOUT (pool kmem_init) (s_dev (ksys_init ex_layout)) of
        (r, _, d) \<Rightarrow> r = None \<and>
          (case kdb_mmap (Some 0) True d vma kmem_init of
             (r, vma', m) \<Rightarrow> r = None \<and>
               kdb_fault h am page (vm_private_data vma') 2 m = Inr (VM_FAULT_SIGBUS, None, m))"
  by (simp add: kdb_set_layout_eq layout_valid_def LP_CP_MAX_def kdb_mmap_def vma_ctx_create_def
      kdb_fault_def kmem_init_def ksys_init_def)

section \<open>Closing and duplicating mappings\<close>

text \<open>C40. Duplicating a mapping (\<open>fork\<close>) takes no reference on its context: after the parent's copy is closed,
  closing the child's copy frees the context a second time, and a fault in the child reads freed memory.\<close>

theorem fork_use_after_free:
  assumes "kdb_reach h s" and "hash_ok h" and "s_vmas s v = Some vma"
    and "vm_private_data vma = Some c" and "ctxs (s_mem s) c = Some x"
  shows "\<exists>vma' m. kdb_vma_close (fst (kdb_vma_open vma (s_mem s))) (snd (kdb_vma_open vma (s_mem s))) = Inr (vma', m) \<and>
           kdb_vma_close vma m = Inl UseAfterFree \<and>
           kdb_fault h am page (vm_private_data vma) off m = Inl UseAfterFree"
proof -
  note k = sys_wfD [OF sys_wf_reach [OF assms(1,2)]]
  note c = assms(4,5)
  from kdb_vma_close_ok [OF k(2) c] obtain m
    where m: "kdb_vma_close vma (s_mem s) = Inr (vma\<lparr>vm_private_data := None\<rparr>, m)"
      "ctxs m = (ctxs (s_mem s))(c := None)" by blast
  then have "kdb_vma_close vma m = Inl UseAfterFree" by (intro kdb_vma_close_dead [OF c(1)]) simp
  moreover have "kdb_fault h am page (vm_private_data vma) off m = Inl UseAfterFree"
    using m(2) c(1) by (simp add: kdb_fault_def)
  ultimately show ?thesis using m(1) by (simp add: kdb_vma_open_def)
qed

theorem fork_use_after_free_witness:
  "\<exists>vma' m. kdb_vma_close (ex_vma\<lparr>vm_ops_set := True, vm_private_data := Some 0\<rparr>) (s_mem ex_faulted) =
       Inr (vma', m) \<and>
     kdb_vma_close (ex_vma\<lparr>vm_ops_set := True, vm_private_data := Some 0\<rparr>) m = Inl UseAfterFree"
proof -
  have "s_vmas ex_faulted 0 = Some (ex_vma\<lparr>vm_ops_set := True, vm_private_data := Some 0\<rparr>)"
    by (simp add: ex_faulted_mem ex_mapped_eq)
  moreover obtain x where "ctxs (s_mem ex_faulted) 0 = Some x"
    using ex_faulted_mem(1) by (auto simp: page_at_def split: option.splits)
  ultimately show ?thesis
    using fork_use_after_free [OF ex_faulted_reach low_hash_ok, of 0 _ 0 x ex_alloc None 5] by (auto simp: kdb_vma_open_def)
qed

text \<open>C39. Closing a mapping drops its pages from the counters and forgets them, but gives back no page
  reference: every reference count is what it was before the close, the one that \<open>alloc_page\<close> gave included, so a page
  that was resident, of whose references the kernel returns the ones \<open>get_page\<close> took, stays allocated while no
  context leads to it any more.\<close>

theorem close_leaks_pages:
  assumes "kdb_reach h s" and "hash_ok h" and "vm_private_data vma = Some c" and "page_at (s_mem s) c off = Some pg"
  shows "\<exists>vma' m. kdb_vma_close vma (s_mem s) = Inr (vma', m) \<and>
           page_refs (pool m) = page_refs (pool (s_mem s)) \<and> 0 < page_refs (pool (s_mem s)) pg \<and>
           (\<forall>d k. page_at m d k \<noteq> Some pg) \<and> cp_allocated (pool m) = of_nat (resident m)"
proof -
  note k = sys_wfD [OF sys_wf_reach [OF assms(1,2)]]
  have km: "kmem_ok h (s_mem s)" and pk: "pages_ok (s_mem s)" using k(2) by (simp_all add: kdb_ok_def)
  from assms(4) obtain x where x: "ctxs (s_mem s) c = Some x" by (auto simp: page_at_def split: option.splits)
  from kdb_vma_close_ok [OF k(2) assms(3) x] obtain m
    where m: "kdb_vma_close vma (s_mem s) = Inr (vma\<lparr>vm_private_data := None\<rparr>, m)" "kdb_ok h m"
      "ctxs m = (ctxs (s_mem s))(c := None)" "page_refs (pool m) = page_refs (pool (s_mem s))" by blast
  have "0 < page_refs (pool (s_mem s)) pg"
    using assms(4) pages_okD(3) [OF pk] by (auto simp: page_at_def split: option.splits)
  moreover have "page_at m d k \<noteq> Some pg" for d k
  proof (cases "d = c")
    case True
    then show ?thesis by (simp add: page_at_def m(3))
  next
    case False
    then show ?thesis
      using kdb_vma_close_other [OF km assms(3) x m(1) False] page_exclusive [OF k(2) assms(4), of d k]
      by auto
  qed
  ultimately show ?thesis using m by (auto simp: kdb_ok_def acct_ok_def)
qed

theorem close_leaks_pages_witness:
  "\<exists>vma' m. kdb_vma_close (ex_vma\<lparr>vm_ops_set := True, vm_private_data := Some 0\<rparr>) (s_mem ex_faulted) = Inr (vma', m) \<and>
     page_refs (pool m) 7 = page_refs (pool (s_mem ex_faulted)) 7 \<and> (\<forall>d k. page_at m d k \<noteq> Some 7)"
  using close_leaks_pages [OF ex_faulted_reach low_hash_ok _ ex_faulted_mem(1),
      of "ex_vma\<lparr>vm_ops_set := True, vm_private_data := Some 0\<rparr>"] by fastforce

text \<open>Between two calls every logical page has reference count zero, so each fault that returns a page
  drops the count to zero once more and emits the warning that \<open>lp_put\<close> says should not happen.\<close>

theorem fault_always_warns:
  assumes "kdb_reach h s" and "hash_ok h" and "pg_in_range (s_mem s) c off"
    and "lp_fresh am (s_mem s)"
    and "kdb_fault h am page (Some c) off (s_mem s) = Inr (VM_FAULT_LOCKED, Some pg, m)"
  shows "klog m = klog (s_mem s) @ [Lp_refcount_zero]"
  using kdb_fault_refs [OF sys_wfD(2,3) [OF sys_wf_reach [OF assms(1,2)]] assms(3-5)] by simp

theorem fault_always_warns_witness: "klog (s_mem ex_faulted) = [Lp_refcount_zero]"
proof -
  from ex_fault_spec obtain r m
    where m: "kdb_fault low_hash ex_alloc (Some 7) (Some 0) 5 (s_mem ex_mapped) = Inr (r, Some 7, m)"
      "r = VM_FAULT_LOCKED" by (auto simp: fault_spec_def)
  with fault_always_warns [OF ex_mapped_reach low_hash_ok ex_in_range ex_fresh(1)]
  have "klog m = klog (s_mem ex_mapped) @ [Lp_refcount_zero]" by blast
  with m show ?thesis by (simp add: ex_faulted_def ex_mapped_eq kmem_init_def)
qed

text \<open>C20. Looking a logical page up through its hash bucket finds what a search of the whole table finds, and a
  state that \<open>lp_get_or_create\<close> has returned is found by every later lookup: the table refines a
  map that is filled on demand.\<close>

theorem hash_table_refines_map:
  assumes "kmem_ok h m" and "ctxs m c = Some x" and "n < ctx_n_lpn x" and "lp_fresh am m"
  shows "(\<exists>m1. lp_lookup h (Some c) n m = Inr (lp_view (lps m) x n, m1)) \<and>
         (\<forall>p m1. lp_get_or_create h am (Some c) n m = Inr (Some p, m1) \<longrightarrow>
            (\<exists>m2. lp_lookup h (Some c) n m1 = Inr (Some p, m2)) \<and>
            ctx_view m1 c = (ctx_view m c)(n \<mapsto> p))"
proof -
  have rg: "lpn_in_range m c n" using assms(2,3) by (simp add: lpn_in_range_def)
  have "\<exists>m1. lp_lookup h (Some c) n m = Inr (lp_view (lps m) x n, m1)"
    using lp_idx.lookup_ok [OF assms(1) rg] assms(2) by (auto simp: ctx_view_def)
  with lp_idx.get_then_lookup [OF assms(1) rg] lp_idx.getD(3) [OF assms(1) rg] assms(4)
  show ?thesis by blast
qed

theorem hash_table_refines_map_witness:
  "\<exists>m1. lp_lookup low_hash (Some 0) 3 (s_mem ex_mapped) =
     Inr (lp_view (lps (s_mem ex_mapped)) ex_ctx 3, m1)"
proof -
  have "kmem_ok low_hash (s_mem ex_mapped)"
    using sys_wfD(2) [OF sys_wf_reach [OF ex_mapped_reach low_hash_ok]] by (simp add: kdb_ok_def)
  from hash_table_refines_map [OF this, of 0 ex_ctx 3 ex_alloc] ex_fresh show ?thesis
    by (simp add: ex_mapped_eq ex_ctx_def)
qed

section \<open>Configuration, loading and unloading\<close>

text \<open>A layout that \<open>KDB_SET_LAYOUT\<close> accepts (exactly the valid ones) is what \<open>KDB_GET_LAYOUT\<close> returns; a
  rejected one leaves the device as it was.\<close>

theorem layout_round_trip:
  "case kdb_ioctl (Some l) tu KDB_SET_LAYOUT pl d of (r, out, d') \<Rightarrow>
     r = (if layout_valid l then None else Some EINVAL) \<and>
     kdb_ioctl fu True KDB_GET_LAYOUT pl' d' =
       (if layout_valid l then (None, Out_layout l, d') else kdb_ioctl fu True KDB_GET_LAYOUT pl' d)"
  by (simp add: kdb_set_layout_eq) (simp add: kdb_ioctl_def)

text \<open>C35. Loading the module either succeeds with both slab caches and the device registered, and then
  unloading gives everything back, or fails and leaves nothing behind; no cache is destroyed twice,
  whichever of the three acquisitions fails.\<close>

theorem module_load_unload:
  assumes "\<not> misc_registered s"
    and "\<And>p. lp_c = Some p \<Longrightarrow> p \<notin> live_caches s" and "\<And>q. ctx_c = Some q \<Longrightarrow> q \<notin> live_caches s"
    and "lp_c \<noteq> None \<Longrightarrow> lp_c \<noteq> ctx_c"
  shows "\<exists>r s1. kdb_init lp_c ctx_c reg s = Inr (r, s1) \<and>
     (r = None \<longleftrightarrow> lp_c \<noteq> None \<and> ctx_c \<noteq> None \<and> reg = None) \<and>
     (r \<noteq> None \<longrightarrow> live_caches s1 = live_caches s \<and> \<not> misc_registered s1) \<and>
     (r = None \<longrightarrow> misc_registered s1 \<and> (\<exists>s2. kdb_exit s1 = Inr s2 \<and>
        live_caches s2 = live_caches s \<and> \<not> misc_registered s2))"
proof (cases lp_c)
  case None
  with assms(1) show ?thesis
    by (simp add: kdb_init_def cp_pool_init_def lp_state_init_def cache_created_def mod_pool_exit_def)
next
  case (Some p)
  note defs = kdb_init_def cp_pool_init_def lp_state_init_def cache_created_def mod_pool_exit_def
    kmem_cache_destroy_def kdb_chrdev_init_def lp_state_exit_def kdb_exit_def kdb_chrdev_exit_def
  from Some assms(2) have p: "p \<notin> live_caches s" by simp
  show ?thesis
  proof (cases ctx_c)
    case None
    with Some p assms(1) show ?thesis by (simp add: defs)
  next
    case c: (Some q)
    with Some assms(3,4) have q: "q \<notin> live_caches s" "p \<noteq> q" by simp_all
    show ?thesis
      using Some c p q assms(1) by (cases reg) (auto simp: defs)
  qed
qed

theorem module_load_unload_witness:
  "\<exists>r s1. kdb_init (Some 1) (Some 2) (Some EINVAL) ex_module = Inr (r, s1) \<and> r \<noteq> None \<and>
     live_caches s1 = {}"
  using module_load_unload [of ex_module "Some 1" "Some 2" "Some EINVAL"]
  by (auto simp: ex_module_def)

text \<open>The tests \<open>if (!ctx)\<close> of the fault and write handlers come after the first use of the pointer: a mapping
  without a context is a null dereference, never the bus error that the test would return.\<close>

theorem null_context_not_guarded:
  "kdb_fault h am page None off m = Inl NullDeref \<and> kdb_page_mkwrite h None off m = Inl NullDeref"
  by (simp add: kdb_fault_def kdb_page_mkwrite_def)

text \<open>\<open>vma_ctx_create\<close> truncates \<open>lp_size / cp_size\<close> to 32 bits before comparing it with the limit: a quotient of
  \<open>2 ^ 32\<close> passes with zero pages per logical page and the next fault divides by zero.  The 64-bit
  comparison of \<open>KDB_SET_LAYOUT\<close> rejects this layout before it gets there.\<close>

theorem context_size_truncated:
  "(case vma_ctx_create (Some 0) True 1 (2 ^ 32) 1 kmem_init of
      (c, m) \<Rightarrow> c = Some 0 \<and> kdb_fault h am page c 0 m = Inl DivByZero) \<and>
   \<not> layout_valid \<lparr>ly_cp_size = 1, ly_lp_size = 2 ^ 32, ly_n_lpn = 1\<rparr>"
  by (simp add: vma_ctx_create_def kdb_fault_def LP_CP_MAX_def layout_valid_def kmem_init_def)

section \<open>Concurrent creation of logical pages\<close>

lemma ex_mapped_ready:
  "kmem_ok low_hash (s_mem ex_mapped)" "rc_zero (s_mem ex_mapped)" "ctxs (s_mem ex_mapped) 0 = Some ex_ctx"
  using sys_wfD(2,3) [OF sys_wf_reach [OF ex_mapped_reach low_hash_ok]]
  by (simp_all add: kdb_ok_def ex_mapped_eq)

lemma ex_no_lp: "lp_view H ex_ctx n = None"
  by (simp add: lp_view_def ex_ctx_def ctx_table_def)

lemma ex_race_step1:
  "goc_step low_hash 0 (goc_start (s_mem ex_mapped) [3, 3])
     \<lparr>g_mem = s_mem ex_mapped, g_pcs = [Alloc 3, Start 3]\<rparr>"
  using goc_step.find [of 0 "goc_start (s_mem ex_mapped) [3, 3]" 3 0 ex_ctx low_hash None "s_mem ex_mapped"]
    lp_find_ref_eq [OF ex_mapped_ready(1,3), of 3] ex_mapped_ready(3)
  by (simp add: goc_start_def ex_no_lp) (simp add: ex_ctx_def)

lemma ex_race_step2:
  "goc_step low_hash 0 \<lparr>g_mem = s_mem ex_mapped, g_pcs = [Alloc 3, Start 3]\<rparr>
     \<lparr>g_mem = s_mem ex_mapped, g_pcs = [Alloc 3, Alloc 3]\<rparr>"
  using goc_step.find [of 1 "\<lparr>g_mem = s_mem ex_mapped, g_pcs = [Alloc 3, Start 3]\<rparr>" 3 0 ex_ctx low_hash
      None "s_mem ex_mapped"]
    lp_find_ref_eq [OF ex_mapped_ready(1,3), of 3] ex_mapped_ready(3)
  by (simp add: ex_no_lp) (simp add: ex_ctx_def)

lemma ex_race_alloc:
  assumes "lps m p = None" and "ctxs m 0 = Some ex_ctx" and "t < length ks" and "ks ! t = Alloc 3"
  shows "goc_step low_hash 0 \<lparr>g_mem = m, g_pcs = ks\<rparr>
     \<lparr>g_mem = m\<lparr>lps := (lps m)(p \<mapsto> lp_new ex_ctx 3)\<rparr>, g_pcs = ks[t := Insert 3 p]\<rparr>"
  using goc_step.alloc [of t "\<lparr>g_mem = m, g_pcs = ks\<rparr>" 3 0 ex_ctx
      "\<lparr>lm_state = Some p, lm_cp = True, lm_bitmap = True\<rparr>" "Some p"] assms
  by (simp add: lp_fresh_def lp_alloc_eq lp_mem_ok_def)

text \<open>Both callers miss, both allocate, the first inserts, the second finds its entry.\<close>

lemma ex_race:
  "\<exists>m. (goc_step low_hash 0)\<^sup>*\<^sup>* (goc_start (s_mem ex_mapped) [3, 3])
     \<lparr>g_mem = m, g_pcs = [Return 3 (Some 3), Return 3 (Some 3)]\<rparr>"
proof -
  let ?R = "(goc_step low_hash 0)\<^sup>*\<^sup>* (goc_start (s_mem ex_mapped) [3, 3])"
  let ?m3 = "(s_mem ex_mapped)\<lparr>lps := (lps (s_mem ex_mapped))(3 \<mapsto> lp_new ex_ctx 3)\<rparr>"
  let ?m4 = "?m3\<lparr>lps := (lps ?m3)(4 \<mapsto> lp_new ex_ctx 3)\<rparr>"
  let ?x = "link_ctx low_hash 3 3 ex_ctx"
  let ?m5 = "?m4\<lparr>ctxs := (ctxs ?m4)(0 \<mapsto> ?x)\<rparr>"
  have e: "lps (s_mem ex_mapped) q = None" for q by (simp add: ex_mapped_eq kmem_init_def)
  have ok: "goc_ok low_hash 0 s" if "?R s" for s
    using goc_ok_reach [OF that goc_ok_start [OF ex_mapped_ready]] .
  have "?R \<lparr>g_mem = s_mem ex_mapped, g_pcs = [Alloc 3, Alloc 3]\<rparr>"
    using ex_race_step1 ex_race_step2 by (blast intro: rtranclp.rtrancl_into_rtrancl)
  also have "goc_step low_hash 0 \<dots> \<lparr>g_mem = ?m3, g_pcs = [Insert 3 3, Alloc 3]\<rparr>"
    using ex_race_alloc [OF e [of 3] ex_mapped_ready(3), of 0 "[Alloc 3, Alloc 3]"] by simp
  also have "goc_step low_hash 0 \<dots> \<lparr>g_mem = ?m4, g_pcs = [Insert 3 3, Insert 3 4]\<rparr>"
    using ex_race_alloc [of ?m3 4 1 "[Insert 3 3, Alloc 3]"] e [of 4] ex_mapped_ready(3) by simp
  finally have r4: "?R \<lparr>g_mem = ?m4, g_pcs = [Insert 3 3, Insert 3 4]\<rparr>" .
  have c4: "ctxs ?m4 0 = Some ex_ctx" using ex_mapped_ready(3) by simp
  have "lp_insert low_hash 0 3 3 ?m4 = Inr (3, ?m5)"
    using lp_insert_eq [OF _ c4, of low_hash 3 3] goc_okD(1) [OF ok [OF r4]] c4 by (simp add: ex_no_lp)
  with goc_step.insert [of 0 "\<lparr>g_mem = ?m4, g_pcs = [Insert 3 3, Insert 3 4]\<rparr>" 3 3 low_hash 0 3 ?m5] r4
  have r5: "?R \<lparr>g_mem = ?m5, g_pcs = [Return 3 (Some 3), Insert 3 4]\<rparr>"
    by (simp add: rtranclp.rtrancl_into_rtrancl)
  have c5: "ctxs ?m5 0 = Some ?x" by simp
  have v: "lp_view (lps ?m5) ?x 3 = Some 3"
    using goc_okD(3) [OF ok [OF r5], of ?x 0] by simp
  obtain m6 where "lp_insert low_hash 0 3 4 ?m5 = Inr (3, m6)"
    using lp_insert_eq [OF _ c5, of low_hash 3 4] goc_okD(1) [OF ok [OF r5], of ?x] v by auto
  with goc_step.insert [of 1 "\<lparr>g_mem = ?m5, g_pcs = [Return 3 (Some 3), Insert 3 4]\<rparr>" 3 4 low_hash 0 3 m6] r5
  show ?thesis by (auto intro: rtranclp.rtrancl_into_rtrancl)
qed

text \<open>C12. Concurrent callers of \<open>lp_get_or_create\<close> on one mapping, in any interleaving of their critical sections
  and allocations: two callers hold the same state exactly when they asked for the same logical
  page, and the reference count of a state is the number of callers that hold it.\<close>

theorem concurrent_creation_unique:
  assumes "(goc_step h c)\<^sup>*\<^sup>* (goc_start m ns) s"
    and "kmem_ok h m" and "rc_zero m" and "ctxs m c = Some x"
    and "i < length (g_pcs s)" and "g_pcs s ! i = Return n (Some p)"
    and "j < length (g_pcs s)" and "g_pcs s ! j = Return k (Some q)"
  shows "(p = q \<longleftrightarrow> n = k) \<and>
         (\<exists>lp. lps (g_mem s) p = Some lp \<and> lp_lpn lp = n \<and> lp_refcount lp = of_nat (n_refs p (g_pcs s)))"
proof -
  have ok: "goc_ok h c s" using goc_ok_reach [OF assms(1) goc_ok_start [OF assms(2-4)]] .
  from goc_ok_ctx [OF ok] obtain y where y: "ctxs (g_mem s) c = Some y" by blast
  note o = goc_okD [OF ok y]
  have v: "lp_view (lps (g_mem s)) y n = Some p" "lp_view (lps (g_mem s)) y k = Some q"
    using o(3) [OF assms(5)] o(3) [OF assms(7)] assms(6,8) by simp_all
  then have "p = q \<longleftrightarrow> n = k"
    using ctx_view_inj [of "g_mem s" c n p k] y by (auto simp: ctx_view_def)
  moreover from lp_view_SomeD [OF v(1)] obtain lp
    where lp: "p \<in> set (ctx_table y)" "lps (g_mem s) p = Some lp" "lp_lpn lp = n" by blast
  ultimately show ?thesis using o(4) [OF lp(1,2)] by blast
qed

theorem concurrent_creation_unique_witness:
  "\<exists>m lp. (goc_step low_hash 0)\<^sup>*\<^sup>* (goc_start (s_mem ex_mapped) [3, 3])
     \<lparr>g_mem = m, g_pcs = [Return 3 (Some 3), Return 3 (Some 3)]\<rparr> \<and>
     lps m 3 = Some lp \<and> lp_refcount lp = 2"
proof -
  from ex_race obtain m where r: "(goc_step low_hash 0)\<^sup>*\<^sup>* (goc_start (s_mem ex_mapped) [3, 3])
     \<lparr>g_mem = m, g_pcs = [Return 3 (Some 3), Return 3 (Some 3)]\<rparr>" by blast
  from concurrent_creation_unique [OF r ex_mapped_ready, of 0 3 3 1 3 3] r show ?thesis
    by (auto simp: n_refs_def)
qed

text \<open>No interleaving deadlocks, runs into undefined behaviour or runs forever: with \<open>n\<close> callers there are at most
  \<open>4 n\<close> steps, and as long as one caller has not finished there is a next step.\<close>

theorem concurrent_creation_terminates:
  assumes "(goc_step h c ^^ steps) (goc_start m ns) s"
    and "kmem_ok h m" and "rc_zero m" and "ctxs m c = Some x"
  shows "steps \<le> 4 * length ns \<and> ((\<exists>k \<in> set (g_pcs s). k \<noteq> Finished) \<longrightarrow> (\<exists>s'. goc_step h c s s'))"
proof -
  have "goc_rank (goc_start m ns) = 4 * length ns"
    by (induction ns) (simp_all add: goc_start_def goc_rank_def)
  moreover have "goc_ok h c s"
    using goc_ok_reach [OF relpowp_imp_rtranclp [OF assms(1)] goc_ok_start [OF assms(2-4)]] .
  ultimately show ?thesis
    using goc_steps_bound [OF assms(1)] goc_progress [of h c s] by (auto simp: in_set_conv_nth)
qed

theorem concurrent_creation_terminates_witness:
  "\<exists>s'. goc_step low_hash 0 \<lparr>g_mem = s_mem ex_mapped, g_pcs = [Alloc 3, Alloc 3]\<rparr> s'"
proof -
  have "(goc_step low_hash 0 ^^ 2) (goc_start (s_mem ex_mapped) [3, 3])
      \<lparr>g_mem = s_mem ex_mapped, g_pcs = [Alloc 3, Alloc 3]\<rparr>"
    using ex_race_step1 ex_race_step2 by (auto simp: numeral_2_eq_2)
  from concurrent_creation_terminates [OF this ex_mapped_ready] show ?thesis by simp
qed

end
