(* ===== verification/Kdb_Schedules.thy ===== *)
theory Kdb_Schedules
  imports Kdb_Parallel Kdb_Theorems
begin

text \<open>
  Properties of concurrent page faults and write notifications, from any reachable state of the
  cache module.
\<close>

section \<open>Calls as schedules\<close>

text \<open>The offset a handler was called for.\<close>

fun vm_off :: "vm_pc \<Rightarrow> u64" where
  "vm_off (Fault_find g) = g"
| "vm_off (Fault_alloc L) = l_pgoff L"
| "vm_off (Fault_insert L p) = l_pgoff L"
| "vm_off (Fault_lock L p) = l_pgoff L"
| "vm_off (Fault_put L p r) = l_pgoff L"
| "vm_off (Fault_count L pg) = l_pgoff L"
| "vm_off (Fault_done g r pg) = g"
| "vm_off (Write_find g) = g"
| "vm_off (Write_lock L p) = l_pgoff L"
| "vm_off (Write_put L p) = l_pgoff L"
| "vm_off (Write_count L) = l_pgoff L"
| "vm_off (Write_done g r) = g"

lemma vm_off_next: "vm_next h c am page k m = Inr (k', m') \<Longrightarrow> vm_off k' = vm_off k"
proof (cases k)
  case (Fault_alloc L)
  then show "vm_next h c am page k m = Inr (k', m') \<Longrightarrow> ?thesis" by (auto elim: vm_alloc_cases simp del: vm_next.simps)
qed (auto simp: kres_simps vm_find_def Let_def split: if_splits option.splits)

lemma vm_off_reach:
  assumes "par_reach (vm_step h c) (m, ks) (m', ks')" and "t < length ks"
  shows "vm_off (ks' ! t) = vm_off (ks ! t)"
  using par_reach_thread [OF assms(1), of vm_off t] assms(2) vm_off_next by (fastforce simp: vm_step_def)

text \<open>What the allocators return is new while the handler has not used it yet.\<close>

fun vm_env :: "lp_mem \<Rightarrow> page_ptr option \<Rightarrow> vm_pc \<Rightarrow> kmem \<Rightarrow> bool" where
  "vm_env am page (Fault_find g) m = (lp_fresh am m \<and> page_fresh page m)"
| "vm_env am page (Fault_alloc L) m = (lp_fresh am m \<and> page_fresh page m)"
| "vm_env am page (Fault_insert L p) m = page_fresh page m"
| "vm_env am page (Fault_lock L p) m = page_fresh page m"
| "vm_env am page k m = True"

lemma pool_unchanged:
  "lp_find_ref h c n m = Inr (r, m') \<Longrightarrow> pool m' = pool m"
  "lp_alloc am x n m = (r, m') \<Longrightarrow> pool m' = pool m"
  "lp_insert h c n p m = Inr (q, m') \<Longrightarrow> pool m' = pool m"
proof -
  have r: "lp_ref p m = Inr m' \<Longrightarrow> pool m' = pool m" for p m m' by (auto simp: lp_ref_def kres_simps)
  show "lp_find_ref h c n m = Inr (r, m') \<Longrightarrow> pool m' = pool m"
    by (auto simp: lp_find_ref_def kres_simps dest: r split: option.splits)
  show "lp_alloc am x n m = (r, m') \<Longrightarrow> pool m' = pool m"
    by (auto simp: lp_alloc_def split: option.splits if_splits)
  assume "lp_insert h c n p m = Inr (q, m')"
  then obtain x i w where "(case w of Some q' \<Rightarrow> kbind (lp_ref q' m) (\<lambda>m'. Inr (q', m'\<lparr>lps := (lps m')(p := None)\<rparr>))
      | None \<Rightarrow> Inr (p, m\<lparr>ctxs := (ctxs m)(c \<mapsto> x\<lparr>ctx_lp_hash := (ctx_lp_hash x)[i := p # ctx_lp_hash x ! i],
               ctx_total_lp_created := ctx_total_lp_created x + 1\<rparr>)\<rparr>)) = Inr (q, m')"
    unfolding lp_insert_def kbind_eq_Inr by blast
  then show "pool m' = pool m" by (cases w) (auto simp: kbind_eq_Inr dest: r)
qed

lemma vm_env_next:
  assumes "vm_next h c am page k m = Inr (k', m')" and "vm_env am page k m"
  shows "vm_env am page k' m'"
proof (cases k)
  case (Fault_find g)
  with assms find_ref_miss pool_unchanged(1) show ?thesis
    by (auto simp: vm_find_def kres_simps Let_def page_fresh_def split: if_splits option.splits) metis+
next
  case (Fault_alloc L)
  then have "vm_next h c am page (Fault_alloc L) m = Inr (k', m')" using assms by simp
  then show ?thesis
    by (rule vm_alloc_cases) (use Fault_alloc assms(2) in \<open>auto simp: page_fresh_def dest: pool_unchanged(2)\<close>)
next
  case (Fault_insert L p)
  with assms pool_unchanged(3) show ?thesis by (fastforce simp: kres_simps page_fresh_def)
next
  case (Write_find g)
  with assms show ?thesis by (auto simp: vm_find_def kres_simps Let_def split: if_splits option.splits)
qed (use assms in \<open>auto simp: kres_simps split: option.splits\<close>)

lemma vm_step_next:
  assumes n: "vm_next h c am page k m = Inr (k', m')" and e: "vm_env am page k m" and r: "0 < vm_rank k"
  shows "vm_step h c k m k' m'"
proof -
  let ?am = "\<lparr>lm_state = None, lm_cp = True, lm_bitmap = True\<rparr>"
  have fr: "lp_fresh ?am m" "page_fresh None m" by (simp_all add: lp_fresh_def page_fresh_def)
  consider (alloc) L where "k = Fault_alloc L" | (lock) L p where "k = Fault_lock L p"
    | (other) "\<nexists>L. k = Fault_alloc L" "\<nexists>L p. k = Fault_lock L p" by blast
  then show ?thesis
  proof cases
    case alloc
    with n e r show ?thesis unfolding vm_step_def by auto
  next
    case lock
    with n have "vm_next h c ?am page k m = Inr (k', m')" by simp
    with lock e r fr(1) show ?thesis unfolding vm_step_def by auto
  next
    case other
    have "vm_next h c ?am None k m = vm_next h c am page k m"
      using vm_next_unused(1) [OF other(1)] vm_next_unused(2) [OF other(2)] by metis
    with n r fr show ?thesis unfolding vm_step_def by auto
  qed
qed

lemma vm_run_reach:
  assumes "vm_run n h c am page (ks ! t) m = Inr (k', m')" and "vm_env am page (ks ! t) m" and "t < length ks"
  shows "par_reach (vm_step h c) (m, ks) (m', ks[t := k'])"
  using assms
proof (induction n arbitrary: ks m)
  case 0
  then have "k' = ks ! t" "m' = m" by simp_all
  then show ?case by (simp add: par_reach_def)
next
  case (Suc n)
  from Suc.prems obtain k1 m1 where s: "vm_next h c am page (ks ! t) m = Inr (k1, m1)"
    and r: "vm_run n h c am page k1 m1 = Inr (k', m')" by (auto simp: kres_simps)
  show ?case
  proof (cases "vm_rank (ks ! t) = 0")
    case True
    then have "k1 = ks ! t" "m1 = m" using s by (cases "ks ! t"; simp)+
    with Suc.IH [of ks m] Suc.prems r show ?thesis by simp
  next
    case False
    from vm_step_next [OF s Suc.prems(2)] False have "par_step (vm_step h c) (m, ks) (m1, ks[t := k1])"
      by (intro par_step.move [OF Suc.prems(3)]) simp
    moreover have "par_reach (vm_step h c) (m1, ks[t := k1]) (m', ks[t := k1, t := k'])"
      by (rule Suc.IH) (use r vm_env_next [OF s Suc.prems(2)] Suc.prems(3) in simp_all)
    ultimately show ?thesis unfolding par_reach_def by (simp add: converse_rtranclp_into_rtranclp)
  qed
qed

text \<open>A whole call of the sequential handler is one schedule.\<close>

lemma fault_call_reach:
  assumes "kdb_fault h am page (Some c) g m = Inr (r, pg, m')" and "ks ! t = Fault_find g" and "t < length ks"
    and "lp_fresh am m" and "page_fresh page m"
  shows "par_reach (vm_step h c) (m, ks) (m', ks[t := Fault_done g r pg])"
  by (rule vm_run_reach [of 6 h c am page]) (use assms in \<open>simp_all only: vm_run_fault kbind_Inr case_prod_conv vm_env.simps simp_thms\<close>)

section \<open>An example\<close>

text \<open>Two faults on one offset and a write on it.\<close>

lemma fault_resident:
  assumes "kdb_ok h m" and "pg_in_range m c g" and "page_at m c g = Some pg"
  obtains m' where "kdb_fault h \<lparr>lm_state = None, lm_cp = False, lm_bitmap = False\<rparr> None (Some c) g m =
    Inr (VM_FAULT_LOCKED, Some pg, m')"
proof -
  let ?am = "\<lparr>lm_state = None, lm_cp = False, lm_bitmap = False\<rparr>"
  have "lp_fresh ?am m" "page_fresh None m" by (simp_all add: lp_fresh_def page_fresh_def)
  from kdb_fault_ok [OF assms(1,2) this] assms(3) that show ?thesis
    by (auto simp: fault_spec_def fault_result_def)
qed

lemma ex_two_faults:
  "\<exists>m. par_reach (vm_step low_hash 0) (s_mem ex_mapped, [Fault_find 5, Fault_find 5])
     (m, [Fault_done 5 VM_FAULT_LOCKED (Some 7), Fault_done 5 VM_FAULT_LOCKED (Some 7)])"
proof -
  let ?d = "Fault_done 5 VM_FAULT_LOCKED (Some 7)"
  from ex_fault_spec obtain r m where f: "kdb_fault low_hash ex_alloc (Some 7) (Some 0) 5 (s_mem ex_mapped) = Inr (r, Some 7, m)"
    and s: "fault_spec low_hash (s_mem ex_mapped) 0 5 r (Some 7) m" by blast
  from s have "r = VM_FAULT_LOCKED" and m: "kdb_ok low_hash m" "pg_in_range m 0 5" "page_at m 0 5 = Some 7"
    using ex_in_range by (simp_all add: fault_spec_def)
  with fault_call_reach [OF f, of "[Fault_find 5, Fault_find 5]" 0] ex_fresh
  have a: "par_reach (vm_step low_hash 0) (s_mem ex_mapped, [Fault_find 5, Fault_find 5]) (m, [?d, Fault_find 5])" by simp
  from fault_resident [OF m] obtain m'
    where "kdb_fault low_hash \<lparr>lm_state = None, lm_cp = False, lm_bitmap = False\<rparr> None (Some 0) 5 m =
      Inr (VM_FAULT_LOCKED, Some 7, m')" by blast
  from fault_call_reach [OF this, of "[?d, Fault_find 5]" 1]
  have "par_reach (vm_step low_hash 0) (m, [?d, Fault_find 5]) (m', [?d, ?d])"
    by (simp add: lp_fresh_def page_fresh_def)
  with a show ?thesis unfolding par_reach_def by (blast intro: rtranclp_trans)
qed

lemma ex_write:
  "\<exists>m. par_reach (vm_step low_hash 0) (s_mem ex_faulted, [Write_find 5]) (m, [Write_done 5 VM_FAULT_LOCKED])"
proof -
  have "\<exists>m. kdb_page_mkwrite low_hash (Some 0) 5 (s_mem ex_faulted) = Inr (VM_FAULT_LOCKED, m)"
    using mkwrite_resident [OF sys_wfD(2) [OF sys_wf_reach [OF ex_faulted_reach low_hash_ok]] ex_faulted_mem(1)] by blast
  then obtain m where "kdb_page_mkwrite low_hash (Some 0) 5 (s_mem ex_faulted) = Inr (VM_FAULT_LOCKED, m)" ..
  then have "vm_run 4 low_hash 0 ex_alloc None (Write_find 5) (s_mem ex_faulted) = Inr (Write_done 5 VM_FAULT_LOCKED, m)"
    by (simp only: vm_run_mkwrite kbind_Inr case_prod_conv)
  then have "vm_run 4 low_hash 0 ex_alloc None ([Write_find 5] ! 0) (s_mem ex_faulted) = Inr (Write_done 5 VM_FAULT_LOCKED, m)"
    by (simp only: nth_Cons_0)
  from vm_run_reach [OF this] show ?thesis by auto
qed

lemma ex_live: "ctxs (s_mem ex_mapped) 0 \<noteq> None" "ctxs (s_mem ex_faulted) 0 \<noteq> None"
  using ex_faulted_mem(1) by (auto simp: ex_mapped_eq page_at_def split: option.splits)

section \<open>Properties\<close>

lemma schedule_ok:
  assumes "kdb_reach h s" and "hash_ok h" and "ctxs (s_mem s) c \<noteq> None" and "\<forall>k \<in> set ks. vm_start k"
    and "par_reach (vm_step h c) (s_mem s, ks) (m, ks')"
  shows "vm_ok h c m ks'" and "vm_hist c (s_mem s) m ks'"
proof -
  note ok = sys_wf_reach [OF assms(1,2)]
  from assms(3) obtain x where "ctxs (s_mem s) c = Some x" by blast
  note i = vm_init [OF sys_wfD(2,3) [OF ok] this assms(4)]
  from vm.inv_reach [OF assms(5), of "s_mem s"] i show "vm_ok h c m ks'" "vm_hist c (s_mem s) m ks'" by simp_all
qed

lemma vm_ok_kdb: "vm_ok h c m ks \<Longrightarrow> kdb_ok h m"
  using vm_ok_ctx [of h c m ks] vm_okD(1-3) [of h c m ks] by (auto simp: kdb_ok_def)

text \<open>C5.  Page faults and write notifications under one mapping, interleaved in any way at their critical
  sections: the module's memory stays well formed, a page that was resident stays where it was, every
  handler works on the offset it was called for, the page that a fault was given is the page at its
  offset (so all faults on one offset agree), and every page at an offset was there before or was
  given to a fault on that offset.\<close>

theorem concurrent_faults_agree:
  assumes "kdb_reach h s" and "hash_ok h" and "ctxs (s_mem s) c \<noteq> None" and "\<forall>k \<in> set ks. vm_start k"
    and "par_reach (vm_step h c) (s_mem s, ks) (m, ks')"
  shows "kdb_ok h m \<and> (\<forall>t < length ks. vm_off (ks' ! t) = vm_off (ks ! t)) \<and>
    (\<forall>g pg. page_at (s_mem s) c g = Some pg \<longrightarrow> page_at m c g = Some pg) \<and>
    (\<forall>k \<in> set ks'. \<forall>g pg. got k = Some (g, pg) \<longrightarrow> page_at m c g = Some pg) \<and>
    (\<forall>g pg. page_at m c g = Some pg \<longrightarrow>
       page_at (s_mem s) c g = Some pg \<or> (\<exists>k \<in> set ks'. got k = Some (g, pg)))"
  using schedule_ok [OF assms] vm_ok_kdb vm_off_reach [OF assms(5)] unfolding vm_hist_def page_hist_def by blast

lemma concurrent_faults_agree_witness:
  "\<exists>m. par_reach (vm_step low_hash 0) (s_mem ex_mapped, [Fault_find 5, Fault_find 5])
     (m, [Fault_done 5 VM_FAULT_LOCKED (Some 7), Fault_done 5 VM_FAULT_LOCKED (Some 7)]) \<and> page_at m 0 5 = Some 7"
proof -
  from ex_two_faults obtain m where r: "par_reach (vm_step low_hash 0) (s_mem ex_mapped, [Fault_find 5, Fault_find 5])
     (m, [Fault_done 5 VM_FAULT_LOCKED (Some 7), Fault_done 5 VM_FAULT_LOCKED (Some 7)])" by blast
  with concurrent_faults_agree [OF ex_mapped_reach low_hash_ok ex_live(1) _ r] show ?thesis by auto
qed

text \<open>C6.  The books after any schedule: a page at an offset carries the reference it had before the schedule (one
  if it is new) and one for each fault that was given it; the counters of the context have grown by the
  number of faults and writes that completed; the pool counts the resident pages.\<close>

theorem concurrent_faults_account:
  assumes "kdb_reach h s" and "hash_ok h" and "ctxs (s_mem s) c = Some x" and "\<forall>k \<in> set ks. vm_start k"
    and "par_reach (vm_step h c) (s_mem s, ks) (m, ks')"
  shows "(\<forall>g pg. page_at m c g = Some pg \<longrightarrow> page_refs (pool m) pg =
       (if page_at (s_mem s) c g = None then 1 else page_refs (pool (s_mem s)) pg) +
       n_threads (\<lambda>k. got k = Some (g, pg)) ks') \<and>
    (\<exists>y. ctxs m c = Some y \<and> ctx_total_faults y = ctx_total_faults x + of_nat (n_threads fault_counted ks') \<and>
       ctx_total_mkwrite y = ctx_total_mkwrite x + of_nat (n_threads write_counted ks')) \<and>
    cp_allocated (pool m) = of_nat (resident m)"
proof -
  from assms(3) have "ctxs (s_mem s) c \<noteq> None" by simp
  note ok = schedule_ok [OF assms(1,2) this assms(4,5)]
  from vm_ok_ctx [OF ok(1)] obtain y where y: "ctxs m c = Some y" by blast
  with ok(2) assms(3) have "ctx_total_faults y = ctx_total_faults x + of_nat (n_threads fault_counted ks') \<and>
      ctx_total_mkwrite y = ctx_total_mkwrite x + of_nat (n_threads write_counted ks')"
    by (simp add: vm_hist_def stat_hist_def ctx_key_def)
  with y ok show ?thesis by (simp add: vm_hist_def ref_hist_def vm_ok_def acct_ok_def)
qed

lemma concurrent_faults_account_witness:
  "\<exists>m y. par_reach (vm_step low_hash 0) (s_mem ex_mapped, [Fault_find 5, Fault_find 5])
     (m, [Fault_done 5 VM_FAULT_LOCKED (Some 7), Fault_done 5 VM_FAULT_LOCKED (Some 7)]) \<and>
     ctxs m 0 = Some y \<and> ctx_total_faults y = 2"
proof -
  from ex_two_faults obtain m where r: "par_reach (vm_step low_hash 0) (s_mem ex_mapped, [Fault_find 5, Fault_find 5])
     (m, [Fault_done 5 VM_FAULT_LOCKED (Some 7), Fault_done 5 VM_FAULT_LOCKED (Some 7)])" by blast
  have x: "ctxs (s_mem ex_mapped) 0 = Some ex_ctx" by (simp add: ex_mapped_eq)
  from concurrent_faults_account [OF ex_mapped_reach low_hash_ok x _ r] r show ?thesis
    by (auto simp: n_threads_def ex_ctx_def)
qed

text \<open>C7.  Concurrent write notifications lose no dirty bit and set no other: after any schedule an offset is
  dirty exactly if it was dirty before or a write on it has passed its critical section.\<close>

theorem concurrent_writes_dirty:
  assumes "kdb_reach h s" and "hash_ok h" and "ctxs (s_mem s) c \<noteq> None" and "\<forall>k \<in> set ks. vm_start k"
    and "par_reach (vm_step h c) (s_mem s, ks) (m, ks')"
  shows "dirty_at m c g \<longleftrightarrow> dirty_at (s_mem s) c g \<or> (\<exists>k \<in> set ks'. marked k = Some g)"
  using schedule_ok(2) [OF assms] by (simp add: vm_hist_def dirty_hist_def)

lemma concurrent_writes_dirty_witness:
  "\<exists>m. par_reach (vm_step low_hash 0) (s_mem ex_faulted, [Write_find 5]) (m, [Write_done 5 VM_FAULT_LOCKED]) \<and>
     dirty_at m 0 5"
proof -
  from ex_write obtain m where r: "par_reach (vm_step low_hash 0) (s_mem ex_faulted, [Write_find 5])
    (m, [Write_done 5 VM_FAULT_LOCKED])" by blast
  with concurrent_writes_dirty [OF ex_faulted_reach low_hash_ok ex_live(2) _ r] show ?thesis by auto
qed

lemma all_done_refs:
  assumes "vm_ok h c m ks" and "all_done vm_rank ks" and "ctxs m c = Some x" and "p \<in> set (ctx_table x)"
    and "lps m p = Some lp"
  shows "lp_refcount lp = 0"
proof -
  have f: "goc_of k = Finished" if "vm_rank k = 0" for k using that by (cases k) simp_all
  have "n_refs p (map goc_of ks) = 0" using assms(2) f by (auto simp: n_refs_def filter_empty_conv all_done_def)
  moreover have "lp_refcount lp = of_nat (n_refs p (map goc_of ks))"
    using goc_okD(4) [OF goc_of_vm [OF assms(1)], of x p lp] assms(3-5) by simp
  ultimately show ?thesis by simp
qed

end
