(* ===== verification/Kdb_Spin.thy ===== *)
theory Kdb_Spin
  imports Kdb_Schedules
begin

text \<open>
  The handlers with the state of their spin locks: the hash lock of the context and the lock of each
  logical page.  A handler that reaches \<open>spin_lock\<close> spins until the lock is free, then holds it
  through the section and gives it back where the code calls \<open>spin_unlock\<close>, on each path of the
  section on its own.  Taking and giving back a lock change no memory, so every run is one of the sections
  of \<open>Kdb_Concurrent\<close>, whose results carry over.
\<close>

section \<open>Locks\<close>

datatype spin_lock = Hash_lock | Lp_lock lp_ptr

text \<open>The lock that the code takes before a section; an offset out of range returns before the lock is taken.\<close>

fun lock_of :: "vma_ctx \<Rightarrow> vm_pc \<Rightarrow> spin_lock option" where
  "lock_of x (Fault_find g) = (if l_lpn (vm_decode g x) \<ge> ctx_n_lpn x then None else Some Hash_lock)"
| "lock_of x (Fault_insert L p) = Some Hash_lock"
| "lock_of x (Fault_lock L p) = Some (Lp_lock p)"
| "lock_of x (Write_find g) = (if l_lpn (vm_decode g x) \<ge> ctx_n_lpn x then None else Some Hash_lock)"
| "lock_of x (Write_lock L p) = Some (Lp_lock p)"
| "lock_of x k = None"

text \<open>The lock that a section gives back on the path that leads to a control state: one case for each \<open>spin_unlock\<close>
  of the code.  \<open>lp_get_or_create\<close> has found the state, or not, or finds it when it searches again, or inserts its own;
  \<open>kdb_fault\<close> has no page, or has one; \<open>lp_lookup\<close> has found the state, or not; \<open>kdb_page_mkwrite\<close> has set the bit.\<close>

fun unlock_of :: "vm_pc \<Rightarrow> vm_pc \<Rightarrow> spin_lock option" where
  "unlock_of (Fault_find g) k' = (case k' of
       Fault_lock L p \<Rightarrow> Some Hash_lock
     | Fault_alloc L \<Rightarrow> Some Hash_lock
     | _ \<Rightarrow> None)"
| "unlock_of (Fault_insert L p) k' = (case k' of
       Fault_lock L' q \<Rightarrow> if q \<noteq> p then Some Hash_lock else Some Hash_lock
     | _ \<Rightarrow> None)"
| "unlock_of (Fault_lock L p) k' = (case k' of
       Fault_put L' q None \<Rightarrow> Some (Lp_lock p)
     | Fault_put L' q (Some pg) \<Rightarrow> Some (Lp_lock p)
     | _ \<Rightarrow> None)"
| "unlock_of (Write_find g) k' = (case k' of
       Write_lock L p \<Rightarrow> Some Hash_lock
     | Write_done g' r \<Rightarrow> Some Hash_lock
     | _ \<Rightarrow> None)"
| "unlock_of (Write_lock L p) k' = (case k' of
       Write_put L' q \<Rightarrow> Some (Lp_lock p)
     | _ \<Rightarrow> None)"
| "unlock_of k k' = None"

section \<open>Threads with locks\<close>

text \<open>Outside every section, inside one with its lock, or at the \<open>spin_unlock\<close> at its end.\<close>

datatype spin_pc =
    Run vm_pc
  | Inside spin_lock vm_pc
  | Leave spin_lock vm_pc vm_pc

type_synonym spin_sys = "kmem \<times> spin_lock set"

text \<open>A handler at \<open>spin_lock\<close> spins as long as the lock is taken.\<close>

fun spin_ready :: "ctx_ptr \<Rightarrow> spin_pc \<Rightarrow> spin_sys \<Rightarrow> bool" where
  "spin_ready c (Run k) (m, H) = (case ctxs m c of None \<Rightarrow> True
     | Some x \<Rightarrow> (case lock_of x k of None \<Rightarrow> True | Some l \<Rightarrow> l \<notin> H))"
| "spin_ready c k s = True"

text \<open>\<open>spin_lock_init\<close> of a new state.\<close>

fun init_locks :: "vm_pc \<Rightarrow> spin_lock set \<Rightarrow> spin_lock set" where
  "init_locks (Fault_insert L p) H = H - {Lp_lock p}"
| "init_locks k H = H"

fun spin_next ::
  "hash64 \<Rightarrow> ctx_ptr \<Rightarrow> lp_mem \<Rightarrow> page_ptr option \<Rightarrow> spin_pc \<Rightarrow> spin_sys \<Rightarrow> (spin_pc \<times> spin_sys) kres" where
  "spin_next h c am page (Run k) (m, H) =
     kbind (deref (ctxs m) c) (\<lambda>x.
       case lock_of x k of
         Some l \<Rightarrow> Inr (Inside l k, m, insert l H)
       | None \<Rightarrow> kbind (vm_next h c am page k m) (\<lambda>(k', m'). Inr (Run k', m', init_locks k' H)))"
| "spin_next h c am page (Inside l k) (m, H) =
     kbind (vm_next h c am page k m) (\<lambda>(k', m'). Inr (Leave l k k', m', H))"
| "spin_next h c am page (Leave l k k') (m, H) =
     Inr (Run k', m, case unlock_of k k' of None \<Rightarrow> H | Some u \<Rightarrow> H - {u})"

text \<open>Two or three steps for each step of the sections.\<close>

fun spin_rank :: "spin_pc \<Rightarrow> nat" where
  "spin_rank (Run k) = 3 * vm_rank k"
| "spin_rank (Inside l k) = 3 * vm_rank k - 1"
| "spin_rank (Leave l k k') = 3 * vm_rank k' + 1"

definition spin_step :: "hash64 \<Rightarrow> ctx_ptr \<Rightarrow> spin_pc \<Rightarrow> spin_sys \<Rightarrow> spin_pc \<Rightarrow> spin_sys \<Rightarrow> bool" where
  "spin_step h c k s k' s' \<longleftrightarrow> 0 < spin_rank k \<and> spin_ready c k s \<and>
     (\<exists>am page. lp_fresh am (fst s) \<and> page_fresh page (fst s) \<and> spin_next h c am page k s = Inr (k', s'))"

section \<open>Invariant\<close>

text \<open>The section a handler is in, or the state it has come to.\<close>

fun sect :: "spin_pc \<Rightarrow> vm_pc" where
  "sect (Run k) = k"
| "sect (Inside l k) = k"
| "sect (Leave l k k') = k'"

fun spin_holds :: "spin_pc \<Rightarrow> spin_lock option" where
  "spin_holds (Run k) = None"
| "spin_holds (Inside l k) = Some l"
| "spin_holds (Leave l k k') = Some l"

text \<open>A handler holds the lock of its section, and the path it is on gives back that lock.\<close>

fun lock_right :: "vma_ctx \<Rightarrow> spin_pc \<Rightarrow> bool" where
  "lock_right x (Run k) = True"
| "lock_right x (Inside l k) = (lock_of x k = Some l \<and> 0 < vm_rank k)"
| "lock_right x (Leave l k k') = (lock_of x k = Some l \<and> unlock_of k k' = Some l \<and> (\<forall>p. l = Lp_lock p \<longrightarrow> (\<exists>n. goc_of k' = Return n (Some p))))"

definition locks_ok :: "spin_lock set \<Rightarrow> spin_pc list \<Rightarrow> bool" where
  "locks_ok H ks \<longleftrightarrow> (\<forall>l. n_threads (\<lambda>k. spin_holds k = Some l) ks = (if l \<in> H then 1 else 0))"

definition spin_ok :: "hash64 \<Rightarrow> ctx_ptr \<Rightarrow> kmem \<Rightarrow> spin_sys \<Rightarrow> spin_pc list \<Rightarrow> bool" where
  "spin_ok h c m0 s ks \<longleftrightarrow>
     vm_ok h c (fst s) (map sect ks) \<and> vm_hist c m0 (fst s) (map sect ks) \<and> locks_ok (snd s) ks \<and>
     (\<forall>x. ctxs (fst s) c = Some x \<longrightarrow> (\<forall>k \<in> set ks. lock_right x k))"

lemma lock_right_key:
  assumes "ctx_n_lpn y = ctx_n_lpn x" and "ctx_cp_per_lp y = ctx_cp_per_lp x"
  shows "lock_right y k = lock_right x k"
proof -
  have "lock_of y j = lock_of x j" for j using assms by (cases j) (simp_all add: vm_decode_def)
  then show ?thesis by (cases k) simp_all
qed

text \<open>Every path of a section gives back the lock of the section.\<close>

lemma unlock_paths:
  assumes n: "vm_next h c am page k m = Inr (k', m')" and x: "ctxs m c = Some x" and l: "lock_of x k = Some l"
  shows "unlock_of k k' = Some l" and "l = Lp_lock p \<Longrightarrow> \<exists>n. goc_of k' = Return n (Some p)"
proof -
  have "unlock_of k k' = Some l \<and> (l = Lp_lock p \<longrightarrow> (\<exists>n. goc_of k' = Return n (Some p)))"
  proof (cases k)
    case (Fault_lock L q)
    with n l obtain r where "k' = Fault_put L q r" by (auto simp: kres_simps)
    with l Fault_lock show ?thesis by (cases r) auto
  qed (use n x l in \<open>auto simp: vm_find_def Let_def kres_simps split: if_splits option.splits\<close>)
  then show "unlock_of k k' = Some l" and "l = Lp_lock p \<Longrightarrow> \<exists>n. goc_of k' = Return n (Some p)" by blast+
qed

text \<open>What one step is: a lock is taken, a section runs under its lock or a step without a lock, a lock is given back.\<close>

lemma spin_step_cases:
  assumes "spin_step h c k (m, H) k' (m', H')" and "ctxs m c = Some x"
  obtains (take) j l where "k = Run j" and "k' = Inside l j" and "lock_of x j = Some l" and "l \<notin> H"
      and "m' = m" and "H' = insert l H" and "0 < vm_rank j"
    | (free) j j' where "k = Run j" and "k' = Run j'" and "lock_of x j = None" and "vm_step h c j m j' m'"
      and "H' = init_locks j' H"
    | (body) l j j' where "k = Inside l j" and "k' = Leave l j j'" and "vm_step h c j m j' m'" and "H' = H"
      and "lock_of x j = Some l \<longrightarrow> unlock_of j j' = Some l \<and> (\<forall>p. l = Lp_lock p \<longrightarrow> (\<exists>n. goc_of j' = Return n (Some p)))"
    | (give) l j j' where "k = Leave l j j'" and "k' = Run j'" and "m' = m"
      and "H' = (case unlock_of j j' of None \<Rightarrow> H | Some u \<Rightarrow> H - {u})"
proof -
  from assms(1) obtain am page where s: "0 < spin_rank k" "spin_ready c k (m, H)" "lp_fresh am m" "page_fresh page m"
    "spin_next h c am page k (m, H) = Inr (k', m', H')" by (auto simp: spin_step_def)
  show ?thesis
  proof (cases k)
    case (Run j)
    show ?thesis
    proof (cases "lock_of x j")
      case None
      with s Run assms(2) obtain j' where "vm_next h c am page j m = Inr (j', m')" "k' = Run j'" "H' = init_locks j' H"
        by (auto simp: kres_simps)
      with s Run None free show ?thesis by (auto simp: vm_step_def)
    next
      case (Some l)
      with s Run assms(2) take show ?thesis by auto
    qed
  next
    case (Inside l j)
    with s obtain j' where j: "vm_next h c am page j m = Inr (j', m')" "k' = Leave l j j'" "H' = H" by (auto simp: kres_simps)
    with s Inside have "vm_step h c j m j' m'" by (auto simp: vm_step_def)
    from body [OF Inside j(2) this j(3)] unlock_paths [OF j(1) assms(2)] show ?thesis by blast
  next
    case (Leave l j j')
    with s give show ?thesis by auto
  qed
qed

text \<open>A new logical page is not locked.\<close>

lemma insert_not_held:
  assumes ok: "spin_ok h c m0 (m, H) ks" and x: "ctxs m c = Some x" and st: "vm_step h c j m (Fault_insert L p) m'"
  shows "Lp_lock p \<notin> H"
proof
  assume "Lp_lock p \<in> H"
  with ok have "n_threads (\<lambda>k. spin_holds k = Some (Lp_lock p)) ks = 1" by (simp add: spin_ok_def locks_ok_def)
  then obtain k where k: "k \<in> set ks" "spin_holds k = Some (Lp_lock p)"
    by (metis (mono_tags, lifting) n_threads_0 zero_neq_one)
  have "lock_right x k" using ok k(1) x by (simp add: spin_ok_def)
  with k(2) obtain n where g: "goc_of (sect k) = Return n (Some p)"
  proof (cases k)
    case (Inside l j)
    with \<open>lock_right x k\<close> k(2) that show ?thesis by (cases j) (auto split: if_splits)
  qed auto
  from k(1) obtain t where t: "t < length ks" "ks ! t = k" by (auto simp: in_set_conv_nth)
  have "vm_ok h c m (map sect ks)" using ok by (simp add: spin_ok_def)
  from vm_okD(4) [OF this x, of t] t g have "lp_view (lps m) x n = Some p" by (simp add: pc_ok_def)
  then have "lps m p \<noteq> None" using lp_view_SomeD by fastforce
  moreover have "lps m p = None"
  proof -
    from st obtain am page where f: "lp_fresh am m" and n: "vm_next h c am page j m = Inr (Fault_insert L p, m')"
      by (auto simp: vm_step_def)
    then obtain L' where "j = Fault_alloc L'"
      by (cases j) (auto simp: vm_find_def Let_def kres_simps split: if_splits option.splits)
    with n have "vm_next h c am page (Fault_alloc L') m = Inr (Fault_insert L p, m')" by simp
    then have "lm_state am = Some p"
      by (rule vm_alloc_cases) (auto simp: lp_alloc_def split: option.splits if_splits)
    with f show ?thesis by (simp add: lp_fresh_def)
  qed
  ultimately show False by simp
qed

section \<open>The invariant is kept\<close>

lemma locks_ok_same: "locks_ok H ks \<Longrightarrow> t < length ks \<Longrightarrow> spin_holds k = spin_holds (ks ! t) \<Longrightarrow> locks_ok H (ks[t := k])"
  by (simp add: locks_ok_def n_threads_same)

lemma locks_ok_take:
  assumes "locks_ok H ks" and "t < length ks" and "spin_holds (ks ! t) = None" and "spin_holds k = Some l" and "l \<notin> H"
  shows "locks_ok (insert l H) (ks[t := k])"
proof -
  have "n_threads (\<lambda>k. spin_holds k = Some u) (ks[t := k]) = (if u \<in> insert l H then 1 else 0)" for u
    using assms(1,5) n_threads_update [OF assms(2), of "\<lambda>k. spin_holds k = Some u" k] assms(3,4)
    by (auto simp: locks_ok_def)
  then show ?thesis by (simp add: locks_ok_def)
qed

lemma locks_ok_give:
  assumes "locks_ok H ks" and "t < length ks" and "spin_holds (ks ! t) = Some l" and "spin_holds k = None"
  shows "locks_ok (H - {l}) (ks[t := k])"
proof -
  have "n_threads (\<lambda>k. spin_holds k = Some u) (ks[t := k]) = (if u \<in> H - {l} then 1 else 0)" for u
    using assms(1) n_threads_update [OF assms(2), of "\<lambda>k. spin_holds k = Some u" k] assms(3,4)
    by (auto simp: locks_ok_def split: if_splits)
  then show ?thesis by (simp add: locks_ok_def)
qed

text \<open>A step of the sections under the invariant of the sections.\<close>

lemma sect_step:
  assumes ok: "spin_ok h c m0 (m, H) ks" and t: "t < length ks" and st: "vm_step h c (sect (ks ! t)) m (sect k) m'"
    and H: "locks_ok H' (ks[t := k])" and x: "ctxs m c = Some x" and k: "lock_right x k"
  shows "spin_ok h c m0 (m', H') (ks[t := k])"
proof -
  from ok have v: "vm_ok h c m (map sect ks)" "vm_hist c m0 m (map sect ks)" by (simp_all add: spin_ok_def)
  from vm.free_inv [of h c m "map sect ks" m0 t "sect k" m'] v t st
  have v': "vm_ok h c m' (map sect (ks[t := k]))" "vm_hist c m0 m' (map sect (ks[t := k]))" by (simp_all add: map_update)
  have "lock_right y j" if "ctxs m' c = Some y" "j \<in> set (ks[t := k])" for y j
  proof -
    have "ctx_n_lpn y = ctx_n_lpn x" "ctx_cp_per_lp y = ctx_cp_per_lp x"
      using v(2) v'(2) x that(1) by (cases "ctxs m0 c"; simp add: vm_hist_def stat_hist_def ctx_key_def)+
    moreover have "lock_right x j" using in_update_cases [OF t that(2)] ok k x by (auto simp: spin_ok_def)
    ultimately show ?thesis using lock_right_key by blast
  qed
  with v' H show ?thesis by (simp add: spin_ok_def)
qed

text \<open>Taking and giving back a lock leaves the sections where they are.\<close>

lemma lock_only:
  assumes ok: "spin_ok h c m0 (m, H) ks" and t: "t < length ks" and k: "sect k = sect (ks ! t)"
    and H: "locks_ok H' (ks[t := k])" and x: "ctxs m c = Some x" and r: "lock_right x k"
  shows "spin_ok h c m0 (m, H') (ks[t := k])"
proof -
  have "map sect (ks[t := k]) = map sect ks" using k t by (simp add: map_update list_update_same_conv)
  moreover have "lock_right x j" if "j \<in> set (ks[t := k])" for j
    using in_update_cases [OF t that] ok r x by (auto simp: spin_ok_def)
  ultimately show ?thesis using ok H x by (simp add: spin_ok_def)
qed

lemma spin_ok_step:
  assumes ok: "spin_ok h c m0 (m, H) ks" and t: "t < length ks" and st: "spin_step h c (ks ! t) (m, H) k (m', H')"
  shows "spin_ok h c m0 (m', H') (ks[t := k])"
proof -
  from ok have lk: "locks_ok H ks" and v: "vm_ok h c m (map sect ks)" by (simp_all add: spin_ok_def)
  from vm_ok_ctx [OF v] obtain x where x: "ctxs m c = Some x" by blast
  have r: "lock_right x (ks ! t)" using ok t x by (simp add: spin_ok_def)
  from st x show ?thesis
  proof (cases rule: spin_step_cases)
    case (take j l)
    with lock_only [OF ok t _ locks_ok_take [OF lk t, of k l] x] show ?thesis by simp
  next
    case (free j j')
    have "H' = H" using insert_not_held [OF ok x] free(4,5) by (cases j') auto
    with sect_step [OF ok t _ locks_ok_same [OF lk t, of k] x] free show ?thesis by simp
  next
    case (body l j j')
    with r have "lock_right x k" by simp
    with sect_step [OF ok t _ locks_ok_same [OF lk t, of k] x] body show ?thesis by simp
  next
    case (give l j j')
    with r have "H' = H - {l}" by simp
    with lock_only [OF ok t _ locks_ok_give [OF lk t, of l k] x] give show ?thesis by simp
  qed
qed

section \<open>Progress\<close>

lemma spin_rank_step:
  assumes "spin_step h c k s k' s'"
  shows "spin_rank k' < spin_rank k"
proof -
  from assms obtain am page where s: "0 < spin_rank k" "spin_next h c am page k s = Inr (k', s')"
    by (auto simp: spin_step_def)
  obtain m H where "s = (m, H)" by (cases s)
  with s show ?thesis
  proof (cases k)
    case (Run j)
    with s \<open>s = (m, H)\<close> show ?thesis
      by (auto simp: kres_simps split: option.splits dest: vm_rank_next)
  next
    case (Inside l j)
    with s \<open>s = (m, H)\<close> show ?thesis by (fastforce simp: kres_simps dest: vm_rank_next)
  qed auto
qed

text \<open>A handler that holds a lock can move, and so can one outside the sections whose lock is free.\<close>

lemma spin_moves:
  assumes ok: "spin_ok h c m0 (m, H) ks" and t: "t < length ks" and r: "0 < spin_rank (ks ! t)"
    and rd: "spin_ready c (ks ! t) (m, H)"
  shows "\<exists>k s. spin_step h c (ks ! t) (m, H) k s"
proof -
  from ok have v: "vm_ok h c m (map sect ks) \<and> vm_hist c m0 m (map sect ks)" by (simp add: spin_ok_def)
  from vm_ok_ctx conjunct1 [OF v] obtain x where x: "ctxs m c = Some x" by blast
  have lr: "lock_right x (ks ! t)" using ok t x by (simp add: spin_ok_def)
  let ?am = "\<lparr>lm_state = None, lm_cp = True, lm_bitmap = True\<rparr>"
  have fr: "lp_fresh ?am m" "page_fresh None m" by (simp_all add: lp_fresh_def page_fresh_def)
  have n: "\<exists>k' m' am page. lp_fresh am m \<and> page_fresh page m \<and> vm_next h c am page (sect (ks ! t)) m = Inr (k', m')"
    if "0 < vm_rank (sect (ks ! t))"
    using vm.free_moves [OF v, of t] t that by (auto simp: vm_step_def)
  have "\<exists>am page k s. lp_fresh am m \<and> page_fresh page m \<and> spin_next h c am page (ks ! t) (m, H) = Inr (k, s)"
  proof (cases "ks ! t")
    case (Run j)
    with n r x fr show ?thesis by (cases "lock_of x j") (auto, fastforce)
  next
    case (Inside l j)
    with n lr show ?thesis by fastforce
  next
    case (Leave l j j')
    with fr show ?thesis by auto
  qed
  with r rd show ?thesis unfolding spin_step_def by fastforce
qed

lemma spin_holder_moves:
  assumes ok: "spin_ok h c m0 (m, H) ks" and l: "l \<in> H"
  shows "\<exists>t < length ks. spin_holds (ks ! t) = Some l \<and> (\<exists>k s. spin_step h c (ks ! t) (m, H) k s) \<and>
    (\<forall>u < length ks. spin_holds (ks ! u) = Some l \<longrightarrow> u = t)"
proof -
  from ok l have n: "n_threads (\<lambda>k. spin_holds k = Some l) ks = 1" by (simp add: spin_ok_def locks_ok_def)
  then obtain k where k: "k \<in> set ks" "spin_holds k = Some l" by (metis (mono_tags, lifting) n_threads_0 zero_neq_one)
  then obtain t where t: "t < length ks" "spin_holds (ks ! t) = Some l" by (auto simp: in_set_conv_nth)
  have u: "u = t" if "u < length ks" "spin_holds (ks ! u) = Some l" for u
  proof (rule ccontr)
    assume "u \<noteq> t"
    have "card {i. i < length ks \<and> spin_holds (ks ! i) = Some l} = 1" using n by (simp add: n_threads_def length_filter_conv_card)
    moreover have "{t, u} \<subseteq> {i. i < length ks \<and> spin_holds (ks ! i) = Some l}" using t that by auto
    ultimately have "card {t, u} \<le> 1" by (metis card_mono card.infinite zero_neq_one)
    with \<open>u \<noteq> t\<close> show False by simp
  qed
  from ok have v: "vm_ok h c m (map sect ks)" by (simp add: spin_ok_def)
  from vm_ok_ctx [OF v] obtain x where x: "ctxs m c = Some x" by blast
  have "lock_right x (ks ! t)" using ok t x by (simp add: spin_ok_def)
  then have "0 < spin_rank (ks ! t)" "spin_ready c (ks ! t) (m, H)" using t(2) by (cases "ks ! t"; auto)+
  from spin_moves [OF ok t(1) this] t u show ?thesis by blast
qed

interpretation spin: threads "spin_step h c" spin_rank "spin_ok h c m0" for h c m0
proof
  show "spin_rank k' < spin_rank k" if "spin_step h c k s k' s'" for k s k' s' using spin_rank_step [OF that] .
  show "spin_ok h c m0 s' (ks[t := k])" if "spin_ok h c m0 s ks" "t < length ks" "spin_step h c (ks ! t) s k s'" for s ks t k s'
    using spin_ok_step [of h c m0 "fst s" "snd s" ks t k "fst s'" "snd s'"] that by simp
  show "\<exists>t < length ks. \<exists>k s'. spin_step h c (ks ! t) s k s'" if ok: "spin_ok h c m0 s ks" and "\<not> all_done spin_rank ks" for s ks
  proof -
    obtain m H where s: "s = (m, H)" by (cases s)
    from that(2) obtain t where t: "t < length ks" "0 < spin_rank (ks ! t)" by (auto simp: all_done_def in_set_conv_nth)
    show ?thesis
    proof (cases "H = {}")
      case True
      then have "spin_ready c (ks ! t) (m, H)" by (cases "ks ! t") (auto split: option.split)
      with spin_moves [of h c m0 m H ks t] ok s t show ?thesis by blast
    next
      case False
      with spin_holder_moves [of h c m0 m H ks] ok s show ?thesis by blast
    qed
  qed
qed

section \<open>Properties\<close>

lemma spin_init:
  assumes "kdb_reach h s" and "hash_ok h" and "ctxs (s_mem s) c \<noteq> None" and "\<forall>k \<in> set ks. vm_start k"
  shows "spin_ok h c (s_mem s) (s_mem s, {}) (map Run ks)"
proof -
  from assms(3) obtain x where "ctxs (s_mem s) c = Some x" by blast
  from vm_init [OF sys_wfD(2,3) [OF sys_wf_reach [OF assms(1,2)]] this assms(4)] show ?thesis
    by (auto simp: spin_ok_def locks_ok_def comp_def n_threads_def filter_empty_conv)
qed

text \<open>Every run with locks is a run of the sections.\<close>

lemma spin_sections:
  assumes "par_reach (spin_step h c) (s, ks) (s', ks')" and "spin_ok h c m0 s ks"
  shows "par_reach (vm_step h c) (fst s, map sect ks) (fst s', map sect ks')"
proof -
  have "par_reach (vm_step h c) (fst (fst a), map sect (snd a)) (fst (fst b), map sect (snd b))"
    if "(par_step (spin_step h c))\<^sup>*\<^sup>* a b" "spin_ok h c m0 (fst a) (snd a)" for a b
    using that(1)
  proof (induction rule: rtranclp_induct)
    case (step y z)
    from step.hyps(2) obtain t k s1 where t: "t < length (snd y)" and m: "spin_step h c (snd y ! t) (fst y) k s1"
      and z: "z = (s1, (snd y)[t := k])" by (cases y) (auto elim: par_stepE)
    have ok: "spin_ok h c m0 (fst y) (snd y)"
      using spin.inv_reach [of h c "fst a" "snd a" "fst y" "snd y" m0] that(2) step.hyps(1) by (simp add: par_reach_def)
    then obtain x where x: "ctxs (fst (fst y)) c = Some x" using vm_ok_ctx by (fastforce simp: spin_ok_def)
    have "spin_step h c (snd y ! t) (fst (fst y), snd (fst y)) k (fst s1, snd s1)" using m by simp
    then have "sect k = sect (snd y ! t) \<and> fst s1 = fst (fst y) \<or> vm_step h c (sect (snd y ! t)) (fst (fst y)) (sect k) (fst s1)"
      using x by (cases rule: spin_step_cases) auto
    then have "(par_step (vm_step h c))\<^sup>*\<^sup>* (fst (fst y), map sect (snd y)) (fst s1, map sect ((snd y)[t := k]))"
    proof
      assume "sect k = sect (snd y ! t) \<and> fst s1 = fst (fst y)"
      moreover have "(map sect (snd y))[t := sect (snd y ! t)] = map sect (snd y)"
        by (metis list_update_id map_update)
      ultimately show ?thesis by (simp add: map_update)
    next
      assume "vm_step h c (sect (snd y ! t)) (fst (fst y)) (sect k) (fst s1)"
      with par_step.move [of t "map sect (snd y)" "vm_step h c"] t show ?thesis by (simp add: map_update r_into_rtranclp)
    qed
    with step.IH z show ?case unfolding par_reach_def by simp
  qed (simp add: par_reach_def)
  from this [of "(s, ks)" "(s', ks')"] assms show ?thesis by (simp add: par_reach_def)
qed

text \<open>C8.  Handlers under one mapping with their spin locks, in any schedule: a lock is held by at most one handler
  and no lock is taken that nobody holds; a schedule of \<open>n\<close> handlers ends after at most \<open>18 n\<close> steps; a handler that
  has not returned can move, or it spins on a lock whose holder can move, so there is no deadlock and none
  runs into undefined behaviour; and when all have returned every lock is free and no logical page
  of the mapping is referenced.\<close>

theorem concurrent_handlers_finish:
  assumes "kdb_reach h s" and "hash_ok h" and "ctxs (s_mem s) c \<noteq> None" and "\<forall>k \<in> set ks. vm_start k"
    and "(par_step (spin_step h c) ^^ n) ((s_mem s, {}), map Run ks) ((m, H), ks')"
  shows "n \<le> 18 * length ks \<and>
    (\<forall>l. n_threads (\<lambda>k. spin_holds k = Some l) ks' = (if l \<in> H then 1 else 0)) \<and>
    (\<forall>t < length ks'. 0 < spin_rank (ks' ! t) \<longrightarrow>
       (\<exists>k s'. spin_step h c (ks' ! t) (m, H) k s') \<or>
       (\<exists>l u k s'. \<not> spin_ready c (ks' ! t) (m, H) \<and> l \<in> H \<and> u < length ks' \<and> spin_holds (ks' ! u) = Some l \<and>
          ctxs m c \<noteq> None \<and> lock_of (the (ctxs m c)) (sect (ks' ! t)) = Some l \<and>
          spin_step h c (ks' ! u) (m, H) k s')) \<and>
    (all_done spin_rank ks' \<longrightarrow> H = {} \<and> (\<forall>x p lp. ctxs m c = Some x \<longrightarrow> p \<in> set (ctx_table x) \<longrightarrow>
       lps m p = Some lp \<longrightarrow> lp_refcount lp = 0))"
proof (intro conjI allI impI)
  have "par_reach (spin_step h c) ((s_mem s, {}), map Run ks) ((m, H), ks')"
    using relpowp_imp_rtranclp [OF assms(5)] by (simp add: par_reach_def)
  from spin.inv_reach [OF this spin_init [OF assms(1-4)]] have ok: "spin_ok h c (s_mem s) (m, H) ks'" .
  then have lk: "locks_ok H ks'" and v: "vm_ok h c m (map sect ks')" by (simp_all add: spin_ok_def)
  have "spin_rank (Run k) \<le> 18" for k by (cases k) simp_all
  then have "rank_sum spin_rank (map Run ks) \<le> 18 * length ks"
    unfolding rank_sum_def by (induction ks) (auto intro: add_le_mono)
  with spin.schedule_bound [OF assms(5)] show "n \<le> 18 * length ks" by simp
  show "n_threads (\<lambda>k. spin_holds k = Some l) ks' = (if l \<in> H then 1 else 0)" for l using lk by (simp add: locks_ok_def)
  show "(\<exists>k s'. spin_step h c (ks' ! t) (m, H) k s') \<or>
       (\<exists>l u k s'. \<not> spin_ready c (ks' ! t) (m, H) \<and> l \<in> H \<and> u < length ks' \<and> spin_holds (ks' ! u) = Some l \<and>
          ctxs m c \<noteq> None \<and> lock_of (the (ctxs m c)) (sect (ks' ! t)) = Some l \<and>
          spin_step h c (ks' ! u) (m, H) k s')" if t: "t < length ks'" "0 < spin_rank (ks' ! t)" for t
  proof (cases "spin_ready c (ks' ! t) (m, H)")
    case True
    with spin_moves [OF ok t] show ?thesis by blast
  next
    case False
    then obtain x l where "ctxs m c = Some x" "lock_of x (sect (ks' ! t)) = Some l" "l \<in> H"
      by (cases "ks' ! t") (auto split: option.splits)
    with spin_holder_moves [OF ok \<open>l \<in> H\<close>] False show ?thesis by (metis option.sel option.distinct(1))
  qed
  assume d: "all_done spin_rank ks'"
  have run: "spin_holds k = None \<and> vm_rank (sect k) = 0" if "k \<in> set ks'" for k
  proof -
    from vm_ok_ctx [OF v] obtain x where "ctxs m c = Some x" by blast
    with ok that have "lock_right x k" by (simp add: spin_ok_def)
    moreover have "spin_rank k = 0" using d that by (simp add: all_done_def)
    ultimately show ?thesis by (cases k) auto
  qed
  then have z: "n_threads (\<lambda>k. spin_holds k = Some l) ks' = 0" for l by (intro n_threads_0) auto
  have "l \<notin> H" for l using lk z [of l] unfolding locks_ok_def by (metis zero_neq_one)
  then show "H = {}" by blast
  from run have "all_done vm_rank (map sect ks')" by (simp add: all_done_def)
  from all_done_refs [OF v this] show "lp_refcount lp = 0"
    if "ctxs m c = Some x" "p \<in> set (ctx_table x)" "lps m p = Some lp" for x p lp using that by blast
qed

text \<open>A fault has taken the hash lock; a write notification spins on it.\<close>

lemma ex_lock_of: "lock_of ex_ctx (Fault_find 5) = Some Hash_lock" "lock_of ex_ctx (Write_find 5) = Some Hash_lock"
  by (simp_all add: ex_ctx_def vm_decode_def word_le_nat_alt)

lemma ex_spin:
  "(par_step (spin_step low_hash 0) ^^ 1) ((s_mem ex_mapped, {}), map Run [Fault_find 5, Write_find 5])
     ((s_mem ex_mapped, {Hash_lock}), [Inside Hash_lock (Fault_find 5), Run (Write_find 5)])"
proof -
  have "spin_step low_hash 0 (Run (Fault_find 5)) (s_mem ex_mapped, {}) (Inside Hash_lock (Fault_find 5)) (s_mem ex_mapped, {Hash_lock})"
    unfolding spin_step_def using ex_fresh ex_lock_of by (auto simp: ex_mapped_eq simp del: lock_of.simps)
  from par_step.move [of 0 "map Run [Fault_find 5, Write_find 5]" "spin_step low_hash 0", simplified, OF this]
  show ?thesis by (simp add: eq_OO)
qed

lemma concurrent_handlers_finish_witness:
  "\<not> spin_ready 0 (Run (Write_find 5)) (s_mem ex_mapped, {Hash_lock}) \<and>
   (\<exists>k s. spin_step low_hash 0 (Inside Hash_lock (Fault_find 5)) (s_mem ex_mapped, {Hash_lock}) k s)"
proof -
  have st: "\<forall>k \<in> set [Fault_find 5, Write_find 5]. vm_start k" by simp
  note f = concurrent_handlers_finish [OF ex_mapped_reach low_hash_ok ex_live(1) st ex_spin]
  have w: "\<not> spin_ready 0 (Run (Write_find 5)) (s_mem ex_mapped, {Hash_lock})"
    using ex_lock_of by (simp add: ex_mapped_eq del: lock_of.simps)
  moreover have "\<exists>k s. spin_step low_hash 0 (Inside Hash_lock (Fault_find 5)) (s_mem ex_mapped, {Hash_lock}) k s"
    using spec [OF conjunct1 [OF conjunct2 [OF conjunct2 [OF f]]], of 0] by simp
  ultimately show ?thesis by blast
qed

end
