(* ===== verification/Kdb_Maps.thy ===== *)
theory Kdb_Maps
  imports Kdb_Pages Kdb_Quiet
begin

text \<open>
  The pages and dirty bits of each mapping under the handlers and under mapping and unmapping: what a
  call does to the map of its own mapping, and that it leaves all others alone.
\<close>

section \<open>Dirty bits under the handlers\<close>

lemma dirty_at_frame:
  assumes f: "same_frame m m'" and s: "dirty_slot (lps m') = dirty_slot (lps m)"
  shows "dirty_at m' d = dirty_at m d"
proof (cases "ctxs m d")
  case (Some x)
  with same_frame_ctx [OF f Some] f s show ?thesis
    by (auto simp: dirty_at_view same_frame_def fun_eq_iff split: option.split)
next
  case None
  with same_frame_None [OF f this] show ?thesis by (simp add: dirty_at_def fun_eq_iff)
qed

lemma goc_dirty_slot:
  assumes "lp_fresh am m" and "goc_result h am c x n m = (r, m1)"
  shows "dirty_slot (lps m1) q i = dirty_slot (lps m) q i"
    and "lp_view (lps m) x n = None \<Longrightarrow> r = Some p \<Longrightarrow> \<not> dirty_slot (lps m) p i"
proof -
  consider (hit) p where "lp_view (lps m) x n = Some p" "m1 = upd_lp p inc_ref m"
    | (new) p where "r = Some p" "lps m p = None" "lps m1 = (lps m)(p \<mapsto> lp_new x n)"
    | (nomem) "r = None" "m1 = m"
  proof (cases "lp_view (lps m) x n")
    case (Some p)
    with assms(2) have "m1 = upd_lp p inc_ref m" by (simp add: goc_result_def)
    with Some show ?thesis by (rule hit)
  next
    case None
    then show ?thesis
    proof (cases "lp_mem_ok am")
      case True
      then obtain p where p: "lm_state am = Some p" by (auto simp: lp_mem_ok_def)
      with None True assms have "r = Some p" "lps m p = None" "lps m1 = (lps m)(p \<mapsto> lp_new x n)"
        by (auto simp: goc_result_def lp_fresh_def)
      then show ?thesis by (rule new)
    qed (use None assms(2) nomem in \<open>simp add: goc_result_def\<close>)
  qed
  then have "dirty_slot (lps m1) q i = dirty_slot (lps m) q i \<and>
    (lp_view (lps m) x n = None \<longrightarrow> r = Some p \<longrightarrow> \<not> dirty_slot (lps m) p i)"
  proof cases
    case hit
    then show ?thesis by (auto simp: dirty_slot_def split: option.split)
  next
    case (new p')
    then have "\<not> dirty_slot (lps m1) p' i" "\<not> dirty_slot (lps m) p' i" "q \<noteq> p' \<Longrightarrow> dirty_slot (lps m1) q i = dirty_slot (lps m) q i"
      using blank_slots(2) [of "lps m1" p' i] by (simp_all add: dirty_slot_def)
    with new(1) show ?thesis by (cases "q = p'") auto
  qed simp
  then show "dirty_slot (lps m1) q i = dirty_slot (lps m) q i"
    and "lp_view (lps m) x n = None \<Longrightarrow> r = Some p \<Longrightarrow> \<not> dirty_slot (lps m) p i" by blast+
qed

lemma goc_dirty_at:
  assumes ok: "kmem_ok h m" and c: "ctxs m c = Some x" and n: "n < ctx_n_lpn x"
    and fr: "lp_fresh am m" and r: "goc_result h am c x n m = (r, m1)"
  shows "dirty_at m1 d = dirty_at m d"
proof
  fix off
  note ds = goc_dirty_slot [OF fr r] and v = goc_view [OF ok c n fr r]
  show "dirty_at m1 d off = dirty_at m d off"
  proof (cases "d = c")
    case True
    from goc_ctx(1) [OF c r] obtain y where y: "ctxs m1 c = Some y" "ctx_cp_per_lp y = ctx_cp_per_lp x" by blast
    have e: "lp_view (lps m) x n = ctx_view m c n" using c by (simp add: ctx_view_def)
    show ?thesis
    proof (cases "off div ucast (ctx_cp_per_lp x) = n \<and> ctx_view m c n = None")
      case t: True
      then show ?thesis using v(1) y c ds e True by (auto simp: dirty_at_view split: option.splits)
    next
      case False
      then have "ctx_view m1 c (off div ucast (ctx_cp_per_lp x)) = ctx_view m c (off div ucast (ctx_cp_per_lp x))"
        using v(1,3) by (auto split: option.splits)
      with y c ds(1) True show ?thesis by (simp add: dirty_at_view split: option.split)
    qed
  next
    case False
    then have "ctx_view m1 d = ctx_view m d" "ctxs m1 d = ctxs m d" using v(4) goc_ctx(2) [OF c r] by blast+
    with ds(1) show ?thesis
      by (cases "ctxs m d") (simp add: dirty_at_def, simp add: dirty_at_view split: option.split)
  qed
qed

lemma dirty_slot_upd:
  "H p = Some lp \<Longrightarrow> lp_dirty_bitmap lp' = lp_dirty_bitmap lp \<Longrightarrow> dirty_slot (H(p \<mapsto> lp')) = dirty_slot H"
  by (auto simp: dirty_slot_def fun_eq_iff)

lemma lp_put_dirty: "lp_put (Some p) m = Inr m' \<Longrightarrow> dirty_slot (lps m') = dirty_slot (lps m)"
  by (auto simp: lp_put_def Let_def kres_simps dirty_slot_upd deref_def split: option.splits if_splits)

lemma fault_map_dirty: "kdb_fault_map c p pg m = Inr (r, pgo, m') \<Longrightarrow> dirty_slot (lps m') = dirty_slot (lps m)"
  by (auto simp: kdb_fault_map_def Let_def kres_simps dest!: lp_put_dirty)

lemma fault_page_dirty:
  assumes "kdb_fault_page page c p cpi m = Inr (r, pgo, m')"
  shows "dirty_slot (lps m') = dirty_slot (lps m)"
proof -
  from assms obtain lp where lp: "lps m p = Some lp"
    by (auto simp: kdb_fault_page_def kres_simps deref_def split: option.splits)
  show ?thesis
  proof (cases "lp_cp lp ! unat cpi")
    case None
    with assms lp show ?thesis
      by (cases page) (auto simp: kdb_fault_page_def cp_pool_alloc_def kguard_def kres_simps dirty_slot_upd
        split: if_splits dest!: lp_put_dirty fault_map_dirty)
  next
    case (Some pg)
    with assms lp show ?thesis
      by (auto simp: kdb_fault_page_def kguard_def split: if_splits dest!: fault_map_dirty)
  qed
qed

lemma kdb_fault_dirty:
  assumes ok: "kdb_ok h m" and rg: "pg_in_range m c off" and fr: "lp_fresh am m" "page_fresh page m"
    and f: "kdb_fault h am page (Some c) off m = Inr (r, pgo, m')"
  shows "dirty_at m' d = dirty_at m d"
proof -
  have k: "kmem_ok h m" using ok by (simp add: kdb_ok_def)
  from assms show ?thesis
  proof (cases rule: kdb_fault_stages)
    case (oom x)
    from goc_dirty_at [OF k oom(1,2) fr(1) oom(3)] show ?thesis .
  next
    case (page x p m1)
    have "same_frame m1 m'" using page(7) by (simp add: fault_post_def)
    from dirty_at_frame [OF this fault_page_dirty [OF page(6)]] goc_dirty_at [OF k page(1,2) fr(1) page(3)]
    show ?thesis by simp
  qed
qed

section \<open>Pages and dirty bits of a mapping\<close>

definition of_vma :: "(kmem \<Rightarrow> ctx_ptr \<Rightarrow> u64 \<Rightarrow> 'a) \<Rightarrow> 'a \<Rightarrow> ksys \<Rightarrow> nat \<Rightarrow> u64 \<Rightarrow> 'a" where
  "of_vma f none s v off =
     (case s_vmas s v of
        None \<Rightarrow> none
      | Some vma \<Rightarrow> (case vm_private_data vma of None \<Rightarrow> none | Some c \<Rightarrow> f (s_mem s) c off))"

abbreviation page_of :: "ksys \<Rightarrow> nat \<Rightarrow> u64 \<Rightarrow> page_ptr option" where
  "page_of \<equiv> of_vma page_at None"

abbreviation dirty_of :: "ksys \<Rightarrow> nat \<Rightarrow> u64 \<Rightarrow> bool" where
  "dirty_of \<equiv> of_vma dirty_at False"

lemma of_vma_some:
  "s_vmas s v = Some vma \<Longrightarrow> vm_private_data vma = Some c \<Longrightarrow> of_vma f none s v = f (s_mem s) c"
  by (simp add: of_vma_def fun_eq_iff)

lemma of_vma_none: "s_vmas s v = None \<Longrightarrow> of_vma f none s v = (\<lambda>_. none)"
  by (simp add: of_vma_def fun_eq_iff)

lemma page_of_exclusive:
  assumes ok: "sys_ok h s" and "page_of s v a = Some pg" and "page_of s w b = Some pg"
  shows "v = w \<and> a = b"
proof -
  from assms(2,3) obtain x y c d where x: "s_vmas s v = Some x" "vm_private_data x = Some c" "page_at (s_mem s) c a = Some pg"
    and y: "s_vmas s w = Some y" "vm_private_data y = Some d" "page_at (s_mem s) d b = Some pg"
    by (auto simp: of_vma_def split: option.splits)
  from page_exclusive [OF sys_okD(2) [OF ok] x(3) y(3)] have "c = d" "a = b" by simp_all
  with sys_okD(5) [OF ok x(1) y(1)] x(2) y(2) show ?thesis by simp
qed

text \<open>A handler that changes the maps of its own context only.\<close>

lemma of_vma_change:
  assumes ok: "sys_ok h s" and v: "s_vmas s v = Some vma" "vm_private_data vma = Some c"
    and o: "\<And>d. d \<noteq> c \<Longrightarrow> f m d = f (s_mem s) d"
  shows "of_vma f none (s\<lparr>s_mem := m\<rparr>) = (of_vma f none s)(v := f m c)"
proof (intro ext)
  fix w off
  show "of_vma f none (s\<lparr>s_mem := m\<rparr>) w off = ((of_vma f none s)(v := f m c)) w off"
  proof (cases "w = v")
    case False
    show ?thesis
    proof (cases "s_vmas s w")
      case (Some y)
      from sys_okD(4) [OF ok this] obtain d where d: "vm_private_data y = Some d" by blast
      with False sys_okD(5) [OF ok Some v(1)] v(2) have "d \<noteq> c" by auto
      with d Some False o show ?thesis by (simp add: of_vma_def)
    qed (use False in \<open>simp add: of_vma_def\<close>)
  qed (use v in \<open>simp add: of_vma_def\<close>)
qed

lemma fault_maps:
  assumes ok: "sys_ok h s" and v: "s_vmas s v = Some vma"
    and fr: "lp_fresh am (s_mem s)" "page_fresh page (s_mem s)"
    and f: "kdb_fault h am page (vm_private_data vma) off (s_mem s) = Inr (r, pgo, m)"
  shows "dirty_of (s\<lparr>s_mem := m\<rparr>) = dirty_of s \<and> (r = VM_FAULT_LOCKED \<longleftrightarrow> pgo \<noteq> None) \<and>
    (case pgo of
       None \<Rightarrow> page_of (s\<lparr>s_mem := m\<rparr>) = page_of s
     | Some pg \<Rightarrow> page_of (s\<lparr>s_mem := m\<rparr>) = (page_of s)(v := (page_of s v)(off \<mapsto> pg)) \<and>
         (page_of s v off = Some pg \<or> page_of s v off = None \<and> page = Some pg))"
proof -
  from sys_okD(4) [OF ok v] obtain c x where c: "vm_private_data vma = Some c" "ctxs (s_mem s) c = Some x" by blast
  note pv = of_vma_some [OF v c(1), of page_at None] and dv = of_vma_some [OF v c(1), of dirty_at False]
    and k = sys_okD(2) [OF ok]
  show ?thesis
  proof (cases "pg_in_range (s_mem s) c off")
    case True
    note f' = f [unfolded c(1)]
    from kdb_fault_ok [OF k True fr] f'
    have sp: "fault_spec h (s_mem s) c off r pgo m" "pgo = fault_result am page (s_mem s) c off" by auto
    have p: "page_of (s\<lparr>s_mem := m\<rparr>) = (page_of s)(v := page_at m c)"
      using kdb_fault_other [OF k True fr f'] by (intro of_vma_change [OF ok v c(1)])
    have d: "dirty_of (s\<lparr>s_mem := m\<rparr>) = (dirty_of s)(v := dirty_at m c)"
      using kdb_fault_dirty [OF k True fr f'] by (intro of_vma_change [OF ok v c(1)])
    also have "\<dots> = dirty_of s" unfolding kdb_fault_dirty [OF k True fr f'] dv [symmetric] by simp
    finally have "dirty_of (s\<lparr>s_mem := m\<rparr>) = dirty_of s" .
    moreover have "r = VM_FAULT_LOCKED \<longleftrightarrow> pgo \<noteq> None" using sp(1) by (simp add: fault_spec_def)
    moreover have "case pgo of None \<Rightarrow> page_at m c = page_at (s_mem s) c
      | Some pg \<Rightarrow> page_at m c = (page_at (s_mem s) c)(off \<mapsto> pg) \<and>
          (page_at (s_mem s) c off = Some pg \<or> page_at (s_mem s) c off = None \<and> page = Some pg)"
      using sp by (cases "page_at (s_mem s) c off")
        (auto simp: fault_spec_def fault_result_def split: option.splits if_splits)
    ultimately show ?thesis using p unfolding pv [symmetric] by (auto split: option.splits)
  next
    case False
    with kdb_fault_out [OF _ c(2) False] f c(1) k have "r = VM_FAULT_SIGBUS" "pgo = None" "m = s_mem s"
      by (auto simp: kdb_ok_def)
    then show ?thesis by simp
  qed
qed

lemma mkwrite_maps:
  assumes ok: "sys_ok h s" and v: "s_vmas s v = Some vma" and pg: "page_of s v off = Some pg"
  shows "\<exists>m. kdb_page_mkwrite h (vm_private_data vma) off (s_mem s) = Inr (VM_FAULT_LOCKED, m) \<and>
    page_of (s\<lparr>s_mem := m\<rparr>) = page_of s \<and>
    (\<forall>w k. dirty_of (s\<lparr>s_mem := m\<rparr>) w k \<longleftrightarrow> (w = v \<and> k = off) \<or> dirty_of s w k)"
proof -
  from sys_okD(4) [OF ok v] obtain c x where c: "vm_private_data vma = Some c" "ctxs (s_mem s) c = Some x" by blast
  from pg of_vma_some [OF v c(1), of page_at None] have "page_at (s_mem s) c off = Some pg" by simp
  from mkwrite_resident [OF sys_okD(2) [OF ok] this] obtain m where
    m: "kdb_page_mkwrite h (Some c) off (s_mem s) = Inr (VM_FAULT_LOCKED, m)" "page_at m = page_at (s_mem s)"
      "\<And>d k. dirty_at m d k \<longleftrightarrow> (d = c \<and> k = off) \<or> dirty_at (s_mem s) d k" by blast
  have "page_of (s\<lparr>s_mem := m\<rparr>) = page_of s" by (intro ext) (simp add: of_vma_def m(2) split: option.split)
  moreover have "dirty_of (s\<lparr>s_mem := m\<rparr>) w k \<longleftrightarrow> (w = v \<and> k = off) \<or> dirty_of s w k" for w k
  proof -
    have "dirty_of (s\<lparr>s_mem := m\<rparr>) = (dirty_of s)(v := dirty_at m c)"
      using m(3) by (intro of_vma_change [OF ok v c(1)]) (simp add: fun_eq_iff)
    with m(3) of_vma_some [OF v c(1), of dirty_at False] show ?thesis by simp
  qed
  ultimately show ?thesis using m(1) c(1) by auto
qed

text \<open>A new mapping is empty; closing a mapping leaves the others as they are.\<close>

lemma dirty_at_cong:
  assumes "ctxs m' d = ctxs m d" and "ctx_view m' d = ctx_view m d"
    and "\<And>n q i. ctx_view m d n = Some q \<Longrightarrow> dirty_slot (lps m') q i = dirty_slot (lps m) q i"
  shows "dirty_at m' d = dirty_at m d"
proof (cases "ctxs m d")
  case (Some x)
  with assms show ?thesis by (auto simp: dirty_at_view fun_eq_iff split: option.split)
qed (use assms(1) in \<open>simp add: dirty_at_def fun_eq_iff\<close>)

lemma mmap_maps:
  assumes ok: "sys_ok h s" and v: "s_vmas s v = None" and c: "ctxs (s_mem s) c = None"
    and r: "kdb_mmap (Some c) True (s_dev s) vma (s_mem s) = (None, vma', m)"
  shows "page_of (s\<lparr>s_mem := m, s_vmas := (s_vmas s)(v \<mapsto> vma')\<rparr>) = page_of s"
    and "dirty_of (s\<lparr>s_mem := m, s_vmas := (s_vmas s)(v \<mapsto> vma')\<rparr>) = dirty_of s"
proof -
  from kdb_mmap_ok [OF sys_okD(2,1) [OF ok] c r] obtain x where
    m: "m = (s_mem s)\<lparr>ctxs := (ctxs (s_mem s))(c \<mapsto> x)\<rparr>" "vm_private_data vma' = Some c" "ctx_table x = []" by blast
  have n: "page_at m c off = None" "\<not> dirty_at m c off" for off
    by (simp_all add: m page_at_def dirty_at_def lp_view_def)
  have o: "page_at m d = page_at (s_mem s) d" "dirty_at m d = dirty_at (s_mem s) d" if "d \<noteq> c" for d
  proof -
    show "page_at m d = page_at (s_mem s) d" unfolding m(1) by (rule page_at_new_ctx [OF c that])
    show "dirty_at m d = dirty_at (s_mem s) d"
      using that by (intro dirty_at_cong) (simp_all add: m(1) ctx_view_def fun_eq_iff split: option.split)
  qed
  have e: "d \<noteq> c" if "s_vmas s w = Some y" "vm_private_data y = Some d" for w y d
    using sys_okD(4) [OF ok that(1)] that(2) c by auto
  show "page_of (s\<lparr>s_mem := m, s_vmas := (s_vmas s)(v \<mapsto> vma')\<rparr>) = page_of s"
    and "dirty_of (s\<lparr>s_mem := m, s_vmas := (s_vmas s)(v \<mapsto> vma')\<rparr>) = dirty_of s"
    using n o e v m(2) by (auto simp: of_vma_def fun_eq_iff split: option.split)
qed

lemma close_maps:
  assumes ok: "sys_ok h s" and v: "s_vmas s v = Some vma" and r: "kdb_vma_close vma (s_mem s) = Inr (vma', m)"
  shows "page_of (s\<lparr>s_mem := m, s_vmas := (s_vmas s)(v := None)\<rparr>) = (page_of s)(v := \<lambda>_. None)"
    and "dirty_of (s\<lparr>s_mem := m, s_vmas := (s_vmas s)(v := None)\<rparr>) = (dirty_of s)(v := \<lambda>_. False)"
proof -
  from sys_okD(4) [OF ok v] obtain c x where c: "vm_private_data vma = Some c" "ctxs (s_mem s) c = Some x" by blast
  have km: "kmem_ok h (s_mem s)" using sys_okD(2) [OF ok] by (simp add: kdb_ok_def)
  from r c(1) have des: "vma_ctx_destroy (Some c) (s_mem s) = Inr m" by (auto simp: kdb_vma_close_def kres_simps)
  have m: "ctxs m = (ctxs (s_mem s))(c := None)" "lps m = lps (s_mem s) |` (- set (ctx_table x))"
    using vma_ctx_destroy_eq [OF km c(2)] des by auto
  have o: "page_at m d = page_at (s_mem s) d" "dirty_at m d = dirty_at (s_mem s) d" if d: "d \<noteq> c" for d
  proof -
    show "page_at m d = page_at (s_mem s) d" by (rule kdb_vma_close_other [OF km c r d])
    have "dirty_slot (lps m) q i = dirty_slot (lps (s_mem s)) q i" if "ctx_view (s_mem s) d n = Some q" for n q i
    proof -
      from that obtain y where "ctxs (s_mem s) d = Some y" "q \<in> set (ctx_table y)"
        by (auto simp: ctx_view_def split: option.splits dest!: lp_view_SomeD)
      with kmem_okD(5) [OF km c(2) this(1)] d have "q \<notin> set (ctx_table x)" by auto
      then show ?thesis by (simp add: dirty_slot_def m)
    qed
    with vma_ctx_destroy_inv(3) [OF km c(2) des d] d show "dirty_at m d = dirty_at (s_mem s) d"
      by (intro dirty_at_cong) (simp_all add: m)
  qed
  have e: "d \<noteq> c" if "s_vmas s w = Some y" "vm_private_data y = Some d" "w \<noteq> v" for w y d
    using sys_okD(5) [OF ok that(1) v] that(2,3) c(1) by auto
  show "page_of (s\<lparr>s_mem := m, s_vmas := (s_vmas s)(v := None)\<rparr>) = (page_of s)(v := \<lambda>_. None)"
    and "dirty_of (s\<lparr>s_mem := m, s_vmas := (s_vmas s)(v := None)\<rparr>) = (dirty_of s)(v := \<lambda>_. False)"
    using o e by (auto simp: of_vma_def fun_eq_iff split: option.split)
qed

end
