(* ===== verification/Kdb_Memory.thy ===== *)
theory Kdb_Memory
  imports Kdb_Maps Kdb_Theorems
begin

text \<open>
  Programs that load and store through mappings of the cache.  The driver never sees the bytes; what
  it promises is that the frame behind a page stays the same, belongs to one page only and starts
  cleared.  Here this is put together with the machine around the driver, and compared with flat memory.
  Mappings that fork duplicated are left out: their context is freed twice.
\<close>

section \<open>Programs on mapped memory\<close>

text \<open>
  The machine around the driver, as Linux documents it for a shared mapping with these operations.  A
  page of a mapping may have a translation to a frame, with or without leave to write; without one the
  fault handler is called, and before the first write through a translation the write notification.
  The frame the allocator gives to the driver was cleared (\<open>__GFP_ZERO\<close>).  Translations may be taken away
  or write-protected at any moment, and go with the mapping.
\<close>

definition KPAGE :: nat where
  "KPAGE = 4096"

abbreviation zeros :: "byte list" where
  "zeros \<equiv> replicate KPAGE 0"

record psys =
  p_sys :: ksys
  p_pte :: "nat \<Rightarrow> u64 \<Rightarrow> (page_ptr \<times> bool) option"
  p_ram :: "page_ptr \<Rightarrow> byte list"

datatype mem_event =
    Mem_load nat u64 nat "byte list"
  | Mem_store nat u64 nat "byte list"
  | Mem_unmap nat
  | Mem_signal nat u64
  | Mem_other

definition clear_page :: "page_ptr option \<Rightarrow> (page_ptr \<Rightarrow> byte list) \<Rightarrow> page_ptr \<Rightarrow> byte list" where
  "clear_page page ram = (case page of None \<Rightarrow> ram | Some pg \<Rightarrow> ram(pg := zeros))"

inductive mem_step :: "hash64 \<Rightarrow> psys \<Rightarrow> mem_event \<Rightarrow> psys \<Rightarrow> bool" for h where
  load: "p_pte s v off = Some (pg, w) \<Longrightarrow> i + n \<le> KPAGE \<Longrightarrow>
     mem_step h s (Mem_load v off i (slice (p_ram s pg) i n)) s"
| store: "p_pte s v off = Some (pg, True) \<Longrightarrow> i + length bs \<le> KPAGE \<Longrightarrow>
     mem_step h s (Mem_store v off i bs) (s\<lparr>p_ram := (p_ram s)(pg := splice (p_ram s pg) i bs)\<rparr>)"
| fault: "s_vmas (p_sys s) v = Some vma \<Longrightarrow> lp_fresh am (s_mem (p_sys s)) \<Longrightarrow> page_fresh page (s_mem (p_sys s)) \<Longrightarrow>
     kdb_fault h am page (vm_private_data vma) off (s_mem (p_sys s)) = Inr (VM_FAULT_LOCKED, Some pg, m) \<Longrightarrow>
     mem_step h s Mem_other (s\<lparr>p_sys := (p_sys s)\<lparr>s_mem := m\<rparr>,
       p_pte := (p_pte s)(v := (p_pte s v)(off \<mapsto> (pg, False))), p_ram := clear_page page (p_ram s)\<rparr>)"
| signal: "s_vmas (p_sys s) v = Some vma \<Longrightarrow> lp_fresh am (s_mem (p_sys s)) \<Longrightarrow> page_fresh page (s_mem (p_sys s)) \<Longrightarrow>
     kdb_fault h am page (vm_private_data vma) off (s_mem (p_sys s)) = Inr (r, pgo, m) \<Longrightarrow> r \<noteq> VM_FAULT_LOCKED \<Longrightarrow>
     mem_step h s (Mem_signal v off) (s\<lparr>p_sys := (p_sys s)\<lparr>s_mem := m\<rparr>, p_ram := clear_page page (p_ram s)\<rparr>)"
| notify: "s_vmas (p_sys s) v = Some vma \<Longrightarrow> p_pte s v off = Some (pg, False) \<Longrightarrow>
     kdb_page_mkwrite h (vm_private_data vma) off (s_mem (p_sys s)) = Inr (VM_FAULT_LOCKED, m) \<Longrightarrow>
     mem_step h s Mem_other (s\<lparr>p_sys := (p_sys s)\<lparr>s_mem := m\<rparr>, p_pte := (p_pte s)(v := (p_pte s v)(off \<mapsto> (pg, True)))\<rparr>)"
| drop: "mem_step h s Mem_other (s\<lparr>p_pte := (p_pte s)(v := (p_pte s v)(off := None))\<rparr>)"
| protect: "p_pte s v off = Some (pg, w) \<Longrightarrow>
     mem_step h s Mem_other (s\<lparr>p_pte := (p_pte s)(v := (p_pte s v)(off \<mapsto> (pg, False)))\<rparr>)"
| ioctl: "kdb_ioctl fu tu cmd (pool (s_mem (p_sys s))) (s_dev (p_sys s)) = (r, out, d) \<Longrightarrow>
     mem_step h s Mem_other (s\<lparr>p_sys := (p_sys s)\<lparr>s_dev := d\<rparr>\<rparr>)"
| mmap: "s_vmas (p_sys s) v = None \<Longrightarrow> vm_private_data vma = None \<Longrightarrow> ctxs (s_mem (p_sys s)) c = None \<Longrightarrow>
     kdb_mmap (Some c) True (s_dev (p_sys s)) vma (s_mem (p_sys s)) = (None, vma', m) \<Longrightarrow>
     mem_step h s Mem_other (s\<lparr>p_sys := (p_sys s)\<lparr>s_mem := m, s_vmas := (s_vmas (p_sys s))(v \<mapsto> vma')\<rparr>\<rparr>)"
| unmap: "s_vmas (p_sys s) v = Some vma \<Longrightarrow> kdb_vma_close vma (s_mem (p_sys s)) = Inr (vma', m) \<Longrightarrow>
     mem_step h s (Mem_unmap v) (s\<lparr>p_sys := (p_sys s)\<lparr>s_mem := m, s_vmas := (s_vmas (p_sys s))(v := None)\<rparr>,
       p_pte := (p_pte s)(v := \<lambda>_. None)\<rparr>)"

inductive mem_run :: "hash64 \<Rightarrow> psys \<Rightarrow> mem_event list \<Rightarrow> psys \<Rightarrow> bool" for h where
  Nil: "mem_run h s [] s"
| snoc: "mem_run h s es t \<Longrightarrow> mem_step h t e u \<Longrightarrow> mem_run h s (es @ [e]) u"

section \<open>Flat memory\<close>

text \<open>The specification: each mapping is an array of pages of zeros; a load returns the bytes that are there.\<close>

fun flat_event :: "mem_event \<Rightarrow> (nat \<Rightarrow> u64 \<Rightarrow> byte list) \<Rightarrow> (nat \<Rightarrow> u64 \<Rightarrow> byte list) option" where
  "flat_event (Mem_load v off i bs) F = (if slice (F v off) i (length bs) = bs then Some F else None)"
| "flat_event (Mem_store v off i bs) F = Some (F(v := (F v)(off := splice (F v off) i bs)))"
| "flat_event (Mem_unmap v) F = Some (F(v := \<lambda>_. zeros))"
| "flat_event _ F = Some F"

fun flat_events :: "mem_event list \<Rightarrow> (nat \<Rightarrow> u64 \<Rightarrow> byte list) \<Rightarrow> (nat \<Rightarrow> u64 \<Rightarrow> byte list) option" where
  "flat_events [] F = Some F"
| "flat_events (e # es) F = Option.bind (flat_event e F) (flat_events es)"

lemma flat_events_snoc: "flat_events (es @ [e]) F = Option.bind (flat_events es F) (flat_event e)"
  by (induction es arbitrary: F) (auto split: Option.bind_splits)

definition mem_view :: "psys \<Rightarrow> nat \<Rightarrow> u64 \<Rightarrow> byte list" where
  "mem_view s v off = (case page_of (p_sys s) v off of None \<Rightarrow> zeros | Some pg \<Rightarrow> p_ram s pg)"

section \<open>Refinement\<close>

definition mem_ok :: "hash64 \<Rightarrow> psys \<Rightarrow> bool" where
  "mem_ok h s \<longleftrightarrow> sys_ok h (p_sys s) \<and>
     (\<forall>v off pg w. p_pte s v off = Some (pg, w) \<longrightarrow>
        page_of (p_sys s) v off = Some pg \<and> (w \<longrightarrow> dirty_of (p_sys s) v off)) \<and>
     (\<forall>v off pg. page_of (p_sys s) v off = Some pg \<longrightarrow>
        length (p_ram s pg) = KPAGE \<and> (\<not> dirty_of (p_sys s) v off \<longrightarrow> p_ram s pg = zeros))"

lemma mem_okD:
  assumes "mem_ok h s"
  shows "sys_ok h (p_sys s)" and "p_pte s v off = Some (pg, w) \<Longrightarrow> page_of (p_sys s) v off = Some pg"
    and "p_pte s v off = Some (pg, True) \<Longrightarrow> dirty_of (p_sys s) v off"
    and "page_of (p_sys s) v off = Some pg \<Longrightarrow> length (p_ram s pg) = KPAGE"
    and "page_of (p_sys s) v off = Some pg \<Longrightarrow> \<not> dirty_of (p_sys s) v off \<Longrightarrow> p_ram s pg = zeros"
  using assms unfolding mem_ok_def by blast+

lemma mem_okI:
  assumes "sys_ok h (p_sys s)"
    and "\<And>v off pg w. p_pte s v off = Some (pg, w) \<Longrightarrow> page_of (p_sys s) v off = Some pg \<and> (w \<longrightarrow> dirty_of (p_sys s) v off)"
    and "\<And>v off pg. page_of (p_sys s) v off = Some pg \<Longrightarrow>
      length (p_ram s pg) = KPAGE \<and> (\<not> dirty_of (p_sys s) v off \<longrightarrow> p_ram s pg = zeros)"
  shows "mem_ok h s"
  using assms unfolding mem_ok_def by blast

text \<open>A frame the allocator offers holds no page of a mapping.\<close>

lemma fresh_not_mapped:
  assumes "sys_ok h s" and "page_fresh (Some pg) (s_mem s)"
  shows "page_of s v off \<noteq> Some pg"
proof
  assume "page_of s v off = Some pg"
  then obtain p i where "page_slot (lps (s_mem s)) p i = Some pg"
    by (auto simp: of_vma_def page_at_def split: option.splits)
  moreover have "pages_ok (s_mem s)" using sys_okD(2) [OF assms(1)] by (simp add: kdb_ok_def)
  ultimately show False using pages_okD(3) assms(2) by (fastforce simp: page_fresh_def)
qed

lemma clear_page_mapped:
  assumes "sys_ok h s" and "page_fresh page (s_mem s)" and "page_of s v off = Some pg"
  shows "clear_page page ram pg = ram pg"
  using assms fresh_not_mapped by (cases page) (auto simp: clear_page_def)

text \<open>Every step is one of the cache, or leaves the cache alone.\<close>

lemma mem_step_cache:
  assumes "mem_step h s e t"
  shows "kdb_call h (p_sys s) (p_sys t) \<or> p_sys t = p_sys s"
  using assms by cases (auto intro: kdb_call.intros)

lemma mem_step_sys: "mem_step h s e t \<Longrightarrow> sys_ok h (p_sys s) \<Longrightarrow> sys_ok h (p_sys t)"
  using mem_step_cache sys_ok_step by metis

lemma mem_load_ok:
  assumes ok: "mem_ok h s" and p: "p_pte s v off = Some (pg, w)" and n: "i + n \<le> KPAGE"
  shows "flat_event (Mem_load v off i (slice (p_ram s pg) i n)) (mem_view s) = Some (mem_view s)"
proof -
  note pg = mem_okD(2) [OF ok p]
  have "length (slice (p_ram s pg) i n) = n" using mem_okD(4) [OF ok pg] n by simp
  with pg show ?thesis by (simp add: mem_view_def)
qed

lemma mem_store_ok:
  assumes ok: "mem_ok h s" and p: "p_pte s v off = Some (pg, True)" and n: "i + length bs \<le> KPAGE"
  defines "t \<equiv> s\<lparr>p_ram := (p_ram s)(pg := splice (p_ram s pg) i bs)\<rparr>"
  shows "mem_ok h t" and "flat_event (Mem_store v off i bs) (mem_view s) = Some (mem_view t)"
proof -
  note pg = mem_okD(2) [OF ok p] and d = mem_okD(3) [OF ok p] and l = mem_okD(4) [OF ok mem_okD(2) [OF ok p]]
  have ex: "w = v \<and> k = off" if "page_of (p_sys s) w k = Some pg" for w k
    using page_of_exclusive [OF mem_okD(1) [OF ok] that pg] .
  show "mem_ok h t"
  proof (rule mem_okI)
    fix w k q assume q: "page_of (p_sys t) w k = Some q"
    then have q': "page_of (p_sys s) w k = Some q" by (simp add: t_def)
    show "length (p_ram t q) = KPAGE \<and> (\<not> dirty_of (p_sys t) w k \<longrightarrow> p_ram t q = zeros)"
    proof (cases "q = pg")
      case True
      with ex q' n l d show ?thesis by (simp add: t_def)
    next
      case False
      with mem_okD(4,5) [OF ok q'] show ?thesis by (simp add: t_def)
    qed
  qed (use mem_okD(1,2,3) [OF ok] in \<open>auto simp: t_def\<close>)
  have "mem_view t w k = ((mem_view s)(v := (mem_view s v)(off := splice (mem_view s v off) i bs))) w k" for w k
  proof (cases "w = v \<and> k = off")
    case True
    with pg show ?thesis by (simp add: mem_view_def t_def)
  next
    case False
    with ex [of w k] have "page_of (p_sys s) w k \<noteq> Some pg" by blast
    then have "mem_view t w k = mem_view s w k" by (auto simp: mem_view_def t_def split: option.split)
    with False show ?thesis by auto
  qed
  then show "flat_event (Mem_store v off i bs) (mem_view s) = Some (mem_view t)" by (simp add: fun_eq_iff)
qed

text \<open>A fault, with or without a page: what the mappings hold stays the same.\<close>

lemma mem_fault_ok:
  assumes ok: "mem_ok h s" and v: "s_vmas (p_sys s) v = Some vma" and fr: "lp_fresh am (s_mem (p_sys s))" "page_fresh page (s_mem (p_sys s))"
    and f: "kdb_fault h am page (vm_private_data vma) off (s_mem (p_sys s)) = Inr (r, pgo, m)"
    and so: "sys_ok h ((p_sys s)\<lparr>s_mem := m\<rparr>)"
    and pte: "\<And>w k x. pte w k = Some x \<Longrightarrow> p_pte s w k = Some x \<or> w = v \<and> k = off \<and> (\<exists>pg. pgo = Some pg \<and> x = (pg, False))"
  defines "t \<equiv> s\<lparr>p_sys := (p_sys s)\<lparr>s_mem := m\<rparr>, p_pte := pte, p_ram := clear_page page (p_ram s)\<rparr>"
  shows "mem_ok h t" and "mem_view t = mem_view s"
proof -
  let ?s = "p_sys s" and ?t = "(p_sys s)\<lparr>s_mem := m\<rparr>"
  note so0 = mem_okD(1) [OF ok]
  note fm = fault_maps [OF so0 v fr f]
  have old: "page_of ?t w k = Some pg \<and> clear_page page (p_ram s) pg = p_ram s pg" if "page_of ?s w k = Some pg" for w k pg
    using fm that clear_page_mapped [OF so0 fr(2) that] by (auto split: option.splits)
  have new: "page_of ?s w k = Some pg \<or> page_of ?s w k = None \<and> page = Some pg" if "page_of ?t w k = Some pg" for w k pg
    using fm that by (auto split: option.splits if_splits)
  have d: "dirty_of ?t = dirty_of ?s" using fm by simp
  have z: "p_ram s pg = zeros" if "page_of ?s w k = Some pg" "\<not> dirty_of ?s w k" for w k pg
    using mem_okD(5) [OF ok that] .
  have c: "clear_page (Some pg) (p_ram s) pg = zeros" for pg by (simp add: clear_page_def)
  show "mem_ok h t"
  proof (rule mem_okI)
    show "sys_ok h (p_sys t)" using so by (simp add: t_def)
    show "page_of (p_sys t) w k = Some pg \<and> (b \<longrightarrow> dirty_of (p_sys t) w k)" if "p_pte t w k = Some (pg, b)" for w k pg b
    proof -
      from that pte [of w k "(pg, b)"] consider "p_pte s w k = Some (pg, b)" | "w = v" "k = off" "pgo = Some pg" "\<not> b"
        by (auto simp: t_def)
      then show ?thesis
      proof cases
        case 1
        with old [OF mem_okD(2) [OF ok 1]] mem_okD(3) [OF ok] d show ?thesis by (auto simp: t_def)
      qed (use fm in \<open>simp add: t_def\<close>)
    qed
    show "length (p_ram t pg) = KPAGE \<and> (\<not> dirty_of (p_sys t) w k \<longrightarrow> p_ram t pg = zeros)"
      if "page_of (p_sys t) w k = Some pg" for w k pg
    proof -
      from that new [of w k pg] consider "page_of ?s w k = Some pg" | "page = Some pg" by (auto simp: t_def)
      then show ?thesis
      proof cases
        case 1
        with old [OF 1] mem_okD(4,5) [OF ok 1] d show ?thesis by (simp add: t_def)
      qed (use c in \<open>simp add: t_def\<close>)
    qed
  qed
  have "mem_view t w k = mem_view s w k" for w k
  proof (cases "page_of ?s w k")
    case (Some pg)
    with old [OF Some] show ?thesis by (simp add: mem_view_def t_def)
  next
    case None
    with new [of w k] c show ?thesis by (cases "page_of ?t w k") (auto simp: mem_view_def t_def)
  qed
  then show "mem_view t = mem_view s" by (simp add: fun_eq_iff)
qed

text \<open>The other steps leave the frames alone.\<close>

lemma mem_view_cong: "page_of (p_sys t) = page_of (p_sys s) \<Longrightarrow> p_ram t = p_ram s \<Longrightarrow> mem_view t = mem_view s"
  by (intro ext) (simp add: mem_view_def split: option.split)

lemma mem_same_ram:
  assumes ok: "mem_ok h s" and so: "sys_ok h (p_sys t)" and ram: "p_ram t = p_ram s"
    and sub: "\<And>v off pg. page_of (p_sys t) v off = Some pg \<Longrightarrow>
      page_of (p_sys s) v off = Some pg \<and> (dirty_of (p_sys s) v off \<longrightarrow> dirty_of (p_sys t) v off)"
    and pte: "\<And>v off pg w. p_pte t v off = Some (pg, w) \<Longrightarrow> page_of (p_sys t) v off = Some pg \<and> (w \<longrightarrow> dirty_of (p_sys t) v off)"
  shows "mem_ok h t"
  using so pte
proof (rule mem_okI)
  show "length (p_ram t pg) = KPAGE \<and> (\<not> dirty_of (p_sys t) v off \<longrightarrow> p_ram t pg = zeros)"
    if "page_of (p_sys t) v off = Some pg" for v off pg
    using sub [OF that] mem_okD(4,5) [OF ok, of v off pg] ram by auto
qed

text \<open>A step that keeps frames and pages.\<close>

lemma mem_quiet_ok:
  assumes ok: "mem_ok h s" and so: "sys_ok h (p_sys t)" and ram: "p_ram t = p_ram s"
    and page: "page_of (p_sys t) = page_of (p_sys s)"
    and dirty: "\<And>v off. dirty_of (p_sys s) v off \<Longrightarrow> dirty_of (p_sys t) v off"
    and pte: "\<And>v off pg w. p_pte t v off = Some (pg, w) \<Longrightarrow>
      (\<exists>w0. p_pte s v off = Some (pg, w0) \<and> (w \<longrightarrow> w0 \<or> dirty_of (p_sys t) v off))"
  shows "mem_ok h t \<and> mem_view t = mem_view s"
proof
  have "page_of (p_sys t) v off = Some pg \<and> (w \<longrightarrow> dirty_of (p_sys t) v off)" if e: "p_pte t v off = Some (pg, w)" for v off pg w
  proof -
    from pte [OF e] obtain w0 where w: "p_pte s v off = Some (pg, w0)" "w \<longrightarrow> w0 \<or> dirty_of (p_sys t) v off" by blast
    with mem_okD(2,3) [OF ok, of v off pg] dirty page show ?thesis by (cases w0) auto
  qed
  with page dirty show "mem_ok h t" by (intro mem_same_ram [OF ok so ram]) simp_all
  show "mem_view t = mem_view s" by (rule mem_view_cong [OF page ram])
qed

lemma mem_step_ok:
  assumes st: "mem_step h s e t" and ok: "mem_ok h s"
  shows "mem_ok h t \<and> flat_event e (mem_view s) = Some (mem_view t)"
proof -
  note so = mem_step_sys [OF st mem_okD(1) [OF ok]] and k = mem_okD [OF ok]
  from st show ?thesis
  proof cases
    case (load v off pg w i n)
    with mem_load_ok [OF ok load(3,4)] ok show ?thesis by simp
  next
    case (store v off pg i bs)
    with mem_store_ok [OF ok store(3,4)] show ?thesis by simp
  next
    case (fault v vma am page off pg m)
    from so fault(2) have "sys_ok h ((p_sys s)\<lparr>s_mem := m\<rparr>)" by simp
    have "mem_ok h t \<and> mem_view t = mem_view s"
      unfolding fault(2) by (intro conjI mem_fault_ok [OF ok fault(3-6) \<open>sys_ok h ((p_sys s)\<lparr>s_mem := m\<rparr>)\<close>])
        (simp_all split: if_splits)
    with fault(1) show ?thesis by simp
  next
    case (signal v vma am page off r pgo m)
    from so signal(2) have "sys_ok h ((p_sys s)\<lparr>s_mem := m\<rparr>)" by simp
    from mem_fault_ok [OF ok signal(3-6) this, of "p_pte s"] signal(1,2) show ?thesis by simp
  next
    case (notify v vma off pg m)
    from mkwrite_maps [OF k(1) notify(3) k(2) [OF notify(4)]] notify(5)
    have m: "page_of ((p_sys s)\<lparr>s_mem := m\<rparr>) = page_of (p_sys s)"
      "\<And>w k. dirty_of ((p_sys s)\<lparr>s_mem := m\<rparr>) w k \<longleftrightarrow> (w = v \<and> k = off) \<or> dirty_of (p_sys s) w k" by auto
    have "mem_ok h t \<and> mem_view t = mem_view s"
      by (rule mem_quiet_ok [OF ok so]) (use notify(2,4) m in \<open>auto split: if_splits\<close>)
    with notify(1) show ?thesis by simp
  next
    case (drop v off)
    have "mem_ok h t \<and> mem_view t = mem_view s"
      by (rule mem_quiet_ok [OF ok so]) (use drop in \<open>auto split: if_splits\<close>)
    with drop(1) show ?thesis by simp
  next
    case (protect v off pg w)
    have "mem_ok h t \<and> mem_view t = mem_view s"
      by (rule mem_quiet_ok [OF ok so]) (use protect in \<open>auto split: if_splits\<close>)
    with protect(1) show ?thesis by simp
  next
    case (ioctl fu tu cmd r out d)
    have "page_of ((p_sys s)\<lparr>s_dev := d\<rparr>) = page_of (p_sys s)" "dirty_of ((p_sys s)\<lparr>s_dev := d\<rparr>) = dirty_of (p_sys s)"
      by (simp_all add: of_vma_def fun_eq_iff split: option.split)
    with mem_quiet_ok [OF ok so] ioctl show ?thesis by simp
  next
    case (mmap v vma c vma' m)
    with mem_quiet_ok [OF ok so] mmap_maps [OF k(1) mmap(3,5,6)] show ?thesis by simp
  next
    case (unmap v vma vma' m)
    note um = close_maps [OF k(1) unmap(3,4)]
    have "mem_ok h t" using so k(2,3) unmap um by (intro mem_same_ram [OF ok so]) (auto split: if_splits)
    moreover have "mem_view t = (mem_view s)(v := \<lambda>_. zeros)"
      using um(1) unmap(2) by (intro ext) (simp add: mem_view_def split: option.split)
    ultimately show ?thesis using unmap(1) by simp
  qed
qed

definition psys_init :: "kdb_layout \<Rightarrow> (page_ptr \<Rightarrow> byte list) \<Rightarrow> psys" where
  "psys_init l ram = \<lparr>p_sys = ksys_init l, p_pte = (\<lambda>_ _. None), p_ram = ram\<rparr>"

lemma psys_init_ok:
  assumes "hash_ok h"
  shows "mem_ok h (psys_init l ram)" and "mem_view (psys_init l ram) = (\<lambda>_ _. zeros)"
proof -
  have "page_of (ksys_init l) v = (\<lambda>_. None)" for v by (rule of_vma_none) (simp add: ksys_init_def)
  with sys_ok_init [OF assms] show "mem_ok h (psys_init l ram)" "mem_view (psys_init l ram) = (\<lambda>_ _. zeros)"
    by (auto simp: psys_init_def mem_ok_def mem_view_def fun_eq_iff)
qed

lemma mem_run_ok:
  "mem_run h s es t \<Longrightarrow> mem_ok h s \<Longrightarrow> mem_ok h t \<and> flat_events es (mem_view s) = Some (mem_view t)"
  by (induction rule: mem_run.induct) (auto simp: flat_events_snoc dest: mem_step_ok)

lemma access_served:
  assumes ok: "mem_ok h s" and v: "s_vmas (p_sys s) v = Some vma" "vm_private_data vma = Some c" and rg: "pg_in_range (s_mem (p_sys s)) c off"
    and fr: "lp_fresh am (s_mem (p_sys s))" "page_fresh (Some pg) (s_mem (p_sys s))" and mem: "lp_mem_ok am" and n: "i + length bs \<le> KPAGE"
  shows "\<exists>t. mem_run h s [Mem_other, Mem_other, Mem_store v off i bs, Mem_load v off i bs] t"
proof -
  obtain q where q: "fault_result am (Some pg) (s_mem (p_sys s)) c off = Some q"
    using mem by (cases "page_at (s_mem (p_sys s)) c off") (simp_all add: fault_result_def)
  from kdb_fault_ok [OF sys_okD(2) [OF mem_okD(1) [OF ok]] rg fr] q v(2) obtain m where
    f: "kdb_fault h am (Some pg) (vm_private_data vma) off (s_mem (p_sys s)) = Inr (VM_FAULT_LOCKED, Some q, m)"
    by (auto simp: fault_spec_def)
  note st1 = mem_step.fault [OF v(1) fr f]
  let ?s1 = "s\<lparr>p_sys := (p_sys s)\<lparr>s_mem := m\<rparr>, p_pte := (p_pte s)(v := (p_pte s v)(off \<mapsto> (q, False))), p_ram := clear_page (Some pg) (p_ram s)\<rparr>"
  have ok1: "mem_ok h ?s1" using mem_step_ok [OF st1 ok] by blast
  have v1: "s_vmas (p_sys ?s1) v = Some vma" and p1: "p_pte ?s1 v off = Some (q, False)" using v(1) by simp_all
  from mkwrite_maps [OF mem_okD(1) [OF ok1] v1 mem_okD(2) [OF ok1 p1]] obtain m2 where
    "kdb_page_mkwrite h (vm_private_data vma) off (s_mem (p_sys ?s1)) = Inr (VM_FAULT_LOCKED, m2)" by blast
  note st2 = mem_step.notify [OF v1 p1 this]
  let ?s2 = "?s1\<lparr>p_sys := (p_sys ?s1)\<lparr>s_mem := m2\<rparr>, p_pte := (p_pte ?s1)(v := (p_pte ?s1 v)(off \<mapsto> (q, True)))\<rparr>"
  have ok2: "mem_ok h ?s2" using mem_step_ok [OF st2 ok1] by blast
  have p2: "p_pte ?s2 v off = Some (q, True)" by simp
  note st3 = mem_step.store [OF p2 n]
  let ?s3 = "?s2\<lparr>p_ram := (p_ram ?s2)(q := splice (p_ram ?s2 q) i bs)\<rparr>"
  have p3: "p_pte ?s3 v off = Some (q, True)" by simp
  have "length (p_ram ?s2 q) = KPAGE" by (rule mem_okD(4) [OF ok2 mem_okD(2) [OF ok2 p2]])
  then have "slice (p_ram ?s3 q) i (length bs) = bs" using n by simp
  with mem_step.load [OF p3 n, of h] have st4: "mem_step h ?s3 (Mem_load v off i bs) ?s3" by simp
  from mem_run.snoc [OF mem_run.snoc [OF mem_run.snoc [OF mem_run.snoc [OF mem_run.Nil st1] st2] st3] st4]
  show ?thesis by auto
qed

lemma mem_run_append: "mem_run h t fs u \<Longrightarrow> mem_run h s es t \<Longrightarrow> mem_run h s (es @ fs) u"
proof (induction rule: mem_run.induct)
  case (snoc t fs u e w)
  from mem_run.snoc [OF snoc.IH [OF snoc.prems] snoc.hyps(2)] show ?case by simp
qed simp

text \<open>A mapping of 32 pages.\<close>

definition ex_psys :: psys where
  "ex_psys = (psys_init ex_layout (\<lambda>_. []))\<lparr>p_sys := ex_mapped\<rparr>"

lemma ex_psys_run: "mem_run h (psys_init ex_layout (\<lambda>_. [])) [Mem_other, Mem_other] ex_psys"
proof -
  let ?s0 = "psys_init ex_layout (\<lambda>_. [])" and ?s1 = "(psys_init ex_layout (\<lambda>_. []))\<lparr>p_sys := ex_configured\<rparr>"
  have "mem_step h ?s0 Mem_other ?s1"
    using mem_step.ioctl [of "Some ex_layout" True KDB_SET_LAYOUT ?s0]
    by (simp add: psys_init_def ex_configured_eq kdb_set_layout_eq ex_layout_valid) (simp add: ksys_init_def)
  moreover have "mem_step h ?s1 Mem_other ex_psys"
    using mem_step.mmap [of ?s1 0 ex_vma 0] ex_mmap_eq
    by (simp add: ex_psys_def ex_mapped_def ex_configured_eq ksys_init_def ex_vma_def kmem_init_def)
  ultimately show ?thesis using mem_run.snoc [OF mem_run.snoc [OF mem_run.Nil]] by fastforce
qed

lemma ex_psys_sys: "p_sys ex_psys = ex_mapped"
  by (simp add: ex_psys_def)

lemma ex_alloc_mem: "lp_mem_ok ex_alloc"
  by (simp add: lp_mem_ok_def ex_alloc_def)

section \<open>Properties\<close>

text \<open>C2. Memory mapped through the cache behaves like memory.  Whatever processes load and store in any number of
  mappings, with faults, write notifications, lost translations, new mappings and closed ones in
  between, every load returns the bytes last stored there, zeros where nothing was stored since the
  mapping was made; no store shows in another place or another mapping; and a page that holds anything but zeros is
  marked dirty.\<close>

theorem mapped_memory_refines_flat:
  assumes "hash_ok h" and "mem_run h (psys_init l ram) es s"
  shows "flat_events es (\<lambda>_ _. zeros) = Some (mem_view s) \<and>
    (\<forall>v off. mem_view s v off \<noteq> zeros \<longrightarrow> dirty_of (p_sys s) v off)"
proof -
  from mem_run_ok [OF assms(2) psys_init_ok(1) [OF assms(1)]] psys_init_ok(2) [OF assms(1), of l ram]
  have ok: "mem_ok h s" and f: "flat_events es (\<lambda>_ _. zeros) = Some (mem_view s)" by simp_all
  have "dirty_of (p_sys s) v off" if "mem_view s v off \<noteq> zeros" for v off
  proof (cases "page_of (p_sys s) v off")
    case (Some pg)
    with that mem_okD(5) [OF ok Some] show ?thesis by (auto simp: mem_view_def)
  qed (use that in \<open>simp add: mem_view_def\<close>)
  with f show ?thesis by blast
qed

lemma mapped_memory_refines_flat_witness:
  "\<exists>s. mem_view s 0 5 = splice zeros 0 [1] \<and> dirty_of (p_sys s) 0 5"
proof -
  have ok: "mem_ok low_hash ex_psys" using mem_run_ok [OF ex_psys_run psys_init_ok(1) [OF low_hash_ok]] by blast
  obtain s where "mem_run low_hash ex_psys [Mem_other, Mem_other, Mem_store 0 5 0 [1], Mem_load 0 5 0 [1]] s"
    using access_served [OF ok, of 0 _ 0 5 ex_alloc 7 0 "[1]"] ex_fresh ex_in_range ex_alloc_mem
    by (auto simp: ex_psys_sys ex_mapped_eq KPAGE_def)
  from mapped_memory_refines_flat [OF low_hash_ok mem_run_append [OF this ex_psys_run]]
  have e: "(\<lambda>_ _. zeros)(0 := (\<lambda>_. zeros)(5 := splice zeros 0 [1])) = mem_view s"
    and d: "\<And>v off. mem_view s v off \<noteq> zeros \<Longrightarrow> dirty_of (p_sys s) v off"
    by (auto simp: KPAGE_def split: if_splits)
  have v: "mem_view s 0 5 = splice zeros 0 [1]" by (simp flip: e)
  have "splice zeros 0 [1] ! 0 \<noteq> zeros ! 0" by (simp add: nth_splice KPAGE_def)
  then have "mem_view s 0 5 \<noteq> zeros" using v by metis
  with v d show ?thesis by blast
qed

text \<open>C9. Access to mapped memory is always served.  In every state that programs can bring about, a page inside the
  range of a live mapping can be written, as long as the allocators have memory: a fault and a write notification
  suffice, the driver returns from both, and the next load gives the bytes of the store.\<close>

theorem mapped_access_served:
  assumes "hash_ok h" and "mem_run h (psys_init l ram) es s"
    and "s_vmas (p_sys s) v = Some vma" and "vm_private_data vma = Some c" and "pg_in_range (s_mem (p_sys s)) c off"
    and "lp_fresh am (s_mem (p_sys s))" and "page_fresh (Some pg) (s_mem (p_sys s))" and "lp_mem_ok am"
    and "i + length bs \<le> KPAGE"
  shows "\<exists>t. mem_run h s [Mem_other, Mem_other, Mem_store v off i bs, Mem_load v off i bs] t"
  using access_served [OF _ assms(3-9)] mem_run_ok [OF assms(2) psys_init_ok(1) [OF assms(1)]] by blast

lemma mapped_access_served_witness:
  "\<exists>t. mem_run low_hash ex_psys [Mem_other, Mem_other, Mem_store 0 5 8 [1, 2], Mem_load 0 5 8 [1, 2]] t"
  using mapped_access_served [OF low_hash_ok ex_psys_run, of 0 _ 0 5 ex_alloc 7 8 "[1, 2]"] ex_fresh ex_in_range ex_alloc_mem
  by (auto simp: ex_psys_sys ex_mapped_eq KPAGE_def)

end
