(* ===== verification/Lock_Objects.thy ===== *)
theory Lock_Objects
  imports Interleaving
begin

text \<open>
  Objects behind one mutex.  A call runs some code, takes the mutex, works on the object in
  several steps, gives the mutex back and returns; or it returns early without the mutex.  The locale \<open>guarded_object\<close>
  collects what a driver shows of its calls, among others that what is left of a call inside its critical section
  (\<open>rest\<close>) has the outcome of the whole call.  It follows that the mutex has one holder, that every
  schedule ends, and that calls that have all returned acted as if they ran one after the other, in the order in which
  they left their critical sections.  In \<open>live_object\<close> moreover no call waits inside its critical section, so
  that all of them return.
\<close>

section \<open>Calls one after the other\<close>

fun serial :: "('c \<Rightarrow> 'w \<Rightarrow> ('r \<times> 'w) kres) \<Rightarrow> ('c \<times> 'r) list \<Rightarrow> 'w \<Rightarrow> 'w \<Rightarrow> bool" where
  "serial call [] w w' = (w' = w)"
| "serial call ((c, r) # cs) w w' =
     (case call c w of Inl _ \<Rightarrow> False | Inr (r', w1) \<Rightarrow> r' = r \<and> serial call cs w1 w')"

lemma serial_snoc:
  "serial call cs w w1 \<Longrightarrow> call c w1 = Inr (r, w2) \<Longrightarrow> serial call (cs @ [(c, r)]) w w2"
  by (induction cs arbitrary: w) (auto split: sum.splits)

section \<open>Phases of a call\<close>

datatype 'r phase = Before | Inside | Leaving 'r | After 'r

fun settled :: "'r phase \<Rightarrow> 'r option" where
  "settled (Leaving r) = Some r"
| "settled (After r) = Some r"
| "settled _ = None"

fun holding :: "'r phase \<Rightarrow> bool" where
  "holding Inside = True"
| "holding (Leaving r) = True"
| "holding _ = False"

lemma n_threads_pos: "t < length ks \<Longrightarrow> P (ks ! t) \<Longrightarrow> n_threads P ks \<noteq> 0"
  by (auto simp: n_threads_def filter_empty_conv)

lemma n_threads_one:
  assumes "n_threads P ks \<le> 1" and "t < length ks" and "u < length ks" and "P (ks ! t)" and "P (ks ! u)"
  shows "t = u"
proof (rule ccontr)
  assume "t \<noteq> u"
  then have "t < u \<or> u < t" by linarith
  then have "\<exists>i j. i < j \<and> j < length ks \<and> P (ks ! i) \<and> P (ks ! j)" using assms(2-5) by blast
  then obtain i j where ij: "i < j" "j < length ks" "P (ks ! i)" "P (ks ! j)" by blast
  have "n_threads P ks = n_threads P (take j ks) + n_threads P (drop j ks)"
    unfolding n_threads_def by (metis append_take_drop_id filter_append length_append)
  moreover have "n_threads P (take j ks) \<noteq> 0" using ij n_threads_pos [of i "take j ks" P] by simp
  moreover have "n_threads P (drop j ks) \<noteq> 0" using ij n_threads_pos [of 0 "drop j ks" P] by simp
  ultimately show False using assms(1) by linarith
qed

section \<open>Contract\<close>

locale guarded_object =
  fixes R :: "'k \<Rightarrow> 's \<Rightarrow> 'k \<Rightarrow> 's \<Rightarrow> bool"
    and rank :: "'k \<Rightarrow> nat"
    and phase_of :: "'k \<Rightarrow> 'r phase"
    and call_of :: "'k \<Rightarrow> 'c"
    and obj :: "'s \<Rightarrow> 'w"
    and held :: "'s \<Rightarrow> bool"
    and call :: "'c \<Rightarrow> 'w \<Rightarrow> ('r \<times> 'w) kres"
    and rest :: "'k \<Rightarrow> 'w \<Rightarrow> ('r \<times> 'w) kres"
    and good :: "'w \<Rightarrow> bool"
    and fits :: "'c \<Rightarrow> bool"
  assumes rank_less: "R k s k' s' \<Longrightarrow> rank k' < rank k"
    and call_kept: "R k s k' s' \<Longrightarrow> call_of k' = call_of k"
    and from_before: "R k s k' s' \<Longrightarrow> phase_of k = Before \<Longrightarrow> obj s' = obj s \<and>
          (phase_of k' = Before \<and> held s' = held s \<or>
           phase_of k' = Inside \<and> \<not> held s \<and> held s' \<and> rest k' = call (call_of k) \<or>
           (\<exists>r. phase_of k' = After r \<and> held s' = held s \<and> (\<forall>w. call (call_of k) w = Inr (r, w))))"
    and from_inside: "R k s k' s' \<Longrightarrow> phase_of k = Inside \<Longrightarrow> held s' = held s \<and>
          (phase_of k' = Inside \<and> rest k' (obj s') = rest k (obj s) \<or>
           (\<exists>r. phase_of k' = Leaving r \<and> rest k (obj s) = Inr (r, obj s')))"
    and from_leaving: "R k s k' s' \<Longrightarrow> phase_of k = Leaving r \<Longrightarrow> phase_of k' = After r \<and> obj s' = obj s \<and> \<not> held s'"
    and from_after: "R k s k' s' \<Longrightarrow> phase_of k = After r \<Longrightarrow> phase_of k' = After r \<and> obj s' = obj s \<and> held s' = held s"
    and call_good: "good w \<Longrightarrow> fits c \<Longrightarrow> \<exists>r w'. call c w = Inr (r, w') \<and> good w'"
    and at_end: "rank k = 0 \<Longrightarrow> \<exists>r. phase_of k = After r"
begin

text \<open>What a call has done, for a call that has left its critical section.\<close>

definition outcome :: "'k \<Rightarrow> 'c \<times> 'r" where
  "outcome k = (call_of k, the (settled (phase_of k)))"

text \<open>The calls \<open>ts\<close> are through, and one after the other they lead from \<open>w0\<close> to \<open>w1\<close>.\<close>

definition turns :: "'w \<Rightarrow> nat list \<Rightarrow> 'w \<Rightarrow> 's \<Rightarrow> 'k list \<Rightarrow> bool" where
  "turns w0 ts w1 s ks \<longleftrightarrow> distinct ts \<and> (\<forall>t. t \<in> set ts \<longleftrightarrow> t < length ks \<and> settled (phase_of (ks ! t)) \<noteq> None) \<and>
     serial call (map (\<lambda>t. outcome (ks ! t)) ts) w0 w1 \<and> good w1 \<and> (\<forall>k \<in> set ks. fits (call_of k)) \<and>
     n_threads (\<lambda>k. holding (phase_of k)) ks = (if held s then 1 else 0) \<and>
     (\<forall>t < length ks. phase_of (ks ! t) = Inside \<longrightarrow> rest (ks ! t) (obj s) = call (call_of (ks ! t)) w1) \<and>
     ((\<forall>t < length ks. phase_of (ks ! t) \<noteq> Inside) \<longrightarrow> obj s = w1)"

definition lock_inv :: "'w \<Rightarrow> 's \<Rightarrow> 'k list \<Rightarrow> bool" where
  "lock_inv w0 s ks \<longleftrightarrow> (\<exists>ts w1. turns w0 ts w1 s ks)"

lemma turnsD:
  assumes "turns w0 ts w1 s ks"
  shows "distinct ts" "t \<in> set ts \<longleftrightarrow> t < length ks \<and> settled (phase_of (ks ! t)) \<noteq> None"
    "serial call (map (\<lambda>t. outcome (ks ! t)) ts) w0 w1" "good w1" "\<forall>k \<in> set ks. fits (call_of k)"
    "n_threads (\<lambda>k. holding (phase_of k)) ks = (if held s then 1 else 0)"
    "t < length ks \<Longrightarrow> phase_of (ks ! t) = Inside \<Longrightarrow> rest (ks ! t) (obj s) = call (call_of (ks ! t)) w1"
    "(\<And>t. t < length ks \<Longrightarrow> phase_of (ks ! t) \<noteq> Inside) \<Longrightarrow> obj s = w1"
  using assms unfolding turns_def by blast+

lemma fits_kept:
  assumes "turns w0 ts w1 s ks" and "t < length ks" and "R (ks ! t) s k s'"
  shows "\<forall>j \<in> set (ks[t := k]). fits (call_of j)"
  using turnsD(5) [OF assms(1)] call_kept [OF assms(3)] assms(2)
  by (metis in_update_cases nth_mem)

text \<open>A thread that changes its place without settling, and one that settles.\<close>

lemma outcomes_same:
  assumes "t \<notin> set ts \<or> outcome k = outcome (ks ! t)" and "t < length ks"
  shows "map (\<lambda>u. outcome (ks[t := k] ! u)) ts = map (\<lambda>u. outcome (ks ! u)) ts"
  using assms by (auto simp: nth_list_update)

lemma turns_same:
  assumes "turns w0 ts w1 s ks" and "t < length ks" and "R (ks ! t) s k s'"
    and "settled (phase_of k) = settled (phase_of (ks ! t))"
    and "n_threads (\<lambda>k. holding (phase_of k)) (ks[t := k]) = (if held s' then 1 else 0)"
    and "\<And>u. u < length ks \<Longrightarrow> phase_of (ks[t := k] ! u) = Inside \<Longrightarrow> rest (ks[t := k] ! u) (obj s') = call (call_of (ks[t := k] ! u)) w1"
    and "(\<And>u. u < length ks \<Longrightarrow> phase_of (ks[t := k] ! u) \<noteq> Inside) \<Longrightarrow> obj s' = w1"
  shows "turns w0 ts w1 s' (ks[t := k])"
proof -
  note d = turnsD [OF assms(1)]
  have "outcome k = outcome (ks ! t)" by (simp add: outcome_def assms(4) call_kept [OF assms(3)])
  then have "serial call (map (\<lambda>u. outcome (ks[t := k] ! u)) ts) w0 w1"
    using d(3) outcomes_same [OF disjI2 assms(2), of k ts] by metis
  moreover have "u \<in> set ts \<longleftrightarrow> u < length (ks[t := k]) \<and> settled (phase_of (ks[t := k] ! u)) \<noteq> None" for u
    using d(2) [of u] assms(2,4) by (cases "u = t") simp_all
  ultimately show ?thesis
    using d(1,3,4) fits_kept [OF assms(1-3)] assms(5-7) unfolding turns_def by simp
qed

lemma turns_more:
  assumes "turns w0 ts w1 s ks" and "t < length ks" and "R (ks ! t) s k s'"
    and "settled (phase_of (ks ! t)) = None" and "settled (phase_of k) = Some r"
    and "call (call_of k) w1 = Inr (r, w2)"
    and "n_threads (\<lambda>k. holding (phase_of k)) (ks[t := k]) = (if held s' then 1 else 0)"
    and "\<And>u. u < length ks \<Longrightarrow> phase_of (ks[t := k] ! u) = Inside \<Longrightarrow> rest (ks[t := k] ! u) (obj s') = call (call_of (ks[t := k] ! u)) w2"
    and "(\<And>u. u < length ks \<Longrightarrow> phase_of (ks[t := k] ! u) \<noteq> Inside) \<Longrightarrow> obj s' = w2"
  shows "turns w0 (ts @ [t]) w2 s' (ks[t := k])"
proof -
  note d = turnsD [OF assms(1)]
  have t: "t \<notin> set ts" using d(2) [of t] assms(4) by simp
  have "serial call (map (\<lambda>u. outcome (ks[t := k] ! u)) ts @ [(call_of k, r)]) w0 w2"
    unfolding outcomes_same [OF disjI1 [OF t] assms(2)] by (rule serial_snoc [OF d(3) assms(6)])
  moreover have "outcome k = (call_of k, r)" by (simp add: outcome_def assms(5))
  moreover have "u \<in> set (ts @ [t]) \<longleftrightarrow> u < length (ks[t := k]) \<and> settled (phase_of (ks[t := k] ! u)) \<noteq> None" for u
    using d(2) [of u] assms(2,5) by (auto simp: nth_list_update)
  moreover have "good w2"
    using call_good [OF d(4), of "call_of k"] fits_kept [OF assms(1-3)] assms(2,6) set_update_memI by fastforce
  ultimately show ?thesis
    using d(1) t assms(2) fits_kept [OF assms(1-3)] assms(7-9) unfolding turns_def by simp
qed

lemma one_inside:
  assumes "turns w0 ts w1 s ks" and "t < length ks" and "holding (phase_of (ks ! t))"
  shows "held s" "u < length ks \<Longrightarrow> phase_of (ks ! u) = Inside \<Longrightarrow> u = t"
proof -
  note n = turnsD(6) [OF assms(1)]
  show "held s" using n n_threads_pos [OF assms(2), of "\<lambda>k. holding (phase_of k)"] assms(3) by (simp split: if_splits)
  show "u = t" if "u < length ks" "phase_of (ks ! u) = Inside"
    using n_threads_one [of "\<lambda>k. holding (phase_of k)" ks u t] n that assms(2,3) by (simp split: if_splits)
qed

lemma none_inside:
  assumes "turns w0 ts w1 s ks" and "\<not> held s" and "u < length ks"
  shows "phase_of (ks ! u) \<noteq> Inside"
  using one_inside(1) [OF assms(1,3)] assms(2) by fastforce

lemma turns_before:
  assumes tu: "turns w0 ts w1 s ks" and t: "t < length ks" and st: "R (ks ! t) s k s'" and p: "phase_of (ks ! t) = Before"
  shows "\<exists>ts w1. turns w0 ts w1 s' (ks[t := k])"
proof -
  note d = turnsD [OF tu]
  from from_before [OF st p] have o: "obj s' = obj s"
    and c: "phase_of k = Before \<and> held s' = held s \<or> phase_of k = Inside \<and> \<not> held s \<and> held s' \<and> rest k = call (call_of (ks ! t)) \<or>
      (\<exists>r. phase_of k = After r \<and> held s' = held s \<and> (\<forall>w. call (call_of (ks ! t)) w = Inr (r, w)))" by blast+
  have ins: "rest (ks[t := k] ! u) (obj s') = call (call_of (ks[t := k] ! u)) w1"
    if "phase_of k \<noteq> Inside" "u < length ks" "phase_of (ks[t := k] ! u) = Inside" for u
    using that d(7) [of u] o by (cases "u = t") (simp_all add: t)
  have out: "obj s' = w1" if "\<And>u. u < length ks \<Longrightarrow> phase_of (ks[t := k] ! u) \<noteq> Inside"
    using that d(8) o t p by (metis nth_list_update_neq phase.distinct(1))
  have n: "n_threads (\<lambda>k. holding (phase_of k)) (ks[t := k]) = (if held s' then 1 else 0)"
    if "\<not> holding (phase_of k)" "held s' = held s"
    using d(6) n_threads_same [of t ks "\<lambda>k. holding (phase_of k)" k] that t p by simp
  from c consider (stay) "phase_of k = Before" "held s' = held s"
    | (enter) "phase_of k = Inside" "\<not> held s" "held s'" "rest k = call (call_of (ks ! t))"
    | (skip) r where "phase_of k = After r" "held s' = held s" "\<And>w. call (call_of (ks ! t)) w = Inr (r, w)" by blast
  then show ?thesis
  proof cases
    case stay
    with turns_same [OF tu t st] ins out n p show ?thesis by fastforce
  next
    case enter
    have w: "obj s = w1" using d(8) none_inside [OF tu enter(2)] by blast
    have "n_threads (\<lambda>k. holding (phase_of k)) (ks[t := k]) = 1"
      using d(6) n_threads_more [of t ks "\<lambda>k. holding (phase_of k)" k] enter(1,2) t p by simp
    moreover have "u = t" if "u < length ks" "phase_of (ks[t := k] ! u) = Inside" for u
      using none_inside [OF tu enter(2) that(1)] that(2) by (cases "u = t") simp_all
    ultimately show ?thesis
      using turns_same [OF tu t st] enter w o t p call_kept [OF st] by fastforce
  next
    case skip
    with turns_more [OF tu t st, of r w1] ins out n p call_kept [OF st] show ?thesis by fastforce
  qed
qed

lemma turns_inside:
  assumes tu: "turns w0 ts w1 s ks" and t: "t < length ks" and st: "R (ks ! t) s k s'" and p: "phase_of (ks ! t) = Inside"
  shows "\<exists>ts w1. turns w0 ts w1 s' (ks[t := k])"
proof -
  note d = turnsD [OF tu]
  have only: "u = t" if "u < length ks" "phase_of (ks[t := k] ! u) = Inside" for u
    using one_inside(2) [OF tu t, of u] that p by (cases "u = t") simp_all
  from from_inside [OF st p] have h: "held s' = held s"
    and c: "phase_of k = Inside \<and> rest k (obj s') = rest (ks ! t) (obj s) \<or>
      (\<exists>r. phase_of k = Leaving r \<and> rest (ks ! t) (obj s) = Inr (r, obj s'))" by blast+
  have n: "n_threads (\<lambda>k. holding (phase_of k)) (ks[t := k]) = (if held s' then 1 else 0)" if "holding (phase_of k)"
    using d(6) n_threads_same [of t ks "\<lambda>k. holding (phase_of k)" k] that t p h by simp
  from c show ?thesis
  proof (elim disjE exE conjE)
    assume i: "phase_of k = Inside" "rest k (obj s') = rest (ks ! t) (obj s)"
    have "rest (ks[t := k] ! u) (obj s') = call (call_of (ks[t := k] ! u)) w1"
      if "u < length ks" "phase_of (ks[t := k] ! u) = Inside" for u
      using only [OF that] d(7) [OF t p] i(2) t call_kept [OF st] by simp
    with turns_same [OF tu t st] i n p t show ?thesis by fastforce
  next
    fix r
    assume l: "phase_of k = Leaving r" "rest (ks ! t) (obj s) = Inr (r, obj s')"
    have "phase_of (ks[t := k] ! u) \<noteq> Inside" if "u < length ks" for u
      using only [OF that] l(1) t by force
    with turns_more [OF tu t st, of r "obj s'"] l n p t d(7) [OF t p] call_kept [OF st] show ?thesis by fastforce
  qed
qed

lemma turns_settled:
  assumes tu: "turns w0 ts w1 s ks" and t: "t < length ks" and st: "R (ks ! t) s k s'"
    and p: "phase_of (ks ! t) = Leaving r \<or> phase_of (ks ! t) = After r"
  shows "turns w0 ts w1 s' (ks[t := k])"
proof -
  note d = turnsD [OF tu]
  have k: "phase_of k = After r" "obj s' = obj s" using p from_leaving [OF st] from_after [OF st] by blast+
  have ins: "phase_of (ks[t := k] ! u) = Inside \<longleftrightarrow> phase_of (ks ! u) = Inside" if "u < length ks" for u
    using that t k(1) p by (cases "u = t") auto
  have "n_threads (\<lambda>k. holding (phase_of k)) (ks[t := k]) = (if held s' then 1 else 0)"
    using p
  proof
    assume l: "phase_of (ks ! t) = Leaving r"
    with one_inside(1) [OF tu t] d(6) from_leaving [OF st] n_threads_update [OF t, of "\<lambda>k. holding (phase_of k)" k] k(1)
    show ?thesis by simp
  next
    assume "phase_of (ks ! t) = After r"
    with d(6) from_after [OF st] n_threads_same [OF t, of "\<lambda>k. holding (phase_of k)" k] k(1) show ?thesis by simp
  qed
  moreover have "rest (ks[t := k] ! u) (obj s') = call (call_of (ks[t := k] ! u)) w1"
    if "u < length ks" "phase_of (ks[t := k] ! u) = Inside" for u
    using that ins [OF that(1)] d(7) [of u] k t by (cases "u = t") simp_all
  ultimately show ?thesis using turns_same [OF tu t st] d(8) ins k p by fastforce
qed

lemma lock_inv_step: "lock_inv w0 s ks \<Longrightarrow> t < length ks \<Longrightarrow> R (ks ! t) s k s' \<Longrightarrow> lock_inv w0 s' (ks[t := k])"
  unfolding lock_inv_def
  by (cases "phase_of (ks ! t)") (blast intro: turns_before turns_inside turns_settled)+

lemma lock_inv_start:
  assumes "good (obj s)" and "\<not> held s" and "\<forall>k \<in> set ks. phase_of k = Before \<and> fits (call_of k)"
  shows "lock_inv (obj s) s ks"
proof -
  have "n_threads (\<lambda>k. holding (phase_of k)) ks = 0" using assms(3) by (auto intro!: n_threads_0)
  with assms have "turns (obj s) [] (obj s) s ks" by (auto simp: turns_def dest: nth_mem)
  then show ?thesis unfolding lock_inv_def by blast
qed

end

sublocale guarded_object \<subseteq> kept_threads R rank "lock_inv w0" for w0
  by unfold_locales (fact rank_less lock_inv_step)+

context guarded_object
begin

text \<open>Calls that have all returned ran as if one after the other.\<close>

lemma linear:
  assumes "par_reach R (s0, ks0) (s, ks)" and "all_done rank ks"
    and "good (obj s0)" and "\<not> held s0" and "\<forall>k \<in> set ks0. phase_of k = Before \<and> fits (call_of k)"
  shows "\<exists>ts. distinct ts \<and> set ts = {..<length ks0} \<and> serial call (map (\<lambda>t. outcome (ks ! t)) ts) (obj s0) (obj s) \<and>
    good (obj s) \<and> \<not> held s"
proof -
  from inv_reach [OF assms(1) lock_inv_start [OF assms(3-5)]] obtain ts w1 where tu: "turns (obj s0) ts w1 s ks"
    unfolding lock_inv_def by blast
  note d = turnsD [OF tu]
  have len: "length ks = length ks0" using par_reach_length [OF assms(1)] by simp
  have fin: "\<exists>r. phase_of (ks ! t) = After r" if "t < length ks" for t
    using at_end assms(2) nth_mem [OF that] by (auto simp: all_done_def)
  have "set ts = {..<length ks0}" using d(2) fin len by fastforce
  moreover have "obj s = w1" using d(8) fin by fastforce
  moreover have "n_threads (\<lambda>k. holding (phase_of k)) ks = 0" using fin by (fastforce intro!: n_threads_0 simp: in_set_conv_nth)
  ultimately show ?thesis using d(1,3,4,6) by (auto split: if_splits)
qed

text \<open>At most one call is in its critical section.\<close>

lemma exclusive:
  assumes "par_reach R (s0, ks0) (s, ks)"
    and "good (obj s0)" and "\<not> held s0" and "\<forall>k \<in> set ks0. phase_of k = Before \<and> fits (call_of k)"
  shows "n_threads (\<lambda>k. holding (phase_of k)) ks \<le> 1"
proof -
  from inv_reach [OF assms(1) lock_inv_start [OF assms(2-4)]] obtain ts w1 where "turns (obj s0) ts w1 s ks"
    unfolding lock_inv_def by blast
  from turnsD(6) [OF this] show ?thesis by simp
qed

end

section \<open>Calls that never wait in their critical section\<close>

locale live_object = guarded_object +
  assumes can_move: "0 < rank k \<Longrightarrow> fits (call_of k) \<Longrightarrow> phase_of k = Before \<longrightarrow> \<not> held s \<Longrightarrow>
          phase_of k = Inside \<longrightarrow> (\<exists>x. rest k (obj s) = Inr x) \<Longrightarrow> \<exists>k' s'. R k s k' s'"
begin

text \<open>The holder of the mutex can move; without a holder every call can.\<close>

lemma lock_inv_moves:
  assumes "lock_inv w0 s ks" and "\<not> all_done rank ks"
  shows "\<exists>t < length ks. \<exists>k s'. R (ks ! t) s k s'"
proof -
  from assms(1) obtain ts w1 where tu: "turns w0 ts w1 s ks" unfolding lock_inv_def by blast
  note d = turnsD [OF tu]
  show ?thesis
  proof (cases "\<exists>t < length ks. holding (phase_of (ks ! t))")
    case True
    then obtain t where t: "t < length ks" "holding (phase_of (ks ! t))" by blast
    have "0 < rank (ks ! t)" using at_end [of "ks ! t"] t(2) by (cases "rank (ks ! t)") auto
    moreover have "\<exists>x. rest (ks ! t) (obj s) = Inr x" if "phase_of (ks ! t) = Inside"
      using d(7) [OF t(1) that] call_good [OF d(4)] d(5) t(1) by (metis nth_mem)
    moreover have "phase_of (ks ! t) \<noteq> Before" "fits (call_of (ks ! t))" using t d(5) by auto
    ultimately show ?thesis using can_move [of "ks ! t" s] t(1) by blast
  next
    case False
    then have "n_threads (\<lambda>k. holding (phase_of k)) ks = 0" by (auto intro!: n_threads_0 simp: in_set_conv_nth)
    then have "\<not> held s" using d(6) by (simp split: if_splits)
    moreover obtain t where t: "t < length ks" "0 < rank (ks ! t)" using assms(2) by (auto simp: all_done_def in_set_conv_nth)
    moreover have "phase_of (ks ! t) \<noteq> Inside" "fits (call_of (ks ! t))" using False t(1) d(5) by fastforce+
    ultimately show ?thesis using can_move [of "ks ! t" s] by blast
  qed
qed

end

sublocale live_object \<subseteq> threads R rank "lock_inv w0" for w0
  by unfold_locales (fact lock_inv_moves)

end
