(* ===== verification/Wal_Driver.thy ===== *)
theory Wal_Driver
  imports Kernel_Prelude
begin

text \<open>
  The WAL driver of \<^verbatim>\<open>src/driver/wal_driver_main.c\<close> and \<^verbatim>\<open>src/driver/wal_driver.h\<close>: the
  character device \<open>/dev/rwal\<close> (its read, write and ioctl calls), the block device \<open>/dev/wal\<close>
  over one megabyte of memory, and the statistics they share.  Counters are 32-bit words, file
  positions and byte offsets 64-bit words, as in the sources.  The log lines that depend on the
  mode of the device are part of the state; user copies, allocations and the kernel's
  \<open>isprint\<close> and \<open>isspace\<close> are arguments.
\<close>

section \<open>State\<close>

definition WAL_BLOCK_SIZE :: nat where
  "WAL_BLOCK_SIZE = 512"

definition WAL_BLOCK_SECTORS :: nat where
  "WAL_BLOCK_SECTORS = 2048"

definition WAL_RESPONSE_MSG :: "byte list" where
  "WAL_RESPONSE_MSG = map of_char (''Hello from WAL'' @ [CHR 0x0A])"

definition WAL_RESPONSE_LEN :: nat where
  "WAL_RESPONSE_LEN = 15"

definition PAGE_SIZE :: nat where
  "PAGE_SIZE = 4096"

definition WAL_IOC_MAGIC :: u32 where
  "WAL_IOC_MAGIC = 119"

definition WAL_IOC_RESET :: u32 where
  "WAL_IOC_RESET = IO WAL_IOC_MAGIC 0"

definition WAL_IOC_GET_STATUS :: u32 where
  "WAL_IOC_GET_STATUS = IOR WAL_IOC_MAGIC 1 4"

definition WAL_IOC_SET_MODE :: u32 where
  "WAL_IOC_SET_MODE = IOW WAL_IOC_MAGIC 2 4"

definition WAL_IOC_MAXNR :: u32 where
  "WAL_IOC_MAXNR = 2"

text \<open>The enumeration \<open>wal_mode\<close> is an unsigned 32-bit value in memory.\<close>

definition WAL_MODE_NORMAL :: u32 where
  "WAL_MODE_NORMAL = 0"

definition WAL_MODE_DEBUG :: u32 where
  "WAL_MODE_DEBUG = 1"

definition WAL_MODE_QUIET :: u32 where
  "WAL_MODE_QUIET = 2"

record wal_status =
  char_read_count :: u32
  char_write_count :: u32
  block_read_count :: u32
  block_write_count :: u32
  total_bytes_read :: u32
  total_bytes_written :: u32
  current_mode :: u32

datatype wal_msg =
    Char_read u64 u64
  | Char_returned "byte list"
  | Char_write u64 u64
  | Captured u64
  | Text_data "byte list"
  | Hex_dump "byte list" bool
  | Blk_request bool u64 u32
  | Blk_captured u32 u64
  | Blk_dump "byte list"
  | Blk_pattern
  | Stats_reset
  | Mode_changed u32
  | Stats_report wal_status
  | Not_fs_request
  | Req_request bool u64 u64
  | Req_captured u64
  | Req_dump "byte list" bool

record wal_global =
  w_status :: wal_status
  block_data :: "byte list"
  wal_log :: "wal_msg list"

definition status_zero :: wal_status where
  "status_zero = \<lparr>char_read_count = 0, char_write_count = 0, block_read_count = 0,
     block_write_count = 0, total_bytes_read = 0, total_bytes_written = 0,
     current_mode = WAL_MODE_NORMAL\<rparr>"

abbreviation mode_of :: "wal_global \<Rightarrow> u32" where
  "mode_of w \<equiv> current_mode (w_status w)"

abbreviation wlog :: "wal_msg list \<Rightarrow> wal_global \<Rightarrow> wal_global" where
  "wlog l w \<equiv> w\<lparr>wal_log := wal_log w @ l\<rparr>"

section \<open>Character device\<close>

definition wal_char_open :: "wal_global \<Rightarrow> ret \<times> wal_global" where
  "wal_char_open w = (None, w)"

definition wal_char_release :: "wal_global \<Rightarrow> ret \<times> wal_global" where
  "wal_char_release w = (None, w)"

text \<open>The bytes handed to user space, the new file position, the new state.\<close>

definition wal_char_read ::
  "bool \<Rightarrow> u64 \<Rightarrow> u64 \<Rightarrow> wal_global \<Rightarrow> (errno + byte list) \<times> u64 \<times> wal_global" where
  "wal_char_read to_user_ok count pos w =
     (let response_len = (of_nat WAL_RESPONSE_LEN :: u64);
          w1 = (if mode_of w \<noteq> WAL_MODE_QUIET then wlog [Char_read count pos] w else w)
      in if pos \<ge> response_len then (Inr [], pos, w1)
         else
           let to_copy = min count (response_len - pos);
               out = slice WAL_RESPONSE_MSG (unat pos) (unat to_copy)
           in if \<not> to_user_ok then (Inl EFAULT, pos, w1)
              else
                let st = w_status w1;
                    w2 = w1\<lparr>w_status := st\<lparr>char_read_count := char_read_count st + 1,
                              total_bytes_read := total_bytes_read st + ucast to_copy\<rparr>\<rparr>;
                    w3 = (if mode_of w2 = WAL_MODE_DEBUG then wlog [Char_returned out] w2 else w2)
                in (Inr out, pos + to_copy, w3))"

text \<open>The loop over the captured bytes, with its early exit.\<close>

fun all_printable :: "(byte \<Rightarrow> bool) \<Rightarrow> (byte \<Rightarrow> bool) \<Rightarrow> byte list \<Rightarrow> bool" where
  "all_printable isprint isspace [] = True"
| "all_printable isprint isspace (b # bs) =
     (if \<not> isprint b \<and> \<not> isspace b then False else all_printable isprint isspace bs)"

definition wal_char_write ::
  "(byte \<Rightarrow> bool) \<Rightarrow> (byte \<Rightarrow> bool) \<Rightarrow> bool \<Rightarrow> bool \<Rightarrow> byte list \<Rightarrow> u64 \<Rightarrow> u64 \<Rightarrow> wal_global \<Rightarrow>
     (errno + u64) \<times> u64 \<times> wal_global" where
  "wal_char_write isprint isspace mem_ok from_user_ok user count pos w =
     (let actual_count = min count (of_nat PAGE_SIZE);
          w1 = (if mode_of w \<noteq> WAL_MODE_QUIET then wlog [Char_write count pos] w else w)
      in if \<not> mem_ok then (Inl ENOMEM, pos, w1)
         else if \<not> from_user_ok then (Inl EFAULT, pos, w1)
         else
           let buf = take (unat actual_count) user;
               st = w_status w1;
               w2 = w1\<lparr>w_status := st\<lparr>char_write_count := char_write_count st + 1,
                         total_bytes_written := total_bytes_written st + ucast actual_count\<rparr>\<rparr>;
               is_printable = all_printable isprint isspace buf;
               w3 = (if mode_of w2 \<noteq> WAL_MODE_QUIET
                     then wlog ([Captured actual_count] @
                            (if is_printable then [Text_data buf] else []) @
                            (if mode_of w2 = WAL_MODE_DEBUG \<or> \<not> is_printable
                             then [Hex_dump (take 64 buf) (actual_count > 64)] else [])) w2
                     else w2)
           in (Inr actual_count, pos + actual_count, w3))"

text \<open>What \<open>WAL_IOC_GET_STATUS\<close> copies out is part of the result.\<close>

definition wal_char_ioctl ::
  "u32 option \<Rightarrow> bool \<Rightarrow> u32 \<Rightarrow> wal_global \<Rightarrow> ret \<times> wal_status option \<times> wal_global" where
  "wal_char_ioctl from_user to_user_ok cmd w =
     (if IOC_TYPE cmd \<noteq> WAL_IOC_MAGIC then (Some ENOTTY, None, w)
      else if IOC_NR cmd > WAL_IOC_MAXNR then (Some ENOTTY, None, w)
      else if cmd = WAL_IOC_RESET then
        (None, None, (wlog [Stats_reset] w)\<lparr>w_status := status_zero\<lparr>current_mode := WAL_MODE_NORMAL\<rparr>\<rparr>)
      else if cmd = WAL_IOC_GET_STATUS then
        (if \<not> to_user_ok then (Some EFAULT, None, w) else (None, Some (w_status w), w))
      else if cmd = WAL_IOC_SET_MODE then
        (case from_user of
           None \<Rightarrow> (Some EFAULT, None, w)
         | Some new_mode \<Rightarrow>
             if new_mode < WAL_MODE_NORMAL \<or> new_mode > WAL_MODE_QUIET then (Some EINVAL, None, w)
             else (None, None, wlog [Mode_changed new_mode]
                     (w\<lparr>w_status := (w_status w)\<lparr>current_mode := new_mode\<rparr>\<rparr>)))
      else (Some ENOTTY, None, w))"

section \<open>Block device\<close>

definition wal_block_open :: "wal_global \<Rightarrow> ret \<times> wal_global" where
  "wal_block_open w = (None, w)"

definition wal_block_release :: "wal_global \<Rightarrow> wal_global" where
  "wal_block_release w = w"

record hd_geometry =
  geo_heads :: nat
  geo_sectors :: nat
  geo_cylinders :: nat
  geo_start :: nat

definition wal_block_getgeo :: "ret \<times> hd_geometry" where
  "wal_block_getgeo = (None, \<lparr>geo_heads = 4, geo_sectors = 16,
     geo_cylinders = WAL_BLOCK_SECTORS div (4 * 16), geo_start = 0\<rparr>)"

text \<open>The pattern loop: copy the message again and again, the last time in part.\<close>

function wal_fill :: "nat \<Rightarrow> nat \<Rightarrow> byte list \<Rightarrow> byte list" where
  "wal_fill len pos buf =
     (if pos < len then
        let chunk_size = min (len - pos) WAL_RESPONSE_LEN
        in wal_fill len (pos + chunk_size) (splice buf pos (take chunk_size WAL_RESPONSE_MSG))
      else buf)"
  by auto

termination
  by (relation "measure (\<lambda>(len, pos, _). len - pos)") (auto simp: WAL_RESPONSE_LEN_def)

text \<open>
  The copy to the virtual storage and its guard.  The guard is a 64-bit sum; \<open>memcpy\<close> writes at
  the offset itself.
\<close>

definition wal_store :: "u64 \<Rightarrow> byte list \<Rightarrow> wal_global \<Rightarrow> wal_global kres" where
  "wal_store offset buf w =
     (if offset + of_nat (length buf) \<le> of_nat (WAL_BLOCK_SECTORS * WAL_BLOCK_SIZE)
      then kbind (mem_write (block_data w) (unat offset) buf) (\<lambda>d. Inr (w\<lparr>block_data := d\<rparr>))
      else Inr w)"

text \<open>One segment of a bio: its buffer after the transfer, and the new state.\<close>

definition wal_segment :: "bool \<Rightarrow> u64 \<Rightarrow> byte list \<Rightarrow> wal_global \<Rightarrow> (byte list \<times> wal_global) kres" where
  "wal_segment write offset buf w =
     (let bv_len = (of_nat (length buf) :: u32) in
      if write then
        let w1 = (if mode_of w \<noteq> WAL_MODE_QUIET
                  then wlog ([Blk_captured bv_len offset] @
                         (if mode_of w = WAL_MODE_DEBUG then [Blk_dump (take 256 buf)] else [])) w
                  else w)
        in kbind (wal_store offset buf w1) (\<lambda>w2. let st = w_status w2 in
             Inr (buf, w2\<lparr>w_status := st\<lparr>block_write_count := block_write_count st + 1,
                       total_bytes_written := total_bytes_written st + bv_len\<rparr>\<rparr>))
      else
        let w1 = (if mode_of w = WAL_MODE_DEBUG then wlog [Blk_pattern] w else w);
            buf' = wal_fill (length buf) 0 buf
        in kbind (wal_store offset buf' w1) (\<lambda>w2. let st = w_status w2 in
             Inr (buf', w2\<lparr>w_status := st\<lparr>block_read_count := block_read_count st + 1,
                        total_bytes_read := total_bytes_read st + bv_len\<rparr>\<rparr>)))"

fun wal_segments :: "bool \<Rightarrow> u64 \<Rightarrow> byte list list \<Rightarrow> wal_global \<Rightarrow> (byte list list \<times> wal_global) kres" where
  "wal_segments write offset [] w = Inr ([], w)"
| "wal_segments write offset (buf # bufs) w =
     kbind (wal_segment write offset buf w) (\<lambda>(buf', w1).
     kbind (wal_segments write (offset + of_nat (length buf)) bufs w1) (\<lambda>(bufs', w2).
       Inr (buf' # bufs', w2)))"

definition wal_block_submit_bio ::
  "bool \<Rightarrow> u64 \<Rightarrow> byte list list \<Rightarrow> wal_global \<Rightarrow> (byte list list \<times> wal_global) kres" where
  "wal_block_submit_bio write sector bufs w =
     (let offset = sector * of_nat WAL_BLOCK_SIZE;
          size = (of_nat (length (concat bufs)) :: u32);
          w1 = (if mode_of w \<noteq> WAL_MODE_QUIET then wlog [Blk_request write sector size] w else w)
      in wal_segments write offset bufs w1)"

text \<open>
  The request function for kernels before 5.9: it drains the queue, ends each request with its
  own result, and gives requests that are not file-system requests an error.
\<close>

record wal_request =
  rq_fs :: bool
  rq_write :: bool
  rq_pos :: u64
  rq_segs :: "byte list list"

text \<open>\<open>bio_data(req->bio)\<close>: the address of the first segment only.  The code uses it for all bytes of the
  request; an access behind the segment is out of bounds.\<close>

definition bio_data :: "byte list list \<Rightarrow> byte list" where
  "bio_data segs = (case segs of [] \<Rightarrow> [] | buf # _ \<Rightarrow> buf)"

definition wal_one_request :: "wal_request \<Rightarrow> wal_global \<Rightarrow> (byte list list \<times> wal_global) kres" where
  "wal_one_request req w =
     (let offset = rq_pos req * of_nat WAL_BLOCK_SIZE;
          n = length (concat (rq_segs req));
          nbytes = (of_nat n :: u64);
          buffer = bio_data (rq_segs req);
          guard = offset + nbytes \<le> of_nat (WAL_BLOCK_SECTORS * WAL_BLOCK_SIZE);
          w1 = (if mode_of w \<noteq> WAL_MODE_QUIET then wlog [Req_request (rq_write req) offset nbytes] w else w)
      in if rq_write req then
           let w2 = (if mode_of w1 \<noteq> WAL_MODE_QUIET
                     then wlog ([Req_captured nbytes] @
                            (if mode_of w1 = WAL_MODE_DEBUG
                             then [Req_dump (take (min n 256) buffer) (nbytes > 256)] else [])) w1
                     else w1)
           in kguard OutOfBounds (mode_of w1 = WAL_MODE_DEBUG \<longrightarrow> min n 256 \<le> length buffer)
             (kguard OutOfBounds (guard \<longrightarrow> n \<le> length buffer)
             (kbind (wal_store offset (take n buffer) w2) (\<lambda>w3. let st = w_status w3 in
                Inr (rq_segs req, w3\<lparr>w_status := st\<lparr>block_write_count := block_write_count st + 1,
                          total_bytes_written := total_bytes_written st + ucast nbytes\<rparr>\<rparr>))))
         else
           let w2 = (if mode_of w1 = WAL_MODE_DEBUG then wlog [Blk_pattern] w1 else w1)
           in kguard OutOfBounds (n \<le> length buffer)
             (let buffer' = wal_fill n 0 buffer
              in kbind (wal_store offset (take n buffer') w2) (\<lambda>w3. let st = w_status w3 in
                Inr (case rq_segs req of [] \<Rightarrow> [] | _ # segs \<Rightarrow> buffer' # segs,
                     w3\<lparr>w_status := st\<lparr>block_read_count := block_read_count st + 1,
                           total_bytes_read := total_bytes_read st + ucast nbytes\<rparr>\<rparr>))))"

text \<open>All requests of the queue, each with its status and its segments afterwards.\<close>

fun wal_block_request ::
  "wal_request list \<Rightarrow> wal_global \<Rightarrow> ((ret \<times> byte list list) list \<times> wal_global) kres" where
  "wal_block_request [] w = Inr ([], w)"
| "wal_block_request (req # q) w =
     (if \<not> rq_fs req then
        kbind (wal_block_request q (wlog [Not_fs_request] w)) (\<lambda>(rs, w').
          Inr ((Some EIO, rq_segs req) # rs, w'))
      else
        kbind (wal_one_request req w) (\<lambda>(segs, w1).
        kbind (wal_block_request q w1) (\<lambda>(rs, w'). Inr ((None, segs) # rs, w'))))"

section \<open>Statistics for other code\<close>

definition wal_driver_get_status :: "wal_global \<Rightarrow> wal_status" where
  "wal_driver_get_status w = w_status w"

definition wal_driver_reset_stats :: "wal_global \<Rightarrow> wal_global" where
  "wal_driver_reset_stats w = w\<lparr>w_status := status_zero\<lparr>current_mode := WAL_MODE_NORMAL\<rparr>\<rparr>"

definition wal_driver_set_mode :: "u32 \<Rightarrow> wal_global \<Rightarrow> ret \<times> wal_global" where
  "wal_driver_set_mode mode w =
     (if mode < WAL_MODE_NORMAL \<or> mode > WAL_MODE_QUIET then (Some EINVAL, w)
      else (None, w\<lparr>w_status := (w_status w)\<lparr>current_mode := mode\<rparr>\<rparr>))"

definition wal_driver_print_stats :: "wal_global \<Rightarrow> wal_global" where
  "wal_driver_print_stats w = wlog [Stats_report (w_status w)] w"

lemma WAL_RESPONSE_MSG_eq:
  "WAL_RESPONSE_MSG = [72, 101, 108, 108, 111, 32, 102, 114, 111, 109, 32, 87, 65, 76, 10]"
  by (simp add: WAL_RESPONSE_MSG_def)

declare wal_fill.simps [simp del]

end
