(* ===== verification/Wal_Properties.thy ===== *)
theory Wal_Properties
  imports Wal_Driver
begin

text \<open>
  What the WAL driver does: the pattern loop against its closed form, block transfers against a
  flat byte array, the character stream, and the invariant of the shared state under every
  sequence of calls.
\<close>

section \<open>The pattern\<close>

definition wal_pattern :: "nat \<Rightarrow> byte list" where
  "wal_pattern n = map (\<lambda>i. WAL_RESPONSE_MSG ! (i mod WAL_RESPONSE_LEN)) [0..<n]"

definition WAL_CAP :: nat where
  "WAL_CAP = WAL_BLOCK_SECTORS * WAL_BLOCK_SIZE"

lemma length_MSG [simp]: "length WAL_RESPONSE_MSG = WAL_RESPONSE_LEN"
  by (simp add: WAL_RESPONSE_MSG_eq WAL_RESPONSE_LEN_def)

lemma length_pattern [simp]: "length (wal_pattern n) = n"
  by (simp add: wal_pattern_def)

lemma pattern_chunk:
  assumes "pos mod WAL_RESPONSE_LEN = 0" and "k \<le> WAL_RESPONSE_LEN"
  shows "map (\<lambda>i. WAL_RESPONSE_MSG ! (i mod WAL_RESPONSE_LEN)) [pos..<pos + k] = take k WAL_RESPONSE_MSG"
proof (rule nth_equalityI)
  fix i
  assume "i < length (map (\<lambda>i. WAL_RESPONSE_MSG ! (i mod WAL_RESPONSE_LEN)) [pos..<pos + k])"
  then have i: "i < k" by simp
  have "(pos + i) mod WAL_RESPONSE_LEN = (pos mod WAL_RESPONSE_LEN + i) mod WAL_RESPONSE_LEN"
    by (simp add: mod_add_left_eq)
  with assms i have "(pos + i) mod WAL_RESPONSE_LEN = i" by simp
  with i assms(2) show "map (\<lambda>i. WAL_RESPONSE_MSG ! (i mod WAL_RESPONSE_LEN)) [pos..<pos + k] ! i =
      take k WAL_RESPONSE_MSG ! i" by simp
qed (use assms(2) in simp)

lemma wal_fill_eq:
  "len \<le> length buf \<Longrightarrow> pos \<le> len \<Longrightarrow> pos mod WAL_RESPONSE_LEN = 0 \<or> pos = len \<Longrightarrow>
     wal_fill len pos buf =
       splice buf pos (map (\<lambda>i. WAL_RESPONSE_MSG ! (i mod WAL_RESPONSE_LEN)) [pos..<len])"
proof (induction len pos buf rule: wal_fill.induct)
  case (1 len pos buf)
  show ?case
  proof (cases "pos < len")
    case False
    with 1 show ?thesis by (simp add: wal_fill.simps)
  next
    case True
    let ?k = "min (len - pos) WAL_RESPONSE_LEN"
    let ?b = "splice buf pos (take ?k WAL_RESPONSE_MSG)"
    let ?P = "\<lambda>a b. map (\<lambda>i. WAL_RESPONSE_MSG ! (i mod WAL_RESPONSE_LEN)) [a..<b]"
    have L: "0 < WAL_RESPONSE_LEN" by (simp add: WAL_RESPONSE_LEN_def)
    from 1 True have pm: "pos mod WAL_RESPONSE_LEN = 0" by simp
    have lb: "length ?b = length buf" using 1(2) True by simp
    have nx: "(pos + ?k) mod WAL_RESPONSE_LEN = 0 \<or> pos + ?k = len"
      using pm by (auto simp: min_def)
    have "wal_fill len pos buf = wal_fill len (pos + ?k) ?b"
      using True by (subst wal_fill.simps) (simp add: Let_def)
    also have "\<dots> = splice ?b (pos + ?k) (?P (pos + ?k) len)"
      using 1(1) [OF True refl] 1(2) True lb nx by simp
    also have "take ?k WAL_RESPONSE_MSG = ?P pos (pos + ?k)"
      using pattern_chunk [OF pm, of ?k] by simp
    also have "splice (splice buf pos (?P pos (pos + ?k))) (pos + ?k) (?P (pos + ?k) len) =
        splice buf pos (?P pos (pos + ?k) @ ?P (pos + ?k) len)"
      using splice_append [of pos "?P pos (pos + ?k)" "?P (pos + ?k) len" buf] 1(2) True by simp
    also have "?P pos (pos + ?k) @ ?P (pos + ?k) len = ?P pos len"
      using True upt_add_eq_append [of pos "pos + ?k" "len - (pos + ?k)"] by (simp add: map_append [symmetric] del: map_append)
    finally show ?thesis .
  qed
qed

lemma wal_fill_pattern: "wal_fill (length buf) 0 buf = wal_pattern (length buf)"
  by (simp add: wal_fill_eq wal_pattern_def splice_def)

section \<open>Block transfers on a flat array\<close>

definition seg_out :: "bool \<Rightarrow> byte list \<Rightarrow> byte list" where
  "seg_out write buf = (if write then buf else wal_pattern (length buf))"

definition wal_count :: "bool \<Rightarrow> nat \<Rightarrow> nat \<Rightarrow> wal_status \<Rightarrow> wal_status" where
  "wal_count write n bytes st =
     (if write then st\<lparr>block_write_count := block_write_count st + of_nat n,
                       total_bytes_written := total_bytes_written st + of_nat bytes\<rparr>
      else st\<lparr>block_read_count := block_read_count st + of_nat n,
              total_bytes_read := total_bytes_read st + of_nat bytes\<rparr>)"

definition seg_log :: "bool \<Rightarrow> u64 \<Rightarrow> byte list \<Rightarrow> u32 \<Rightarrow> wal_msg list" where
  "seg_log write off buf mode =
     (if write then
        if mode = WAL_MODE_QUIET then []
        else Blk_captured (of_nat (length buf)) off #
               (if mode = WAL_MODE_DEBUG then [Blk_dump (take 256 buf)] else [])
      else if mode = WAL_MODE_DEBUG then [Blk_pattern] else [])"

lemma length_seg_out [simp]: "length (seg_out write buf) = length buf"
  by (simp add: seg_out_def)

lemma length_concat_seg_out [simp]: "length (concat (map (seg_out write) bufs)) = length (concat bufs)"
  by (induction bufs) simp_all

lemma WAL_CAP_eq: "WAL_CAP = 1048576"
  by (simp add: WAL_CAP_def WAL_BLOCK_SECTORS_def WAL_BLOCK_SIZE_def)

lemma unat_offset_add:
  "unat (off::u64) + n < 2 ^ 64 \<Longrightarrow> unat (off + of_nat n) = unat off + n"
  by (simp add: unat_word_ariths unsigned_of_nat take_bit_nat_eq_self_iff take_bit_nat_eq_self)

lemma store_guard:
  assumes "unat (off::u64) + n < 2 ^ 64"
  shows "off + of_nat n \<le> of_nat (WAL_BLOCK_SECTORS * WAL_BLOCK_SIZE) \<longleftrightarrow> unat off + n \<le> WAL_CAP"
  using assms
  by (simp add: word_le_nat_alt unat_offset_add WAL_CAP_eq WAL_BLOCK_SECTORS_def WAL_BLOCK_SIZE_def)

lemma wal_store_in:
  assumes "length (block_data w) = WAL_CAP" and "unat off + length buf \<le> WAL_CAP"
  shows "wal_store off buf w = Inr (w\<lparr>block_data := splice (block_data w) (unat off) buf\<rparr>)"
proof -
  have "unat off + length buf < 2 ^ 64" using assms(2) by (simp add: WAL_CAP_eq)
  from store_guard [OF this] assms show ?thesis by (simp add: wal_store_def)
qed

text \<open>As long as the byte range does not wrap, a store outside the device is dropped, not a fault.\<close>

lemma wal_store_nowrap:
  assumes "length (block_data w) = WAL_CAP" and "unat off + length buf < 2 ^ 64"
  shows "\<exists>d. wal_store off buf w = Inr (w\<lparr>block_data := d\<rparr>) \<and> length d = WAL_CAP"
proof (cases "unat off + length buf \<le> WAL_CAP")
  case True
  with assms(1) show ?thesis
    by (intro exI [of _ "splice (block_data w) (unat off) buf"]) (simp add: wal_store_in)
next
  case False
  with store_guard [OF assms(2)] have "wal_store off buf w = Inr w" by (simp add: wal_store_def)
  then show ?thesis using assms(1) by (intro exI [of _ "block_data w"]) simp
qed

lemma wal_segment_in:
  assumes "length (block_data w) = WAL_CAP" and "unat off + length buf \<le> WAL_CAP"
  shows "wal_segment write off buf w =
     Inr (seg_out write buf, w\<lparr>w_status := wal_count write 1 (length buf) (w_status w),
            block_data := splice (block_data w) (unat off) (seg_out write buf),
            wal_log := wal_log w @ seg_log write off buf (mode_of w)\<rparr>)"
  using assms
  by (cases "write")
    (simp_all add: wal_segment_def Let_def wal_store_in wal_fill_pattern seg_out_def wal_count_def seg_log_def)

lemma wal_count_add:
  "wal_count write n b (wal_count write m c st) = wal_count write (n + m) (b + c) st"
  by (simp add: wal_count_def algebra_simps)

lemma mode_wal_count [simp]: "current_mode (wal_count write n b st) = current_mode st"
  by (simp add: wal_count_def)

lemma wal_segments_flat:
  assumes "length (block_data w) = WAL_CAP" and "unat off + length (concat bufs) \<le> WAL_CAP"
  shows "\<exists>l. wal_segments write off bufs w =
     Inr (map (seg_out write) bufs,
          w\<lparr>w_status := wal_count write (length bufs) (length (concat bufs)) (w_status w),
            block_data := splice (block_data w) (unat off) (concat (map (seg_out write) bufs)),
            wal_log := l\<rparr>)"
  using assms
proof (induction bufs arbitrary: off w)
  case Nil
  show ?case by (rule exI [of _ "wal_log w"]) (simp add: wal_count_def)
next
  case (Cons buf bufs)
  then have le: "unat off + length buf \<le> WAL_CAP" by simp
  let ?w = "w\<lparr>w_status := wal_count write 1 (length buf) (w_status w),
            block_data := splice (block_data w) (unat off) (seg_out write buf),
            wal_log := wal_log w @ seg_log write off buf (mode_of w)\<rparr>"
  note seg = wal_segment_in [OF Cons.prems(1) le, of "write"]
  have off: "unat (off + of_nat (length buf)) = unat off + length buf"
    using le by (intro unat_offset_add) (simp add: WAL_CAP_eq)
  have "length (block_data ?w) = WAL_CAP" using Cons.prems(1) le by simp
  moreover have "unat (off + of_nat (length buf)) + length (concat bufs) \<le> WAL_CAP"
    using Cons.prems(2) by (simp add: off)
  ultimately obtain l where "wal_segments write (off + of_nat (length buf)) bufs ?w =
      Inr (map (seg_out write) bufs,
        ?w\<lparr>w_status := wal_count write (length bufs) (length (concat bufs)) (w_status ?w),
          block_data := splice (block_data ?w) (unat off + length buf) (concat (map (seg_out write) bufs)),
          wal_log := l\<rparr>)"
    using Cons.IH [of ?w "off + of_nat (length buf)"] unfolding off by blast
  moreover have "splice (splice (block_data w) (unat off) (seg_out write buf)) (unat off + length buf)
        (concat (map (seg_out write) bufs)) =
      splice (block_data w) (unat off) (seg_out write buf @ concat (map (seg_out write) bufs))"
    using splice_append [of "unat off" "seg_out write buf" "concat (map (seg_out write) bufs)" "block_data w"]
      Cons.prems by simp
  ultimately show ?case
    using seg by (intro exI [of _ l]) (simp add: wal_count_add add.commute)
qed

lemma wal_segment_nowrap:
  assumes "length (block_data w) = WAL_CAP" and "unat off + length buf < 2 ^ 64"
  shows "\<exists>w'. wal_segment write off buf w = Inr (seg_out write buf, w') \<and>
           length (block_data w') = WAL_CAP \<and> mode_of w' = mode_of w"
proof -
  have store: "\<exists>d. wal_store off (seg_out write buf) v = Inr (v\<lparr>block_data := d\<rparr>) \<and> length d = WAL_CAP"
    if "block_data v = block_data w" for v
    using that assms by (intro wal_store_nowrap) simp_all
  let ?v = "wlog (seg_log write off buf (mode_of w)) w"
  from store [of ?v] obtain d where d: "wal_store off (seg_out write buf) ?v = Inr (?v\<lparr>block_data := d\<rparr>)"
      "length d = WAL_CAP" by auto
  then show ?thesis
    by (cases "write") (auto simp: wal_segment_def Let_def wal_fill_pattern seg_out_def seg_log_def split: if_splits)
qed

lemma wal_segments_nowrap:
  assumes "length (block_data w) = WAL_CAP" and "unat off + length (concat bufs) < 2 ^ 64"
  shows "\<exists>w'. wal_segments write off bufs w = Inr (map (seg_out write) bufs, w') \<and>
           length (block_data w') = WAL_CAP \<and> mode_of w' = mode_of w"
  using assms
proof (induction bufs arbitrary: off w)
  case (Cons buf bufs)
  then have "unat off + length buf < 2 ^ 64" by simp
  from wal_segment_nowrap [OF Cons.prems(1) this, of "write"] obtain w1
    where w1: "wal_segment write off buf w = Inr (seg_out write buf, w1)"
      "length (block_data w1) = WAL_CAP" "mode_of w1 = mode_of w" by blast
  have "unat (off + of_nat (length buf)) + length (concat bufs) < 2 ^ 64"
    using Cons.prems(2) unat_offset_add [of off "length buf"] by simp
  from Cons.IH [OF w1(2) this] w1 show ?case by auto
qed simp

lemma sector_offset:
  "unat (sector::u64) * 512 < 2 ^ 64 \<Longrightarrow> unat (sector * of_nat WAL_BLOCK_SIZE) = unat sector * 512"
  by (simp add: WAL_BLOCK_SIZE_def unat_word_ariths)

section \<open>The character stream\<close>

text \<open>A reader that issues reads of the given sizes, one after the other.\<close>

fun read_seq :: "u64 list \<Rightarrow> u64 \<Rightarrow> wal_global \<Rightarrow> byte list \<times> u64 \<times> wal_global" where
  "read_seq [] pos w = ([], pos, w)"
| "read_seq (c # cs) pos w =
     (case wal_char_read True c pos w of
        (Inl e, pos1, w1) \<Rightarrow> ([], pos1, w1)
      | (Inr out, pos1, w1) \<Rightarrow> (case read_seq cs pos1 w1 of (rest, r) \<Rightarrow> (out @ rest, r)))"

lemma wal_char_read_stream:
  assumes "unat pos \<le> WAL_RESPONSE_LEN"
  shows "\<exists>w'. wal_char_read True count pos w =
     (Inr (slice WAL_RESPONSE_MSG (unat pos) (min (unat count) (WAL_RESPONSE_LEN - unat pos))),
      pos + of_nat (min (unat count) (WAL_RESPONSE_LEN - unat pos)), w')"
proof (cases "pos \<ge> of_nat WAL_RESPONSE_LEN")
  case True
  then have "unat pos = WAL_RESPONSE_LEN"
    using assms by (simp add: word_le_nat_alt WAL_RESPONSE_LEN_def)
  with True show ?thesis by (simp add: wal_char_read_def Let_def)
next
  case False
  then have lt: "unat pos < 15" by (simp add: word_le_nat_alt WAL_RESPONSE_LEN_def)
  then have "unat (15 - pos) = 15 - unat pos" by (simp add: unat_sub word_le_nat_alt)
  then have m: "unat (min count (15 - pos)) = min (unat count) (15 - unat pos)"
    by (simp add: min_def word_le_nat_alt)
  then have "min count (15 - pos) = of_nat (min (unat count) (15 - unat pos))"
    by (simp only: m [symmetric]) simp
  with False m show ?thesis by (simp add: wal_char_read_def Let_def WAL_RESPONSE_LEN_def)
qed

lemma slice_step:
  "p + k \<le> length xs \<Longrightarrow> k = min a (length xs - p) \<Longrightarrow>
     slice xs p k @ slice xs (p + k) (min b (length xs - (p + k))) = slice xs p (min (a + b) (length xs - p))"
  using slice_append [of p k "min b (length xs - (p + k))" xs] by (auto simp: min_def split: if_splits)

lemma read_seq_stream:
  "unat pos \<le> WAL_RESPONSE_LEN \<Longrightarrow>
     fst (read_seq cs pos w) =
       slice WAL_RESPONSE_MSG (unat pos) (min (sum_list (map unat cs)) (WAL_RESPONSE_LEN - unat pos))"
proof (induction cs arbitrary: pos w)
  case (Cons c cs)
  define k where "k = min (unat c) (WAL_RESPONSE_LEN - unat pos)"
  from wal_char_read_stream [OF Cons.prems] obtain w' where r: "wal_char_read True c pos w =
      (Inr (slice WAL_RESPONSE_MSG (unat pos) k), pos + of_nat k, w')" unfolding k_def by blast
  have k: "unat pos + k \<le> WAL_RESPONSE_LEN" using Cons.prems by (simp add: k_def)
  then have p: "unat (pos + of_nat k) = unat pos + k"
    by (intro unat_offset_add) (simp add: WAL_RESPONSE_LEN_def)
  from k have "unat (pos + of_nat k) \<le> WAL_RESPONSE_LEN" unfolding p .
  from Cons.IH [OF this, of w'] have
    "fst (read_seq cs (pos + of_nat k) w') = slice WAL_RESPONSE_MSG (unat pos + k)
       (min (sum_list (map unat cs)) (WAL_RESPONSE_LEN - (unat pos + k)))" unfolding p .
  moreover have "fst (read_seq (c # cs) pos w) =
      slice WAL_RESPONSE_MSG (unat pos) k @ fst (read_seq cs (pos + of_nat k) w')"
    by (simp add: r split: prod.split)
  ultimately show ?case
    using slice_step [of "unat pos" k WAL_RESPONSE_MSG "unat c" "sum_list (map unat cs)"] k k_def by simp
qed simp

section \<open>Histories of calls\<close>

datatype wal_call =
    CRead bool u64 u64
  | CWrite bool bool "byte list" u64 u64
  | CIoctl "u32 option" bool u32
  | CBio bool u64 "byte list list"
  | CRequests "wal_request list"
  | CResetStats
  | CSetMode u32
  | CPrintStats

text \<open>A transfer that faults has no next state; the history stays where it was.\<close>

fun wal_step :: "(byte \<Rightarrow> bool) \<Rightarrow> (byte \<Rightarrow> bool) \<Rightarrow> wal_call \<Rightarrow> wal_global \<Rightarrow> wal_global" where
  "wal_step ip is (CRead ok n pos) w = snd (snd (wal_char_read ok n pos w))"
| "wal_step ip is (CWrite mem ok user n pos) w = snd (snd (wal_char_write ip is mem ok user n pos w))"
| "wal_step ip is (CIoctl from ok cmd) w = snd (snd (wal_char_ioctl from ok cmd w))"
| "wal_step ip is (CBio write sector bufs) w =
     (case wal_block_submit_bio write sector bufs w of Inl _ \<Rightarrow> w | Inr (_, w') \<Rightarrow> w')"
| "wal_step ip is (CRequests q) w = (case wal_block_request q w of Inl _ \<Rightarrow> w | Inr (_, w') \<Rightarrow> w')"
| "wal_step ip is CResetStats w = wal_driver_reset_stats w"
| "wal_step ip is (CSetMode m) w = snd (wal_driver_set_mode m w)"
| "wal_step ip is CPrintStats w = wal_driver_print_stats w"

definition wal_ok :: "wal_global \<Rightarrow> bool" where
  "wal_ok w \<longleftrightarrow> mode_of w \<in> {WAL_MODE_NORMAL, WAL_MODE_DEBUG, WAL_MODE_QUIET} \<and>
     length (block_data w) = WAL_CAP"

lemmas mode_defs = WAL_MODE_NORMAL_def WAL_MODE_DEBUG_def WAL_MODE_QUIET_def

lemma mode_valid: "\<not> m < WAL_MODE_NORMAL \<Longrightarrow> \<not> WAL_MODE_QUIET < m \<Longrightarrow>
    m \<in> {WAL_MODE_NORMAL, WAL_MODE_DEBUG, WAL_MODE_QUIET}"
proof -
  assume "\<not> WAL_MODE_QUIET < m"
  then have "unat m \<le> 2" by (simp add: mode_defs word_less_nat_alt)
  then have "unat m = 0 \<or> unat m = 1 \<or> unat m = 2" by linarith
  then show ?thesis by (simp add: mode_defs word_unat_eq_iff)
qed

lemma wal_store_frame:
  "wal_store off buf w = Inr w' \<Longrightarrow>
     length (block_data w') = length (block_data w) \<and> mode_of w' = mode_of w"
  by (auto simp: wal_store_def mem_write_def kres_simps split: if_splits)

lemma wal_segment_frame:
  assumes "wal_segment write off buf w = Inr (buf', w')"
  shows "length (block_data w') = length (block_data w) \<and> mode_of w' = mode_of w"
  using assms
  by (auto simp: wal_segment_def Let_def kres_simps split: if_splits dest!: wal_store_frame)

lemma wal_segments_frame:
  "wal_segments write off bufs w = Inr (bufs', w') \<Longrightarrow>
     length (block_data w') = length (block_data w) \<and> mode_of w' = mode_of w"
proof (induction bufs arbitrary: off w bufs')
  case (Cons buf bufs)
  from Cons.prems obtain buf' w1 bufs'' where
    "wal_segment write off buf w = Inr (buf', w1)"
    "wal_segments write (off + of_nat (length buf)) bufs w1 = Inr (bufs'', w')"
    by (auto simp: kres_simps)
  with Cons.IH wal_segment_frame show ?case by metis
qed simp

lemma wal_one_request_frame:
  "wal_one_request req w = Inr (buf', w') \<Longrightarrow>
     length (block_data w') = length (block_data w) \<and> mode_of w' = mode_of w"
  by (auto simp: wal_one_request_def Let_def kres_simps split: if_splits dest!: wal_store_frame)

lemma wal_block_request_frame:
  "wal_block_request q w = Inr (rs, w') \<Longrightarrow>
     length (block_data w') = length (block_data w) \<and> mode_of w' = mode_of w"
proof (induction q arbitrary: w rs)
  case (Cons req q)
  show ?case
  proof (cases "rq_fs req")
    case True
    with Cons.prems obtain buf w1 rs' where "wal_one_request req w = Inr (buf, w1)"
      "wal_block_request q w1 = Inr (rs', w')" by (auto simp: kres_simps)
    with Cons.IH wal_one_request_frame show ?thesis by metis
  next
    case False
    with Cons.prems obtain rs' where "wal_block_request q (wlog [Not_fs_request] w) = Inr (rs', w')"
      by (auto simp: kres_simps)
    with Cons.IH [OF this] show ?thesis by simp
  qed
qed simp

lemma wal_ok_step: "wal_ok w \<Longrightarrow> wal_ok (wal_step ip is e w)"
proof (cases e)
  case (CIoctl fu ok cmd)
  assume "wal_ok w"
  with CIoctl mode_valid show ?thesis
    by (auto simp: wal_ok_def wal_char_ioctl_def status_zero_def Let_def split: option.splits)
next
  case (CSetMode m)
  assume "wal_ok w"
  with CSetMode mode_valid [of m] show ?thesis by (auto simp: wal_ok_def wal_driver_set_mode_def)
next
  case (CBio wr sector bufs)
  assume "wal_ok w"
  with CBio show ?thesis
    by (auto simp: wal_ok_def wal_block_submit_bio_def Let_def split: sum.splits if_splits
        dest!: wal_segments_frame)
next
  case (CRequests q)
  assume "wal_ok w"
  with CRequests show ?thesis
    by (auto simp: wal_ok_def split: sum.splits dest!: wal_block_request_frame)
qed (auto simp: wal_ok_def wal_char_read_def wal_char_write_def wal_driver_reset_stats_def
    wal_driver_print_stats_def status_zero_def Let_def)

interpretation wal_calls: call_machine "wal_step ip is" wal_ok for ip "is"
  by unfold_locales (rule wal_ok_step)

end
