(* ===== verification/Wal_Module.thy ===== *)
theory Wal_Module
  imports Wal_Properties
begin

text \<open>
  Loading and unloading of the WAL driver: the initialisation ladders with their error labels,
  the cleanup functions, and the statistics file of the proc file system.  A ledger holds the
  kernel resources that the module owns; releasing one that it does not own is a fault.  The
  results of the kernel calls are a record of arguments.  Kernels from 5.9 on allocate the queue of
  the block device with its disk; for older ones the driver makes it first, with a label of its own
  on the error path.  Which code was compiled is an argument.
\<close>

section \<open>Resources and pointers\<close>

datatype wal_res = RRegion | RCdev | RClass | RDevice | RStorage | RQueue | RDisk | RMajor | RAdded | RProc

text \<open>A pointer as \<open>IS_ERR\<close> and the tests for null see it.\<close>

datatype kptr = PNull | PErr errno | PValid

record wal_module =
  char_class :: kptr
  char_device :: kptr
  block_disk :: bool
  block_queue :: bool
  disk_major :: nat
  data_ptr :: bool
  proc_entry :: bool
  held :: "wal_res set"
  mod_status :: wal_status
  mod_msgs :: "wal_msg list"

record wal_env =
  e_region :: ret
  e_cdev :: ret
  e_class :: ret
  e_device :: ret
  e_vzalloc :: bool
  e_old :: bool
  e_queue :: bool
  e_disk :: bool
  e_major :: "errno + nat"
  e_add_disk :: ret
  e_proc :: bool

definition acquire :: "wal_res \<Rightarrow> wal_module \<Rightarrow> wal_module" where
  "acquire r m = m\<lparr>held := insert r (held m)\<rparr>"

definition release :: "wal_res \<Rightarrow> wal_module \<Rightarrow> wal_module kres" where
  "release r m = kguard UseAfterFree (r \<in> held m) (Inr (m\<lparr>held := held m - {r}\<rparr>))"

definition ptr_of :: "ret \<Rightarrow> kptr" where
  "ptr_of r = (case r of None \<Rightarrow> PValid | Some e \<Rightarrow> PErr e)"

section \<open>Character device\<close>

definition fail_cdev_add :: "errno \<Rightarrow> wal_module \<Rightarrow> (ret \<times> wal_module) kres" where
  "fail_cdev_add e m = kbind (release RRegion m) (\<lambda>m'. Inr (Some e, m'))"

definition fail_class_create :: "errno \<Rightarrow> wal_module \<Rightarrow> (ret \<times> wal_module) kres" where
  "fail_class_create e m = kbind (release RCdev m) (fail_cdev_add e)"

definition fail_device_create :: "errno \<Rightarrow> wal_module \<Rightarrow> (ret \<times> wal_module) kres" where
  "fail_device_create e m = kbind (release RClass m) (fail_class_create e)"

definition wal_driver_init_char_device :: "wal_env \<Rightarrow> wal_module \<Rightarrow> (ret \<times> wal_module) kres" where
  "wal_driver_init_char_device env m =
     (case e_region env of
        Some e \<Rightarrow> Inr (Some e, m)
      | None \<Rightarrow> let m1 = acquire RRegion m in
          (case e_cdev env of
             Some e \<Rightarrow> fail_cdev_add e m1
           | None \<Rightarrow> let m2 = (acquire RCdev m1)\<lparr>char_class := ptr_of (e_class env)\<rparr> in
               (case e_class env of
                  Some e \<Rightarrow> fail_class_create e m2
                | None \<Rightarrow> let m3 = (acquire RClass m2)\<lparr>char_device := ptr_of (e_device env)\<rparr> in
                    (case e_device env of
                       Some e \<Rightarrow> fail_device_create e m3
                     | None \<Rightarrow> Inr (None, acquire RDevice m3)))))"

definition wal_driver_cleanup_char_device :: "wal_module \<Rightarrow> wal_module kres" where
  "wal_driver_cleanup_char_device m =
     kbind (if char_device m \<noteq> PNull then release RDevice m else Inr m) (\<lambda>m1.
     kbind (if char_class m1 \<noteq> PNull then release RClass m1 else Inr m1) (\<lambda>m2.
     kbind (release RCdev m2) (release RRegion)))"

section \<open>Block device\<close>

definition fail_queue :: "errno \<Rightarrow> wal_module \<Rightarrow> (ret \<times> wal_module) kres" where
  "fail_queue e m = kbind (release RStorage m) (\<lambda>m'. Inr (Some e, m'))"

definition fail_disk :: "errno \<Rightarrow> wal_module \<Rightarrow> (ret \<times> wal_module) kres" where
  "fail_disk e m = kbind (release RQueue m) (fail_queue e)"

definition fail_register_blkdev :: "bool \<Rightarrow> errno \<Rightarrow> wal_module \<Rightarrow> (ret \<times> wal_module) kres" where
  "fail_register_blkdev old e m = kbind (release RDisk m) (if old then fail_disk e else fail_queue e)"

definition fail_add_disk :: "bool \<Rightarrow> errno \<Rightarrow> wal_module \<Rightarrow> (ret \<times> wal_module) kres" where
  "fail_add_disk old e m = kbind (release RMajor m) (fail_register_blkdev old e)"

text \<open>From the registration of the major number on.\<close>

definition register_disk :: "wal_env \<Rightarrow> wal_module \<Rightarrow> (ret \<times> wal_module) kres" where
  "register_disk env m =
     (case e_major env of
        Inl e \<Rightarrow> fail_register_blkdev (e_old env) e m
      | Inr major_num \<Rightarrow> let m1 = (acquire RMajor m)\<lparr>disk_major := major_num\<rparr> in
          (case e_add_disk env of
             Some e \<Rightarrow> fail_add_disk (e_old env) e m1
           | None \<Rightarrow> Inr (None, acquire RAdded m1)))"

definition wal_driver_init_block_device :: "wal_env \<Rightarrow> wal_module \<Rightarrow> (ret \<times> wal_module) kres" where
  "wal_driver_init_block_device env m =
     (let m0 = m\<lparr>data_ptr := e_vzalloc env\<rparr> in
      if \<not> e_vzalloc env then Inr (Some ENOMEM, m0)
      else let m1 = acquire RStorage m0 in
        if \<not> e_old env then
          let m2 = m1\<lparr>block_disk := e_disk env\<rparr> in
          if \<not> e_disk env then fail_queue ENOMEM m2
          else register_disk env ((acquire RDisk m2)\<lparr>block_queue := True\<rparr>)
        else
          let m2 = m1\<lparr>block_queue := e_queue env\<rparr> in
          if \<not> e_queue env then fail_queue ENOMEM m2
          else
            let m3 = (acquire RQueue m2)\<lparr>block_disk := e_disk env\<rparr> in
            if \<not> e_disk env then fail_disk ENOMEM m3
            else register_disk env (acquire RDisk m3))"

definition wal_driver_cleanup_block_device :: "bool \<Rightarrow> wal_module \<Rightarrow> wal_module kres" where
  "wal_driver_cleanup_block_device old m =
     (let major_num = (if block_disk m then disk_major m else 0) in
      kbind (if block_disk m then kbind (release RAdded m) (release RDisk) else Inr m) (\<lambda>m1.
      kbind (if major_num > 0 then release RMajor m1 else Inr m1) (\<lambda>m2.
      kbind (if old \<and> block_queue m2 then release RQueue m2 else Inr m2) (\<lambda>m3.
        if data_ptr m3 then release RStorage m3 else Inr m3))))"

section \<open>Entry points\<close>

text \<open>\<open>memset(&wal_global, 0)\<close>: null pointers, no statistics; what the kernel holds is unaffected.\<close>

definition wal_global_zero :: "wal_module \<Rightarrow> wal_module" where
  "wal_global_zero m =
     m\<lparr>char_class := PNull, char_device := PNull, block_disk := False, block_queue := False, disk_major := 0,
       data_ptr := False, proc_entry := False, mod_status := status_zero\<rparr>"

definition wal_driver_init :: "wal_env \<Rightarrow> wal_module \<Rightarrow> (ret \<times> wal_module) kres" where
  "wal_driver_init env m =
     (let m0 = (wal_global_zero m)\<lparr>mod_status := status_zero\<lparr>current_mode := WAL_MODE_NORMAL\<rparr>\<rparr> in
      kbind (wal_driver_init_char_device env m0) (\<lambda>(r, m1).
        case r of
          Some e \<Rightarrow> Inr (Some e, m1)
        | None \<Rightarrow>
            kbind (wal_driver_init_block_device env m1) (\<lambda>(r, m2).
              case r of
                Some e \<Rightarrow> kbind (wal_driver_cleanup_char_device m2) (\<lambda>m3. Inr (Some e, m3))
              | None \<Rightarrow> Inr (None, (if e_proc env then acquire RProc m2 else m2)
                                     \<lparr>proc_entry := e_proc env\<rparr>))))"

definition wal_driver_exit :: "bool \<Rightarrow> wal_module \<Rightarrow> wal_module kres" where
  "wal_driver_exit old m =
     kbind (if proc_entry m then release RProc m else Inr m) (\<lambda>m1.
     kbind (wal_driver_cleanup_block_device old m1) (\<lambda>m2.
     kbind (wal_driver_cleanup_char_device m2) (\<lambda>m3.
       Inr (m3\<lparr>mod_msgs := mod_msgs m3 @ [Stats_report (mod_status m3)]\<rparr>))))"

section \<open>The proc file\<close>

definition wal_proc_show :: "wal_status \<Rightarrow> string list" where
  "wal_proc_show st =
     [''WAL Driver Statistics'',
      ''====================='',
      ''Character device reads:  '' @ dec (unat (char_read_count st)),
      ''Character device writes: '' @ dec (unat (char_write_count st)),
      ''Block device reads:      '' @ dec (unat (block_read_count st)),
      ''Block device writes:     '' @ dec (unat (block_write_count st)),
      ''Total bytes read:        '' @ dec (unat (total_bytes_read st)),
      ''Total bytes written:     '' @ dec (unat (total_bytes_written st)),
      ''Current mode:            '' @ dec_int (sint (current_mode st))]"

text \<open>\<open>single_open\<close> is the kernel's: it makes the file show what the given function prints.\<close>

definition wal_proc_open :: "((wal_status \<Rightarrow> string list) \<Rightarrow> 'f \<Rightarrow> ret \<times> 'f) \<Rightarrow> 'f \<Rightarrow> ret \<times> 'f" where
  "wal_proc_open single_open file = single_open wal_proc_show file"

lemmas wal_ladder = wal_driver_init_def wal_driver_init_char_device_def wal_driver_init_block_device_def
  wal_driver_cleanup_char_device_def wal_driver_cleanup_block_device_def wal_driver_exit_def
  fail_cdev_add_def fail_class_create_def fail_device_create_def fail_queue_def fail_disk_def register_disk_def
  fail_register_blkdev_def fail_add_disk_def acquire_def release_def ptr_of_def wal_global_zero_def

end
