(* ===== verification/Wal_Theorems.thy ===== *)
theory Wal_Theorems
  imports Wal_Module
begin

text \<open>The properties of the WAL driver, with the concrete states that exercise them.\<close>

definition ex_wal :: wal_global where
  "ex_wal = \<lparr>w_status = status_zero, block_data = replicate WAL_CAP 0, wal_log = []\<rparr>"

definition ex_env :: wal_env where
  "ex_env = \<lparr>e_region = None, e_cdev = None, e_class = None, e_device = None, e_vzalloc = True,
     e_old = False, e_queue = True, e_disk = True, e_major = Inr 251, e_add_disk = Some ENOMEM, e_proc = True\<rparr>"

definition ex_wal_module :: wal_module where
  "ex_wal_module = \<lparr>char_class = PNull, char_device = PNull, block_disk = False, block_queue = False, disk_major = 0,
     data_ptr = False, proc_entry = False, held = {}, mod_status = status_zero, mod_msgs = []\<rparr>"

definition wal_all :: "bool \<Rightarrow> wal_res set" where
  "wal_all old = (if old then {RQueue} else {}) \<union> {RRegion, RCdev, RClass, RDevice, RStorage, RDisk, RMajor, RAdded}"

lemma ex_wal_ok: "wal_ok ex_wal" "length (block_data ex_wal) = WAL_CAP"
  by (simp_all add: wal_ok_def ex_wal_def status_zero_def)

section \<open>Block device\<close>

text \<open>C16. A bio inside the device acts like one transfer on a flat byte array, however it is segmented: a write
  stores its bytes at the sector's offset; a read fills every segment with the repeated message
  and stores the same bytes; nothing else changes but the counters, which count segments and bytes.\<close>

theorem wal_bio_refines_flat:
  assumes "length (block_data w) = WAL_CAP" and "unat sector * 512 + length (concat bufs) \<le> WAL_CAP"
  shows "\<exists>w'. wal_block_submit_bio write sector bufs w = Inr (map (seg_out write) bufs, w') \<and>
     block_data w' = splice (block_data w) (unat sector * 512) (concat (map (seg_out write) bufs)) \<and>
     w_status w' = wal_count write (length bufs) (length (concat bufs)) (w_status w)"
proof -
  have off: "unat (sector * of_nat WAL_BLOCK_SIZE) = unat sector * 512"
    using assms(2) by (intro sector_offset) (simp add: WAL_CAP_eq)
  define w1 where "w1 = (if mode_of w \<noteq> WAL_MODE_QUIET
    then wlog [Blk_request write sector (of_nat (length (concat bufs)))] w else w)"
  have same: "block_data w1 = block_data w" "w_status w1 = w_status w" by (simp_all add: w1_def)
  have run: "wal_block_submit_bio write sector bufs w = wal_segments write (sector * of_nat WAL_BLOCK_SIZE) bufs w1"
    by (simp add: wal_block_submit_bio_def w1_def Let_def)
  from wal_segments_flat [of w1 "sector * of_nat WAL_BLOCK_SIZE" bufs "write"] assms
  obtain l where "wal_segments write (sector * of_nat WAL_BLOCK_SIZE) bufs w1 = Inr (map (seg_out write) bufs,
      w1\<lparr>w_status := wal_count write (length bufs) (length (concat bufs)) (w_status w1),
         block_data := splice (block_data w1) (unat sector * 512) (concat (map (seg_out write) bufs)),
         wal_log := l\<rparr>)"
    unfolding off same by blast
  then show ?thesis unfolding run by (simp add: same)
qed

theorem wal_bio_refines_flat_witness:
  "\<exists>w'. wal_block_submit_bio True 3 [[1, 2], [3]] ex_wal = Inr ([[1, 2], [3]], w') \<and>
     block_data w' = splice (block_data ex_wal) 1536 [1, 2, 3]"
  using wal_bio_refines_flat [of ex_wal 3 "[[1, 2], [3]]" True]
  by (auto simp: ex_wal_ok WAL_CAP_eq seg_out_def)

text \<open>Out of range transfers are dropped, not faults, as long as sector and size do not wrap around
  \<open>2 ^ 64\<close>: the read still returns the message in every segment and the storage keeps its size.\<close>

theorem wal_bio_never_faults:
  assumes "length (block_data w) = WAL_CAP" and "unat sector * 512 + length (concat bufs) < 2 ^ 64"
  shows "\<exists>w'. wal_block_submit_bio write sector bufs w = Inr (map (seg_out write) bufs, w') \<and>
           length (block_data w') = WAL_CAP"
proof -
  have off: "unat (sector * of_nat WAL_BLOCK_SIZE) = unat sector * 512"
    using assms(2) by (intro sector_offset) simp
  define w1 where "w1 = (if mode_of w \<noteq> WAL_MODE_QUIET
    then wlog [Blk_request write sector (of_nat (length (concat bufs)))] w else w)"
  have "length (block_data w1) = WAL_CAP" using assms(1) by (simp add: w1_def)
  moreover have "unat (sector * of_nat WAL_BLOCK_SIZE) + length (concat bufs) < 2 ^ 64"
    using assms(2) by (simp only: off)
  moreover have "wal_block_submit_bio write sector bufs w =
      wal_segments write (sector * of_nat WAL_BLOCK_SIZE) bufs w1"
    by (simp add: wal_block_submit_bio_def w1_def Let_def)
  ultimately show ?thesis using wal_segments_nowrap by metis
qed

theorem wal_bio_never_faults_witness:
  "\<exists>w'. wal_block_submit_bio False 5000 [[0, 0]] ex_wal = Inr ([[72, 101]], w')"
  using wal_bio_never_faults [of ex_wal 5000 "[[0, 0]]" False]
  by (auto simp: ex_wal_ok seg_out_def wal_pattern_def WAL_RESPONSE_MSG_eq WAL_RESPONSE_LEN_def upt_rec)

text \<open>The storage guard adds offset and length in 64 bits without an overflow test: at the last sector
  number whose offset does not wrap, the sum does, the guard passes, and the copy starts half a
  kilobyte below the end of the address space instead of inside the device.\<close>

theorem wal_store_guard_wraps:
  assumes "length (block_data w) = WAL_CAP"
  shows "wal_block_submit_bio True (2 ^ 55 - 1) [replicate 512 b] w = Inl OutOfBounds"
  using assms
  by (simp add: wal_block_submit_bio_def wal_segment_def wal_store_def mem_write_def WAL_BLOCK_SIZE_def
      WAL_BLOCK_SECTORS_def WAL_CAP_eq Let_def)

theorem wal_store_guard_wraps_witness:
  "wal_block_submit_bio True (2 ^ 55 - 1) [replicate 512 1] ex_wal = Inl OutOfBounds"
  by (rule wal_store_guard_wraps [OF ex_wal_ok(2)])

text \<open>The copy loop that fills a buffer terminates and leaves, at every index, the byte of the message at
  that index modulo fifteen, whatever the buffer held.\<close>

theorem wal_fill_is_pattern:
  "wal_fill (length buf) 0 buf = map (\<lambda>i. WAL_RESPONSE_MSG ! (i mod 15)) [0..<length buf]"
  using wal_fill_pattern [of buf] by (simp add: wal_pattern_def WAL_RESPONSE_LEN_def)

text \<open>Transfers of one buffer as bios, one after the other.\<close>

fun submit_all ::
  "(bool \<times> u64 \<times> byte list) list \<Rightarrow> wal_global \<Rightarrow> (byte list list \<times> wal_global) kres" where
  "submit_all [] w = Inr ([], w)"
| "submit_all ((write, sector, buf) # q) w =
     kbind (wal_block_submit_bio write sector [buf] w) (\<lambda>(bufs, w1).
     kbind (submit_all q w1) (\<lambda>(bufs', w'). Inr (bufs @ bufs', w')))"

definition one_buffer :: "bool \<times> u64 \<times> byte list \<Rightarrow> wal_request" where
  "one_buffer t = (case t of (write, sector, buf) \<Rightarrow>
     \<lparr>rq_fs = True, rq_write = write, rq_pos = sector, rq_segs = [buf]\<rparr>)"

text \<open>One transfer, from states that differ in their log only.\<close>

lemma one_transfer:
  assumes "block_data v = block_data w" and "w_status v = w_status w"
  shows "map_sum id (\<lambda>(bufs, w'). (bufs, block_data w', w_status w')) (wal_block_submit_bio write sector [buf] v) =
    map_sum id (\<lambda>(bufs, w'). (bufs, block_data w', w_status w')) (wal_one_request (one_buffer (write, sector, buf)) w)"
proof -
  have c: "(ucast (of_nat (length buf) :: u64) :: u32) = of_nat (length buf)"
    by (simp add: unsigned_of_nat word_of_nat_eq_iff)
  have st: "wal_store off b (u\<lparr>wal_log := l\<rparr>) = map_sum id (\<lambda>v. v\<lparr>wal_log := l\<rparr>) (wal_store off b u)" for off b l u
    by (simp add: wal_store_def mem_write_def)
  have v: "v = w\<lparr>wal_log := wal_log v\<rparr>" using assms by simp
  have f: "length (wal_fill (length buf) 0 buf) = length buf" by (simp add: wal_fill_pattern)
  show ?thesis
    by (subst v, cases "wal_store (sector * of_nat WAL_BLOCK_SIZE) (if write then buf else wal_fill (length buf) 0 buf) w")
      (auto simp: wal_block_submit_bio_def wal_segment_def wal_one_request_def one_buffer_def bio_data_def Let_def st c f kguard_def)
qed

text \<open>C37. The request function for old kernels and the bio function agree on transfers of one buffer each: it ends
  all file-system requests of a queue without error and leaves the same buffers, storage and statistics as
  the bios submitted one after the other, or both fault.\<close>

theorem wal_request_equals_bio:
  "map_sum id (\<lambda>(bufs, w'). (map (\<lambda>buf. (None, [buf])) bufs, block_data w', w_status w')) (submit_all q w) =
   map_sum id (\<lambda>(rs, w'). (rs, block_data w', w_status w')) (wal_block_request (map one_buffer q) w)"
proof -
  have "map_sum id (\<lambda>(bufs, w'). (map (\<lambda>buf. (None, [buf])) bufs, block_data w', w_status w')) (submit_all q v) =
   map_sum id (\<lambda>(rs, w'). (rs, block_data w', w_status w')) (wal_block_request (map one_buffer q) w)"
    if "block_data v = block_data w" "w_status v = w_status w" for v w
    using that
  proof (induction q arbitrary: v w)
    case (Cons t q)
    obtain wr sector buf where t: "t = (wr, sector, buf)" by (cases t)
    note o = one_transfer [OF Cons.prems, of wr sector buf]
    have fs: "rq_fs (one_buffer x)" for x by (simp add: one_buffer_def split: prod.split)
    show ?case
    proof (cases "wal_block_submit_bio wr sector [buf] v")
      case (Inl e)
      with o have "wal_one_request (one_buffer t) w = Inl e" by (cases "wal_one_request (one_buffer t) w") (auto simp: t)
      with Inl show ?thesis by (simp add: t fs)
    next
      case (Inr x)
      then obtain bufs v1 where v1: "wal_block_submit_bio wr sector [buf] v = Inr (bufs, v1)" by (cases x) simp
      with o obtain w1 where w1: "wal_one_request (one_buffer t) w = Inr (bufs, w1)"
        "block_data v1 = block_data w1" "w_status v1 = w_status w1"
        by (cases "wal_one_request (one_buffer t) w") (auto simp: t)
      from v1 obtain b where "bufs = [b]"
        by (auto simp: wal_block_submit_bio_def kres_simps)
      with v1 w1 Cons.IH [OF w1(2,3)] show ?thesis
        by (cases "submit_all q v1"; cases "wal_block_request (map one_buffer q) w1") (auto simp: t fs)
    qed
  qed simp
  then show ?thesis by simp
qed



section \<open>Character device\<close>

text \<open>Reading the character device: any sequence of reads from position zero delivers the message
  \<open>Hello from WAL\<close> and its newline in order, without gaps or repeats, and then end of file.\<close>

theorem char_reads_deliver_message:
  "fst (read_seq counts 0 w) = take (sum_list (map unat counts)) WAL_RESPONSE_MSG"
proof -
  have "take (min k WAL_RESPONSE_LEN) WAL_RESPONSE_MSG = take k WAL_RESPONSE_MSG" for k
    using take_take [of k WAL_RESPONSE_LEN WAL_RESPONSE_MSG] by (simp add: take_all)
  then show ?thesis using read_seq_stream [of 0 counts w] by (simp add: slice_def)
qed

text \<open>A write consumes at most one page: it reports how much it took, advances the position by that much and
  adds one write and the same number of bytes to the 32-bit statistics; in quiet mode neither
  reads, writes nor block transfers inside the device add to the kernel log.\<close>

theorem char_write_accounting:
  "case wal_char_write ip is True True user count pos w of (r, pos', w') \<Rightarrow>
     r = Inr (min count 4096) \<and> pos' = pos + min count 4096 \<and>
     w_status w' = (w_status w)\<lparr>char_write_count := char_write_count (w_status w) + 1,
       total_bytes_written := total_bytes_written (w_status w) + ucast (min count 4096)\<rparr> \<and>
     block_data w' = block_data w \<and> (mode_of w = WAL_MODE_QUIET \<longrightarrow> wal_log w' = wal_log w)"
  by (simp add: wal_char_write_def Let_def PAGE_SIZE_def)

text \<open>Whatever calls arrive in whatever order (reads, writes, ioctl commands with any command word and
  argument, bios, request queues, the exported functions), the mode stays one of the three
  defined values and the storage keeps its size.\<close>

theorem wal_call_histories:
  "wal_ok w \<Longrightarrow> wal_ok (fold (wal_step ip is) es w)"
  by (rule wal_calls.inv_run)

theorem wal_call_histories_witness:
  "wal_ok (fold (wal_step (\<lambda>_. True) (\<lambda>_. False))
     [CIoctl (Some 7) True WAL_IOC_SET_MODE, CSetMode 2, CRead True 4 0] ex_wal)"
  by (rule wal_call_histories [OF ex_wal_ok(1)])

text \<open>The mode set through \<open>WAL_IOC_SET_MODE\<close> is the mode that \<open>WAL_IOC_GET_STATUS\<close> reports; a value that is not a mode
  is refused and changes nothing.\<close>

theorem mode_round_trip:
  "case wal_char_ioctl (Some m) True WAL_IOC_SET_MODE w of (r, _, w') \<Rightarrow>
     (if m \<le> 2 then r = None \<and> wal_char_ioctl None True WAL_IOC_GET_STATUS w' =
           (None, Some ((w_status w)\<lparr>current_mode := m\<rparr>), w')
      else r = Some EINVAL \<and> w' = w)"
  by (auto simp: wal_char_ioctl_def WAL_IOC_SET_MODE_def WAL_IOC_GET_STATUS_def WAL_IOC_RESET_def
      WAL_IOC_MAGIC_def WAL_IOC_MAXNR_def IOC_def IOC_TYPE_def IOC_NR_def mode_defs linorder_not_less)

section \<open>Loading, unloading, statistics\<close>

text \<open>All calls of the set-up succeed.\<close>

definition wal_env_ok :: "wal_env \<Rightarrow> bool" where
  "wal_env_ok env \<longleftrightarrow> e_region env = None \<and> e_cdev env = None \<and> e_class env = None \<and> e_device env = None \<and>
     e_vzalloc env \<and> (e_old env \<longrightarrow> e_queue env) \<and> e_disk env \<and> (\<exists>n. e_major env = Inr n) \<and> e_add_disk env = None"

lemma wal_init_success:
  assumes "wal_env_ok env" and "e_major env = Inr n" and "held m = {}"
  shows "\<exists>m1. wal_driver_init env m = Inr (None, m1) \<and> char_class m1 = PValid \<and> char_device m1 = PValid \<and>
     block_disk m1 \<and> block_queue m1 \<and> disk_major m1 = n \<and> data_ptr m1 \<and>
     held m1 = (if proc_entry m1 then insert RProc (wal_all (e_old env)) else wal_all (e_old env))"
proof -
  let ?m1 = "m\<lparr>char_class := PValid, char_device := PValid, block_disk := True, block_queue := True, disk_major := n,
    data_ptr := True, proc_entry := e_proc env, mod_status := status_zero\<lparr>current_mode := WAL_MODE_NORMAL\<rparr>,
    held := (if e_proc env then insert RProc (wal_all (e_old env)) else wal_all (e_old env))\<rparr>"
  have "wal_driver_init env m = Inr (None, ?m1)"
    using assms by (auto simp: wal_env_ok_def wal_ladder wal_all_def insert_commute)
  then show ?thesis by auto
qed

lemma wal_char_success:
  assumes "e_region env = None" "e_cdev env = None" "e_class env = None" "e_device env = None" and "held m = {}"
  shows "wal_driver_init_char_device env m =
    Inr (None, m\<lparr>char_class := PValid, char_device := PValid, held := {RRegion, RCdev, RClass, RDevice}\<rparr>)"
  using assms by (simp add: wal_ladder insert_commute)

lemma register_disk_failure:
  assumes "\<not> ((\<exists>n. e_major env = Inr n) \<and> e_add_disk env = None)" and "held m = insert RDisk H"
    and "H = (if e_old env then {RQueue} else {}) \<union> {RStorage, RRegion, RCdev, RClass, RDevice}"
  shows "\<exists>e m1. register_disk env m = Inr (Some e, m1) \<and> held m1 = {RRegion, RCdev, RClass, RDevice} \<and>
    char_class m1 = char_class m \<and> char_device m1 = char_device m"
  using assms by (cases "e_old env"; cases "e_major env"; cases "e_add_disk env") (auto simp: wal_ladder)

lemma wal_block_failure:
  assumes "\<not> (e_vzalloc env \<and> (e_old env \<longrightarrow> e_queue env) \<and> e_disk env \<and> (\<exists>n. e_major env = Inr n) \<and> e_add_disk env = None)"
    and "held m = {RRegion, RCdev, RClass, RDevice}"
  shows "\<exists>e m1. wal_driver_init_block_device env m = Inr (Some e, m1) \<and> held m1 = held m \<and>
    char_class m1 = char_class m \<and> char_device m1 = char_device m"
proof (cases "e_vzalloc env \<and> (e_old env \<longrightarrow> e_queue env) \<and> e_disk env")
  case True
  let ?m = "(acquire RStorage (m\<lparr>data_ptr := True\<rparr>))\<lparr>block_queue := True, block_disk := True\<rparr>"
  let ?m1 = "if e_old env then acquire RDisk (acquire RQueue ?m) else acquire RDisk ?m"
  have "wal_driver_init_block_device env m = register_disk env ?m1"
    using True by (cases m) (auto simp: wal_driver_init_block_device_def acquire_def Let_def)
  moreover have "\<exists>e m1. register_disk env ?m1 = Inr (Some e, m1) \<and> held m1 = {RRegion, RCdev, RClass, RDevice} \<and>
    char_class m1 = char_class ?m1 \<and> char_device m1 = char_device ?m1"
    by (rule register_disk_failure [OF _ _ refl]) (use True assms in \<open>auto simp: acquire_def\<close>)
  ultimately show ?thesis using assms(2) by (simp add: acquire_def split: if_splits)
qed (use assms(2) in \<open>auto simp: wal_driver_init_block_device_def fail_queue_def fail_disk_def acquire_def release_def Let_def\<close>)

lemma wal_init_failure:
  assumes "held m = {}" and "\<not> wal_env_ok env"
  shows "\<exists>e m1. wal_driver_init env m = Inr (Some e, m1) \<and> held m1 = {}"
proof -
  consider "e_region env \<noteq> None" | "e_region env = None" "e_cdev env \<noteq> None"
    | "e_region env = None" "e_cdev env = None" "e_class env \<noteq> None"
    | "e_region env = None" "e_cdev env = None" "e_class env = None" "e_device env \<noteq> None"
    | (blk) "e_region env = None" "e_cdev env = None" "e_class env = None" "e_device env = None"
    by blast
  then show ?thesis
  proof cases
    case blk
    let ?m0 = "(wal_global_zero m)\<lparr>mod_status := status_zero\<lparr>current_mode := WAL_MODE_NORMAL\<rparr>\<rparr>"
    let ?m1 = "?m0\<lparr>char_class := PValid, char_device := PValid, held := {RRegion, RCdev, RClass, RDevice}\<rparr>"
    have c: "wal_driver_init_char_device env ?m0 = Inr (None, ?m1)"
      using wal_char_success [OF blk, of ?m0] assms(1) by (simp add: wal_global_zero_def)
    from wal_block_failure [of env ?m1] blk assms(2) obtain e m2 where
      "wal_driver_init_block_device env ?m1 = Inr (Some e, m2)" "held m2 = {RRegion, RCdev, RClass, RDevice}"
      "char_class m2 = PValid" "char_device m2 = PValid" by (auto simp: wal_env_ok_def)
    with c show ?thesis by (auto simp: wal_driver_init_def Let_def wal_driver_cleanup_char_device_def release_def kguard_def)
  qed (use assms(1) in \<open>auto simp: wal_ladder\<close>)
qed

lemma wal_exit_releases:
  assumes "char_class m = PValid" "char_device m = PValid" "block_disk m" "block_queue m" "disk_major m = n" "data_ptr m"
    and "held m = (if proc_entry m then insert RProc (wal_all old) else wal_all old)" and "0 < n"
  shows "\<exists>m2. wal_driver_exit old m = Inr m2 \<and> held m2 = {}"
  using assms by (cases "proc_entry m"; cases old) (auto simp: wal_ladder wal_all_def)

text \<open>C36. Loading the driver gives back every resource on every failure path, and after a successful load,
  unloading gives back everything: nothing is leaked and nothing is released twice, for any
  results of the kernel calls (\<open>register_blkdev\<close> assigns a positive major number) and for both
  ways of making the queue of the block device.\<close>

theorem wal_load_unload:
  assumes "held m = {}" and "\<And>n. e_major env = Inr n \<Longrightarrow> 0 < n"
  shows "\<exists>r m1. wal_driver_init env m = Inr (r, m1) \<and>
     (r \<noteq> None \<longrightarrow> held m1 = {}) \<and>
     (r = None \<longrightarrow> {RRegion, RCdev, RClass, RDevice, RStorage, RDisk, RMajor, RAdded} \<subseteq> held m1 \<and>
        (RQueue \<in> held m1 \<longleftrightarrow> e_old env) \<and> (\<exists>m2. wal_driver_exit (e_old env) m1 = Inr m2 \<and> held m2 = {}))"
proof (cases "wal_env_ok env")
  case True
  then obtain n where n: "e_major env = Inr n" by (auto simp: wal_env_ok_def)
  from wal_init_success [OF True n assms(1)] obtain m1 where m1: "wal_driver_init env m = Inr (None, m1)"
    "char_class m1 = PValid" "char_device m1 = PValid" "block_disk m1" "block_queue m1" "disk_major m1 = n" "data_ptr m1"
    "held m1 = (if proc_entry m1 then insert RProc (wal_all (e_old env)) else wal_all (e_old env))" by blast
  from wal_exit_releases [OF m1(2-8)] assms(2) [OF n] m1(1,8) show ?thesis by (auto simp: wal_all_def)
next
  case False
  from wal_init_failure [OF assms(1) this] show ?thesis by auto
qed

theorem wal_load_unload_witness:
  "\<exists>r m1. wal_driver_init ex_env ex_wal_module = Inr (r, m1) \<and> r \<noteq> None \<and> held m1 = {}"
proof -
  have "\<exists>m1. wal_driver_init ex_env ex_wal_module = Inr (Some ENOMEM, m1)"
    by (auto simp: wal_ladder ex_env_def ex_wal_module_def)
  with wal_load_unload [of ex_wal_module ex_env] show ?thesis
    by (auto simp: ex_env_def ex_wal_module_def)
qed

text \<open>The statistics file is readable back: the digits after each label are the decimal value of the counter.\<close>

theorem proc_show_counters:
  "map (\<lambda>line. undec (drop 25 line)) (take 6 (drop 2 (wal_proc_show st))) =
     map unat [char_read_count st, char_write_count st, block_read_count st, block_write_count st,
               total_bytes_read st, total_bytes_written st]"
  by (simp add: wal_proc_show_def)

end
