(* ===== verification/Wal_Threads.thy ===== *)
theory Wal_Threads
  imports Lock_Objects Wal_Theorems
begin

text \<open>
  Calls of the WAL driver as threads.  Any number of processes read, write and control the character
  device, read the proc file and submit bios at the same time; what they share, the status and the storage, is behind
  \<open>status_mutex\<close>.  A call is cut where it takes and gives back the mutex, and inside its critical
  section where it may sleep (the copies from and to user space) and between the segments of
  a bio.  Memory that a call touches under the mutex (the buffer of the user, or pages that an allocation
  reclaims) may lead back into the driver, which then waits for the mutex that the call itself holds; \<open>re\<close> says of which
  calls this holds.  \<open>WAL_IOC_GET_STATUS\<close> copies its reply to user space after it has given the mutex back.
  On kernels before 5.9 each request that the queue function fetches is a critical section of its own.
  \<open>wal_driver_print_stats\<close> is not a call here: it prints after it has given the mutex back.
\<close>

section \<open>Calls\<close>

datatype wal_op =
    Op_open
  | Op_read bool u64 u64
  | Op_write bool bool "byte list" u64 u64
  | Op_ioctl "u32 option" bool u32
  | Op_bio bool u64 "byte list list"
  | Op_request wal_request
  | Op_reset
  | Op_mode u32
  | Op_proc

datatype wal_reply =
    Ret_read "errno + byte list" u64
  | Ret_write "errno + u64" u64
  | Ret_ioctl ret "wal_status option"
  | Ret_bufs "byte list list"
  | Ret_code ret
  | Ret_text "string list"

text \<open>A call from beginning to end.\<close>

fun wal_do :: "(byte \<Rightarrow> bool) \<Rightarrow> (byte \<Rightarrow> bool) \<Rightarrow> wal_op \<Rightarrow> wal_global \<Rightarrow> (wal_reply \<times> wal_global) kres" where
  "wal_do ip is Op_open w = (case wal_char_open w of (r, w') \<Rightarrow> Inr (Ret_code r, w'))"
| "wal_do ip is (Op_read ok n pos) w = (case wal_char_read ok n pos w of (r, p, w') \<Rightarrow> Inr (Ret_read r p, w'))"
| "wal_do ip is (Op_write mem ok user n pos) w =
     (case wal_char_write ip is mem ok user n pos w of (r, p, w') \<Rightarrow> Inr (Ret_write r p, w'))"
| "wal_do ip is (Op_ioctl from ok cmd) w = (case wal_char_ioctl from ok cmd w of (r, st, w') \<Rightarrow> Inr (Ret_ioctl r st, w'))"
| "wal_do ip is (Op_bio wr sector bufs) w =
     kbind (wal_block_submit_bio wr sector bufs w) (\<lambda>(bufs', w'). Inr (Ret_bufs bufs', w'))"
| "wal_do ip is (Op_request req) w = kbind (wal_one_request req w) (\<lambda>(segs, w'). Inr (Ret_bufs segs, w'))"
| "wal_do ip is Op_reset w = Inr (Ret_code None, wal_driver_reset_stats w)"
| "wal_do ip is (Op_mode m) w = (case wal_driver_set_mode m w of (r, w') \<Rightarrow> Inr (Ret_code r, w'))"
| "wal_do ip is Op_proc w = Inr (Ret_text (wal_proc_show (w_status w)), w)"

section \<open>Threads\<close>

record wt_state =
  wt_global :: wal_global
  status_mutex :: bool

datatype wal_pc =
    Wt_start wal_op
  | Wt_lock wal_op
  | Wt_in wal_op
  | Wt_to_user wal_op bool u64 u64
  | Wt_from_user wal_op bool "byte list" u64 u64
  | Wt_segs wal_op bool u64 "byte list list" "byte list list"
  | Wt_unlock wal_op wal_reply
  | Wt_copied wal_op wal_status
  | Wt_user wal_op wal_status
  | Wt_done wal_op wal_reply

text \<open>What a call does before it asks for the mutex: the tests that let it return at once.\<close>

fun wt_enter :: "wal_op \<Rightarrow> wal_pc" where
  "wt_enter (Op_ioctl from ok cmd) =
     (if IOC_TYPE cmd \<noteq> WAL_IOC_MAGIC \<or> IOC_NR cmd > WAL_IOC_MAXNR
      then Wt_done (Op_ioctl from ok cmd) (Ret_ioctl (Some ENOTTY) None) else Wt_lock (Op_ioctl from ok cmd))"
| "wt_enter (Op_mode m) =
     (if m < WAL_MODE_NORMAL \<or> m > WAL_MODE_QUIET then Wt_done (Op_mode m) (Ret_code (Some EINVAL)) else Wt_lock (Op_mode m))"
| "wt_enter c = Wt_lock c"

text \<open>A read up to the copy to user space, and from there on.\<close>

definition read_enter :: "bool \<Rightarrow> u64 \<Rightarrow> u64 \<Rightarrow> wal_global \<Rightarrow> wal_pc \<times> wal_global" where
  "read_enter ok n pos w =
     (let c = Op_read ok n pos; w1 = (if mode_of w \<noteq> WAL_MODE_QUIET then wlog [Char_read n pos] w else w)
      in (if pos \<ge> of_nat WAL_RESPONSE_LEN then Wt_unlock c (Ret_read (Inr []) pos) else Wt_to_user c ok n pos, w1))"

definition read_copy :: "bool \<Rightarrow> u64 \<Rightarrow> u64 \<Rightarrow> wal_global \<Rightarrow> wal_reply \<times> wal_global" where
  "read_copy ok n pos w =
     (let to_copy = min n (of_nat WAL_RESPONSE_LEN - pos);
          out = slice WAL_RESPONSE_MSG (unat pos) (unat to_copy)
      in if \<not> ok then (Ret_read (Inl EFAULT) pos, w)
         else
           let st = w_status w;
               w1 = w\<lparr>w_status := st\<lparr>char_read_count := char_read_count st + 1,
                        total_bytes_read := total_bytes_read st + ucast to_copy\<rparr>\<rparr>
           in (Ret_read (Inr out) (pos + to_copy),
               if mode_of w1 = WAL_MODE_DEBUG then wlog [Char_returned out] w1 else w1))"

text \<open>A write up to the copy from user space, and from there on.\<close>

definition write_enter :: "bool \<Rightarrow> bool \<Rightarrow> byte list \<Rightarrow> u64 \<Rightarrow> u64 \<Rightarrow> wal_global \<Rightarrow> wal_pc \<times> wal_global" where
  "write_enter mem ok user n pos w =
     (let c = Op_write mem ok user n pos;
          w1 = (if mode_of w \<noteq> WAL_MODE_QUIET then wlog [Char_write n pos] w else w)
      in (if \<not> mem then Wt_unlock c (Ret_write (Inl ENOMEM) pos) else Wt_from_user c ok user n pos, w1))"

definition write_copy ::
  "(byte \<Rightarrow> bool) \<Rightarrow> (byte \<Rightarrow> bool) \<Rightarrow> bool \<Rightarrow> byte list \<Rightarrow> u64 \<Rightarrow> u64 \<Rightarrow> wal_global \<Rightarrow> wal_reply \<times> wal_global" where
  "write_copy ip is ok user n pos w =
     (let actual_count = min n (of_nat PAGE_SIZE)
      in if \<not> ok then (Ret_write (Inl EFAULT) pos, w)
         else
           let buf = take (unat actual_count) user;
               st = w_status w;
               w1 = w\<lparr>w_status := st\<lparr>char_write_count := char_write_count st + 1,
                        total_bytes_written := total_bytes_written st + ucast actual_count\<rparr>\<rparr>;
               is_printable = all_printable ip is buf
           in (Ret_write (Inr actual_count) (pos + actual_count),
               if mode_of w1 \<noteq> WAL_MODE_QUIET
               then wlog ([Captured actual_count] @
                      (if is_printable then [Text_data buf] else []) @
                      (if mode_of w1 = WAL_MODE_DEBUG \<or> \<not> is_printable
                       then [Hex_dump (take 64 buf) (actual_count > 64)] else [])) w1
               else w1))"

text \<open>The switch of an ioctl, under the mutex.\<close>

definition ioctl_locked :: "u32 option \<Rightarrow> bool \<Rightarrow> u32 \<Rightarrow> wal_global \<Rightarrow> wal_pc \<times> wal_global" where
  "ioctl_locked from ok cmd w =
     (let c = Op_ioctl from ok cmd; retval = (\<lambda>e. Wt_unlock c (Ret_ioctl e None))
      in if cmd = WAL_IOC_RESET then
           (retval None, (wlog [Stats_reset] w)\<lparr>w_status := status_zero\<lparr>current_mode := WAL_MODE_NORMAL\<rparr>\<rparr>)
         else if cmd = WAL_IOC_GET_STATUS then (Wt_copied c (w_status w), w)
         else if cmd = WAL_IOC_SET_MODE then
           (case from of
              None \<Rightarrow> (retval (Some EFAULT), w)
            | Some new_mode \<Rightarrow>
                if new_mode < WAL_MODE_NORMAL \<or> new_mode > WAL_MODE_QUIET then (retval (Some EINVAL), w)
                else (retval None, wlog [Mode_changed new_mode] (w\<lparr>w_status := (w_status w)\<lparr>current_mode := new_mode\<rparr>\<rparr>)))
         else (retval (Some ENOTTY), w))"

definition bio_enter :: "bool \<Rightarrow> u64 \<Rightarrow> byte list list \<Rightarrow> wal_global \<Rightarrow> wal_pc \<times> wal_global" where
  "bio_enter wr sector bufs w =
     (Wt_segs (Op_bio wr sector bufs) wr (sector * of_nat WAL_BLOCK_SIZE) [] bufs,
      if mode_of w \<noteq> WAL_MODE_QUIET then wlog [Blk_request wr sector (of_nat (length (concat bufs)))] w else w)"

text \<open>The first step under the mutex; the other calls are one short critical section.\<close>

fun wt_locked ::
  "(byte \<Rightarrow> bool) \<Rightarrow> (byte \<Rightarrow> bool) \<Rightarrow> wal_op \<Rightarrow> wal_global \<Rightarrow> (wal_pc \<times> wal_global) kres" where
  "wt_locked ip is (Op_read ok n pos) w = Inr (read_enter ok n pos w)"
| "wt_locked ip is (Op_write mem ok user n pos) w = Inr (write_enter mem ok user n pos w)"
| "wt_locked ip is (Op_ioctl from ok cmd) w = Inr (ioctl_locked from ok cmd w)"
| "wt_locked ip is (Op_bio wr sector bufs) w = Inr (bio_enter wr sector bufs w)"
| "wt_locked ip is c w = kbind (wal_do ip is c w) (\<lambda>(r, w'). Inr (Wt_unlock c r, w'))"

definition get_status_reply :: "wal_op \<Rightarrow> wal_status \<Rightarrow> wal_reply" where
  "get_status_reply c st =
     (case c of Op_ioctl from ok cmd \<Rightarrow> if ok then Ret_ioctl None (Some st) else Ret_ioctl (Some EFAULT) None
      | _ \<Rightarrow> Ret_ioctl None (Some st))"

fun wt_next ::
  "(byte \<Rightarrow> bool) \<Rightarrow> (byte \<Rightarrow> bool) \<Rightarrow> wal_pc \<Rightarrow> wt_state \<Rightarrow> (wal_pc \<times> wt_state) kres" where
  "wt_next ip is (Wt_start c) s = Inr (wt_enter c, s)"
| "wt_next ip is (Wt_lock c) s = Inr (Wt_in c, s\<lparr>status_mutex := True\<rparr>)"
| "wt_next ip is (Wt_in c) s =
     kbind (wt_locked ip is c (wt_global s)) (\<lambda>(k, w). Inr (k, s\<lparr>wt_global := w\<rparr>))"
| "wt_next ip is (Wt_to_user c ok n pos) s =
     (case read_copy ok n pos (wt_global s) of (r, w) \<Rightarrow> Inr (Wt_unlock c r, s\<lparr>wt_global := w\<rparr>))"
| "wt_next ip is (Wt_from_user c ok user n pos) s =
     (case write_copy ip is ok user n pos (wt_global s) of (r, w) \<Rightarrow> Inr (Wt_unlock c r, s\<lparr>wt_global := w\<rparr>))"
| "wt_next ip is (Wt_segs c wr off out []) s = Inr (Wt_unlock c (Ret_bufs out), s)"
| "wt_next ip is (Wt_segs c wr off out (buf # bufs)) s =
     kbind (wal_segment wr off buf (wt_global s)) (\<lambda>(buf', w).
       Inr (Wt_segs c wr (off + of_nat (length buf)) (out @ [buf']) bufs, s\<lparr>wt_global := w\<rparr>))"
| "wt_next ip is (Wt_unlock c r) s = Inr (Wt_done c r, s\<lparr>status_mutex := False\<rparr>)"
| "wt_next ip is (Wt_copied c st) s = Inr (Wt_user c st, s\<lparr>status_mutex := False\<rparr>)"
| "wt_next ip is (Wt_user c st) s = Inr (Wt_done c (get_status_reply c st), s)"
| "wt_next ip is (Wt_done c r) s = Inr (Wt_done c r, s)"

fun op_segs :: "wal_op \<Rightarrow> nat" where
  "op_segs (Op_bio wr sector bufs) = length bufs"
| "op_segs c = 0"

fun wt_rank :: "wal_pc \<Rightarrow> nat" where
  "wt_rank (Wt_start c) = op_segs c + 6"
| "wt_rank (Wt_lock c) = op_segs c + 5"
| "wt_rank (Wt_in c) = op_segs c + 4"
| "wt_rank (Wt_to_user c ok n pos) = 3"
| "wt_rank (Wt_from_user c ok user n pos) = 3"
| "wt_rank (Wt_segs c wr off out bufs) = length bufs + 3"
| "wt_rank (Wt_unlock c r) = 2"
| "wt_rank (Wt_copied c st) = 2"
| "wt_rank (Wt_user c st) = 1"
| "wt_rank (Wt_done c r) = 0"

fun wt_call :: "wal_pc \<Rightarrow> wal_op" where
  "wt_call (Wt_start c) = c"
| "wt_call (Wt_lock c) = c"
| "wt_call (Wt_in c) = c"
| "wt_call (Wt_to_user c ok n pos) = c"
| "wt_call (Wt_from_user c ok user n pos) = c"
| "wt_call (Wt_segs c wr off out bufs) = c"
| "wt_call (Wt_unlock c r) = c"
| "wt_call (Wt_copied c st) = c"
| "wt_call (Wt_user c st) = c"
| "wt_call (Wt_done c r) = c"

text \<open>The steps under the mutex that touch memory of the user or allocate with \<open>GFP_KERNEL\<close>: \<open>kzalloc\<close> of a write, the
  user copies of a read and a write, and the one of \<open>WAL_IOC_SET_MODE\<close>.\<close>

fun wt_memory :: "wal_pc \<Rightarrow> bool" where
  "wt_memory (Wt_in (Op_write mem ok user n pos)) = True"
| "wt_memory (Wt_in (Op_ioctl from ok cmd)) = (cmd = WAL_IOC_SET_MODE)"
| "wt_memory (Wt_to_user c ok n pos) = True"
| "wt_memory (Wt_from_user c ok user n pos) = True"
| "wt_memory k = False"

text \<open>A call that wants the mutex waits until it is free.  So does one whose access to memory leads back into the
  driver: the page fault or the write-back takes the mutex before the access can go on.\<close>

fun wt_ready :: "(wal_op \<Rightarrow> bool) \<Rightarrow> wal_pc \<Rightarrow> wt_state \<Rightarrow> bool" where
  "wt_ready re (Wt_lock c) s = (\<not> status_mutex s)"
| "wt_ready re k s = (wt_memory k \<and> re (wt_call k) \<longrightarrow> \<not> status_mutex s)"

definition wt_step ::
  "(wal_op \<Rightarrow> bool) \<Rightarrow> (byte \<Rightarrow> bool) \<Rightarrow> (byte \<Rightarrow> bool) \<Rightarrow> wal_pc \<Rightarrow> wt_state \<Rightarrow> wal_pc \<Rightarrow> wt_state \<Rightarrow> bool" where
  "wt_step re ip is k s k' s' \<longleftrightarrow> 0 < wt_rank k \<and> wt_ready re k s \<and> wt_next ip is k s = Inr (k', s')"

definition wt_init :: "wal_global \<Rightarrow> wal_op list \<Rightarrow> wt_state \<times> wal_pc list" where
  "wt_init w cs = (\<lparr>wt_global = w, status_mutex = False\<rparr>, map Wt_start cs)"

section \<open>The contract of the mutex\<close>

fun wt_phase :: "wal_pc \<Rightarrow> wal_reply phase" where
  "wt_phase (Wt_start c) = Before"
| "wt_phase (Wt_lock c) = Before"
| "wt_phase (Wt_unlock c r) = Leaving r"
| "wt_phase (Wt_copied c st) = Leaving (get_status_reply c st)"
| "wt_phase (Wt_user c st) = After (get_status_reply c st)"
| "wt_phase (Wt_done c r) = After r"
| "wt_phase k = Inside"

text \<open>What is left of a call in its critical section.\<close>

fun wt_rest :: "(byte \<Rightarrow> bool) \<Rightarrow> (byte \<Rightarrow> bool) \<Rightarrow> wal_pc \<Rightarrow> wal_global \<Rightarrow> (wal_reply \<times> wal_global) kres" where
  "wt_rest ip is (Wt_to_user c ok n pos) w = Inr (read_copy ok n pos w)"
| "wt_rest ip is (Wt_from_user c ok user n pos) w = Inr (write_copy ip is ok user n pos w)"
| "wt_rest ip is (Wt_segs c wr off out bufs) w =
     kbind (wal_segments wr off bufs w) (\<lambda>(bufs', w'). Inr (Ret_bufs (out @ bufs'), w'))"
| "wt_rest ip is (Wt_unlock c r) w = Inr (r, w)"
| "wt_rest ip is (Wt_copied c st) w = Inr (get_status_reply c st, w)"
| "wt_rest ip is k w = wal_do ip is (wt_call k) w"

text \<open>The ranges whose 64-bit sums do not wrap, and requests of one segment.\<close>

fun op_fits :: "wal_op \<Rightarrow> bool" where
  "op_fits (Op_bio wr sector bufs) = (unat sector * 512 + length (concat bufs) < 2 ^ 64)"
| "op_fits (Op_request req) =
     (unat (rq_pos req) * 512 + length (concat (rq_segs req)) < 2 ^ 64 \<and> rq_segs req = [bio_data (rq_segs req)])"
| "op_fits c = True"

lemma enter_cases: "wt_enter c = Wt_lock c \<or> (\<exists>r. wt_enter c = Wt_done c r \<and> (\<forall>w. wal_do ip is c w = Inr (r, w)))"
  by (cases c) (auto simp: wal_char_ioctl_def wal_driver_set_mode_def)

lemma rest_leaving: "wt_phase k = Leaving r \<Longrightarrow> wt_rest ip is k w = Inr (r, w)"
  by (cases k) simp_all

lemma wal_cmds:
  "IOC_TYPE WAL_IOC_RESET = WAL_IOC_MAGIC" "IOC_TYPE WAL_IOC_GET_STATUS = WAL_IOC_MAGIC" "IOC_TYPE WAL_IOC_SET_MODE = WAL_IOC_MAGIC"
  "\<not> WAL_IOC_MAXNR < IOC_NR WAL_IOC_RESET" "\<not> WAL_IOC_MAXNR < IOC_NR WAL_IOC_GET_STATUS"
  "\<not> WAL_IOC_MAXNR < IOC_NR WAL_IOC_SET_MODE" "WAL_IOC_GET_STATUS \<noteq> WAL_IOC_RESET" "WAL_IOC_SET_MODE \<noteq> WAL_IOC_RESET"
  "WAL_IOC_SET_MODE \<noteq> WAL_IOC_GET_STATUS"
  by (simp_all add: WAL_IOC_RESET_def WAL_IOC_GET_STATUS_def WAL_IOC_SET_MODE_def WAL_IOC_MAGIC_def WAL_IOC_MAXNR_def
      IOC_def IOC_TYPE_def IOC_NR_def)

lemma ioctl_locked_step:
  "case ioctl_locked fu ok cmd w of (k, w') \<Rightarrow> wt_call k = Op_ioctl fu ok cmd \<and>
     wt_rest ip is k w' = wal_do ip is (Op_ioctl fu ok cmd) w \<and> (\<exists>r. wt_phase k = Leaving r) \<and> wt_rank k < 4"
proof -
  consider "cmd = WAL_IOC_RESET" | "cmd = WAL_IOC_GET_STATUS" | "cmd = WAL_IOC_SET_MODE"
    | "cmd \<noteq> WAL_IOC_RESET" "cmd \<noteq> WAL_IOC_GET_STATUS" "cmd \<noteq> WAL_IOC_SET_MODE" by blast
  then show ?thesis
    by cases (simp_all add: ioctl_locked_def wal_char_ioctl_def get_status_reply_def Let_def wal_cmds split: option.split)
qed

lemma locked_step:
  assumes "wt_locked ip is c w = Inr (k, w')"
  shows "wt_call k = c \<and> wt_rest ip is k w' = wal_do ip is c w \<and> (wt_phase k = Inside \<or> (\<exists>r. wt_phase k = Leaving r)) \<and>
    wt_rank k < op_segs c + 4"
proof (cases c)
  case (Op_read ok n pos)
  with assms show ?thesis by (auto simp: read_enter_def read_copy_def wal_char_read_def Let_def)
next
  case (Op_write mem ok user n pos)
  with assms show ?thesis by (auto simp: write_enter_def write_copy_def wal_char_write_def Let_def)
next
  case (Op_ioctl fu ok cmd)
  with assms ioctl_locked_step [of fu ok cmd _ _ w] show ?thesis by (simp split: prod.splits)
next
  case (Op_bio wr sector bufs)
  with assms show ?thesis by (auto simp: bio_enter_def wal_block_submit_bio_def Let_def)
qed (use assms in \<open>auto simp: kres_simps split: prod.splits\<close>)

lemma inside_step:
  assumes "wt_next ip is k s = Inr (k', s')" and "wt_phase k = Inside"
  shows "wt_call k' = wt_call k \<and> status_mutex s' = status_mutex s \<and> wt_rank k' < wt_rank k \<and>
    wt_rest ip is k' (wt_global s') = wt_rest ip is k (wt_global s) \<and> (wt_phase k' = Inside \<or> (\<exists>r. wt_phase k' = Leaving r))"
proof (cases k)
  case (Wt_in c)
  with assms(1) obtain w where "wt_locked ip is c (wt_global s) = Inr (k', w)" "s' = s\<lparr>wt_global := w\<rparr>"
    by (auto simp: kres_simps)
  with locked_step [OF this(1)] Wt_in show ?thesis by simp
next
  case (Wt_segs c wr off out bufs)
  with assms show ?thesis by (cases bufs) (auto simp: kres_simps kbind_def split: sum.splits)
qed (use assms in \<open>auto split: prod.splits\<close>)

lemma inside_moves:
  assumes "wt_phase k = Inside" and "wt_rest ip is k (wt_global s) = Inr x"
  shows "\<exists>k' s'. wt_next ip is k s = Inr (k', s')"
proof (cases k)
  case (Wt_in c)
  with assms(2) show ?thesis by (cases c; cases x) (auto simp: kres_simps split: prod.splits)
next
  case (Wt_segs c wr off out bufs)
  with assms(2) show ?thesis by (cases bufs) (auto simp: kres_simps)
qed (use assms in \<open>auto split: prod.splits\<close>)

lemma one_request_runs:
  assumes "wal_ok w" and "op_fits (Op_request req)"
  shows "\<exists>segs w'. wal_one_request req w = Inr (segs, w')"
proof -
  obtain buf where b: "rq_segs req = [buf]" "unat (rq_pos req) * 512 + length buf < 2 ^ 64"
    using assms(2) by (cases "rq_segs req") (auto simp: bio_data_def)
  have off: "unat (rq_pos req * of_nat WAL_BLOCK_SIZE) = unat (rq_pos req) * 512"
    using b(2) by (intro sector_offset) simp
  have "wal_store (rq_pos req * of_nat WAL_BLOCK_SIZE) buf' v \<noteq> Inl e"
    if "block_data v = block_data w" "length buf' = length buf" for v buf' e
    using that assms(1) b(2) wal_store_nowrap [of v "rq_pos req * of_nat WAL_BLOCK_SIZE" buf'] by (fastforce simp: wal_ok_def off)
  then have "wal_one_request req w \<noteq> Inl e" for e
    by (auto simp: wal_one_request_def Let_def kres_simps wal_fill_pattern b bio_data_def)
  then show ?thesis by (cases "wal_one_request req w") auto
qed

lemma wal_do_runs:
  assumes "wal_ok w" and "op_fits c"
  shows "\<exists>r w'. wal_do ip is c w = Inr (r, w') \<and> wal_ok w'"
proof (cases c)
  case (Op_read ok n pos)
  with wal_ok_step [OF assms(1), of ip "is" "CRead ok n pos"] show ?thesis by (auto split: prod.splits)
next
  case (Op_write mem ok user n pos)
  with wal_ok_step [OF assms(1), of ip "is" "CWrite mem ok user n pos"] show ?thesis by (auto split: prod.splits)
next
  case (Op_ioctl fu ok cmd)
  with wal_ok_step [OF assms(1), of ip "is" "CIoctl fu ok cmd"] show ?thesis by (auto split: prod.splits)
next
  case (Op_bio wr sector bufs)
  with assms wal_ok_step [OF assms(1), of ip "is" "CBio wr sector bufs"] wal_bio_never_faults [of w sector bufs wr]
  show ?thesis by (auto simp: wal_ok_def)
next
  case (Op_request req)
  with one_request_runs [OF assms(1)] assms wal_one_request_frame show ?thesis by (fastforce simp: wal_ok_def)
next
  case Op_reset
  with wal_ok_step [OF assms(1), of ip "is" CResetStats] show ?thesis by simp
next
  case (Op_mode m)
  with wal_ok_step [OF assms(1), of ip "is" "CSetMode m"] show ?thesis by (auto split: prod.splits)
qed (use assms in \<open>auto simp: wal_char_open_def\<close>)

lemma wt_step_moves:
  assumes "wt_step re ip is k s k' s'"
  shows "wt_rank k' < wt_rank k \<and> wt_call k' = wt_call k"
proof (cases "wt_phase k = Inside")
  case True
  with assms inside_step [OF _ True] show ?thesis unfolding wt_step_def by blast
next
  case False
  show ?thesis
  proof (cases k)
    case (Wt_start c)
    with assms enter_cases [of c ip "is"] show ?thesis unfolding wt_step_def by auto
  qed (use assms False in \<open>auto simp: wt_step_def\<close>)
qed

interpretation wal_lock: guarded_object "wt_step re ip is" wt_rank wt_phase wt_call wt_global status_mutex
    "wal_do ip is" "wt_rest ip is" wal_ok op_fits for re ip "is"
proof
  fix k s k' s'
  assume st: "wt_step re ip is k s k' s'"
  show "wt_rank k' < wt_rank k" "wt_call k' = wt_call k"
    using wt_step_moves [OF st] by simp_all
  show "wt_global s' = wt_global s \<and> (wt_phase k' = Before \<and> status_mutex s' = status_mutex s \<or>
      wt_phase k' = Inside \<and> \<not> status_mutex s \<and> status_mutex s' \<and> wt_rest ip is k' = wal_do ip is (wt_call k) \<or>
      (\<exists>r. wt_phase k' = After r \<and> status_mutex s' = status_mutex s \<and> (\<forall>w. wal_do ip is (wt_call k) w = Inr (r, w))))"
    if "wt_phase k = Before"
    using st that enter_cases [of "wt_call k" ip "is"] unfolding wt_step_def by (cases k) auto
  show "status_mutex s' = status_mutex s \<and> (wt_phase k' = Inside \<and> wt_rest ip is k' (wt_global s') = wt_rest ip is k (wt_global s) \<or>
      (\<exists>r. wt_phase k' = Leaving r \<and> wt_rest ip is k (wt_global s) = Inr (r, wt_global s')))"
    if "wt_phase k = Inside"
    using st inside_step [OF _ that] rest_leaving [of k'] unfolding wt_step_def by metis
  show "wt_phase k' = After r \<and> wt_global s' = wt_global s \<and> \<not> status_mutex s'" if "wt_phase k = Leaving r" for r
    using st that unfolding wt_step_def by (cases k) auto
  show "wt_phase k' = After r \<and> wt_global s' = wt_global s \<and> status_mutex s' = status_mutex s" if "wt_phase k = After r" for r
    using st that unfolding wt_step_def by (cases k) auto
next
  fix w c
  assume "wal_ok w" "op_fits c"
  then show "\<exists>r w'. wal_do ip is c w = Inr (r, w') \<and> wal_ok w'" by (rule wal_do_runs)
next
  fix k
  assume "wt_rank k = 0"
  then show "\<exists>r. wt_phase k = After r" by (cases k) simp_all
qed

text \<open>Calls whose memory does not lead back into the driver never wait inside their critical section.\<close>

interpretation wal_live: live_object "wt_step re ip is" wt_rank wt_phase wt_call wt_global status_mutex
    "wal_do ip is" "wt_rest ip is" wal_ok "\<lambda>c. op_fits c \<and> \<not> re c" for re ip "is"
proof
  fix w c
  assume "wal_ok w" "op_fits c \<and> \<not> re c"
  then show "\<exists>r w'. wal_do ip is c w = Inr (r, w') \<and> wal_ok w'" using wal_do_runs by blast
next
  fix k and s :: wt_state
  assume m: "0 < wt_rank k" "op_fits (wt_call k) \<and> \<not> re (wt_call k)" "wt_phase k = Before \<longrightarrow> \<not> status_mutex s"
    "wt_phase k = Inside \<longrightarrow> (\<exists>x. wt_rest ip is k (wt_global s) = Inr x)"
  then have "wt_ready re k s" by (cases k) auto
  moreover have "\<exists>k' s'. wt_next ip is k s = Inr (k', s')"
  proof (cases "wt_phase k = Inside")
    case True
    with m inside_moves [OF True] show ?thesis by blast
  next
    case False
    then show ?thesis by (cases k) auto
  qed
  ultimately show "\<exists>k' s'. wt_step re ip is k s k' s'" using m(1) unfolding wt_step_def by blast
qed (fact wal_lock.rank_less wal_lock.call_kept wal_lock.from_before wal_lock.from_inside wal_lock.from_leaving
  wal_lock.from_after wal_lock.at_end)+

section \<open>Properties\<close>

lemma wt_init_start: "wal_ok w \<Longrightarrow> \<forall>c \<in> set cs. op_fits c \<Longrightarrow> wt_init w cs = (s, ks) \<Longrightarrow>
    wal_ok (wt_global s) \<and> \<not> status_mutex s \<and> (\<forall>k \<in> set ks. wt_phase k = Before \<and> op_fits (wt_call k))"
  by (auto simp: wt_init_def)

text \<open>C17.  Calls of the WAL driver that run at the same time in any interleaving, down to the copies from and to user
  space and the single segments of a bio, give their replies, the status, the storage and the messages printed under the mutex that the same
  calls give one after the other in some order; when all have returned the mutex is free.\<close>

theorem wal_calls_linearizable:
  assumes "wal_ok w" and "\<forall>c \<in> set cs. op_fits c"
    and "par_reach (wt_step re ip is) (wt_init w cs) (s, ks)" and "all_done wt_rank ks"
  shows "\<exists>ts rs. distinct ts \<and> set ts = {..<length cs} \<and> (\<forall>t < length cs. ks ! t = Wt_done (cs ! t) (rs t)) \<and>
    serial (wal_do ip is) (map (\<lambda>t. (cs ! t, rs t)) ts) w (wt_global s) \<and> \<not> status_mutex s"
proof -
  let ?s0 = "\<lparr>wt_global = w, status_mutex = False\<rparr>"
  have r: "par_reach (wt_step re ip is) (?s0, map Wt_start cs) (s, ks)" using assms(3) by (simp add: wt_init_def)
  have len: "length ks = length cs" using par_reach_length [OF r] by simp
  define rs where "rs t = the (settled (wt_phase (ks ! t)))" for t
  from wal_lock.linear [OF r assms(4)] assms(1,2) obtain ts where
    ts: "distinct ts" "set ts = {..<length cs}" "\<not> status_mutex s"
      "serial (wal_do ip is) (map (\<lambda>t. wal_lock.outcome (ks ! t)) ts) w (wt_global s)" by auto
  have fin: "ks ! t = Wt_done (cs ! t) (rs t)" if t: "t < length cs" for t
  proof -
    have "wt_call (ks ! t) = cs ! t"
      using par_reach_thread [OF r, of wt_call t] wal_lock.call_kept t by simp
    moreover have "wt_rank (ks ! t) = 0" using assms(4) t len by (auto simp: all_done_def)
    ultimately show ?thesis by (cases "ks ! t") (simp_all add: rs_def)
  qed
  then have "map (\<lambda>t. wal_lock.outcome (ks ! t)) ts = map (\<lambda>t. (cs ! t, rs t)) ts"
    using ts(2) by (auto simp: wal_lock.outcome_def)
  with ts fin show ?thesis by metis
qed

definition ex_ops :: "wal_op list" where
  "ex_ops = [Op_bio True 0 [[1, 2], [3]], Op_ioctl None True WAL_IOC_GET_STATUS, Op_read True 20 0]"

lemma ex_ops_fit: "\<forall>c \<in> set ex_ops. op_fits c"
  by (simp add: ex_ops_def)

lemma ex_ops_run: "\<exists>s ks. par_reach (wt_step (\<lambda>_. False) ip is) (wt_init ex_wal ex_ops) (s, ks) \<and> all_done wt_rank ks"
proof -
  obtain s0 ks0 where i: "wt_init ex_wal ex_ops = (s0, ks0)" by fastforce
  from wt_init_start [OF ex_wal_ok(1) ex_ops_fit this] have "wal_live.lock_inv ip is (\<lambda>_. False) (wt_global s0) s0 ks0"
    using wal_live.lock_inv_start [of s0 ks0 "\<lambda>_. False"] by blast
  from wal_live.can_finish [OF this] show ?thesis unfolding i by blast
qed

lemma wal_calls_linearizable_witness:
  "\<exists>(s :: wt_state) ks ts rs. set ts = {..<3} \<and> (\<forall>t < 3. ks ! t = Wt_done (ex_ops ! t) (rs t)) \<and>
     serial (wal_do (\<lambda>_. True) (\<lambda>_. False)) (map (\<lambda>t. (ex_ops ! t, rs t)) ts) ex_wal (wt_global s)"
proof -
  obtain s ks where r: "par_reach (wt_step (\<lambda>_. False) (\<lambda>_. True) (\<lambda>_. False)) (wt_init ex_wal ex_ops) (s, ks)" "all_done wt_rank ks"
    using ex_ops_run by blast
  have l: "length ex_ops = 3" by (simp add: ex_ops_def)
  from wal_calls_linearizable [OF ex_wal_ok(1) ex_ops_fit r] show ?thesis unfolding l by blast
qed



text \<open>The calls that touch memory under the mutex: every write, a read before the end of the message, and
  \<open>WAL_IOC_SET_MODE\<close>.\<close>

fun touches :: "wal_op \<Rightarrow> bool" where
  "touches (Op_read ok n pos) = (pos < of_nat WAL_RESPONSE_LEN)"
| "touches (Op_write mem ok user n pos) = True"
| "touches (Op_ioctl from ok cmd) = (cmd = WAL_IOC_SET_MODE)"
| "touches c = False"

text \<open>A call that re-enters the driver and has not got past its first access to memory.\<close>

fun before_memory :: "wal_pc \<Rightarrow> bool" where
  "before_memory (Wt_start c) = True"
| "before_memory (Wt_lock c) = True"
| "before_memory (Wt_in c) = True"
| "before_memory (Wt_to_user c ok n pos) = True"
| "before_memory k = False"

lemma before_memory_step:
  assumes "wt_step re ip is k s k' s'" and "re (wt_call k)" and "touches (wt_call k)" and "before_memory k"
    and "holding (wt_phase k) \<Longrightarrow> status_mutex s"
  shows "before_memory k'"
proof (cases k)
  case (Wt_start c)
  with assms(1,3) show ?thesis by (cases c) (auto simp: wt_step_def wal_cmds)
next
  case (Wt_in c)
  then have m: "status_mutex s" using assms(5) by simp
  with assms(1,2) Wt_in have "\<not> wt_memory k" by (auto simp: wt_step_def)
  with assms(1,3) Wt_in show ?thesis
    by (cases c) (auto simp: wt_step_def read_enter_def Let_def split: if_splits)
qed (use assms in \<open>auto simp: wt_step_def\<close>)

lemma reentry_waits:
  assumes "par_reach (wt_step re ip is) (s0, ks0) (s, ks)" and "wal_lock.lock_inv ip is w0 s0 ks0"
    and "t < length ks0" and "re (wt_call (ks0 ! t))" and "touches (wt_call (ks0 ! t))" and "before_memory (ks0 ! t)"
  shows "before_memory (ks ! t)"
proof -
  have "wal_lock.lock_inv ip is w0 (fst b) (snd b) \<and> length (snd b) = length (snd a) \<and>
      wt_call (snd b ! t) = wt_call (snd a ! t) \<and> before_memory (snd b ! t)"
    if "(par_step (wt_step re ip is))\<^sup>*\<^sup>* a b" "a = (s0, ks0)" for a b
    using that
  proof (induction rule: rtranclp_induct)
    case base
    with assms show ?case by simp
  next
    case (step b c)
    from step.hyps(2) obtain u k s1 where u: "u < length (snd b)" "wt_step re ip is (snd b ! u) (fst b) k s1"
      and c: "c = (s1, (snd b)[u := k])" by (cases b) (auto elim: par_stepE)
    from step have ok: "wal_lock.lock_inv ip is w0 (fst b) (snd b)" and len: "length (snd b) = length ks0"
      and cl: "wt_call (snd b ! t) = wt_call (ks0 ! t)" and bm: "before_memory (snd b ! t)" by auto
    have "holding (wt_phase (snd b ! t)) \<Longrightarrow> status_mutex (fst b)"
      using ok wal_lock.one_inside(1) len assms(3) unfolding wal_lock.lock_inv_def by metis
    with before_memory_step u(2) cl bm assms(4,5) have "u = t \<Longrightarrow> before_memory k" by metis
    moreover have "wt_call k = wt_call (snd b ! u)" using wal_lock.call_kept [OF u(2)] .
    ultimately show ?case
      using wal_lock.lock_inv_step [OF ok u] step.prems len cl bm u(1) by (auto simp: c nth_list_update)
  qed
  from this [of "(s0, ks0)" "(s, ks)"] assms(1) show ?thesis by (simp add: par_reach_def)
qed

text \<open>C19.  A call whose memory leads back into the driver deadlocks: it waits for the mutex that it holds itself.  In no
  schedule do all calls return; every schedule is bounded, and where it stops the mutex is held for good.\<close>

theorem wal_reentry_deadlocks:
  assumes "wal_ok w" and "\<forall>c \<in> set cs. op_fits c" and "t < length cs" and "re (cs ! t)" and "touches (cs ! t)"
    and "(par_step (wt_step re ip is) ^^ n) (wt_init w cs) (s, ks)"
  shows "\<not> all_done wt_rank ks \<and> n \<le> sum_list (map (\<lambda>c. op_segs c + 6) cs) \<and>
    ((\<nexists>b. par_step (wt_step re ip is) (s, ks) b) \<longrightarrow> status_mutex s)"
proof -
  obtain s0 ks0 where i: "wt_init w cs = (s0, ks0)" by fastforce
  have r: "par_reach (wt_step re ip is) (s0, ks0) (s, ks)"
    using relpowp_imp_rtranclp [OF assms(6)] i by (simp add: par_reach_def)
  from wt_init_start [OF assms(1,2) i] have l0: "wal_lock.lock_inv ip is (wt_global s0) s0 ks0"
    using wal_lock.lock_inv_start by blast
  have ks0: "ks0 = map Wt_start cs" using i by (simp add: wt_init_def)
  have len: "length ks = length cs" using par_reach_length [OF r] ks0 by simp
  have "before_memory (ks ! t)" using reentry_waits [OF r l0, of t] assms(3-5) ks0 by simp
  then have u: "0 < wt_rank (ks ! t)" by (cases "ks ! t") simp_all
  then have "\<not> all_done wt_rank ks" using assms(3) len by (auto simp: all_done_def)
  moreover have "rank_sum wt_rank ks0 = sum_list (map (\<lambda>c. op_segs c + 6) cs)"
    by (simp add: ks0 rank_sum_def comp_def)
  with wal_lock.schedule_bound [OF assms(6)] i have "n \<le> sum_list (map (\<lambda>c. op_segs c + 6) cs)" by simp
  moreover have "\<exists>b. par_step (wt_step re ip is) (s, ks) b" if free: "\<not> status_mutex s"
  proof -
    from wal_lock.inv_reach [OF r l0] have "\<not> holding (wt_phase (ks ! t))"
      using wal_lock.one_inside(1) assms(3) len free unfolding wal_lock.lock_inv_def by metis
    then have "\<exists>k' s'. wt_next ip is (ks ! t) s = Inr (k', s')" by (cases "ks ! t") auto
    moreover have "wt_ready re (ks ! t) s" using free by (cases "ks ! t") auto
    ultimately have "\<exists>k' s'. wt_step re ip is (ks ! t) s k' s'" using u unfolding wt_step_def by blast
    then show ?thesis using par_step.move [of t ks] assms(3) len by metis
  qed
  ultimately show ?thesis by blast
qed

text \<open>One read into a buffer that is mapped from the block device: it takes the mutex and stops at the copy.\<close>

lemma ex_reentry:
  "\<exists>s. (par_step (wt_step (\<lambda>_. True) ip is) ^^ 3) (wt_init ex_wal [Op_read True 20 0])
     (s, [Wt_to_user (Op_read True 20 0) True 20 0]) \<and> status_mutex s"
proof -
  let ?c = "Op_read True 20 0" and ?R = "wt_step (\<lambda>_. True) ip is"
  let ?s = "\<lambda>b w. \<lparr>wt_global = w, status_mutex = b\<rparr>"
  have m: "par_step ?R (s, [k]) (s', [k'])" if "?R k s k' s'" for s k s' k'
    using par_step.move [of 0 "[k]" ?R s k' s'] that by simp
  have e: "fst (read_enter True 20 0 ex_wal) = Wt_to_user ?c True 20 0"
    by (simp add: read_enter_def Let_def WAL_RESPONSE_LEN_def)
  have 1: "par_step ?R (?s False ex_wal, [Wt_start ?c]) (?s False ex_wal, [Wt_lock ?c])"
    by (rule m) (simp add: wt_step_def)
  have 2: "par_step ?R (?s False ex_wal, [Wt_lock ?c]) (?s True ex_wal, [Wt_in ?c])"
    by (rule m) (simp add: wt_step_def)
  have 3: "par_step ?R (?s True ex_wal, [Wt_in ?c]) (?s True (snd (read_enter True 20 0 ex_wal)), [Wt_to_user ?c True 20 0])"
    by (rule m) (use e in \<open>auto simp: wt_step_def split: prod.splits\<close>)
  from 1 2 3 have "(par_step ?R ^^ 3) (?s False ex_wal, [Wt_start ?c])
      (?s True (snd (read_enter True 20 0 ex_wal)), [Wt_to_user ?c True 20 0])"
    by (simp add: numeral_3_eq_3 relcompp_apply) blast
  then show ?thesis by (auto simp: wt_init_def)
qed

lemma wal_reentry_deadlocks_witness:
  "\<exists>s ks. (par_step (wt_step (\<lambda>_. True) (\<lambda>_. True) (\<lambda>_. False)) ^^ 3) (wt_init ex_wal [Op_read True 20 0]) (s, ks) \<and>
     \<not> all_done wt_rank ks \<and> status_mutex s"
proof -
  have "touches (Op_read True 20 0)" by (simp add: WAL_RESPONSE_LEN_def)
  then show ?thesis
    using ex_reentry [of "\<lambda>_. True" "\<lambda>_. False"]
      wal_reentry_deadlocks [OF ex_wal_ok(1), of "[Op_read True 20 0]" 0 "\<lambda>_. True" 3 "\<lambda>_. True" "\<lambda>_. False"] by auto
qed

end
