(* ===== verification/Uring_Backend.thy ===== *)
theory Uring_Backend
  imports Kernel_Prelude
begin

text \<open>
  The storage backends of the uringblk driver (\<^verbatim>\<open>src/driver/uringblk_main.c\<close>): the in-memory
  virtual backend, and the device backend, which forwards to another block device through bios
  of one page.  Positions and lengths are 64-bit words; the range test \<open>pos + len > capacity\<close> of
  the sources is an unsigned 64-bit comparison of a sum that may wrap.  What the lower block
  device does, and what the allocators return, are arguments.
\<close>

section \<open>Data\<close>

datatype be_kind = BACKEND_VIRTUAL | BACKEND_DEVICE

text \<open>The private data of a backend: nothing, its memory, or the handle of the lower device.\<close>

datatype be_private = No_data | Memory "byte list" | Bdev_handle

record uringblk_backend =
  be_type :: be_kind
  be_private_data :: be_private
  be_capacity :: u64

definition PG :: nat where
  "PG = 4096"

section \<open>Virtual backend\<close>

definition virtual_backend_init :: "bool \<Rightarrow> u64 \<Rightarrow> uringblk_backend \<Rightarrow> ret \<times> uringblk_backend" where
  "virtual_backend_init mem_ok capacity b =
     (if capacity = 0 then (Some EINVAL, b)
      else if capacity > - 1 then (Some EINVAL, b)
      else if \<not> mem_ok then (Some ENOMEM, b)
      else (None, b\<lparr>be_private_data := Memory (replicate (unat capacity) 0), be_capacity := capacity,
                    be_type := BACKEND_VIRTUAL\<rparr>))"

definition virtual_backend_cleanup :: "uringblk_backend \<Rightarrow> uringblk_backend" where
  "virtual_backend_cleanup b =
     (case be_private_data b of No_data \<Rightarrow> b | _ \<Rightarrow> b\<lparr>be_private_data := No_data\<rparr>)"

text \<open>The memory behind \<open>private_data\<close>; a null pointer is \<open>None\<close>.\<close>

definition be_memory :: "uringblk_backend \<Rightarrow> byte list option" where
  "be_memory b = (case be_private_data b of Memory d \<Rightarrow> Some d | _ \<Rightarrow> None)"

definition virtual_backend_read :: "u64 \<Rightarrow> u64 \<Rightarrow> uringblk_backend \<Rightarrow> (errno + byte list) kres" where
  "virtual_backend_read pos len b =
     (case be_memory b of
        None \<Rightarrow> Inr (Inl EINVAL)
      | Some data \<Rightarrow>
          if pos + len > be_capacity b then Inr (Inl EINVAL)
          else kbind (mem_read data (unat pos) (unat len)) (\<lambda>bs. Inr (Inr bs)))"

definition virtual_backend_write :: "u64 \<Rightarrow> byte list \<Rightarrow> u64 \<Rightarrow> uringblk_backend \<Rightarrow> (ret \<times> uringblk_backend) kres" where
  "virtual_backend_write pos buf len b =
     (case be_memory b of
        None \<Rightarrow> Inr (Some EINVAL, b)
      | Some data \<Rightarrow>
          if pos + len > be_capacity b then Inr (Some EINVAL, b)
          else kbind (mem_read buf 0 (unat len)) (\<lambda>src.
               kbind (mem_write data (unat pos) src) (\<lambda>d. Inr (None, b\<lparr>be_private_data := Memory d\<rparr>))))"

definition virtual_backend_flush :: "uringblk_backend \<Rightarrow> ret" where
  "virtual_backend_flush b = None"

definition virtual_backend_discard :: "u64 \<Rightarrow> u64 \<Rightarrow> uringblk_backend \<Rightarrow> (ret \<times> uringblk_backend) kres" where
  "virtual_backend_discard pos len b =
     (case be_memory b of
        None \<Rightarrow> Inr (Some EINVAL, b)
      | Some data \<Rightarrow>
          if pos + len > be_capacity b then Inr (Some EINVAL, b)
          else kbind (mem_write data (unat pos) (replicate (unat len) 0)) (\<lambda>d.
               Inr (None, b\<lparr>be_private_data := Memory d\<rparr>)))"

section \<open>Device backend\<close>

text \<open>
  The lower block device, as the driver uses it: whether its handle has a device, a synchronous
  transfer of one bio, a flush, a discard.  \<open>'d\<close> is its state.
\<close>

record 'd lower_dev =
  ld_bdev :: bool
  ld_read :: "u64 \<Rightarrow> nat \<Rightarrow> 'd \<Rightarrow> (errno + byte list) \<times> 'd"
  ld_write :: "u64 \<Rightarrow> byte list \<Rightarrow> 'd \<Rightarrow> ret \<times> 'd"
  ld_flush :: "'d \<Rightarrow> ret \<times> 'd"
  ld_discard :: "u64 \<Rightarrow> u64 \<Rightarrow> 'd \<Rightarrow> ret \<times> 'd"

text \<open>What the kernel calls of one transfer returned: the two allocations and \<open>bio_add_page\<close>.\<close>

record io_env =
  io_ctx_mem :: bool
  io_page_mem :: bool
  io_add_page :: bool

definition device_backend_init ::
  "bool \<Rightarrow> ret \<Rightarrow> u64 \<Rightarrow> u64 \<Rightarrow> string option \<Rightarrow> u64 \<Rightarrow> uringblk_backend \<Rightarrow> ret \<times> bool \<times> uringblk_backend" where
  "device_backend_init auto_detect open_ret nr_bytes nr_sectors path capacity b =
     (case path of
        None \<Rightarrow> (Some EINVAL, False, b)
      | Some p \<Rightarrow>
          if length p = 0 then (Some EINVAL, False, b)
          else if length p \<ge> 4096 then (Some ENAMETOOLONG, False, b)
          else case open_ret of
              Some e \<Rightarrow> (Some e, False, b)
            | None \<Rightarrow>
                let device_size = (if nr_bytes = 0 \<and> nr_sectors > 0 then nr_sectors * 512 else nr_bytes)
                in if device_size = 0 then (Some EINVAL, False, b)
                   else
                     let capacity' = (if auto_detect \<or> capacity = 0 then device_size
                                      else if capacity > device_size then device_size
                                      else capacity)
                     in (None, True, b\<lparr>be_private_data := Bdev_handle, be_capacity := capacity',
                                      be_type := BACKEND_DEVICE\<rparr>))"

definition device_backend_cleanup :: "uringblk_backend \<Rightarrow> uringblk_backend" where
  "device_backend_cleanup b =
     (case be_private_data b of No_data \<Rightarrow> b | _ \<Rightarrow> b\<lparr>be_private_data := No_data\<rparr>)"

text \<open>\<open>loff_t\<close> is signed: \<open>pos >> 9\<close> keeps the sign and \<open>pos / 512\<close> truncates towards zero.\<close>

definition sdiv64 :: "u64 \<Rightarrow> u64 \<Rightarrow> u64" where
  "sdiv64 a b = (if sint a < 0 then - ((- a) div b) else a div b)"

definition bio_bytes :: "u64 \<Rightarrow> nat" where
  "bio_bytes len = min (unat len) PG"

text \<open>A synchronous read: \<open>buf\<close> is the caller's buffer, which is filled only as far as one page goes.\<close>

definition device_backend_read ::
  "'d lower_dev \<Rightarrow> io_env \<Rightarrow> u64 \<Rightarrow> byte list \<Rightarrow> u64 \<Rightarrow> uringblk_backend \<Rightarrow> 'd \<Rightarrow>
     (ret \<times> byte list \<times> 'd) kres" where
  "device_backend_read ld env pos buf len b d =
     (if be_private_data b = No_data \<or> pos + len > be_capacity b then Inr (Some EINVAL, buf, d)
      else if \<not> ld_bdev ld then Inr (Some EINVAL, buf, d)
      else if \<not> io_page_mem env then Inr (Some ENOMEM, buf, d)
      else if \<not> io_add_page env then Inr (Some EIO, buf, d)
      else case ld_read ld (signed_drop_bit 9 pos) (bio_bytes len) d of
          (Inl e, d') \<Rightarrow> Inr (Some e, buf, d')
        | (Inr kaddr, d') \<Rightarrow>
            kbind (mem_write buf 0 (take (bio_bytes len) kaddr)) (\<lambda>buf'. Inr (None, buf', d')))"

definition device_backend_write ::
  "'d lower_dev \<Rightarrow> io_env \<Rightarrow> u64 \<Rightarrow> byte list \<Rightarrow> u64 \<Rightarrow> uringblk_backend \<Rightarrow> 'd \<Rightarrow> (ret \<times> 'd) kres" where
  "device_backend_write ld env pos buf len b d =
     (if be_private_data b = No_data \<or> pos + len > be_capacity b then Inr (Some EINVAL, d)
      else if \<not> ld_bdev ld then Inr (Some EINVAL, d)
      else if \<not> io_page_mem env then Inr (Some ENOMEM, d)
      else kbind (mem_read buf 0 (bio_bytes len)) (\<lambda>kaddr.
        if \<not> io_add_page env then Inr (Some EIO, d)
        else Inr (ld_write ld (signed_drop_bit 9 pos) kaddr d)))"

definition device_backend_flush :: "'d lower_dev \<Rightarrow> uringblk_backend \<Rightarrow> 'd \<Rightarrow> ret \<times> 'd" where
  "device_backend_flush ld b d =
     (if be_private_data b = No_data then (Some EINVAL, d)
      else if \<not> ld_bdev ld then (Some EINVAL, d)
      else ld_flush ld d)"

definition device_backend_discard ::
  "'d lower_dev \<Rightarrow> u64 \<Rightarrow> u64 \<Rightarrow> uringblk_backend \<Rightarrow> 'd \<Rightarrow> ret \<times> 'd" where
  "device_backend_discard ld pos len b d =
     (if be_private_data b = No_data \<or> pos + len > be_capacity b then (Some EINVAL, d)
      else if \<not> ld_bdev ld then (Some EINVAL, d)
      else ld_discard ld (sdiv64 pos 512) (len div 512) d)"

section \<open>What a backend promises\<close>

text \<open>
  The contract of a byte store: transfers inside the capacity return and act on its content like
  \<open>slice\<close> and \<open>splice\<close>.  A client that works through this interface alone sees one flat array.
\<close>

locale byte_store =
  fixes inv :: "'s \<Rightarrow> bool"
    and content :: "'s \<Rightarrow> byte list"
    and rd :: "u64 \<Rightarrow> u64 \<Rightarrow> 's \<Rightarrow> (errno + byte list) kres"
    and wr :: "u64 \<Rightarrow> byte list \<Rightarrow> u64 \<Rightarrow> 's \<Rightarrow> (ret \<times> 's) kres"
    and dc :: "u64 \<Rightarrow> u64 \<Rightarrow> 's \<Rightarrow> (ret \<times> 's) kres"
  assumes small: "inv s \<Longrightarrow> length (content s) < 2 ^ 63"
    and rd_ok: "inv s \<Longrightarrow> unat pos + unat len \<le> length (content s) \<Longrightarrow>
      rd pos len s = Inr (Inr (slice (content s) (unat pos) (unat len)))"
    and wr_ok: "inv s \<Longrightarrow> unat pos + unat len \<le> length (content s) \<Longrightarrow> length buf = unat len \<Longrightarrow>
      \<exists>s'. wr pos buf len s = Inr (None, s') \<and> inv s' \<and> content s' = splice (content s) (unat pos) buf"
    and dc_ok: "inv s \<Longrightarrow> unat pos + unat len \<le> length (content s) \<Longrightarrow>
      \<exists>s'. dc pos len s = Inr (None, s') \<and> inv s' \<and>
        content s' = splice (content s) (unat pos) (replicate (unat len) 0)"
begin

lemma write_read:
  assumes "inv s" and "unat pos + unat len \<le> length (content s)" and "length buf = unat len"
  shows "\<exists>s'. wr pos buf len s = Inr (None, s') \<and> rd pos len s' = Inr (Inr buf)"
proof -
  from wr_ok [OF assms] obtain s' where s': "wr pos buf len s = Inr (None, s')" "inv s'"
    "content s' = splice (content s) (unat pos) buf" by blast
  with assms rd_ok [OF s'(2), of pos len] slice_splice_same [of "unat pos" buf "content s"]
  show ?thesis by simp
qed

lemma write_read_other:
  assumes "inv s" and "unat pos + unat len \<le> length (content s)" and "length buf = unat len"
    and "unat p + unat k \<le> length (content s)"
    and "unat p + unat k \<le> unat pos \<or> unat pos + unat len \<le> unat p"
  shows "\<exists>s'. wr pos buf len s = Inr (None, s') \<and> rd p k s' = rd p k s"
proof -
  from wr_ok [OF assms(1-3)] obtain s' where s': "wr pos buf len s = Inr (None, s')" "inv s'"
    "content s' = splice (content s) (unat pos) buf" by blast
  have "slice (content s') (unat p) (unat k) = slice (content s) (unat p) (unat k)"
    unfolding s'(3) by (rule slice_splice_disjoint) (use assms in simp_all)
  with s' assms rd_ok [OF s'(2), of p k] rd_ok [OF assms(1), of p k] show ?thesis by simp
qed

lemma discard_read:
  assumes "inv s" and "unat pos + unat len \<le> length (content s)"
  shows "\<exists>s'. dc pos len s = Inr (None, s') \<and> rd pos len s' = Inr (Inr (replicate (unat len) 0))"
proof -
  from dc_ok [OF assms] obtain s' where s': "dc pos len s = Inr (None, s')" "inv s'"
    "content s' = splice (content s) (unat pos) (replicate (unat len) 0)" by blast
  with assms rd_ok [OF s'(2), of pos len] slice_splice_same [of "unat pos" "replicate (unat len) 0" "content s"]
  show ?thesis by simp
qed

end

definition vb_content :: "uringblk_backend \<Rightarrow> byte list" where
  "vb_content b = (case be_memory b of Some d \<Rightarrow> d | None \<Rightarrow> [])"

definition vb_ok :: "uringblk_backend \<Rightarrow> bool" where
  "vb_ok b \<longleftrightarrow> be_type b = BACKEND_VIRTUAL \<and> be_memory b \<noteq> None \<and>
     length (vb_content b) = unat (be_capacity b) \<and> unat (be_capacity b) < 2 ^ 63"

lemma unat_add_small: "unat (a::u64) + unat b < 2 ^ 64 \<Longrightarrow> unat (a + b) = unat a + unat b"
  by (simp add: unat_word_ariths)

lemma range_guard:
  assumes "unat (pos::u64) + unat len < 2 ^ 64"
  shows "pos + len > cap \<longleftrightarrow> unat cap < unat pos + unat len"
  using unat_add_small [OF assms] by (simp add: word_less_nat_alt)

lemma vb_range:
  assumes "vb_ok b" and "unat pos + unat len \<le> length (vb_content b)"
  shows "\<not> pos + len > be_capacity b"
proof -
  have "unat pos + unat len < 2 ^ 64" using assms by (simp add: vb_ok_def)
  from range_guard [OF this, of "be_capacity b"] assms show ?thesis by (simp add: vb_ok_def)
qed

lemma vb_mem: "vb_ok b \<Longrightarrow> be_memory b = Some (vb_content b)"
  by (auto simp: vb_ok_def vb_content_def)

lemma vb_ok_update:
  assumes "vb_ok b" and "length d = length (vb_content b)"
  shows "vb_ok (b\<lparr>be_private_data := Memory d\<rparr>)" and "vb_content (b\<lparr>be_private_data := Memory d\<rparr>) = d"
  using assms by (auto simp: vb_ok_def vb_content_def be_memory_def)

interpretation vbe: byte_store vb_ok vb_content virtual_backend_read virtual_backend_write
  virtual_backend_discard
proof
  fix s :: uringblk_backend and pos len :: u64 and buf
  assume ok: "vb_ok s"
  then show "length (vb_content s) < 2 ^ 63" by (simp add: vb_ok_def)
  assume r: "unat pos + unat len \<le> length (vb_content s)"
  note g = vb_range [OF ok r] and m = vb_mem [OF ok]
  show "virtual_backend_read pos len s = Inr (Inr (slice (vb_content s) (unat pos) (unat len)))"
    using g m r by (simp add: virtual_backend_read_def)
  show "\<exists>s'. virtual_backend_write pos buf len s = Inr (None, s') \<and> vb_ok s' \<and>
      vb_content s' = splice (vb_content s) (unat pos) buf" if "length buf = unat len"
    using g m r that vb_ok_update [OF ok, of "splice (vb_content s) (unat pos) buf"]
    by (simp add: virtual_backend_write_def slice_def)
  show "\<exists>s'. virtual_backend_discard pos len s = Inr (None, s') \<and> vb_ok s' \<and>
      vb_content s' = splice (vb_content s) (unat pos) (replicate (unat len) 0)"
    using g m r vb_ok_update [OF ok, of "splice (vb_content s) (unat pos) (replicate (unat len) 0)"]
    by (simp add: virtual_backend_discard_def)
qed

text \<open>A new virtual backend is such a store, filled with zeros.\<close>

lemma virtual_backend_init_ok:
  assumes "virtual_backend_init mem capacity b = (None, b')" and "unat capacity < 2 ^ 63"
  shows "vb_ok b' \<and> vb_content b' = replicate (unat capacity) 0 \<and> be_capacity b' = capacity"
  using assms by (auto simp: virtual_backend_init_def vb_ok_def vb_content_def be_memory_def split: if_splits)

end
