(* ===== verification/Uring_Queue.thy ===== *)
theory Uring_Queue
  imports Uring_Backend
begin

text \<open>
  The request path of the uringblk driver: \<open>uringblk_queue_rq\<close> with its range test, statistics and
  dispatch, the synchronous loop over the segments for the virtual backend, and the asynchronous
  path for the device backend with its completion callback.  A request is its operation, its
  position in 512-byte sectors, its byte count and the contents of its segments, as the block
  layer hands them over; every call of \<open>blk_mq_end_request\<close> is recorded, so that ending a
  request exactly once is a statement about the result.
\<close>

section \<open>Data\<close>

datatype req_op = REQ_OP_READ | REQ_OP_WRITE | REQ_OP_FLUSH | REQ_OP_DISCARD
  | REQ_OP_DRV_IN | REQ_OP_DRV_OUT | REQ_OP_OTHER

datatype blk_status = STS_OK | STS_IOERR | STS_NOTSUPP | STS_LOWER nat

record request =
  rq_op :: req_op
  rq_sector :: u64
  rq_nbytes :: u32
  rq_segs :: "byte list list"

record uringblk_stats =
  read_ops :: u64
  write_ops :: u64
  flush_ops :: u64
  discard_ops :: u64
  read_sectors :: u64
  write_sectors :: u64
  read_bytes :: u64
  write_bytes :: u64
  queue_full_events :: u64
  media_errors :: u64
  retries :: u64
  p50_read_latency_us :: u32
  p99_read_latency_us :: u32
  p50_write_latency_us :: u32
  p99_write_latency_us :: u32

record uringblk_config =
  nr_hw_queues :: u32
  queue_depth :: u32
  enable_poll :: bool
  enable_discard :: bool
  write_cache :: bool
  zoned_mode :: bool
  cfg_backend_type :: int
  cfg_backend_device :: string

record uringblk_device =
  u_config :: uringblk_config
  u_stats :: uringblk_stats
  u_latency_buckets :: "u32 list"
  u_backend :: uringblk_backend
  u_features :: u64
  u_model :: string
  u_firmware :: string
  u_minor :: int

text \<open>The context of an asynchronous transfer; \<open>ctx_buffer\<close> says whether data is copied back.\<close>

record io_context =
  ioc_op :: req_op
  ioc_buffer :: bool
  ioc_pos :: u64
  ioc_len :: u64
  ioc_page :: "byte list option"

text \<open>What became of a request: the statuses it was ended with, its segments, a transfer in flight.\<close>

record rq_result =
  ended :: "blk_status list"
  segs_out :: "byte list list"
  in_flight :: "io_context option"

section \<open>Statistics\<close>

definition count_rq :: "request \<Rightarrow> uringblk_stats \<Rightarrow> uringblk_stats" where
  "count_rq rq st =
     (case rq_op rq of
        REQ_OP_READ \<Rightarrow> st\<lparr>read_ops := read_ops st + 1,
                          read_sectors := read_sectors st + ucast (drop_bit 9 (rq_nbytes rq)),
                          read_bytes := read_bytes st + ucast (rq_nbytes rq)\<rparr>
      | REQ_OP_WRITE \<Rightarrow> st\<lparr>write_ops := write_ops st + 1,
                           write_sectors := write_sectors st + ucast (drop_bit 9 (rq_nbytes rq)),
                           write_bytes := write_bytes st + ucast (rq_nbytes rq)\<rparr>
      | REQ_OP_FLUSH \<Rightarrow> st\<lparr>flush_ops := flush_ops st + 1\<rparr>
      | REQ_OP_DISCARD \<Rightarrow> st\<lparr>discard_ops := discard_ops st + 1\<rparr>
      | _ \<Rightarrow> st)"

section \<open>Virtual backend: synchronous transfers\<close>

text \<open>One segment; \<open>len\<close> is already cut off at the end of the device.\<close>

definition virtual_segment ::
  "req_op \<Rightarrow> u64 \<Rightarrow> byte list \<Rightarrow> u64 \<Rightarrow> uringblk_backend \<Rightarrow>
     (blk_status \<times> byte list \<times> uringblk_backend) kres" where
  "virtual_segment oper pos buf len b =
     (case oper of
        REQ_OP_READ \<Rightarrow>
          kbind (virtual_backend_read pos len b) (\<lambda>r. case r of
              Inl e \<Rightarrow> Inr (STS_IOERR, buf, b)
            | Inr bs \<Rightarrow> kbind (mem_write buf 0 bs) (\<lambda>buf'. Inr (STS_OK, buf', b)))
      | REQ_OP_WRITE \<Rightarrow>
          kbind (virtual_backend_write pos buf len b) (\<lambda>(r, b').
            Inr (if r = None then STS_OK else STS_IOERR, buf, b'))
      | REQ_OP_FLUSH \<Rightarrow> Inr (if virtual_backend_flush b = None then STS_OK else STS_IOERR, buf, b)
      | REQ_OP_DISCARD \<Rightarrow>
          kbind (virtual_backend_discard pos len b) (\<lambda>(r, b').
            Inr (if r = None then STS_OK else STS_IOERR, buf, b'))
      | _ \<Rightarrow> Inr (STS_NOTSUPP, buf, b))"

definition clip_len :: "u64 \<Rightarrow> u64 \<Rightarrow> u64 \<Rightarrow> u64" where
  "clip_len dev_size pos len = (if pos + len > dev_size then dev_size - pos else len)"

fun virtual_loop ::
  "req_op \<Rightarrow> u64 \<Rightarrow> u64 \<Rightarrow> byte list list \<Rightarrow> uringblk_backend \<Rightarrow>
     (blk_status \<times> byte list list \<times> uringblk_backend) kres" where
  "virtual_loop oper dev_size pos [] b = Inr (STS_OK, [], b)"
| "virtual_loop oper dev_size pos (buf # bufs) b =
     (let len = clip_len dev_size pos (of_nat (length buf)) in
      kbind (virtual_segment oper pos buf len b) (\<lambda>(st, buf', b1).
        if st \<noteq> STS_OK then Inr (st, buf' # bufs, b1)
        else kbind (virtual_loop oper dev_size (pos + len) bufs b1) (\<lambda>(st', bufs', b2).
               Inr (st', buf' # bufs', b2))))"

section \<open>Device backend: asynchronous transfers\<close>

text \<open>
  \<open>Inl e\<close> is an error return; \<open>Inr ctx\<close> a bio that was submitted.  A read brings a page of
  unspecified content, filled by the lower device before the callback runs.
\<close>

definition device_backend_read_async ::
  "'d lower_dev \<Rightarrow> io_env \<Rightarrow> u64 \<Rightarrow> u64 \<Rightarrow> uringblk_backend \<Rightarrow> errno + io_context" where
  "device_backend_read_async ld env pos len b =
     (if be_private_data b = No_data \<or> pos + len > be_capacity b then Inl EINVAL
      else if \<not> ld_bdev ld then Inl EINVAL
      else if \<not> io_ctx_mem env then Inl ENOMEM
      else if \<not> io_page_mem env then Inl ENOMEM
      else if \<not> io_add_page env then Inl EIO
      else Inr \<lparr>ioc_op = REQ_OP_READ, ioc_buffer = True, ioc_pos = pos, ioc_len = len,
                ioc_page = Some (replicate PG 0)\<rparr>)"

definition device_backend_write_async ::
  "'d lower_dev \<Rightarrow> io_env \<Rightarrow> u64 \<Rightarrow> byte list \<Rightarrow> u64 \<Rightarrow> uringblk_backend \<Rightarrow> (errno + io_context) kres" where
  "device_backend_write_async ld env pos buf len b =
     (if be_private_data b = No_data \<or> pos + len > be_capacity b then Inr (Inl EINVAL)
      else if \<not> ld_bdev ld then Inr (Inl EINVAL)
      else if \<not> io_ctx_mem env then Inr (Inl ENOMEM)
      else if \<not> io_page_mem env then Inr (Inl ENOMEM)
      else kbind (mem_read buf 0 (bio_bytes len)) (\<lambda>src.
        if \<not> io_add_page env then Inr (Inl EIO)
        else Inr (Inr \<lparr>ioc_op = REQ_OP_WRITE, ioc_buffer = False, ioc_pos = pos, ioc_len = len,
                       ioc_page = Some src\<rparr>)))"

definition device_backend_flush_async ::
  "'d lower_dev \<Rightarrow> io_env \<Rightarrow> uringblk_backend \<Rightarrow> errno + io_context" where
  "device_backend_flush_async ld env b =
     (if be_private_data b = No_data then Inl EINVAL
      else if \<not> ld_bdev ld then Inl EINVAL
      else if \<not> io_ctx_mem env then Inl ENOMEM
      else Inr \<lparr>ioc_op = REQ_OP_FLUSH, ioc_buffer = False, ioc_pos = 0, ioc_len = 0, ioc_page = None\<rparr>)"

text \<open>
  The completion callback, with the status of the bio and, for a read, the page as the lower
  device filled it: the buffer after the copy, and the status the request is ended with.
\<close>

definition device_backend_bio_complete ::
  "blk_status \<Rightarrow> byte list \<Rightarrow> byte list \<Rightarrow> io_context \<Rightarrow> (byte list \<times> blk_status) kres" where
  "device_backend_bio_complete bi_status page buf ctx =
     (if bi_status \<noteq> STS_OK then Inr (buf, bi_status)
      else if ioc_op ctx = REQ_OP_READ \<and> ioc_buffer ctx then
        kbind (mem_read page 0 (bio_bytes (ioc_len ctx))) (\<lambda>src.
        kbind (mem_write buf 0 src) (\<lambda>buf'. Inr (buf', STS_OK)))
      else Inr (buf, STS_OK))"

section \<open>The request function\<close>

definition uringblk_handle_uring_cmd_request :: "request \<Rightarrow> rq_result" where
  "uringblk_handle_uring_cmd_request rq = \<lparr>ended = [STS_OK], segs_out = rq_segs rq, in_flight = None\<rparr>"

definition start_async :: "request \<Rightarrow> (errno + io_context) \<Rightarrow> rq_result" where
  "start_async rq r =
     (case r of
        Inl e \<Rightarrow> \<lparr>ended = [STS_IOERR], segs_out = rq_segs rq, in_flight = None\<rparr>
      | Inr ctx \<Rightarrow> \<lparr>ended = [], segs_out = rq_segs rq, in_flight = Some ctx\<rparr>)"

text \<open>The device backend takes the first segment only; without a segment nothing happens.\<close>

definition device_dispatch ::
  "'d lower_dev \<Rightarrow> io_env \<Rightarrow> u64 \<Rightarrow> u64 \<Rightarrow> request \<Rightarrow> uringblk_backend \<Rightarrow> rq_result kres" where
  "device_dispatch ld env dev_size pos rq b =
     (case rq_segs rq of
        [] \<Rightarrow> Inr \<lparr>ended = [], segs_out = [], in_flight = None\<rparr>
      | buf # _ \<Rightarrow>
          let len = clip_len dev_size pos (of_nat (length buf)) in
          (case rq_op rq of
             REQ_OP_READ \<Rightarrow> Inr (start_async rq (device_backend_read_async ld env pos len b))
           | REQ_OP_WRITE \<Rightarrow>
               kbind (device_backend_write_async ld env pos buf len b) (\<lambda>r. Inr (start_async rq r))
           | REQ_OP_FLUSH \<Rightarrow> Inr (start_async rq (device_backend_flush_async ld env b))
           | REQ_OP_DISCARD \<Rightarrow> Inr \<lparr>ended = [STS_OK], segs_out = rq_segs rq, in_flight = None\<rparr>
           | _ \<Rightarrow> Inr \<lparr>ended = [STS_NOTSUPP], segs_out = rq_segs rq, in_flight = None\<rparr>))"

text \<open>
  \<open>pos\<close> and \<open>dev_size\<close> are signed in the first test; the sum with the 32-bit byte count is signed too.
\<close>

definition uringblk_queue_rq ::
  "'d lower_dev \<Rightarrow> io_env \<Rightarrow> u32 \<Rightarrow> request \<Rightarrow> uringblk_device \<Rightarrow> (rq_result \<times> uringblk_device) kres" where
  "uringblk_queue_rq ld env logical_block_size rq dev =
     (let pos = rq_sector rq * ucast logical_block_size;
          dev_size = be_capacity (u_backend dev)
      in if sint pos \<ge> sint dev_size \<or> sint (pos + ucast (rq_nbytes rq)) > sint dev_size
         then Inr (\<lparr>ended = [STS_IOERR], segs_out = rq_segs rq, in_flight = None\<rparr>, dev)
         else if rq_op rq = REQ_OP_DRV_IN \<or> rq_op rq = REQ_OP_DRV_OUT
         then Inr (uringblk_handle_uring_cmd_request rq, dev)
         else if rq_op rq = REQ_OP_OTHER
         then Inr (\<lparr>ended = [STS_NOTSUPP], segs_out = rq_segs rq, in_flight = None\<rparr>, dev)
         else
           let dev1 = dev\<lparr>u_stats := count_rq rq (u_stats dev)\<rparr> in
           if be_type (u_backend dev) = BACKEND_DEVICE
           then kbind (device_dispatch ld env dev_size pos rq (u_backend dev)) (\<lambda>r. Inr (r, dev1))
           else kbind (virtual_loop (rq_op rq) dev_size pos (rq_segs rq) (u_backend dev)) (\<lambda>(st, bufs, b).
                  Inr (\<lparr>ended = [st], segs_out = bufs, in_flight = None\<rparr>, dev1\<lparr>u_backend := b\<rparr>)))"

section \<open>Hardware contexts and polling\<close>

record uringblk_queue =
  uq_dev :: nat
  uq_num :: u32

definition uringblk_init_hctx :: "bool \<Rightarrow> nat \<Rightarrow> u32 \<Rightarrow> uringblk_queue option \<Rightarrow> ret \<times> uringblk_queue option" where
  "uringblk_init_hctx mem_ok dev idx driver_data =
     (if \<not> mem_ok then (Some ENOMEM, driver_data)
      else (None, Some \<lparr>uq_dev = dev, uq_num = idx\<rparr>))"

definition uringblk_exit_hctx :: "uringblk_queue option \<Rightarrow> uringblk_queue option" where
  "uringblk_exit_hctx driver_data = None"

definition uringblk_poll_fn :: "uringblk_device \<Rightarrow> nat" where
  "uringblk_poll_fn dev =
     (if \<not> enable_poll (u_config dev) then 0
      else if be_type (u_backend dev) = BACKEND_VIRTUAL then 0
      else 0)"

definition uringblk_open :: "uringblk_device option \<Rightarrow> ret" where
  "uringblk_open private_data = (case private_data of None \<Rightarrow> Some ENODEV | Some _ \<Rightarrow> None)"

definition uringblk_release :: "uringblk_device \<Rightarrow> uringblk_device" where
  "uringblk_release dev = dev"

record uring_geo =
  ug_cylinders :: u16
  ug_heads :: u8
  ug_sectors :: u8
  ug_start :: u64

text \<open>\<open>hd_geometry\<close> has 16 bits for the cylinders.\<close>

definition uringblk_getgeo :: "u32 \<Rightarrow> uringblk_device \<Rightarrow> (ret \<times> uring_geo) kres" where
  "uringblk_getgeo logical_block_size dev =
     kguard DivByZero (logical_block_size \<noteq> 0)
       (let sectors = be_capacity (u_backend dev) div ucast logical_block_size
        in Inr (None, \<lparr>ug_cylinders = ucast (sectors div (16 * 63)), ug_heads = 16, ug_sectors = 63,
                       ug_start = 0\<rparr>))"

end
