(* ===== verification/Uring_Requests.thy ===== *)
theory Uring_Requests
  imports Uring_Queue
begin

text \<open>
  What the request path does: the range test in terms of natural numbers, the synchronous loop
  against the byte store of the backend, the life cycle of a request on both paths.
\<close>

section \<open>Signed comparisons\<close>

lemma sint_small: "unat (w::u64) < 2 ^ 63 \<Longrightarrow> sint w = int (unat w)"
proof -
  assume "unat w < 2 ^ 63"
  then have "int (unat w) < int (2 ^ 63)" by (simp only: of_nat_less_iff)
  then have "uint w < 2 ^ 63" by simp
  then have "signed_take_bit 63 (uint w) = uint w"
    by (intro signed_take_bit_int_eq_self) (simp_all add: order_trans [OF _ uint_ge_0])
  then show ?thesis by (simp add: sint_uint)
qed

lemma range_test:
  fixes cap pos n :: u64
  assumes cap: "unat cap < 2 ^ 63" and n: "unat pos + unat n < 2 ^ 63"
  shows "(sint pos \<ge> sint cap \<or> sint (pos + n) > sint cap) \<longleftrightarrow>
    (unat cap \<le> unat pos \<or> unat cap < unat pos + unat n)"
proof -
  have s: "unat (pos + n) = unat pos + unat n" using n by (intro unat_add_small) simp
  have "sint pos = int (unat pos)" using n by (intro sint_small) simp
  moreover have "sint (pos + n) = int (unat pos + unat n)"
    using n s by (metis sint_small)
  ultimately show ?thesis
    unfolding sint_small [OF cap] by (simp only: of_nat_le_iff of_nat_less_iff)
qed

section \<open>The synchronous loop\<close>

text \<open>Cutting a byte string into segments of given lengths.\<close>

fun split_like :: "byte list list \<Rightarrow> byte list \<Rightarrow> byte list list" where
  "split_like [] d = []"
| "split_like (b # bs) d = take (length b) d # split_like bs (drop (length b) d)"

lemma concat_split_like: "length d = length (concat bufs) \<Longrightarrow> concat (split_like bufs d) = d"
  by (induction bufs arbitrary: d) simp_all

lemma clip_in:
  assumes "unat cap < 2 ^ 63" and "unat pos + n \<le> unat cap"
  shows "clip_len cap pos (of_nat n) = of_nat n" and "unat (of_nat n :: u64) = n"
    and "unat (pos + of_nat n) = unat pos + n"
proof -
  show n: "unat (of_nat n :: u64) = n" using assms by (simp add: unsigned_of_nat take_bit_nat_eq_self)
  with assms show s: "unat (pos + of_nat n) = unat pos + n" by (subst unat_add_small) simp_all
  with assms show "clip_len cap pos (of_nat n) = of_nat n" by (simp add: clip_len_def word_less_nat_alt)
qed

lemma virtual_segment_read:
  assumes "vb_ok b" and "unat pos + length buf \<le> length (vb_content b)"
  shows "virtual_segment REQ_OP_READ pos buf (of_nat (length buf)) b =
    Inr (STS_OK, slice (vb_content b) (unat pos) (length buf), b)"
proof -
  have n: "unat (of_nat (length buf) :: u64) = length buf"
    using clip_in(2) [of "be_capacity b" pos "length buf"] assms by (simp add: vb_ok_def)
  with assms vbe.rd_ok [OF assms(1), of pos "of_nat (length buf)"] show ?thesis
    by (simp add: virtual_segment_def splice_def)
qed

lemma virtual_loop_read:
  assumes "vb_ok b" and "unat pos + length (concat bufs) \<le> length (vb_content b)"
  shows "virtual_loop REQ_OP_READ (be_capacity b) pos bufs b =
    Inr (STS_OK, split_like bufs (slice (vb_content b) (unat pos) (length (concat bufs))), b)"
  using assms(2)
proof (induction bufs arbitrary: pos)
  case (Cons buf bufs)
  have cap: "unat (be_capacity b) < 2 ^ 63" "unat pos + length buf \<le> unat (be_capacity b)"
    using assms(1) Cons.prems by (simp_all add: vb_ok_def)
  note c = clip_in [OF cap]
  let ?n = "length (concat bufs)"
  have "unat (pos + of_nat (length buf)) + ?n \<le> length (vb_content b)" using Cons.prems c(3) by simp
  from Cons.IH [OF this] c(3)
  have "virtual_loop REQ_OP_READ (be_capacity b) (pos + of_nat (length buf)) bufs b =
      Inr (STS_OK, split_like bufs (slice (vb_content b) (unat pos + length buf) ?n), b)" by simp
  moreover have "slice (vb_content b) (unat pos) (length buf + ?n) =
      slice (vb_content b) (unat pos) (length buf) @ slice (vb_content b) (unat pos + length buf) ?n"
    using slice_append [of "unat pos" "length buf" ?n "vb_content b"] Cons.prems by simp
  ultimately show ?case
    using virtual_segment_read [OF assms(1), of pos buf] Cons.prems c(1) by (simp add: Let_def)
qed simp

text \<open>Writes and discards store one byte string per segment.\<close>

definition seg_data :: "req_op \<Rightarrow> byte list \<Rightarrow> byte list" where
  "seg_data oper buf = (if oper = REQ_OP_DISCARD then replicate (length buf) 0 else buf)"

lemma length_seg_data [simp]: "length (seg_data oper buf) = length buf"
  by (simp add: seg_data_def)

lemma length_concat_seg_data [simp]: "length (concat (map (seg_data oper) bufs)) = length (concat bufs)"
  by (induction bufs) simp_all

lemma concat_seg_data:
  "concat (map (seg_data REQ_OP_WRITE) bufs) = concat bufs"
  "concat (map (seg_data REQ_OP_DISCARD) bufs) = replicate (length (concat bufs)) 0"
  by (induction bufs) (simp_all add: seg_data_def replicate_add)

lemma virtual_segment_store:
  assumes "vb_ok b" and "unat pos + length buf \<le> length (vb_content b)"
    and "oper = REQ_OP_WRITE \<or> oper = REQ_OP_DISCARD"
  shows "\<exists>b'. virtual_segment oper pos buf (of_nat (length buf)) b = Inr (STS_OK, buf, b') \<and> vb_ok b' \<and>
    be_capacity b' = be_capacity b \<and> vb_content b' = splice (vb_content b) (unat pos) (seg_data oper buf)"
proof -
  let ?len = "of_nat (length buf) :: u64"
  have n: "unat ?len = length buf"
    using clip_in(2) [of "be_capacity b" pos "length buf"] assms by (simp add: vb_ok_def)
  then have r: "unat pos + unat ?len \<le> length (vb_content b)" using assms(2) by simp
  have "\<exists>b'. virtual_segment oper pos buf ?len b = Inr (STS_OK, buf, b') \<and> vb_ok b' \<and>
      vb_content b' = splice (vb_content b) (unat pos) (seg_data oper buf)"
    using assms(3) vbe.wr_ok [OF assms(1) r, of buf] vbe.dc_ok [OF assms(1) r] n
    by (auto simp: virtual_segment_def seg_data_def)
  moreover have "be_capacity b' = be_capacity b" if "vb_ok b'"
      "vb_content b' = splice (vb_content b) (unat pos) (seg_data oper buf)" for b'
    using that assms(1,2) by (simp add: vb_ok_def word_unat_eq_iff)
  ultimately show ?thesis by blast
qed

lemma virtual_loop_store:
  assumes "vb_ok b" and "unat pos + length (concat bufs) \<le> length (vb_content b)"
    and oper: "oper = REQ_OP_WRITE \<or> oper = REQ_OP_DISCARD"
  shows "\<exists>b'. virtual_loop oper (be_capacity b) pos bufs b = Inr (STS_OK, bufs, b') \<and> vb_ok b' \<and>
    be_capacity b' = be_capacity b \<and>
    vb_content b' = splice (vb_content b) (unat pos) (concat (map (seg_data oper) bufs))"
  using assms(1,2)
proof (induction bufs arbitrary: pos b)
  case (Cons buf bufs)
  have cap: "unat (be_capacity b) < 2 ^ 63" "unat pos + length buf \<le> unat (be_capacity b)"
    using Cons.prems by (simp_all add: vb_ok_def)
  note c = clip_in [OF cap]
  let ?len = "of_nat (length buf) :: u64"
  have r: "unat pos + length buf \<le> length (vb_content b)" using Cons.prems(2) by simp
  from virtual_segment_store [OF Cons.prems(1) r oper] obtain b1 where
    b1: "virtual_segment oper pos buf ?len b = Inr (STS_OK, buf, b1)" "vb_ok b1"
      "be_capacity b1 = be_capacity b" "vb_content b1 = splice (vb_content b) (unat pos) (seg_data oper buf)"
    by auto
  have len1: "length (vb_content b1) = length (vb_content b)" using b1(4) r by simp
  have "unat (pos + ?len) + length (concat bufs) \<le> length (vb_content b1)"
    using Cons.prems(2) c(3) len1 by simp
  from Cons.IH [OF b1(2) this] c(3) b1(3) obtain b2 where
    b2: "virtual_loop oper (be_capacity b) (pos + ?len) bufs b1 = Inr (STS_OK, bufs, b2)" "vb_ok b2"
      "be_capacity b2 = be_capacity b"
      "vb_content b2 = splice (vb_content b1) (unat pos + length buf) (concat (map (seg_data oper) bufs))" by auto
  have "splice (splice (vb_content b) (unat pos) (seg_data oper buf))
        (unat pos + length (seg_data oper buf)) (concat (map (seg_data oper) bufs)) =
      splice (vb_content b) (unat pos) (seg_data oper buf @ concat (map (seg_data oper) bufs))"
    using Cons.prems(2) by (intro splice_append) simp
  with b1 b2 c(1) show ?case by (simp add: Let_def)
qed simp

lemma virtual_loop_flush: "virtual_loop REQ_OP_FLUSH cap pos bufs b = Inr (STS_OK, bufs, b)"
  by (induction bufs arbitrary: pos) (simp_all add: virtual_segment_def virtual_backend_flush_def Let_def)

section \<open>The flat specification\<close>

text \<open>
  What a request means on one array of bytes: the segments it hands back, and the array after it.
\<close>

fun flat_request :: "req_op \<Rightarrow> nat \<Rightarrow> byte list list \<Rightarrow> byte list \<Rightarrow> byte list list \<times> byte list" where
  "flat_request REQ_OP_READ pos segs d = (split_like segs (slice d pos (length (concat segs))), d)"
| "flat_request REQ_OP_WRITE pos segs d = (segs, splice d pos (concat segs))"
| "flat_request REQ_OP_DISCARD pos segs d = (segs, splice d pos (replicate (length (concat segs)) 0))"
| "flat_request _ pos segs d = (segs, d)"

definition data_op :: "req_op \<Rightarrow> bool" where
  "data_op oper \<longleftrightarrow> oper \<in> {REQ_OP_READ, REQ_OP_WRITE, REQ_OP_FLUSH, REQ_OP_DISCARD}"

lemma virtual_loop_flat:
  assumes "vb_ok b" and "unat pos + length (concat bufs) \<le> length (vb_content b)" and "data_op oper"
  shows "\<exists>b'. virtual_loop oper (be_capacity b) pos bufs b =
      Inr (STS_OK, fst (flat_request oper (unat pos) bufs (vb_content b)), b') \<and> vb_ok b' \<and>
    be_capacity b' = be_capacity b \<and> vb_content b' = snd (flat_request oper (unat pos) bufs (vb_content b))"
proof -
  consider "oper = REQ_OP_READ" | "oper = REQ_OP_WRITE" | "oper = REQ_OP_DISCARD" | "oper = REQ_OP_FLUSH"
    using assms(3) by (auto simp: data_op_def)
  then show ?thesis
  proof cases
    case 1 with assms virtual_loop_read [OF assms(1,2)] show ?thesis by simp
  next
    case 2 with virtual_loop_store [OF assms(1,2), of oper] show ?thesis by (simp add: concat_seg_data)
  next
    case 3 with virtual_loop_store [OF assms(1,2), of oper] show ?thesis by (simp add: concat_seg_data)
  next
    case 4 with assms show ?thesis by (simp add: virtual_loop_flush)
  qed
qed

text \<open>The byte position of a request, when it does not wrap.\<close>

definition rq_byte :: "u32 \<Rightarrow> request \<Rightarrow> nat" where
  "rq_byte lbs rq = unat (rq_sector rq) * unat lbs"

definition rq_wf :: "u32 \<Rightarrow> request \<Rightarrow> bool" where
  "rq_wf lbs rq \<longleftrightarrow> unat (rq_nbytes rq) = length (concat (rq_segs rq)) \<and>
     rq_byte lbs rq + length (concat (rq_segs rq)) < 2 ^ 63"

definition rq_in_range :: "u32 \<Rightarrow> request \<Rightarrow> uringblk_device \<Rightarrow> bool" where
  "rq_in_range lbs rq dev \<longleftrightarrow> rq_byte lbs rq < unat (be_capacity (u_backend dev)) \<and>
     rq_byte lbs rq + length (concat (rq_segs rq)) \<le> unat (be_capacity (u_backend dev))"

lemma unat_u32_u64: "unat (ucast (w::u32) :: u64) = unat w"
  by (simp add: unsigned_ucast_eq unsigned_take_bit_eq take_bit_nat_eq_self_iff order_less_trans [OF unsigned_less])

lemma rq_pos: "rq_wf lbs rq \<Longrightarrow> unat (rq_sector rq * ucast lbs) = rq_byte lbs rq"
  by (simp add: rq_wf_def rq_byte_def unat_word_ariths unat_u32_u64)

text \<open>The range test as the sources write it.\<close>

definition rq_rejected :: "u32 \<Rightarrow> request \<Rightarrow> uringblk_device \<Rightarrow> bool" where
  "rq_rejected lbs rq dev \<longleftrightarrow>
     sint (rq_sector rq * ucast lbs) \<ge> sint (be_capacity (u_backend dev)) \<or>
     sint (rq_sector rq * ucast lbs + ucast (rq_nbytes rq)) > sint (be_capacity (u_backend dev))"

lemma queue_rq_range:
  assumes "unat (be_capacity (u_backend dev)) < 2 ^ 63" and "rq_wf lbs rq"
  shows "rq_rejected lbs rq dev \<longleftrightarrow> \<not> rq_in_range lbs rq dev"
proof -
  have "unat (rq_sector rq * ucast lbs) + unat (ucast (rq_nbytes rq) :: u64) < 2 ^ 63"
    using assms(2) rq_pos [OF assms(2)] by (simp add: rq_wf_def unat_u32_u64)
  from range_test [OF _ this, of "be_capacity (u_backend dev)"] assms show ?thesis
    by (auto simp: rq_rejected_def rq_pos unat_u32_u64 rq_in_range_def rq_wf_def)
qed

lemma vb_capacity: "vb_ok b \<Longrightarrow> unat (be_capacity b) < 2 ^ 63"
  by (simp add: vb_ok_def)

lemma queue_rq_reject:
  assumes "vb_ok (u_backend dev)" and "rq_wf lbs rq" and "\<not> rq_in_range lbs rq dev"
  shows "uringblk_queue_rq ld env lbs rq dev =
    Inr (\<lparr>ended = [STS_IOERR], segs_out = rq_segs rq, in_flight = None\<rparr>, dev)"
  using queue_rq_range [OF vb_capacity [OF assms(1)] assms(2)] assms(3)
  by (simp add: uringblk_queue_rq_def rq_rejected_def Let_def)

lemma queue_rq_virtual:
  assumes "vb_ok (u_backend dev)" and "rq_wf lbs rq" and "rq_in_range lbs rq dev" and "data_op (rq_op rq)"
  shows "\<exists>b'. uringblk_queue_rq ld env lbs rq dev =
      Inr (\<lparr>ended = [STS_OK],
            segs_out = fst (flat_request (rq_op rq) (rq_byte lbs rq) (rq_segs rq) (vb_content (u_backend dev))),
            in_flight = None\<rparr>,
           dev\<lparr>u_stats := count_rq rq (u_stats dev), u_backend := b'\<rparr>) \<and>
    vb_ok b' \<and> be_capacity b' = be_capacity (u_backend dev) \<and>
    vb_content b' = snd (flat_request (rq_op rq) (rq_byte lbs rq) (rq_segs rq) (vb_content (u_backend dev)))"
proof -
  let ?pos = "rq_sector rq * ucast lbs"
  have "unat ?pos + length (concat (rq_segs rq)) \<le> length (vb_content (u_backend dev))"
    using assms by (simp add: rq_pos rq_in_range_def vb_ok_def)
  from virtual_loop_flat [OF assms(1) this assms(4)] obtain b' where
    b': "virtual_loop (rq_op rq) (be_capacity (u_backend dev)) ?pos (rq_segs rq) (u_backend dev) =
      Inr (STS_OK, fst (flat_request (rq_op rq) (rq_byte lbs rq) (rq_segs rq) (vb_content (u_backend dev))), b')"
      "vb_ok b'" "be_capacity b' = be_capacity (u_backend dev)"
      "vb_content b' = snd (flat_request (rq_op rq) (rq_byte lbs rq) (rq_segs rq) (vb_content (u_backend dev)))"
    using rq_pos [OF assms(2)] by auto
  have "be_type (u_backend dev) \<noteq> BACKEND_DEVICE" using assms(1) by (simp add: vb_ok_def)
  with b' queue_rq_range [OF vb_capacity [OF assms(1)] assms(2)] assms(3,4) show ?thesis
    by (intro exI [of _ b']) (auto simp: uringblk_queue_rq_def rq_rejected_def Let_def data_op_def)
qed

end
