(* ===== verification/Uring_Cmd.thy ===== *)
theory Uring_Cmd
  imports Uring_Queue
begin

text \<open>
  The admin interface of the uringblk driver: the URING\_CMD dispatcher and its handlers with the
  packed little-endian responses of \<^verbatim>\<open>src/include/uringblk_uapi.h\<close>, the latency percentile, and
  the sysfs attributes of \<^verbatim>\<open>src/driver/uringblk_sysfs.c\<close>.  A response is the byte string that
  \<open>copy_to_user\<close> receives; whether the copy succeeds is an argument.
\<close>

section \<open>Packed structures\<close>

definition le :: "nat \<Rightarrow> 'a::len word \<Rightarrow> byte list" where
  "le n w = map (\<lambda>i. ucast (drop_bit (8 * i) w)) [0..<n]"

fun unle :: "byte list \<Rightarrow> nat" where
  "unle [] = 0"
| "unle (b # bs) = unat b + 256 * unle bs"

text \<open>\<open>strncpy(dst, src, size - 1)\<close> into zeroed memory.\<close>

definition cstr_field :: "nat \<Rightarrow> string \<Rightarrow> byte list" where
  "cstr_field n s =
     (let bs = map of_char (takeWhile (\<lambda>c. c \<noteq> CHR 0x00) (take (n - 1) s))
      in bs @ replicate (n - length bs) 0)"

definition URINGBLK_MAX_SEGMENTS :: u32 where
  "URINGBLK_MAX_SEGMENTS = 128"

definition URINGBLK_MAX_SEGMENT_SIZE :: u32 where
  "URINGBLK_MAX_SEGMENT_SIZE = 1048576"

definition FEAT_WRITE_CACHE :: u64 where
  [simp]: "FEAT_WRITE_CACHE = 1"

definition FEAT_FUA :: u64 where
  [simp]: "FEAT_FUA = 2"

definition FEAT_FLUSH :: u64 where
  [simp]: "FEAT_FLUSH = 4"

definition FEAT_DISCARD :: u64 where
  [simp]: "FEAT_DISCARD = 8"

definition FEAT_WRITE_ZEROES :: u64 where
  [simp]: "FEAT_WRITE_ZEROES = 16"

definition FEAT_ZONED :: u64 where
  [simp]: "FEAT_ZONED = 32"

definition FEAT_POLLING :: u64 where
  [simp]: "FEAT_POLLING = 64"

definition supported_features :: u64 where
  "supported_features = FEAT_WRITE_CACHE OR FEAT_FUA OR FEAT_FLUSH OR FEAT_DISCARD OR
     FEAT_WRITE_ZEROES OR FEAT_POLLING"

definition enc_identify :: "u32 \<Rightarrow> uringblk_device \<Rightarrow> byte list" where
  "enc_identify lbs dev =
     cstr_field 40 (u_model dev) @ cstr_field 16 (u_firmware dev) @ le 4 lbs @ le 4 lbs @
     le 8 (be_capacity (u_backend dev) div ucast lbs) @ le 8 (u_features dev) @
     le 4 (nr_hw_queues (u_config dev)) @ le 4 (queue_depth (u_config dev)) @
     le 4 URINGBLK_MAX_SEGMENTS @ le 4 URINGBLK_MAX_SEGMENT_SIZE @ le 4 (4096 :: u32) @ le 4 lbs @
     le 4 (65536 :: u32) @ le 4 (0 :: u32) @ le 8 (0 :: u64)"

definition enc_limits :: "u32 \<Rightarrow> uringblk_device \<Rightarrow> byte list" where
  "enc_limits lbs dev =
     le 4 (4096 :: u32) @ le 4 (4096 :: u32) @ le 4 (nr_hw_queues (u_config dev)) @
     le 4 (queue_depth (u_config dev)) @ le 4 URINGBLK_MAX_SEGMENTS @ le 4 URINGBLK_MAX_SEGMENT_SIZE @
     le 4 (4096 :: u32) @ le 4 lbs @ le 4 (65536 :: u32) @ le 4 (0 :: u32) @ le 8 (0 :: u64)"

definition enc_geometry :: "u32 \<Rightarrow> uringblk_device \<Rightarrow> byte list" where
  "enc_geometry lbs dev =
     (let sectors = be_capacity (u_backend dev) div ucast lbs
      in le 8 sectors @ le 4 lbs @ le 4 lbs @ le 2 (ucast (sectors div (16 * 63)) :: u16) @
         le 1 (16 :: u8) @ le 1 (63 :: u8))"

definition enc_stats :: "uringblk_stats \<Rightarrow> byte list" where
  "enc_stats st =
     le 8 (read_ops st) @ le 8 (write_ops st) @ le 8 (flush_ops st) @ le 8 (discard_ops st) @
     le 8 (read_sectors st) @ le 8 (write_sectors st) @ le 8 (read_bytes st) @ le 8 (write_bytes st) @
     le 8 (queue_full_events st) @ le 8 (media_errors st) @ le 8 (retries st) @
     le 4 (p50_read_latency_us st) @ le 4 (p99_read_latency_us st) @
     le 4 (p50_write_latency_us st) @ le 4 (p99_write_latency_us st)"

section \<open>Handlers\<close>

text \<open>The result of a handler: an error, or the bytes it copied out (their number is its return value).\<close>

definition respond :: "bool \<Rightarrow> byte list \<Rightarrow> errno + byte list" where
  "respond to_user_ok bs = (if to_user_ok then Inr bs else Inl EFAULT)"

definition uringblk_cmd_identify :: "bool \<Rightarrow> u32 \<Rightarrow> u32 \<Rightarrow> uringblk_device \<Rightarrow> (errno + byte list) kres" where
  "uringblk_cmd_identify ok lbs len dev =
     (if len < 120 then Inr (Inl EINVAL)
      else kguard DivByZero (lbs \<noteq> 0) (Inr (respond ok (enc_identify lbs dev))))"

definition uringblk_cmd_get_limits :: "bool \<Rightarrow> u32 \<Rightarrow> u32 \<Rightarrow> uringblk_device \<Rightarrow> errno + byte list" where
  "uringblk_cmd_get_limits ok lbs len dev =
     (if len < 48 then Inl EINVAL else respond ok (enc_limits lbs dev))"

definition uringblk_cmd_get_features :: "bool \<Rightarrow> u32 \<Rightarrow> uringblk_device \<Rightarrow> errno + byte list" where
  "uringblk_cmd_get_features ok len dev =
     (if len < 8 then Inl EINVAL else respond ok (le 8 (u_features dev)))"

definition uringblk_cmd_get_geometry :: "bool \<Rightarrow> u32 \<Rightarrow> u32 \<Rightarrow> uringblk_device \<Rightarrow> (errno + byte list) kres" where
  "uringblk_cmd_get_geometry ok lbs len dev =
     (if len < 20 then Inr (Inl EINVAL)
      else kguard DivByZero (lbs \<noteq> 0) (Inr (respond ok (enc_geometry lbs dev))))"

text \<open>The search loop of the percentile; \<open>i\<close> is the index of the first bucket of the list.\<close>

fun find_bucket :: "u32 list \<Rightarrow> u64 \<Rightarrow> u64 \<Rightarrow> u32 \<Rightarrow> u32 option" where
  "find_bucket [] running target i = None"
| "find_bucket (b # bs) running target i =
     (let running' = running + ucast b
      in if running' \<ge> target then Some (i * 10) else find_bucket bs running' target (i + 1))"

definition calculate_latency_percentile :: "u32 list \<Rightarrow> u32 \<Rightarrow> u32" where
  "calculate_latency_percentile buckets percentile =
     (let total_ops = fold (\<lambda>b a. a + ucast b) buckets (0 :: u64)
      in if total_ops = 0 then 0
         else
           let target_ops = (total_ops * ucast percentile) div 100
           in case find_bucket buckets 0 target_ops 0 of
                Some r \<Rightarrow> r
              | None \<Rightarrow> (of_nat (length buckets) - 1) * 10)"

definition uringblk_cmd_get_stats :: "bool \<Rightarrow> u32 \<Rightarrow> uringblk_device \<Rightarrow> errno + byte list" where
  "uringblk_cmd_get_stats ok len dev =
     (if len < 104 then Inl EINVAL
      else
        let bs = u_latency_buckets dev;
            stats = (u_stats dev)
              \<lparr>p50_read_latency_us := calculate_latency_percentile bs 50,
               p99_read_latency_us := calculate_latency_percentile bs 99,
               p50_write_latency_us := calculate_latency_percentile bs 50,
               p99_write_latency_us := calculate_latency_percentile bs 99\<rparr>
        in respond ok (enc_stats stats))"

text \<open>The new features are read from user space; \<open>None\<close> is a failed copy.\<close>

definition uringblk_cmd_set_features :: "u64 option \<Rightarrow> u32 \<Rightarrow> uringblk_device \<Rightarrow> ret \<times> uringblk_device" where
  "uringblk_cmd_set_features from_user len dev =
     (if len < 8 then (Some EINVAL, dev)
      else case from_user of
          None \<Rightarrow> (Some EFAULT, dev)
        | Some features \<Rightarrow>
            if features AND NOT supported_features \<noteq> 0 then (Some EINVAL, dev)
            else (None, dev\<lparr>u_features := features\<rparr>))"

section \<open>Dispatch\<close>

record uring_sqe =
  sqe_opcode :: u16
  sqe_len :: u32
  sqe_cancel :: bool
  sqe_nonblock :: bool

text \<open>What the surroundings of one command decide: the mutex, signals, the user copies.\<close>

record cmd_env =
  ce_locked :: bool
  ce_interrupted :: bool
  ce_to_user :: bool
  ce_from_user :: "u64 option"

text \<open>
  A command either returns an error at once, or is queued and completes later with the result
  of its handler.
\<close>

datatype cmd_outcome = Immediate errno | Queued "errno + byte list"

text \<open>The opcodes with a handler.\<close>

definition URINGBLK_UCMD_IDENTIFY :: u16 where
  [simp]: "URINGBLK_UCMD_IDENTIFY = 1"

definition URINGBLK_UCMD_GET_LIMITS :: u16 where
  [simp]: "URINGBLK_UCMD_GET_LIMITS = 2"

definition URINGBLK_UCMD_GET_FEATURES :: u16 where
  [simp]: "URINGBLK_UCMD_GET_FEATURES = 3"

definition URINGBLK_UCMD_SET_FEATURES :: u16 where
  [simp]: "URINGBLK_UCMD_SET_FEATURES = 4"

definition URINGBLK_UCMD_GET_GEOMETRY :: u16 where
  [simp]: "URINGBLK_UCMD_GET_GEOMETRY = 5"

definition URINGBLK_UCMD_GET_STATS :: u16 where
  [simp]: "URINGBLK_UCMD_GET_STATS = 6"

text \<open>The switch over the opcode, under the admin mutex.\<close>

definition cmd_switch ::
  "u32 \<Rightarrow> cmd_env \<Rightarrow> uring_sqe \<Rightarrow> uringblk_device \<Rightarrow> ((errno + byte list) \<times> uringblk_device) kres" where
  "cmd_switch lbs env sqe dev =
     (let len = sqe_len sqe; ok = ce_to_user env; cmd = sqe_opcode sqe in
      if cmd = URINGBLK_UCMD_IDENTIFY then kbind (uringblk_cmd_identify ok lbs len dev) (\<lambda>r. Inr (r, dev))
      else if cmd = URINGBLK_UCMD_GET_LIMITS then Inr (uringblk_cmd_get_limits ok lbs len dev, dev)
      else if cmd = URINGBLK_UCMD_GET_FEATURES then Inr (uringblk_cmd_get_features ok len dev, dev)
      else if cmd = URINGBLK_UCMD_SET_FEATURES then
        (case uringblk_cmd_set_features (ce_from_user env) len dev of
           (Some e, dev') \<Rightarrow> Inr (Inl e, dev')
         | (None, dev') \<Rightarrow> Inr (Inr [], dev'))
      else if cmd = URINGBLK_UCMD_GET_GEOMETRY then kbind (uringblk_cmd_get_geometry ok lbs len dev) (\<lambda>r. Inr (r, dev))
      else if cmd = URINGBLK_UCMD_GET_STATS then Inr (uringblk_cmd_get_stats ok len dev, dev)
      else Inr (Inl EOPNOTSUPP, dev))"

text \<open>The result waits in the PDU of the command until task work hands it to io\_uring.\<close>

record uringblk_cmd_pdu =
  pdu_result :: "errno + byte list"

definition uringblk_uring_cmd_complete_async :: "uringblk_cmd_pdu \<Rightarrow> cmd_outcome" where
  "uringblk_uring_cmd_complete_async pdu = Queued (pdu_result pdu)"

definition uringblk_uring_cmd ::
  "u32 \<Rightarrow> cmd_env \<Rightarrow> uring_sqe \<Rightarrow> uringblk_device option \<Rightarrow>
     (cmd_outcome \<times> uringblk_device option) kres" where
  "uringblk_uring_cmd lbs env sqe devp =
     (if sqe_cancel sqe then Inr (Immediate ECANCELED, devp)
      else case devp of
          None \<Rightarrow> Inr (Immediate ENODEV, devp)
        | Some dev \<Rightarrow>
            if sqe_len sqe > 4096 then Inr (Immediate EINVAL, devp)
            else if sqe_nonblock sqe \<and> ce_locked env then Inr (Immediate EAGAIN, devp)
            else if ce_interrupted env then Inr (Immediate ERESTARTSYS, devp)
            else kbind (cmd_switch lbs env sqe dev) (\<lambda>(r, dev').
              Inr (uringblk_uring_cmd_complete_async \<lparr>pdu_result = r\<rparr>, Some dev')))"

definition uringblk_handle_uring_cmd where
  "uringblk_handle_uring_cmd = uringblk_uring_cmd"

section \<open>Sysfs attributes\<close>

text \<open>\<open>%llx\<close>.\<close>

definition hexdigit :: "nat \<Rightarrow> char" where
  "hexdigit d = (if d < 10 then char_of (48 + d) else char_of (87 + d))"

fun hex :: "nat \<Rightarrow> string" where
  "hex n = (if n < 16 then [hexdigit n] else hex (n div 16) @ [hexdigit (n mod 16)])"

declare hex.simps [simp del]

abbreviation nl :: string where
  "nl \<equiv> [CHR 0x0A]"

definition features_show :: "uringblk_device \<Rightarrow> string" where
  "features_show d = ''0x'' @ hex (unat (u_features d)) @ nl"

definition firmware_rev_show :: "uringblk_device \<Rightarrow> string" where
  "firmware_rev_show d = u_firmware d @ nl"

definition model_show :: "uringblk_device \<Rightarrow> string" where
  "model_show d = u_model d @ nl"

definition nr_hw_queues_show :: "uringblk_device \<Rightarrow> string" where
  "nr_hw_queues_show d = dec (unat (nr_hw_queues (u_config d))) @ nl"

definition queue_depth_show :: "uringblk_device \<Rightarrow> string" where
  "queue_depth_show d = dec (unat (queue_depth (u_config d))) @ nl"

definition poll_enabled_show :: "uringblk_device \<Rightarrow> string" where
  "poll_enabled_show d = (if enable_poll (u_config d) then ''enabled'' else ''disabled'') @ nl"

definition discard_enabled_show :: "uringblk_device \<Rightarrow> string" where
  "discard_enabled_show d = (if enable_discard (u_config d) then ''enabled'' else ''disabled'') @ nl"

definition write_cache_show :: "uringblk_device \<Rightarrow> string" where
  "write_cache_show d = (if write_cache (u_config d) then ''write-back'' else ''write-through'') @ nl"

definition capacity_show :: "uringblk_device \<Rightarrow> string" where
  "capacity_show d = dec (unat (be_capacity (u_backend d))) @ nl"

definition read_ops_show :: "uringblk_device \<Rightarrow> string" where
  "read_ops_show d = dec (unat (read_ops (u_stats d))) @ nl"

definition write_ops_show :: "uringblk_device \<Rightarrow> string" where
  "write_ops_show d = dec (unat (write_ops (u_stats d))) @ nl"

definition read_bytes_show :: "uringblk_device \<Rightarrow> string" where
  "read_bytes_show d = dec (unat (read_bytes (u_stats d))) @ nl"

definition write_bytes_show :: "uringblk_device \<Rightarrow> string" where
  "write_bytes_show d = dec (unat (write_bytes (u_stats d))) @ nl"

definition flush_ops_show :: "uringblk_device \<Rightarrow> string" where
  "flush_ops_show d = dec (unat (flush_ops (u_stats d))) @ nl"

definition discard_ops_show :: "uringblk_device \<Rightarrow> string" where
  "discard_ops_show d = dec (unat (discard_ops (u_stats d))) @ nl"

definition queue_full_events_show :: "uringblk_device \<Rightarrow> string" where
  "queue_full_events_show d = dec (unat (queue_full_events (u_stats d))) @ nl"

definition media_errors_show :: "uringblk_device \<Rightarrow> string" where
  "media_errors_show d = dec (unat (media_errors (u_stats d))) @ nl"

definition stats_zero :: uringblk_stats where
  "stats_zero = \<lparr>read_ops = 0, write_ops = 0, flush_ops = 0, discard_ops = 0, read_sectors = 0,
     write_sectors = 0, read_bytes = 0, write_bytes = 0, queue_full_events = 0, media_errors = 0,
     retries = 0, p50_read_latency_us = 0, p99_read_latency_us = 0, p50_write_latency_us = 0,
     p99_write_latency_us = 0\<rparr>"

text \<open>\<open>kstrtoint\<close> is the kernel's: its result is the argument, \<open>None\<close> for a parse error.\<close>

definition stats_reset_store :: "int option \<Rightarrow> u64 \<Rightarrow> uringblk_device \<Rightarrow> (errno + u64) \<times> uringblk_device" where
  "stats_reset_store parsed count d =
     (case parsed of
        None \<Rightarrow> (Inl EINVAL, d)
      | Some val \<Rightarrow> if val \<noteq> 1 then (Inl EINVAL, d)
                    else (Inr count, d\<lparr>u_stats := stats_zero\<rparr>))"

text \<open>The attribute group \<open>uringblk\<close> of the disk: the names in the order of the array, with the function that
  shows the attribute; \<open>stats_reset\<close> can only be written.\<close>

definition uringblk_attrs :: "(string \<times> (uringblk_device \<Rightarrow> string) option) list" where
  "uringblk_attrs =
     [(''features'', Some features_show), (''firmware_rev'', Some firmware_rev_show),
      (''model'', Some model_show), (''nr_hw_queues'', Some nr_hw_queues_show),
      (''queue_depth'', Some queue_depth_show), (''poll_enabled'', Some poll_enabled_show),
      (''discard_enabled'', Some discard_enabled_show), (''write_cache'', Some write_cache_show),
      (''capacity'', Some capacity_show), (''read_ops'', Some read_ops_show),
      (''write_ops'', Some write_ops_show), (''read_bytes'', Some read_bytes_show),
      (''write_bytes'', Some write_bytes_show), (''flush_ops'', Some flush_ops_show),
      (''discard_ops'', Some discard_ops_show), (''queue_full_events'', Some queue_full_events_show),
      (''media_errors'', Some media_errors_show), (''stats_reset'', None)]"

lemma uringblk_attrs_distinct: "distinct (map fst uringblk_attrs)"
  by (simp add: uringblk_attrs_def)

section \<open>Responses\<close>

lemma length_le [simp]: "length (le n w) = n"
  by (simp add: le_def)

lemma length_cstr_field [simp]: "0 < n \<Longrightarrow> length (cstr_field n s) = n"
proof -
  assume "0 < n"
  have "length (takeWhile (\<lambda>c. c \<noteq> CHR 0x00) (take (n - 1) s)) \<le> n - 1"
    by (rule order_trans [OF length_takeWhile_le]) simp
  then show ?thesis by (simp add: cstr_field_def Let_def)
qed

lemma response_sizes [simp]:
  "length (enc_identify lbs dev) = 120" "length (enc_limits lbs dev) = 48"
  "length (enc_geometry lbs dev) = 20" "length (enc_stats st) = 104"
  by (simp_all add: enc_identify_def enc_limits_def enc_geometry_def enc_stats_def Let_def)

lemma le_Suc: "le (Suc n) (w :: 'a::len word) = ucast w # le n (drop_bit 8 w)"
  by (simp add: le_def upt_conv_Cons map_Suc_upt [symmetric] comp_def add.commute del: upt_Suc)

lemma unat_ucast_8: "unat (ucast (w :: 'a::len word) :: u8) = unat w mod 256"
  by (simp add: unsigned_ucast_eq unsigned_take_bit_eq take_bit_eq_mod)

lemma unle_le: "unle (le n (w :: 'a::len word)) = unat w mod 256 ^ n"
proof (induction n arbitrary: w)
  case (Suc n)
  have "unat (drop_bit 8 w) = unat w div 256" 
    by (simp only: unsigned_drop_bit_eq) (simp add: drop_bit_eq_div take_bit_nat_eq_self)
  with Suc.IH [of "drop_bit 8 w"] show ?case
    by (simp add: le_Suc unat_ucast_8 mod_mult2_eq [of _ 256 "256 ^ n"])
qed (simp add: le_def)

lemma unle_le_u64 [simp]: "unle (le 8 (w :: u64)) = unat w"
  using unsigned_less [of w, where ?'a = nat] by (simp add: unle_le)

end
