(* ===== verification/Uring_Latency.thy ===== *)
theory Uring_Latency
  imports Uring_Cmd
begin

text \<open>The latency percentile: which bucket the search loop stops at.\<close>

abbreviation bsum :: "u32 list \<Rightarrow> nat" where
  "bsum bs \<equiv> sum_list (map unat bs)"

lemma bsum_bound: "bsum bs \<le> length bs * (2 ^ 32 - 1)"
proof (induction bs)
  case (Cons b bs)
  have "unat b \<le> 2 ^ 32 - 1" using unsigned_less [of b, where ?'a = nat] by simp
  with Cons show ?case by simp
qed simp

lemma unat_bucket: "unat (ucast (b::u32) :: u64) = unat b"
  by (simp add: unsigned_ucast_eq unsigned_take_bit_eq take_bit_nat_eq_self_iff order_less_trans [OF unsigned_less])

lemma unat_add_bucket: "unat (r::u64) + unat (b::u32) < 2 ^ 64 \<Longrightarrow> unat (r + ucast b) = unat r + unat b"
  using unat_add_small [of r "ucast b"] by (simp add: unat_bucket)

lemma unat_total:
  "unat a + bsum bs < 2 ^ 64 \<Longrightarrow> unat (fold (\<lambda>b a. a + ucast b) bs (a::u64)) = unat a + bsum bs"
proof (induction bs arbitrary: a)
  case (Cons b bs)
  then have "unat (a + ucast b) = unat a + unat b" by (intro unat_add_bucket) simp
  with Cons.IH [of "a + ucast b"] Cons.prems show ?case by simp
qed simp

lemma find_bucket_None:
  "unat r + bsum bs < 2 ^ 64 \<Longrightarrow> bs \<noteq> [] \<Longrightarrow> find_bucket bs r t i = None \<Longrightarrow> unat r + bsum bs < unat t"
proof (induction bs arbitrary: r i)
  case (Cons b bs)
  from Cons.prems have u: "unat (r + ucast b) = unat r + unat b" by (intro unat_add_bucket) simp
  from Cons.prems(3) have n: "\<not> t \<le> r + ucast b" "find_bucket bs (r + ucast b) t (i + 1) = None"
    by (auto simp: Let_def split: if_splits)
  then have lt: "unat r + unat b < unat t" using u by (simp add: word_le_nat_alt)
  show ?case
  proof (cases "bs = []")
    case True
    with lt show ?thesis by simp
  next
    case False
    with Cons.IH [of "r + ucast b" "i + 1"] n(2) u Cons.prems(1) show ?thesis by simp
  qed
qed simp

lemma find_bucket_Some:
  assumes "unat r + bsum bs < 2 ^ 64" and "find_bucket bs r t i = Some v"
  shows "\<exists>k < length bs. v = (i + of_nat k) * 10 \<and> unat t \<le> unat r + bsum (take (Suc k) bs) \<and>
           (\<forall>j < k. unat r + bsum (take (Suc j) bs) < unat t)"
  using assms
proof (induction bs arbitrary: r i)
  case (Cons b bs)
  from Cons.prems(1) have u: "unat (r + ucast b) = unat r + unat b" by (intro unat_add_bucket) simp
  show ?case
  proof (cases "t \<le> r + ucast b")
    case True
    with Cons.prems(2) have "v = i * 10" by (simp add: Let_def)
    with True u show ?thesis by (intro exI [of _ 0]) (simp add: word_le_nat_alt)
  next
    case False
    with Cons.prems(2) have "find_bucket bs (r + ucast b) t (i + 1) = Some v" by (simp add: Let_def)
    from Cons.IH [OF _ this] u Cons.prems(1) obtain k where k: "k < length bs" "v = (i + 1 + of_nat k) * 10"
      "unat t \<le> unat r + unat b + bsum (take (Suc k) bs)"
      "\<forall>j < k. unat r + unat b + bsum (take (Suc j) bs) < unat t" by auto
    have lt: "unat r + unat b < unat t" using False u by (simp add: word_le_nat_alt)
    have "unat r + bsum (take (Suc j) (b # bs)) < unat t" if "j < Suc k" for j
      using that k(4) lt by (cases j) (simp_all add: add.assoc)
    with k show ?thesis by (intro exI [of _ "Suc k"]) (simp add: algebra_simps)
  qed
qed simp

text \<open>The bucket where the running total first reaches the target, as a natural number.\<close>

lemma percentile_bucket:
  assumes "length bs = 32" and "p \<le> 100" and "0 < bsum bs"
  shows "\<exists>k < 32. calculate_latency_percentile bs p = of_nat k * 10 \<and>
     bsum bs * unat p div 100 \<le> bsum (take (Suc k) bs) \<and>
     (\<forall>j < k. bsum (take (Suc j) bs) < bsum bs * unat p div 100)"
proof -
  have b: "bsum bs \<le> 32 * (2 ^ 32 - 1)" using bsum_bound [of bs] assms(1) by simp
  let ?t = "fold (\<lambda>b a. a + ucast b) bs (0::u64)"
  have t: "unat ?t = bsum bs" using unat_total [of 0 bs] b by simp
  have p: "unat p \<le> 100" using assms(2) by (simp add: word_le_nat_alt)
  have "bsum bs * unat p \<le> 32 * (2 ^ 32 - 1) * 100" using b p by (intro mult_le_mono) simp_all
  then have "unat (?t * ucast p) = bsum bs * unat p"
    by (simp add: unat_word_ariths t unat_bucket)
  then have tgt: "unat (?t * ucast p div 100) = bsum bs * unat p div 100"
    by (simp add: unat_div)
  have nz: "?t \<noteq> 0" using t assms(3) unat_0 by (metis less_irrefl)
  have le: "bsum bs * unat p div 100 \<le> bsum bs" using p
    by (metis div_le_mono mult_le_mono2 nonzero_mult_div_cancel_right numeral_neq_zero zero_neq_numeral)
  have small: "unat (0::u64) + bsum bs < 2 ^ 64" using b by simp
  have ne: "bs \<noteq> []" using assms(1) by auto
  obtain v where v: "find_bucket bs 0 (?t * ucast p div 100) 0 = Some v"
    using find_bucket_None [OF small ne, of "?t * ucast p div 100" 0] tgt le by (cases "find_bucket bs 0 (?t * ucast p div 100) 0") auto
  from find_bucket_Some [OF small v] tgt assms(1) obtain k where "k < 32" "v = of_nat k * 10"
    "bsum bs * unat p div 100 \<le> bsum (take (Suc k) bs)"
    "\<forall>j < k. bsum (take (Suc j) bs) < bsum bs * unat p div 100" by auto
  moreover have "calculate_latency_percentile bs p = v"
    using v nz by (simp add: calculate_latency_percentile_def Let_def)
  ultimately show ?thesis by blast
qed

end
