(* ===== verification/Uring_Theorems.thy ===== *)
theory Uring_Theorems
  imports Uring_Requests Uring_Latency
begin

text \<open>
  The properties of the uringblk driver: the request path against a flat array of bytes, the life
  cycle of requests, where the two backends differ from what a block device promises, and the
  admin commands.
\<close>

section \<open>Histories of requests\<close>

text \<open>A history: one request after the other, as one hardware queue serves them.\<close>

fun run_requests ::
  "'d lower_dev \<Rightarrow> io_env \<Rightarrow> u32 \<Rightarrow> request list \<Rightarrow> uringblk_device \<Rightarrow>
     (rq_result list \<times> uringblk_device) kres" where
  "run_requests ld env lbs [] dev = Inr ([], dev)"
| "run_requests ld env lbs (rq # rqs) dev =
     kbind (uringblk_queue_rq ld env lbs rq dev) (\<lambda>(r, dev1).
     kbind (run_requests ld env lbs rqs dev1) (\<lambda>(rs, dev2). Inr (r # rs, dev2)))"

text \<open>The same history on an array of bytes.\<close>

definition rq_fits :: "u32 \<Rightarrow> nat \<Rightarrow> request \<Rightarrow> bool" where
  "rq_fits lbs cap rq \<longleftrightarrow> rq_byte lbs rq < cap \<and> rq_byte lbs rq + length (concat (rq_segs rq)) \<le> cap"

definition flat_rq :: "u32 \<Rightarrow> request \<Rightarrow> byte list \<Rightarrow> (blk_status \<times> byte list list) \<times> byte list" where
  "flat_rq lbs rq d =
     (if \<not> rq_fits lbs (length d) rq then ((STS_IOERR, rq_segs rq), d)
      else if rq_op rq = REQ_OP_OTHER then ((STS_NOTSUPP, rq_segs rq), d)
      else let (segs, d') = flat_request (rq_op rq) (rq_byte lbs rq) (rq_segs rq) d
           in ((STS_OK, segs), d'))"

fun flat_run :: "u32 \<Rightarrow> request list \<Rightarrow> byte list \<Rightarrow> (blk_status \<times> byte list list) list \<times> byte list" where
  "flat_run lbs [] d = ([], d)"
| "flat_run lbs (rq # rqs) d =
     (let (r, d1) = flat_rq lbs rq d; (rs, d2) = flat_run lbs rqs d1 in (r # rs, d2))"

definition done_rq :: "blk_status \<times> byte list list \<Rightarrow> rq_result" where
  "done_rq r = \<lparr>ended = [fst r], segs_out = snd r, in_flight = None\<rparr>"

definition count_if_fits :: "u32 \<Rightarrow> nat \<Rightarrow> request \<Rightarrow> uringblk_stats \<Rightarrow> uringblk_stats" where
  "count_if_fits lbs cap rq st = (if rq_fits lbs cap rq then count_rq rq st else st)"

lemma in_range_fits: "vb_ok (u_backend dev) \<Longrightarrow>
  rq_in_range lbs rq dev \<longleftrightarrow> rq_fits lbs (length (vb_content (u_backend dev))) rq"
  by (simp add: rq_in_range_def rq_fits_def vb_ok_def)

lemma length_flat_request:
  "pos + length (concat segs) \<le> length d \<Longrightarrow> length (snd (flat_request oper pos segs d)) = length d"
  by (cases oper) simp_all

lemma length_flat_rq [simp]: "length (snd (flat_rq lbs rq d)) = length d"
  using length_flat_request [of "rq_byte lbs rq" "rq_segs rq" d "rq_op rq"]
  by (simp add: flat_rq_def rq_fits_def case_prod_beta)

text \<open>One request of any kind on the virtual backend.\<close>

lemma queue_rq_flat:
  assumes "vb_ok (u_backend dev)" and "rq_wf lbs rq"
  shows "\<exists>b'. uringblk_queue_rq ld env lbs rq dev =
      Inr (done_rq (fst (flat_rq lbs rq (vb_content (u_backend dev)))),
           dev\<lparr>u_stats := count_if_fits lbs (length (vb_content (u_backend dev))) rq (u_stats dev), u_backend := b'\<rparr>) \<and>
    vb_ok b' \<and> vb_content b' = snd (flat_rq lbs rq (vb_content (u_backend dev)))"
proof -
  note fit = in_range_fits [OF assms(1), of lbs rq]
  consider "\<not> rq_in_range lbs rq dev" | "rq_in_range lbs rq dev" "data_op (rq_op rq)"
    | "rq_in_range lbs rq dev" "\<not> data_op (rq_op rq)" by blast
  then show ?thesis
  proof cases
    case 1
    with queue_rq_reject [OF assms] assms(1) fit show ?thesis
      by (intro exI [of _ "u_backend dev"]) (simp add: flat_rq_def done_rq_def count_if_fits_def)
  next
    case 2
    then have "rq_op rq \<noteq> REQ_OP_OTHER" by (auto simp: data_op_def)
    with queue_rq_virtual [OF assms 2] fit 2 show ?thesis
      by (auto simp: flat_rq_def done_rq_def count_if_fits_def case_prod_beta)
  next
    case 3
    then have o: "rq_op rq = REQ_OP_DRV_IN \<or> rq_op rq = REQ_OP_DRV_OUT \<or> rq_op rq = REQ_OP_OTHER"
      by (cases "rq_op rq") (auto simp: data_op_def)
    with queue_rq_range [OF vb_capacity [OF assms(1)] assms(2)] 3 fit assms(1) show ?thesis
      by (intro exI [of _ "u_backend dev"])
        (auto simp: uringblk_queue_rq_def rq_rejected_def uringblk_handle_uring_cmd_request_def flat_rq_def done_rq_def
          count_if_fits_def count_rq_def Let_def)
  qed
qed

lemma run_requests_flat:
  assumes "vb_ok (u_backend dev)" and "\<forall>rq \<in> set rqs. rq_wf lbs rq"
  shows "\<exists>dev'. run_requests ld env lbs rqs dev =
      Inr (map done_rq (fst (flat_run lbs rqs (vb_content (u_backend dev)))), dev') \<and>
    vb_ok (u_backend dev') \<and> vb_content (u_backend dev') = snd (flat_run lbs rqs (vb_content (u_backend dev))) \<and>
    u_stats dev' = fold (count_if_fits lbs (length (vb_content (u_backend dev)))) rqs (u_stats dev)"
  using assms
proof (induction rqs arbitrary: dev)
  case (Cons rq rqs)
  let ?d = "vb_content (u_backend dev)"
  from Cons.prems(2) have "rq_wf lbs rq" by simp
  from queue_rq_flat [OF Cons.prems(1) this] obtain b1 where
    b1: "uringblk_queue_rq ld env lbs rq dev = Inr (done_rq (fst (flat_rq lbs rq ?d)),
        dev\<lparr>u_stats := count_if_fits lbs (length ?d) rq (u_stats dev), u_backend := b1\<rparr>)"
      "vb_ok b1" "vb_content b1 = snd (flat_rq lbs rq ?d)" by blast
  let ?dev1 = "dev\<lparr>u_stats := count_if_fits lbs (length ?d) rq (u_stats dev), u_backend := b1\<rparr>"
  from Cons.IH [of ?dev1] b1(2) Cons.prems(2) obtain dev' where
    "run_requests ld env lbs rqs ?dev1 = Inr (map done_rq (fst (flat_run lbs rqs (vb_content b1))), dev')"
    "vb_ok (u_backend dev')" "vb_content (u_backend dev') = snd (flat_run lbs rqs (vb_content b1))"
    "u_stats dev' = fold (count_if_fits lbs (length ?d)) rqs (count_if_fits lbs (length ?d) rq (u_stats dev))"
    using b1(3) by auto
  with b1 show ?case by (simp add: case_prod_beta)
qed simp

section \<open>Samples for the witnesses\<close>

definition sample_lower :: "unit lower_dev" where
  "sample_lower = \<lparr>ld_bdev = True, ld_read = (\<lambda>_ n _. (Inr (replicate n 7), ())),
     ld_write = (\<lambda>_ _ _. (None, ())), ld_flush = (\<lambda>_. (None, ())), ld_discard = (\<lambda>_ _ _. (None, ()))\<rparr>"

definition sample_io :: io_env where
  "sample_io = \<lparr>io_ctx_mem = True, io_page_mem = True, io_add_page = True\<rparr>"

definition sample_config :: uringblk_config where
  "sample_config = \<lparr>nr_hw_queues = 1, queue_depth = 128, enable_poll = False, enable_discard = True,
     write_cache = True, zoned_mode = False, cfg_backend_type = 0, cfg_backend_device = []\<rparr>"

definition sample_device :: "be_kind \<Rightarrow> nat \<Rightarrow> uringblk_device" where
  "sample_device k n = \<lparr>u_config = sample_config, u_stats = stats_zero, u_latency_buckets = replicate 32 0,
     u_backend = \<lparr>be_type = k,
       be_private_data = (if k = BACKEND_VIRTUAL then Memory (replicate n 0) else Bdev_handle),
       be_capacity = of_nat n\<rparr>,
     u_features = 0, u_model = ''m'', u_firmware = ''f'', u_minor = 0\<rparr>"

lemma sample_device_ok:
  assumes "n < 2 ^ 63"
  shows "vb_ok (u_backend (sample_device BACKEND_VIRTUAL n))"
    "vb_content (u_backend (sample_device BACKEND_VIRTUAL n)) = replicate n 0"
  using assms
  by (simp_all add: sample_device_def vb_ok_def vb_content_def be_memory_def unsigned_of_nat take_bit_nat_eq_self)

abbreviation mk_rq :: "req_op \<Rightarrow> u64 \<Rightarrow> byte list list \<Rightarrow> request" where
  "mk_rq oper sector segs \<equiv> \<lparr>rq_op = oper, rq_sector = sector,
     rq_nbytes = of_nat (length (concat segs)), rq_segs = segs\<rparr>"

lemma mk_rq_wf:
  assumes "length (concat segs) < 2 ^ 32" and "unat sector * unat lbs + length (concat segs) < 2 ^ 63"
  shows "rq_wf lbs (mk_rq oper sector segs)"
  using assms by (simp add: rq_wf_def rq_byte_def unsigned_of_nat take_bit_nat_eq_self)

section \<open>The virtual backend is a block device\<close>

text \<open>C3.  Any history of requests on a device with the virtual backend returns, and its outcome is
  that of the same history on one flat array of bytes: each request is ended exactly once with the
  status the array gives, reads deliver the bytes of the array in their segments, the memory
  afterwards is the array, and the statistics count exactly the requests that were in range.  The
  requests are those whose segments hold as many bytes as the request and whose byte range does not exceed 63
  bits; positions are counted as the code does, in sectors times logical block size.\<close>

theorem virtual_queue_refines_flat:
  assumes "vb_ok (u_backend dev)" and "\<forall>rq \<in> set rqs. rq_wf lbs rq"
  shows "\<exists>dev'. run_requests ld env lbs rqs dev =
      Inr (map done_rq (fst (flat_run lbs rqs (vb_content (u_backend dev)))), dev') \<and>
    vb_ok (u_backend dev') \<and> vb_content (u_backend dev') = snd (flat_run lbs rqs (vb_content (u_backend dev))) \<and>
    u_stats dev' = fold (count_if_fits lbs (length (vb_content (u_backend dev)))) rqs (u_stats dev)"
  using assms by (rule run_requests_flat)

lemma virtual_queue_refines_flat_witness:
  "\<exists>dev'. run_requests sample_lower sample_io 1
      [mk_rq REQ_OP_WRITE 2 [[5, 6], [7]], mk_rq REQ_OP_READ 3 [[0], [0]], mk_rq REQ_OP_READ 7 [[0, 0]]]
      (sample_device BACKEND_VIRTUAL 8) =
    Inr ([\<lparr>ended = [STS_OK], segs_out = [[5, 6], [7]], in_flight = None\<rparr>,
          \<lparr>ended = [STS_OK], segs_out = [[6], [7]], in_flight = None\<rparr>,
          \<lparr>ended = [STS_IOERR], segs_out = [[0, 0]], in_flight = None\<rparr>], dev') \<and>
    vb_content (u_backend dev') = [0, 0, 5, 6, 7, 0, 0, 0]"
proof -
  let ?rqs = "[mk_rq REQ_OP_WRITE 2 [[5, 6], [7]], mk_rq REQ_OP_READ 3 [[0], [0]], mk_rq REQ_OP_READ 7 [[0, 0]]]"
  have "\<forall>rq \<in> set ?rqs. rq_wf 1 rq" by (simp add: rq_wf_def rq_byte_def)
  note run = virtual_queue_refines_flat [OF sample_device_ok(1) this, of 8 sample_lower sample_io]
  have d: "replicate 8 (0::byte) = [0, 0, 0, 0, 0, 0, 0, 0]" by (simp add: numeral_eq_Suc)
  have f: "flat_run 1 ?rqs [0, 0, 0, 0, 0, 0, 0, 0] =
      ([(STS_OK, [[5, 6], [7]]), (STS_OK, [[6], [7]]), (STS_IOERR, [[0, 0]])], [0, 0, 5, 6, 7, 0, 0, 0])"
    by (simp add: flat_rq_def rq_fits_def rq_byte_def slice_def splice_def)
  show ?thesis using run unfolding sample_device_ok(2) [of 8, simplified] d f by (auto simp: done_rq_def)
qed

text \<open>Written data is read back, however either request is cut into segments, and a write
  leaves every range that it does not overlap as it was.\<close>

theorem virtual_write_read:
  assumes "vb_ok (u_backend dev)" and "rq_wf lbs w" and "rq_wf lbs r"
    and "rq_op w = REQ_OP_WRITE" and "rq_op r = REQ_OP_READ"
    and "rq_in_range lbs w dev" and "rq_in_range lbs r dev"
  shows "\<exists>rw rr dev'. run_requests ld env lbs [w, r] dev = Inr ([rw, rr], dev') \<and> ended rr = [STS_OK] \<and>
    (rq_byte lbs r = rq_byte lbs w \<and> rq_nbytes r = rq_nbytes w \<longrightarrow> concat (segs_out rr) = concat (rq_segs w)) \<and>
    (rq_byte lbs r + length (concat (rq_segs r)) \<le> rq_byte lbs w \<or>
     rq_byte lbs w + length (concat (rq_segs w)) \<le> rq_byte lbs r \<longrightarrow>
       concat (segs_out rr) = slice (vb_content (u_backend dev)) (rq_byte lbs r) (length (concat (rq_segs r))))"
proof -
  let ?d = "vb_content (u_backend dev)" and ?n = "length (concat (rq_segs r))"
  let ?d1 = "splice ?d (rq_byte lbs w) (concat (rq_segs w))"
  from assms have fit: "rq_fits lbs (length ?d) w" "rq_fits lbs (length ?d) r" by (simp_all add: in_range_fits)
  then have len: "length ?d1 = length ?d" by (simp add: rq_fits_def)
  from run_requests_flat [OF assms(1), of "[w, r]" lbs ld env] assms(2-5) fit len obtain dev' where
    run: "run_requests ld env lbs [w, r] dev = Inr ([done_rq (STS_OK, rq_segs w),
      done_rq (STS_OK, split_like (rq_segs r) (slice ?d1 (rq_byte lbs r) ?n))], dev')"
    by (auto simp: flat_rq_def)
  have "length (slice ?d1 (rq_byte lbs r) ?n) = ?n" using fit len by (simp add: rq_fits_def)
  then have c: "concat (split_like (rq_segs r) (slice ?d1 (rq_byte lbs r) ?n)) = slice ?d1 (rq_byte lbs r) ?n"
    by (rule concat_split_like)
  have "slice ?d1 (rq_byte lbs r) ?n = concat (rq_segs w)"
    if "rq_byte lbs r = rq_byte lbs w" "rq_nbytes r = rq_nbytes w"
  proof -
    have "?n = length (concat (rq_segs w))" using that(2) assms(2,3) by (metis rq_wf_def)
    with that(1) fit(1) show ?thesis by (simp add: rq_fits_def)
  qed
  moreover have "slice ?d1 (rq_byte lbs r) ?n = slice ?d (rq_byte lbs r) ?n"
    if "rq_byte lbs r + ?n \<le> rq_byte lbs w \<or> rq_byte lbs w + length (concat (rq_segs w)) \<le> rq_byte lbs r"
    using that fit by (intro slice_splice_disjoint) (auto simp: rq_fits_def)
  ultimately show ?thesis using run c by (auto simp: done_rq_def)
qed

lemma virtual_write_read_witness:
  "\<exists>rw rr dev'. run_requests sample_lower sample_io 2
      [mk_rq REQ_OP_WRITE 1 [[1, 2], [3, 4]], mk_rq REQ_OP_READ 1 [[0], [0, 0, 0]]]
      (sample_device BACKEND_VIRTUAL 8) = Inr ([rw, rr], dev') \<and> concat (segs_out rr) = [1, 2, 3, 4]"
  using virtual_write_read [of "sample_device BACKEND_VIRTUAL 8" 2 "mk_rq REQ_OP_WRITE 1 [[1, 2], [3, 4]]"
    "mk_rq REQ_OP_READ 1 [[0], [0, 0, 0]]" sample_lower sample_io]
  by (auto simp: sample_device_ok rq_wf_def rq_byte_def in_range_fits rq_fits_def)

text \<open>With a logical block size of 4096 the driver multiplies the request's position, which the
  block layer counts in units of 512 bytes, by 4096: after a write of 8 KiB at sector 0 a read of
  sector 8, the second half of that write, returns what was stored at byte 32768 before, whatever
  was written.\<close>

theorem large_block_size_misplaces:
  assumes "vb_ok (u_backend dev)" and "36864 \<le> length (vb_content (u_backend dev))"
    and "length xs = 8192" and "length ys = 4096"
  shows "\<exists>rw rr dev'. run_requests ld env 4096 [mk_rq REQ_OP_WRITE 0 [xs], mk_rq REQ_OP_READ 8 [ys]] dev =
      Inr ([rw, rr], dev') \<and> ended rw = [STS_OK] \<and> ended rr = [STS_OK] \<and>
    concat (segs_out rr) = slice (vb_content (u_backend dev)) 32768 4096"
proof -
  let ?w = "mk_rq REQ_OP_WRITE 0 [xs]" and ?r = "mk_rq REQ_OP_READ 8 [ys]"
  let ?d = "vb_content (u_backend dev)"
  have wf: "\<forall>rq \<in> set [?w, ?r]. rq_wf 4096 rq" using assms(3,4) by (simp add: rq_wf_def rq_byte_def)
  have "slice (splice ?d 0 xs) 32768 4096 = slice ?d 32768 4096"
    using assms(2,3) by (intro slice_splice_disjoint) simp_all
  moreover have "length (slice ?d 32768 4096) = 4096" using assms(2) by simp
  ultimately show ?thesis
    using run_requests_flat [OF assms(1) wf, of ld env] assms(2-4)
    by (auto simp: flat_rq_def rq_fits_def rq_byte_def done_rq_def)
qed

lemma large_block_size_misplaces_witness:
  "\<exists>rw rr dev'. run_requests sample_lower sample_io 4096
      [mk_rq REQ_OP_WRITE 0 [replicate 8192 9], mk_rq REQ_OP_READ 8 [replicate 4096 1]]
      (sample_device BACKEND_VIRTUAL 65536) = Inr ([rw, rr], dev') \<and> ended rr = [STS_OK] \<and>
    concat (segs_out rr) = slice (replicate 65536 0) 32768 4096"
  using large_block_size_misplaces [of "sample_device BACKEND_VIRTUAL 65536" "replicate 8192 9"
      "replicate 4096 1" sample_lower sample_io] sample_device_ok [of 65536]
  by auto

text \<open>The range test compares signed numbers: a position that reaches \<open>2 ^ 63\<close> is negative and
  passes, and the virtual backend then copies from in front of its memory.\<close>

theorem range_test_accepts_negative:
  assumes "vb_ok (u_backend dev)" and "length buf = 512"
  shows "uringblk_queue_rq ld env 512 (mk_rq REQ_OP_READ (2 ^ 55 - 1) [buf]) dev = Inl OutOfBounds"
proof -
  let ?cap = "be_capacity (u_backend dev)"
  have pos: "(2 ^ 55 - 1 :: u64) * ucast (512 :: u32) = 18446744073709551104" by simp
  have s: "0 \<le> sint ?cap" using sint_small [of ?cap] assms(1) by (simp add: vb_ok_def)
  have n: "sint (18446744073709551104 :: u64) = - 512" by simp
  have z: "(18446744073709551616 :: u64) = 0" by (simp add: word_unat_eq_iff)
  have "length (vb_content (u_backend dev)) < 2 ^ 63" using assms(1) by (simp add: vb_ok_def)
  then have "mem_read (vb_content (u_backend dev)) 18446744073709551104 512 = Inl OutOfBounds"
    by (simp add: mem_read_def)
  with vb_mem [OF assms(1)] assms s n show ?thesis
    by (simp add: uringblk_queue_rq_def pos z Let_def vb_ok_def clip_len_def virtual_segment_def virtual_backend_read_def)
qed

lemma range_test_accepts_negative_witness:
  "uringblk_queue_rq sample_lower sample_io 512 (mk_rq REQ_OP_READ (2 ^ 55 - 1) [replicate 512 0])
     (sample_device BACKEND_VIRTUAL 4096) = Inl OutOfBounds"
  by (rule range_test_accepts_negative) (simp_all add: sample_device_ok)

section \<open>Life cycle of requests\<close>

text \<open>How often a request is ended, counting the completion of a transfer that is in flight.\<close>

definition completions :: "rq_result \<Rightarrow> nat" where
  "completions r = length (ended r) + (if in_flight r = None then 0 else 1)"

lemma completions_simps [simp]:
  "completions \<lparr>ended = es, segs_out = ss, in_flight = None\<rparr> = length es"
  "completions (start_async rq x) = 1"
  by (cases x; simp add: start_async_def completions_def)+

lemma data_op_iff: "data_op oper \<longleftrightarrow> oper \<noteq> REQ_OP_DRV_IN \<and> oper \<noteq> REQ_OP_DRV_OUT \<and> oper \<noteq> REQ_OP_OTHER"
  by (cases oper) (simp_all add: data_op_def)

lemma device_dispatch_once:
  assumes "device_dispatch ld env cap pos rq b = Inr r"
  shows "completions r = (if rq_segs rq = [] then 0 else 1)"
  using assms by (cases "rq_op rq"; cases "rq_segs rq") (auto simp: device_dispatch_def Let_def kres_simps)

text \<open>C21.  A request that the driver accepts is ended exactly once, at once or by the completion of
  the one transfer that is in flight for it, in all cases but one: a request without data segments
  (a flush) on the device backend is neither ended nor started, so it never completes.\<close>

theorem request_completion:
  assumes "uringblk_queue_rq ld env lbs rq dev = Inr (r, dev')"
  shows "completions r =
    (if rq_segs rq = [] \<and> be_type (u_backend dev) = BACKEND_DEVICE \<and> data_op (rq_op rq) \<and>
        \<not> rq_rejected lbs rq dev then 0 else 1)"
proof (cases "rq_rejected lbs rq dev \<or> \<not> data_op (rq_op rq) \<or> be_type (u_backend dev) \<noteq> BACKEND_DEVICE")
  case True
  with assms show ?thesis
    by (auto simp: uringblk_queue_rq_def rq_rejected_def [symmetric] Let_def data_op_iff kres_simps
      uringblk_handle_uring_cmd_request_def split: if_splits)
next
  case False
  then have "device_dispatch ld env (be_capacity (u_backend dev)) (rq_sector rq * ucast lbs) rq (u_backend dev) = Inr r"
    using assms by (auto simp: uringblk_queue_rq_def rq_rejected_def [symmetric] Let_def data_op_iff kres_simps
      split: if_splits)
  with False device_dispatch_once [OF this] show ?thesis by simp
qed

lemma request_completion_witness:
  "\<exists>r dev'. uringblk_queue_rq sample_lower sample_io 512 (mk_rq REQ_OP_FLUSH 0 [])
      (sample_device BACKEND_DEVICE 4096) = Inr (r, dev') \<and> completions r = 0"
proof -
  let ?rq = "mk_rq REQ_OP_FLUSH 0 []" and ?dev = "sample_device BACKEND_DEVICE 4096"
  have nr: "\<not> rq_rejected 512 ?rq ?dev" by (simp add: rq_rejected_def sample_device_def)
  then obtain r dev' where q: "uringblk_queue_rq sample_lower sample_io 512 ?rq ?dev = Inr (r, dev')"
    by (simp add: uringblk_queue_rq_def rq_rejected_def Let_def sample_device_def device_dispatch_def)
  from request_completion [OF this] nr have "completions r = 0"
    by (simp add: data_op_def sample_device_def)
  with q show ?thesis by blast
qed

section \<open>The device backend\<close>

definition device_ready :: "'d lower_dev \<Rightarrow> io_env \<Rightarrow> uringblk_device \<Rightarrow> bool" where
  "device_ready ld env dev \<longleftrightarrow> be_type (u_backend dev) = BACKEND_DEVICE \<and>
     be_private_data (u_backend dev) \<noteq> No_data \<and> unat (be_capacity (u_backend dev)) < 2 ^ 63 \<and>
     ld_bdev ld \<and> io_ctx_mem env \<and> io_page_mem env \<and> io_add_page env"

lemma device_dispatch_transfer:
  assumes "device_ready ld env dev" and "unat pos + length buf \<le> unat (be_capacity (u_backend dev))"
    and "rq_segs rq = buf # rest" and "rq_op rq = REQ_OP_READ \<or> rq_op rq = REQ_OP_WRITE"
  shows "device_dispatch ld env (be_capacity (u_backend dev)) pos rq (u_backend dev) =
    Inr \<lparr>ended = [], segs_out = buf # rest, in_flight = Some
      \<lparr>ioc_op = rq_op rq, ioc_buffer = (rq_op rq = REQ_OP_READ), ioc_pos = pos, ioc_len = of_nat (length buf),
       ioc_page = Some (if rq_op rq = REQ_OP_READ then replicate PG 0 else take PG buf)\<rparr>\<rparr>"
proof -
  have cap: "unat (be_capacity (u_backend dev)) < 2 ^ 63" using assms(1) by (simp add: device_ready_def)
  note c = clip_in [OF cap assms(2)]
  have g: "\<not> pos + of_nat (length buf) > be_capacity (u_backend dev)"
    using c(3) assms(2) by (simp add: word_less_nat_alt)
  have n: "mem_read buf 0 (bio_bytes (of_nat (length buf))) = Inr (take PG buf)"
    using c(2) by (auto simp: bio_bytes_def slice_def min_def)
  show ?thesis using assms(1,3,4) g n c(1)
    by (auto simp: device_dispatch_def device_ready_def Let_def start_async_def
      device_backend_read_async_def device_backend_write_async_def)
qed

lemma bio_complete_read:
  assumes "ioc_op ctx = REQ_OP_READ" and "ioc_buffer ctx" and "unat (ioc_len ctx) = length buf" and "length page = PG"
  shows "device_backend_bio_complete STS_OK page buf ctx = Inr (take (length buf) page @ drop PG buf, STS_OK)"
proof -
  have "splice buf 0 (take (min (length buf) PG) page) = take (length buf) page @ drop PG buf"
    using assms(4) by (auto simp: splice_def min_def)
  with assms show ?thesis by (simp add: device_backend_bio_complete_def bio_bytes_def slice_def)
qed

text \<open>A read or write request on the device backend moves at most one page: the one transfer
  that is started carries the first page of the first segment, a read fills no more than that even
  though the request is then completed with success.  The rest of a longer segment, and all further
  segments, are left as they were; for a request of one segment of at most a page this is the
  whole request.\<close>

theorem device_moves_one_page:
  assumes "device_ready ld env dev" and "rq_wf lbs rq" and "rq_in_range lbs rq dev"
    and "rq_segs rq = buf # rest" and "rq_op rq = REQ_OP_READ \<or> rq_op rq = REQ_OP_WRITE"
  shows "\<exists>ctx dev'. uringblk_queue_rq ld env lbs rq dev =
      Inr (\<lparr>ended = [], segs_out = buf # rest, in_flight = Some ctx\<rparr>, dev') \<and>
    unat (ioc_pos ctx) = rq_byte lbs rq \<and>
    (rq_op rq = REQ_OP_WRITE \<longrightarrow> ioc_page ctx = Some (take PG buf)) \<and>
    (rq_op rq = REQ_OP_READ \<longrightarrow> (\<forall>page. length page = PG \<longrightarrow>
       device_backend_bio_complete STS_OK page buf ctx = Inr (take (length buf) page @ drop PG buf, STS_OK)))"
proof -
  let ?pos = "rq_sector rq * ucast lbs"
  have cap: "unat (be_capacity (u_backend dev)) < 2 ^ 63" using assms(1) by (simp add: device_ready_def)
  have r: "unat ?pos + length buf \<le> unat (be_capacity (u_backend dev))"
    using assms(2-4) by (simp add: rq_pos rq_in_range_def)
  note d = device_dispatch_transfer [OF assms(1) r assms(4,5)]
  have "\<not> rq_rejected lbs rq dev" using queue_rq_range [OF cap assms(2)] assms(3) by simp
  with d assms(1,5) rq_pos [OF assms(2)] clip_in(2) [OF cap r] show ?thesis
    by (auto simp: uringblk_queue_rq_def rq_rejected_def Let_def device_ready_def intro!: bio_complete_read)
qed

lemma device_moves_one_page_witness:
  "\<exists>ctx dev'. uringblk_queue_rq sample_lower sample_io 512
      (mk_rq REQ_OP_WRITE 1 [replicate 8192 3, replicate 512 4]) (sample_device BACKEND_DEVICE 65536) =
      Inr (\<lparr>ended = [], segs_out = [replicate 8192 3, replicate 512 4], in_flight = Some ctx\<rparr>, dev') \<and>
    ioc_page ctx = Some (replicate 4096 3)"
proof -
  let ?rq = "mk_rq REQ_OP_WRITE 1 [replicate 8192 3, replicate 512 4]" and ?dev = "sample_device BACKEND_DEVICE 65536"
  have "device_ready sample_lower sample_io ?dev"
    by (simp add: device_ready_def sample_device_def sample_lower_def sample_io_def)
  moreover have "rq_wf 512 ?rq" "rq_in_range 512 ?rq ?dev"
    by (simp_all add: rq_wf_def rq_in_range_def rq_byte_def sample_device_def)
  ultimately show ?thesis
    using device_moves_one_page [of sample_lower sample_io ?dev 512 ?rq "replicate 8192 3" "[replicate 512 4]"]
    by (auto simp: PG_def)
qed

section \<open>Admin commands\<close>

text \<open>GET\_STATS: a reply has 104 bytes, which decode to the counters of the device and to the
  50th and 99th percentile of its latency histogram.\<close>

theorem get_stats_decodes:
  assumes "uringblk_cmd_get_stats ok len dev = Inr bs"
  shows "length bs = 104 \<and>
    map (\<lambda>i. unle (slice bs (8 * i) 8)) [0..<11] =
      map unat [read_ops (u_stats dev), write_ops (u_stats dev), flush_ops (u_stats dev), discard_ops (u_stats dev),
        read_sectors (u_stats dev), write_sectors (u_stats dev), read_bytes (u_stats dev), write_bytes (u_stats dev),
        queue_full_events (u_stats dev), media_errors (u_stats dev), retries (u_stats dev)] \<and>
    map (\<lambda>i. unle (slice bs (88 + 4 * i) 4)) [0..<4] =
      map (\<lambda>p. unat (calculate_latency_percentile (u_latency_buckets dev) p)) [50, 99, 50, 99]"
proof -
  have u4: "unle (le 4 (w :: u32)) = unat w" for w
    using unsigned_less [of w, where ?'a = nat] by (simp add: unle_le)
  from assms have "bs = enc_stats ((u_stats dev)
      \<lparr>p50_read_latency_us := calculate_latency_percentile (u_latency_buckets dev) 50,
       p99_read_latency_us := calculate_latency_percentile (u_latency_buckets dev) 99,
       p50_write_latency_us := calculate_latency_percentile (u_latency_buckets dev) 50,
       p99_write_latency_us := calculate_latency_percentile (u_latency_buckets dev) 99\<rparr>)"
    by (auto simp: uringblk_cmd_get_stats_def respond_def Let_def split: if_splits)
  then show ?thesis
    by (simp add: enc_stats_def slice_def u4 upt_rec [of _ 11] upt_rec [of _ 4])
qed

lemma get_stats_decodes_witness:
  "\<exists>bs. uringblk_cmd_get_stats True 104 (sample_device BACKEND_VIRTUAL 8) = Inr bs \<and> length bs = 104"
proof -
  obtain bs where "uringblk_cmd_get_stats True 104 (sample_device BACKEND_VIRTUAL 8) = Inr bs"
    by (simp add: uringblk_cmd_get_stats_def respond_def Let_def)
  with get_stats_decodes [OF this] show ?thesis by blast
qed

end
