(* ===== verification/Uring_Config.thy ===== *)
theory Uring_Config
  imports Uring_Cmd "HOL-Library.Multiset"
begin

text \<open>
  Configuration of the uringblk driver: the ledger of what the kernel holds for the module, validation of the
  backend, and the parser of the device list with what it allocates and frees.  Module parameters and the
  results of kernel calls are arguments.
\<close>

section \<open>Ledger\<close>

text \<open>What the kernel holds for the module is a multiset; giving back something that is not in it is a fault.\<close>

datatype uring_res = UR_region | UR_cdev | UR_class | UR_major | UR_array | UR_dev
  | UR_backend | UR_tags | UR_disk | UR_added | UR_group | UR_node | UR_copy | UR_paths | UR_path

type_synonym ledger = "uring_res multiset"

definition drop_res :: "uring_res \<Rightarrow> ledger \<Rightarrow> ledger kres" where
  "drop_res r L = (if r \<in># L then Inr (L - {#r#}) else Inl UseAfterFree)"

lemma drop_res_add [simp]: "drop_res r (add_mset r L) = Inr L"
  by (simp add: drop_res_def)

section \<open>Validation\<close>

abbreviation "URINGBLK_BACKEND_VIRTUAL \<equiv> (0 :: int)"
abbreviation "URINGBLK_BACKEND_DEVICE \<equiv> (1 :: int)"

definition validate_backend_config :: "int \<Rightarrow> string \<Rightarrow> ret" where
  "validate_backend_config backend_type device_path =
     (if backend_type = URINGBLK_BACKEND_VIRTUAL then None
      else if backend_type = URINGBLK_BACKEND_DEVICE then
        if length device_path = 0 then Some EINVAL
        else if length device_path \<ge> 256 then Some EINVAL
        else None
      else Some EINVAL)"

section \<open>The device list\<close>

text \<open>
  The copy of the parameter is a buffer of characters that ends in a NUL; \<open>start\<close>, \<open>end\<close> and \<open>pos\<close>
  are indices into it.
\<close>

abbreviation NUL :: char where
  "NUL \<equiv> CHR 0x00"

definition blank :: "char \<Rightarrow> bool" where
  "blank c \<longleftrightarrow> c = CHR 0x20 \<or> c = CHR 0x09"

definition strlen_at :: "char list \<Rightarrow> nat \<Rightarrow> nat" where
  "strlen_at b start = length (takeWhile (\<lambda>c. c \<noteq> NUL) (drop start b))"

definition find_end :: "char list \<Rightarrow> nat \<Rightarrow> nat" where
  "find_end b start = start + length (takeWhile (\<lambda>c. c \<noteq> NUL \<and> c \<noteq> CHR '','') (drop start b))"

definition skip_blank :: "char list \<Rightarrow> nat \<Rightarrow> nat" where
  "skip_blank b start = start + length (takeWhile blank (drop start b))"

text \<open>The loop over trailing blanks; the last argument is \<open>pos - start\<close>.\<close>

fun trim_back :: "char list \<Rightarrow> nat \<Rightarrow> nat \<Rightarrow> char list" where
  "trim_back b start 0 = b"
| "trim_back b start (Suc n) =
     (if blank (b ! (start + Suc n)) then trim_back (b[start + Suc n := NUL]) start n else b)"

definition cstring_at :: "char list \<Rightarrow> nat \<Rightarrow> string" where
  "cstring_at b start = takeWhile (\<lambda>c. c \<noteq> NUL) (drop start b)"

lemma length_trim_back [simp]: "length (trim_back b start n) = length b"
  by (induction b start n rule: trim_back.induct) simp_all

text \<open>
  The parse loop.  \<open>dup_ok i\<close> says whether the copy of the \<open>i\<close>-th path could be allocated; the copies made so
  far are in the ledger, also when one fails.
\<close>

function parse_loop ::
  "(nat \<Rightarrow> bool) \<Rightarrow> nat \<Rightarrow> char list \<Rightarrow> nat \<Rightarrow> string list \<Rightarrow> ledger \<Rightarrow> (ret \<times> string list \<times> ledger) kres" where
  "parse_loop dup_ok num b start paths L =
     (if start \<ge> length b then Inl OutOfBounds
      else if b ! start = NUL \<or> \<not> length paths < num then Inr (None, paths, L)
      else
        let end_pos = find_end b start;
            b1 = (if b ! end_pos = CHR '','' then b[end_pos := NUL] else b);
            start1 = skip_blank b1 start;
            b2 = trim_back b1 start1 (strlen_at b1 start1 - 1)
        in if strlen_at b2 start1 > 0 \<and> \<not> dup_ok (length paths) then Inr (Some ENOMEM, paths, L)
           else
             let paths1 = (if strlen_at b2 start1 > 0 then paths @ [cstring_at b2 start1] else paths);
                 L1 = (if strlen_at b2 start1 > 0 then add_mset UR_path L else L);
                 start2 = (if b2 ! end_pos = NUL then end_pos else end_pos + 1)
             in parse_loop dup_ok num b2 start2 paths1 L1)"
  by pat_completeness auto
termination
  by (relation "measure (\<lambda>(_, _, b, start, _, _). if start < length b \<and> b ! start = NUL then 0 else Suc (length b - start))")
    (auto simp: find_end_def)

declare parse_loop.simps [simp del]

text \<open>
  The array of paths: \<open>None\<close> is the null pointer; in \<open>Some (num, ps)\<close> the array has \<open>num\<close> entries of
  which only the first ones, \<open>ps\<close>, have been written.
\<close>

type_synonym path_array = "(nat \<times> string list) option"

text \<open>The error path frees the copies it made, from the last to the first.\<close>

fun drop_copies :: "nat \<Rightarrow> ledger \<Rightarrow> ledger kres" where
  "drop_copies 0 L = Inr L"
| "drop_copies (Suc n) L = kbind (drop_res UR_path L) (drop_copies n)"

definition parse_device_list ::
  "bool \<Rightarrow> bool \<Rightarrow> (nat \<Rightarrow> bool) \<Rightarrow> string \<Rightarrow> ledger \<Rightarrow> ((errno + path_array \<times> nat) \<times> ledger) kres" where
  "parse_device_list copy_ok array_ok dup_ok device_str L =
     (if length device_str = 0 then Inr (Inr (None, 0), L)
      else if \<not> copy_ok then Inr (Inl ENOMEM, L)
      else
        let num = length (filter (\<lambda>c. c = CHR '','') device_str) + 1; L1 = add_mset UR_copy L in
        if \<not> array_ok then kbind (drop_res UR_copy L1) (\<lambda>L2. Inr (Inl ENOMEM, L2))
        else kbind (parse_loop dup_ok num (device_str @ [NUL]) 0 [] (add_mset UR_paths L1)) (\<lambda>(r, paths, L2). case r of
            Some e \<Rightarrow>
              kbind (drop_copies (length paths) L2) (\<lambda>L3.
              kbind (drop_res UR_paths L3) (\<lambda>L4.
              kbind (drop_res UR_copy L4) (\<lambda>L5. Inr (Inl e, L5))))
          | None \<Rightarrow> kbind (drop_res UR_copy L2) (\<lambda>L3. Inr (Inr (Some (num, paths), length paths), L3))))"

definition path_at :: "path_array \<Rightarrow> nat \<Rightarrow> string kres" where
  "path_at pa i =
     (case pa of
        None \<Rightarrow> Inl NullDeref
      | Some (num, ps) \<Rightarrow>
          if i \<ge> num then Inl OutOfBounds
          else if i \<ge> length ps then Inl UninitRead
          else Inr (ps ! i))"

text \<open>Freeing takes the entries below \<open>count\<close>, and then the array.\<close>

fun free_paths :: "path_array \<Rightarrow> nat \<Rightarrow> ledger \<Rightarrow> ledger kres" where
  "free_paths pa 0 L = Inr L"
| "free_paths pa (Suc n) L = kbind (free_paths pa n L) (\<lambda>L1. kbind (path_at pa n) (\<lambda>_. drop_res UR_path L1))"

definition free_device_list :: "path_array \<Rightarrow> int \<Rightarrow> ledger \<Rightarrow> ledger kres" where
  "free_device_list pa cnt L =
     (if pa = None then Inr L else kbind (free_paths pa (nat cnt) L) (drop_res UR_paths))"

section \<open>What the parser returns\<close>

definition rtrim :: "string \<Rightarrow> string" where
  "rtrim s = rev (dropWhile blank (rev s))"

definition first_path :: "string \<Rightarrow> string" where
  "first_path s = rtrim (dropWhile blank (takeWhile (\<lambda>c. c \<noteq> CHR '','') s))"

lemma blank_NUL [simp]: "\<not> blank NUL"
  by (simp add: blank_def)

lemma rtrim_snoc [simp]: "rtrim (g @ [c]) = (if blank c then rtrim g else g @ [c])"
  by (simp add: rtrim_def)

lemma rtrim_Nil [simp]: "rtrim [] = []"
  by (simp add: rtrim_def)

lemma length_rtrim: "length (rtrim g) \<le> length g"
  by (simp add: rtrim_def) (metis length_dropWhile_le length_rev)

lemma trim_back_exact:
  assumes "g \<noteq> []" and "\<not> blank (hd g)"
  shows "trim_back (pre @ g @ NUL # post) (length pre) (length g - 1) =
    pre @ rtrim g @ replicate (length g - length (rtrim g)) NUL @ NUL # post"
  using assms
proof (induction g arbitrary: post rule: rev_induct)
  case (snoc c g)
  show ?case
  proof (cases "g = []")
    case True
    with snoc.prems show ?thesis by (simp add: rtrim_def)
  next
    case False
    then obtain m where m: "length g = Suc m" by (cases g) auto
    from False snoc.prems have h: "\<not> blank (hd g)" by simp
    have at: "(pre @ (g @ [c]) @ NUL # post) ! (length pre + Suc m) = c"
      using m by (simp add: nth_append)
    have upd: "(pre @ (g @ [c]) @ NUL # post)[length pre + Suc m := NUL] = pre @ g @ NUL # NUL # post"
      using m by (simp add: list_update_append)
    have r: "replicate (length g - length (rtrim g)) NUL @ NUL # NUL # post =
        replicate (Suc (length g) - length (rtrim g)) NUL @ NUL # post"
      using length_rtrim [of g] by (simp add: Suc_diff_le replicate_app_Cons_same)
    have n: "length (g @ [c]) - 1 = Suc m" using m by simp
    show ?thesis
      unfolding n trim_back.simps at upd using snoc.IH [OF False h, of "NUL # post"] m r by simp
  qed
qed simp

lemma takeWhile_stop: "(\<forall>x \<in> set xs. P x) \<Longrightarrow> \<not> P y \<Longrightarrow> takeWhile P (xs @ y # ys) = xs"
  by (simp add: takeWhile_append)

text \<open>Cutting the first path off: the buffer after the comma was overwritten.\<close>

lemma cut_first:
  fixes s :: string
  defines "f \<equiv> takeWhile (\<lambda>c. c \<noteq> CHR '','') s" and "b \<equiv> s @ [NUL]"
  assumes "NUL \<notin> set s"
  shows "find_end b 0 = length f"
    and "\<exists>post. (if b ! length f = CHR '','' then b[length f := NUL] else b) = f @ NUL # post"
proof -
  define r where "r = dropWhile (\<lambda>c. c \<noteq> CHR '','') s"
  have r: "s = f @ r" "r \<noteq> [] \<Longrightarrow> hd r = CHR '',''"
    using hd_dropWhile [of "\<lambda>c. c \<noteq> CHR '',''" s] by (simp_all add: f_def r_def)
  have f: "\<forall>c \<in> set f. c \<noteq> NUL \<and> c \<noteq> CHR '',''"
    using assms(3) unfolding f_def by (auto dest: set_takeWhileD)
  then have "takeWhile (\<lambda>c. c \<noteq> NUL \<and> c \<noteq> CHR '','') b = f"
    using r by (cases r) (auto simp: b_def intro: takeWhile_stop)
  then show "find_end b 0 = length f" by (simp add: find_end_def)
  show "\<exists>post. (if b ! length f = CHR '','' then b[length f := NUL] else b) = f @ NUL # post"
    using r by (cases r) (auto simp: b_def)
qed

lemma trim_first:
  fixes f :: string
  defines "k \<equiv> length (takeWhile blank f)" and "g \<equiv> dropWhile blank f"
  assumes "NUL \<notin> set f"
  shows "skip_blank (f @ NUL # post) 0 = k"
    and "trim_back (f @ NUL # post) k (strlen_at (f @ NUL # post) k - 1) =
      takeWhile blank f @ rtrim g @ replicate (length g - length (rtrim g)) NUL @ NUL # post"
proof -
  have f: "f = takeWhile blank f @ g" by (simp add: g_def)
  have gn: "g \<noteq> [] \<Longrightarrow> \<not> blank (hd g)" unfolding g_def by (rule hd_dropWhile)
  have "takeWhile blank (f @ NUL # post) = takeWhile blank f"
    by (auto simp: takeWhile_append takeWhile_eq_all_conv [THEN iffD2])
  then show "skip_blank (f @ NUL # post) 0 = k" by (simp add: skip_blank_def k_def)
  have b: "f @ NUL # post = takeWhile blank f @ g @ NUL # post" using f by (metis append.assoc)
  have "\<forall>c \<in> set g. c \<noteq> NUL" using assms(3) by (auto simp: g_def dest: set_dropWhileD)
  then have "strlen_at (f @ NUL # post) k = length g"
    unfolding b by (simp add: strlen_at_def k_def takeWhile_stop)
  with gn show "trim_back (f @ NUL # post) k (strlen_at (f @ NUL # post) k - 1) =
      takeWhile blank f @ rtrim g @ replicate (length g - length (rtrim g)) NUL @ NUL # post"
    unfolding b using trim_back_exact [of g "takeWhile blank f" post] by (cases "g = []") (simp_all add: k_def)
qed

lemma parse_loop_first:
  assumes "s \<noteq> []" and "NUL \<notin> set s" and "0 < num"
  shows "parse_loop dup_ok num (s @ [NUL]) 0 [] L =
    Inr (if first_path s = [] then (None, [], L)
         else if dup_ok 0 then (None, [first_path s], add_mset UR_path L) else (Some ENOMEM, [], L))"
proof -
  let ?f = "takeWhile (\<lambda>c. c \<noteq> CHR '','') s" and ?b = "s @ [NUL]"
  let ?k = "length (takeWhile blank ?f)" and ?g = "dropWhile blank ?f"
  have nf: "NUL \<notin> set ?f" using assms(2) by (auto dest: set_takeWhileD)
  from cut_first [OF assms(2)] obtain post where
    e: "find_end ?b 0 = length ?f" and
    b1: "(if ?b ! length ?f = CHR '','' then ?b[length ?f := NUL] else ?b) = ?f @ NUL # post" by auto
  define b2 where "b2 = takeWhile blank ?f @ rtrim ?g @ replicate (length ?g - length (rtrim ?g)) NUL @ NUL # post"
  note t = trim_first [OF nf, of post, folded b2_def]
  have "NUL \<notin> set (rtrim ?g)"
    using nf by (metis rtrim_def set_dropWhileD set_rev)
  then have "takeWhile (\<lambda>c. c \<noteq> NUL) (rtrim ?g @ replicate m NUL @ NUL # post) = rtrim ?g" for m
    by (cases m) (auto intro: takeWhile_stop)
  then have c: "cstring_at b2 ?k = first_path s" "strlen_at b2 ?k = length (first_path s)"
    by (simp_all add: cstring_at_def strlen_at_def b2_def first_path_def)
  have "length ?f = ?k + length ?g" by (metis length_append takeWhile_dropWhile_id)
  then have z: "b2 ! length ?f = NUL"
    using length_rtrim [of ?g] by (simp add: b2_def nth_append)
  have "length b2 = length (?f @ NUL # post)" unfolding t(2) [symmetric] by simp
  then have "length ?f < length b2" by simp
  with z have stop: "parse_loop dup_ok num b2 (length ?f) ps L' = Inr (None, ps, L')" for ps L'
    by (subst parse_loop.simps) simp
  have "?b ! 0 \<noteq> NUL" using assms(1,2) by (cases s) auto
  with assms(3) e b1 t c z stop show ?thesis by (subst parse_loop.simps) (simp add: Let_def)
qed

text \<open>What a path array holds of the kernel's memory, and what is left of it when \<open>n\<close> entries are freed.\<close>

definition path_res :: "path_array \<Rightarrow> ledger" where
  "path_res pa = (case pa of None \<Rightarrow> {#} | Some (num, ps) \<Rightarrow> add_mset UR_paths (replicate_mset (length ps) UR_path))"

definition unfreed :: "path_array \<Rightarrow> int \<Rightarrow> ledger" where
  "unfreed pa n = (case pa of None \<Rightarrow> {#} | Some (num, ps) \<Rightarrow> replicate_mset (length ps - nat n) UR_path)"

lemma parse_device_list_first:
  assumes "s \<noteq> []" and "NUL \<notin> set s"
  defines "pa \<equiv> \<lambda>ps. Some (length (filter (\<lambda>c. c = CHR '','') s) + 1, ps)"
  shows "parse_device_list True True dup_ok s L =
    Inr (if first_path s = [] then (Inr (pa [], 0), L + path_res (pa []))
         else if dup_ok 0 then (Inr (pa [first_path s], 1), L + path_res (pa [first_path s]))
         else (Inl ENOMEM, L))"
  using assms by (simp add: parse_device_list_def parse_loop_first path_res_def add_mset_commute drop_res_def)

lemma replicate_mset_plus: "replicate_mset (m + n) x = replicate_mset m x + replicate_mset n x"
  by (induction m) simp_all

lemma free_paths_res:
  "free_paths (Some (num, ps)) n L = Inr L' \<Longrightarrow> n \<le> length ps \<and> L = L' + replicate_mset n UR_path"
proof (induction n arbitrary: L')
  case (Suc n)
  then obtain L1 where "free_paths (Some (num, ps)) n L = Inr L1" "n < length ps" "UR_path \<in># L1" "L' = L1 - {#UR_path#}"
    by (auto simp: kres_simps path_at_def drop_res_def split: if_splits)
  with Suc.IH [of L1] show ?case by simp
qed simp

lemma free_device_list_res:
  assumes "free_device_list pa n (L + path_res pa) = Inr L'"
  shows "L' = L + unfreed pa n"
proof (cases pa)
  case (Some x)
  obtain num ps where x: "x = (num, ps)" by (cases x)
  from assms Some x obtain L1 where f: "free_paths (Some (num, ps)) (nat n) (L + path_res pa) = Inr L1"
    and "UR_paths \<in># L1" "L' = L1 - {#UR_paths#}"
    by (auto simp: free_device_list_def kres_simps drop_res_def split: if_splits)
  then have L1: "L1 = add_mset UR_paths L'" by simp
  obtain k where "length ps = nat n + k" using free_paths_res [OF f] by (auto simp: le_iff_add)
  with free_paths_res [OF f] Some x L1 show ?thesis
    by (simp add: path_res_def unfreed_def replicate_mset_plus)
qed (use assms in \<open>simp add: free_device_list_def path_res_def unfreed_def\<close>)

lemma free_paths_ok:
  "n \<le> length ps \<Longrightarrow> length ps \<le> num \<Longrightarrow> free_paths (Some (num, ps)) n (L + replicate_mset n UR_path) = Inr L"
proof (induction n arbitrary: L)
  case (Suc n)
  from Suc.IH [of "add_mset UR_path L"] Suc.prems show ?case by (simp add: path_at_def)
qed simp

text \<open>Freeing returns if the entries it reads have been written.\<close>

lemma free_device_list_ok:
  assumes "case pa of None \<Rightarrow> True | Some (num, ps) \<Rightarrow> nat n \<le> length ps \<and> length ps \<le> num"
  shows "free_device_list pa n (L + path_res pa) = Inr (L + unfreed pa n)"
proof (cases pa)
  case (Some x)
  obtain num ps where x: "x = (num, ps)" by (cases x)
  with assms Some obtain k where k: "length ps = nat n + k" "length ps \<le> num" by (auto simp: le_iff_add)
  with free_paths_ok [of "nat n" ps num "add_mset UR_paths (L + replicate_mset k UR_path)"] Some x show ?thesis
    by (simp add: free_device_list_def path_res_def unfreed_def replicate_mset_plus ac_simps)
qed (simp add: free_device_list_def path_res_def unfreed_def)

end
