(* ===== verification/Uring_Module.thy ===== *)
theory Uring_Module
  imports Uring_Config
begin

text \<open>
  Construction and destruction of a uringblk device, the admin character device and the module's
  entry points, each with its effect on the ledger of what the kernel holds for the module.
\<close>

section \<open>Devices\<close>

text \<open>The module parameters.\<close>

record mod_params =
  mp_nr_hw_queues :: u32
  mp_queue_depth :: u32
  mp_enable_poll :: bool
  mp_enable_discard :: bool
  mp_write_cache :: bool
  mp_logical_block_size :: u32
  mp_capacity_mb :: u32
  mp_backend_device :: string
  mp_auto_detect :: bool
  mp_max_devices :: int
  mp_devices :: string

text \<open>What the kernel calls made for one device return.\<close>

record dev_env =
  de_mem :: bool
  de_vmem :: bool
  de_open :: ret
  de_bytes :: u64
  de_sectors :: u64
  de_tags :: ret
  de_disk :: ret
  de_add :: ret
  de_sysfs :: ret
  de_node :: ret

text \<open>What the driver asks of blk-mq: the tag set, and the disk with the limits of its queue and the
  attributes of its sysfs group.\<close>

record tag_set =
  ts_nr_hw_queues :: u32
  ts_queue_depth :: u32
  ts_no_sched :: bool

record gendisk =
  gd_first_minor :: int
  gd_minors :: nat
  gd_name :: string
  gd_capacity :: u64
  gd_attrs :: "string list"
  q_logical_block_size :: u32
  q_physical_block_size :: u32
  q_max_hw_sectors :: u32
  q_max_segments :: u32
  q_max_segment_size :: u32
  q_io_min :: u32
  q_io_opt :: u32
  q_dma_mask :: u32
  q_max_discard_sectors :: u32
  q_max_write_zeroes_sectors :: u32
  q_wc :: bool
  q_fua :: bool
  q_nonrot :: bool

text \<open>\<open>dev->disk\<close>: null, an error pointer, or a disk.\<close>

datatype disk_ptr = Disk_null | Disk_err errno | Disk gendisk

text \<open>A device with the pointers of its set-up: the backend's operations, the disk, the admin node.\<close>

record uring_slot =
  sl_dev :: uringblk_device
  sl_ops :: bool
  sl_tags :: "tag_set option"
  sl_disk :: disk_ptr
  sl_node :: bool

definition config_zero :: uringblk_config where
  "config_zero = \<lparr>nr_hw_queues = 0, queue_depth = 0, enable_poll = False, enable_discard = False,
     write_cache = False, zoned_mode = False, cfg_backend_type = 0, cfg_backend_device = []\<rparr>"

definition backend_zero :: uringblk_backend where
  "backend_zero = \<lparr>be_type = BACKEND_VIRTUAL, be_private_data = No_data, be_capacity = 0\<rparr>"

definition slot_zero :: uring_slot where
  "slot_zero = \<lparr>sl_dev = \<lparr>u_config = config_zero, u_stats = stats_zero, u_latency_buckets = replicate 32 0,
       u_backend = backend_zero, u_features = 0, u_model = [], u_firmware = [], u_minor = 0\<rparr>,
     sl_ops = False, sl_tags = None, sl_disk = Disk_null, sl_node = False\<rparr>"

definition init_features :: "uringblk_config \<Rightarrow> u64" where
  "init_features c =
     FEAT_FLUSH OR (if write_cache c then FEAT_WRITE_CACHE else 0) OR
     (if enable_discard c then FEAT_DISCARD OR FEAT_WRITE_ZEROES else 0) OR
     (if enable_poll c then FEAT_POLLING else 0) OR FEAT_FUA"

text \<open>
  The part of \<open>uringblk_init_device\<close> before the backend: \<open>memset\<close>, then the configuration from the
  module's parameters.
\<close>

definition setup_device :: "mod_params \<Rightarrow> int \<Rightarrow> int \<Rightarrow> uring_slot \<Rightarrow> uring_slot" where
  "setup_device p backend_type minor sl =
     (let d = sl_dev slot_zero;
          c = config_zero\<lparr>nr_hw_queues := mp_nr_hw_queues p, queue_depth := mp_queue_depth p,
                enable_poll := mp_enable_poll p, enable_discard := mp_enable_discard p,
                write_cache := mp_write_cache p, cfg_backend_type := backend_type,
                cfg_backend_device := take 255 (mp_backend_device p)\<rparr>
      in slot_zero\<lparr>sl_dev := d\<lparr>u_minor := minor, u_config := c, u_features := init_features c,
           u_model := (if backend_type = URINGBLK_BACKEND_VIRTUAL then ''uringblk Virtual Device''
                       else ''uringblk Device Backend''),
           u_firmware := ''v1.0.0''\<rparr>\<rparr>)"

definition capacity_bytes :: "mod_params \<Rightarrow> u64" where
  "capacity_bytes p = ucast (mp_capacity_mb p) * 1024 * 1024"

definition init_backend :: "mod_params \<Rightarrow> dev_env \<Rightarrow> uringblk_device \<Rightarrow> ret \<times> uringblk_backend" where
  "init_backend p env d =
     (if cfg_backend_type (u_config d) = URINGBLK_BACKEND_VIRTUAL
      then virtual_backend_init (de_vmem env) (capacity_bytes p) (u_backend d)
      else if cfg_backend_type (u_config d) = URINGBLK_BACKEND_DEVICE
      then (case device_backend_init (mp_auto_detect p) (de_open env) (de_bytes env) (de_sectors env)
              (Some (cfg_backend_device (u_config d)))
              (if mp_auto_detect p then 0 else capacity_bytes p) (u_backend d) of
              (r, _, b) \<Rightarrow> (r, b))
      else (Some EINVAL, u_backend d))"

text \<open>\<open>backend.ops->cleanup\<close>, by the type of the backend.\<close>

definition be_cleanup :: "uringblk_backend \<Rightarrow> uringblk_backend" where
  "be_cleanup b = (case be_type b of BACKEND_VIRTUAL \<Rightarrow> virtual_backend_cleanup b
                                   | BACKEND_DEVICE \<Rightarrow> device_backend_cleanup b)"

definition cleanup_slot_backend :: "uring_slot \<Rightarrow> uring_slot" where
  "cleanup_slot_backend sl = sl\<lparr>sl_dev := (sl_dev sl)\<lparr>u_backend := be_cleanup (u_backend (sl_dev sl))\<rparr>\<rparr>"

type_synonym slot_result = "(ret \<times> uring_slot \<times> ledger) kres"

definition err_cleanup_backend :: "errno \<Rightarrow> uring_slot \<Rightarrow> ledger \<Rightarrow> slot_result" where
  "err_cleanup_backend e sl L =
     kbind (drop_res UR_backend L) (\<lambda>L'. Inr (Some e, cleanup_slot_backend sl, L'))"

definition err_free_tag_set :: "errno \<Rightarrow> uring_slot \<Rightarrow> ledger \<Rightarrow> slot_result" where
  "err_free_tag_set e sl L = kbind (drop_res UR_tags L) (err_cleanup_backend e sl)"

definition err_put_disk :: "errno \<Rightarrow> uring_slot \<Rightarrow> ledger \<Rightarrow> slot_result" where
  "err_put_disk e sl L = kbind (drop_res UR_disk L) (err_free_tag_set e sl)"

definition setup_tags :: "uringblk_device \<Rightarrow> tag_set" where
  "setup_tags d = \<lparr>ts_nr_hw_queues = nr_hw_queues (u_config d), ts_queue_depth = queue_depth (u_config d),
     ts_no_sched = enable_poll (u_config d)\<rparr>"

text \<open>Name, numbers, queue limits and capacity of the disk, before it is added.\<close>

definition setup_disk :: "mod_params \<Rightarrow> int \<Rightarrow> uringblk_device \<Rightarrow> gendisk" where
  "setup_disk p minor d =
     (let lbs = mp_logical_block_size p; c = u_config d in
      \<lparr>gd_first_minor = minor, gd_minors = 1, gd_name = ''uringblk'' @ dec_int minor,
       gd_capacity = be_capacity (u_backend d) div ucast lbs, gd_attrs = [],
       q_logical_block_size = lbs, q_physical_block_size = lbs, q_max_hw_sectors = 8192,
       q_max_segments = URINGBLK_MAX_SEGMENTS, q_max_segment_size = URINGBLK_MAX_SEGMENT_SIZE,
       q_io_min = lbs, q_io_opt = 64 * 1024, q_dma_mask = 4095,
       q_max_discard_sectors = (if enable_discard c then - 1 else 0),
       q_max_write_zeroes_sectors = (if enable_discard c then - 1 else 0),
       q_wc = write_cache c, q_fua = write_cache c, q_nonrot = True\<rparr>)"

text \<open>The sysfs group of the disk; the argument is the result of \<open>sysfs_create_group\<close>.\<close>

definition uringblk_sysfs_create :: "ret \<Rightarrow> gendisk \<Rightarrow> ledger \<Rightarrow> ret \<times> gendisk \<times> ledger" where
  "uringblk_sysfs_create r gd L =
     (case r of
        Some e \<Rightarrow> (Some e, gd, L)
      | None \<Rightarrow> (None, gd\<lparr>gd_attrs := map fst uringblk_attrs\<rparr>, add_mset UR_group L))"

text \<open>Removing a group that is not there is a warning of the kernel, not a fault.\<close>

definition uringblk_sysfs_remove :: "gendisk \<Rightarrow> ledger \<Rightarrow> ledger kres" where
  "uringblk_sysfs_remove gd L = (if gd_attrs gd = [] then Inr L else drop_res UR_group L)"

text \<open>After the disk was added: attributes and admin node, neither of which is needed.\<close>

definition finish_device :: "dev_env \<Rightarrow> gendisk \<Rightarrow> uring_slot \<Rightarrow> ledger \<Rightarrow> slot_result" where
  "finish_device env gd sl L =
     (case uringblk_sysfs_create (de_sysfs env) gd L of (_, gd', L') \<Rightarrow>
        let sl' = sl\<lparr>sl_disk := Disk gd'\<rparr> in
        (case de_node env of
           Some _ \<Rightarrow> Inr (None, sl'\<lparr>sl_node := False\<rparr>, L')
         | None \<Rightarrow> Inr (None, sl'\<lparr>sl_node := True\<rparr>, add_mset UR_node L')))"

definition uringblk_init_device ::
  "mod_params \<Rightarrow> int \<Rightarrow> dev_env \<Rightarrow> int \<Rightarrow> uring_slot \<Rightarrow> ledger \<Rightarrow> slot_result" where
  "uringblk_init_device p backend_type env minor sl L =
     (let sl0 = setup_device p backend_type minor sl; d = sl_dev sl0 in
      case validate_backend_config (cfg_backend_type (u_config d)) (cfg_backend_device (u_config d)) of
        Some e \<Rightarrow> Inr (Some e, sl0, L)
      | None \<Rightarrow>
          (case init_backend p env d of
             (Some e, b) \<Rightarrow> Inr (Some e, sl0\<lparr>sl_dev := d\<lparr>u_backend := b\<rparr>\<rparr>, L)
           | (None, b) \<Rightarrow>
               let d1 = d\<lparr>u_backend := b\<rparr>;
                   sl1 = sl0\<lparr>sl_dev := d1, sl_ops := True, sl_tags := Some (setup_tags d1)\<rparr>;
                   L1 = add_mset UR_backend L in
               (case de_tags env of
                  Some e \<Rightarrow> err_cleanup_backend e sl1 L1
                | None \<Rightarrow> let L2 = add_mset UR_tags L1 in
                    (case de_disk env of
                       Some e \<Rightarrow> err_free_tag_set e (sl1\<lparr>sl_disk := Disk_err e\<rparr>) L2
                     | None \<Rightarrow>
                         kguard DivByZero (mp_logical_block_size p \<noteq> 0)
                           (let L3 = add_mset UR_disk L2; gd = setup_disk p minor d1;
                                sl2 = sl1\<lparr>sl_disk := Disk gd\<rparr> in
                            case de_add env of
                              Some e \<Rightarrow> err_put_disk e sl2 L3
                            | None \<Rightarrow> finish_device env gd sl2 (add_mset UR_added L3))))))"

text \<open>The disk of a device that is torn down; an error pointer would be dereferenced.\<close>

definition cleanup_disk :: "disk_ptr \<Rightarrow> ledger \<Rightarrow> ledger kres" where
  "cleanup_disk p L =
     (case p of
        Disk_null \<Rightarrow> Inr L
      | Disk_err e \<Rightarrow> Inl NullDeref
      | Disk gd \<Rightarrow> kbind (uringblk_sysfs_remove gd L) (\<lambda>L1. kbind (drop_res UR_added L1) (drop_res UR_disk)))"

definition uringblk_cleanup_device :: "uring_slot \<Rightarrow> ledger \<Rightarrow> ledger kres" where
  "uringblk_cleanup_device sl L =
     kbind (if sl_node sl then drop_res UR_node L else Inr L) (\<lambda>L1.
     kbind (cleanup_disk (sl_disk sl) L1) (\<lambda>L2.
     kbind (drop_res UR_tags L2) (\<lambda>L3.
       if sl_ops sl then drop_res UR_backend L3 else Inr L3)))"

section \<open>The admin character device\<close>

text \<open>
  The module's globals.  The array of devices is \<open>None\<close> while it is the null pointer; otherwise it
  has \<open>um_len\<close> entries, of which the listed ones have been written.
\<close>

record uring_module =
  um_ledger :: ledger
  um_class :: bool
  um_array :: "uring_slot option list option"
  um_len :: nat
  um_num :: nat
  um_backend_type :: int

definition module_fresh :: "int \<Rightarrow> uring_module" where
  "module_fresh backend_type = \<lparr>um_ledger = {#}, um_class = False, um_array = None, um_len = 0, um_num = 0,
     um_backend_type = backend_type\<rparr>"

definition um_take :: "uring_res \<Rightarrow> uring_module \<Rightarrow> uring_module" where
  "um_take r m = m\<lparr>um_ledger := add_mset r (um_ledger m)\<rparr>"

definition um_drop :: "uring_res \<Rightarrow> uring_module \<Rightarrow> uring_module kres" where
  "um_drop r m = kbind (drop_res r (um_ledger m)) (\<lambda>L. Inr (m\<lparr>um_ledger := L\<rparr>))"

definition URINGBLK_MINORS :: nat where
  "URINGBLK_MINORS = 16"

definition device_at :: "nat \<Rightarrow> uring_module \<Rightarrow> uring_slot option kres" where
  "device_at i m =
     (case um_array m of
        None \<Rightarrow> Inl NullDeref
      | Some xs \<Rightarrow> if i \<ge> um_len m then Inl OutOfBounds
                   else if i \<ge> length xs then Inl UninitRead
                   else Inr (xs ! i))"

text \<open>Opening the admin device; the file's private data is the device, by its minor.\<close>

definition uringblk_admin_open :: "nat \<Rightarrow> uring_module \<Rightarrow> (errno + uring_slot) kres" where
  "uringblk_admin_open minor m =
     (if minor \<ge> URINGBLK_MINORS then Inr (Inl ENODEV)
      else kbind (device_at minor m) (\<lambda>dev. case dev of
          None \<Rightarrow> Inr (Inl ENODEV)
        | Some sl \<Rightarrow> Inr (Inr sl)))"

definition uringblk_admin_release :: "uring_slot option \<Rightarrow> ret \<times> uring_slot option" where
  "uringblk_admin_release private_data = (None, None)"

definition uringblk_admin_ioctl :: "u32 \<Rightarrow> u64 \<Rightarrow> ret" where
  "uringblk_admin_ioctl cmd arg = Some ENOTTY"

record uring_env =
  ue_region :: ret
  ue_cdev :: ret
  ue_class :: ret
  ue_major :: ret
  ue_copy :: bool
  ue_paths :: bool
  ue_dup :: "nat \<Rightarrow> bool"
  ue_array :: bool
  ue_dev :: "nat \<Rightarrow> dev_env"

definition err_unreg_chrdev :: "errno \<Rightarrow> uring_module \<Rightarrow> (ret \<times> uring_module) kres" where
  "err_unreg_chrdev e m = kbind (um_drop UR_region m) (\<lambda>m'. Inr (Some e, m'))"

definition err_del_cdev :: "errno \<Rightarrow> uring_module \<Rightarrow> (ret \<times> uring_module) kres" where
  "err_del_cdev e m = kbind (um_drop UR_cdev m) (err_unreg_chrdev e)"

definition uringblk_init_admin_dev :: "uring_env \<Rightarrow> uring_module \<Rightarrow> (ret \<times> uring_module) kres" where
  "uringblk_init_admin_dev env m =
     (case ue_region env of
        Some e \<Rightarrow> Inr (Some e, m)
      | None \<Rightarrow> let m1 = um_take UR_region m in
          (case ue_cdev env of
             Some e \<Rightarrow> err_unreg_chrdev e m1
           | None \<Rightarrow> let m2 = (um_take UR_cdev m1)\<lparr>um_class := True\<rparr> in
               (case ue_class env of
                  Some e \<Rightarrow> err_del_cdev e m2
                | None \<Rightarrow> Inr (None, um_take UR_class m2))))"

definition uringblk_cleanup_admin_dev :: "uring_module \<Rightarrow> uring_module kres" where
  "uringblk_cleanup_admin_dev m =
     kbind (if um_class m then kbind (um_drop UR_class m) (\<lambda>m1. Inr (m1\<lparr>um_class := False\<rparr>)) else Inr m) (\<lambda>m1.
     kbind (um_drop UR_cdev m1) (um_drop UR_region))"

section \<open>Loading and unloading\<close>

text \<open>
  Which devices to create: the paths, their number and the backend type.  The number is a signed
  \<open>int\<close> that \<open>max_devices\<close> cuts off.
\<close>

definition choose_devices ::
  "mod_params \<Rightarrow> uring_env \<Rightarrow> int \<Rightarrow> ledger \<Rightarrow> ((errno + path_array \<times> int \<times> int) \<times> ledger) kres" where
  "choose_devices p env backend_type L =
     (if length (mp_devices p) > 0 then
        kbind (parse_device_list (ue_copy env) (ue_paths env) (ue_dup env) (mp_devices p) L) (\<lambda>(r, L1). case r of
            Inl e \<Rightarrow> Inr (Inl e, L1)
          | Inr (pa, n) \<Rightarrow>
              let device_count = (if int n > mp_max_devices p then mp_max_devices p else int n)
              in Inr (Inr (pa, device_count,
                   if device_count > 0 \<and> backend_type = URINGBLK_BACKEND_VIRTUAL
                   then URINGBLK_BACKEND_DEVICE else backend_type), L1))
      else if backend_type = URINGBLK_BACKEND_DEVICE \<and> length (mp_backend_device p) > 0 then
        if \<not> ue_paths env then Inr (Inl ENOMEM, L)
        else let L1 = add_mset UR_paths L in
          if \<not> ue_dup env 0 then kbind (drop_res UR_paths L1) (\<lambda>L2. Inr (Inl ENOMEM, L2))
          else Inr (Inr (Some (1, [mp_backend_device p]), 1, backend_type), add_mset UR_path L1)
      else Inr (Inr (None, 1, backend_type), L))"

definition limit_devices :: "mod_params \<Rightarrow> int \<Rightarrow> int" where
  "limit_devices p device_count =
     (let n = (if device_count \<le> 0 then 1 else device_count)
      in if n > mp_max_devices p then mp_max_devices p else n)"

text \<open>Writing the next entry of the array.\<close>

definition push_slot :: "uring_slot option \<Rightarrow> uring_module \<Rightarrow> uring_module" where
  "push_slot s m = m\<lparr>um_array := Some (case um_array m of None \<Rightarrow> [s] | Some xs \<Rightarrow> xs @ [s])\<rparr>"

definition device_config :: "mod_params \<Rightarrow> path_array \<Rightarrow> nat \<Rightarrow> int \<Rightarrow> uring_slot kres" where
  "device_config p pa i backend_type =
     kbind (if pa \<noteq> None then kbind (path_at pa i) (\<lambda>path. Inr (URINGBLK_BACKEND_DEVICE, path))
            else Inr (backend_type, mp_backend_device p)) (\<lambda>(ty, path).
       Inr (slot_zero\<lparr>sl_dev := (sl_dev slot_zero)
              \<lparr>u_config := config_zero\<lparr>cfg_backend_type := ty, cfg_backend_device := take 255 path\<rparr>\<rparr>\<rparr>))"

text \<open>The loop over the devices: \<open>n\<close> are left, \<open>i\<close> is the next.\<close>

fun init_loop ::
  "mod_params \<Rightarrow> uring_env \<Rightarrow> path_array \<Rightarrow> nat \<Rightarrow> nat \<Rightarrow> uring_module \<Rightarrow> (ret \<times> uring_module) kres" where
  "init_loop p env pa 0 i m = Inr (None, m)"
| "init_loop p env pa (Suc n) i m =
     (if \<not> de_mem (ue_dev env i) then Inr (Some ENOMEM, push_slot None m)
      else let m1 = um_take UR_dev m in
        kbind (device_config p pa i (um_backend_type m)) (\<lambda>sl.
        kbind (uringblk_init_device p (um_backend_type m) (ue_dev env i) (int i) sl (um_ledger m1)) (\<lambda>(r, sl1, L).
          case r of
            Some e \<Rightarrow> kbind (um_drop UR_dev (m1\<lparr>um_ledger := L\<rparr>)) (\<lambda>m2. Inr (Some e, push_slot None m2))
          | None \<Rightarrow> init_loop p env pa n (Suc i)
                      ((push_slot (Some sl1) (m1\<lparr>um_ledger := L\<rparr>))\<lparr>um_num := Suc (um_num m)\<rparr>))))"

text \<open>Destroying the devices with index \<open>i\<close> and above; only the first \<open>um_num\<close> were set up.\<close>

fun cleanup_loop :: "nat \<Rightarrow> nat \<Rightarrow> uring_module \<Rightarrow> uring_module kres" where
  "cleanup_loop 0 i m = Inr m"
| "cleanup_loop (Suc n) i m =
     kbind (device_at i m) (\<lambda>s. case s of
         None \<Rightarrow> cleanup_loop n (Suc i) m
       | Some sl \<Rightarrow>
           kbind (if i < um_num m then uringblk_cleanup_device sl (um_ledger m) else Inr (um_ledger m)) (\<lambda>L.
           kbind (um_drop UR_dev (m\<lparr>um_ledger := L\<rparr>)) (\<lambda>m1. cleanup_loop n (Suc i) m1)))"

definition err_unregister :: "errno \<Rightarrow> uring_module \<Rightarrow> (ret \<times> uring_module) kres" where
  "err_unregister e m = kbind (um_drop UR_major m) (\<lambda>m'. Inr (Some e, m'))"

definition err_free_paths :: "path_array \<Rightarrow> int \<Rightarrow> errno \<Rightarrow> uring_module \<Rightarrow> (ret \<times> uring_module) kres" where
  "err_free_paths pa n e m =
     kbind (free_device_list pa n (um_ledger m)) (\<lambda>L. err_unregister e (m\<lparr>um_ledger := L\<rparr>))"

definition err_cleanup_devices :: "path_array \<Rightarrow> int \<Rightarrow> errno \<Rightarrow> uring_module \<Rightarrow> (ret \<times> uring_module) kres" where
  "err_cleanup_devices pa n e m =
     kbind (cleanup_loop (nat n) 0 m) (\<lambda>m1.
     kbind (um_drop UR_array m1) (\<lambda>m2.
       err_free_paths pa n e (m2\<lparr>um_array := None, um_num := 0\<rparr>)))"

text \<open>\<open>kmalloc_array\<close> with a negative count overflows and fails.\<close>

definition create_devices :: "mod_params \<Rightarrow> uring_env \<Rightarrow> path_array \<Rightarrow> int \<Rightarrow> uring_module \<Rightarrow> (ret \<times> uring_module) kres" where
  "create_devices p env pa n m =
     (if n < 0 \<or> \<not> ue_array env then err_free_paths pa n ENOMEM (m\<lparr>um_array := None\<rparr>)
      else
        let m1 = (um_take UR_array m)\<lparr>um_array := Some [], um_len := nat n\<rparr> in
        kbind (init_loop p env pa (nat n) 0 m1) (\<lambda>(r, m2). case r of
            Some e \<Rightarrow> err_cleanup_devices pa n e m2
          | None \<Rightarrow> kbind (free_device_list pa n (um_ledger m2)) (\<lambda>L. Inr (None, m2\<lparr>um_ledger := L\<rparr>))))"

definition uringblk_init :: "mod_params \<Rightarrow> uring_env \<Rightarrow> uring_module \<Rightarrow> (ret \<times> uring_module) kres" where
  "uringblk_init p env m =
     kbind (uringblk_init_admin_dev env m) (\<lambda>(r, m1). case r of
         Some e \<Rightarrow> Inr (Some e, m1)
       | None \<Rightarrow>
           (case validate_backend_config (um_backend_type m1) (mp_backend_device p) of
              Some e \<Rightarrow> Inr (Some e, m1)
            | None \<Rightarrow>
                (case ue_major env of
                   Some e \<Rightarrow> Inr (Some e, m1)
                 | None \<Rightarrow> let m2 = um_take UR_major m1 in
                     kbind (choose_devices p env (um_backend_type m2) (um_ledger m2)) (\<lambda>(c, L).
                       let m3 = m2\<lparr>um_ledger := L\<rparr> in case c of
                         Inl e \<Rightarrow> err_unregister e m3
                       | Inr (pa, n, ty) \<Rightarrow>
                           create_devices p env pa (limit_devices p n) (m3\<lparr>um_backend_type := ty\<rparr>)))))"

definition uringblk_exit :: "uring_module \<Rightarrow> uring_module kres" where
  "uringblk_exit m =
     kbind (if um_array m \<noteq> None
            then kbind (cleanup_loop (um_num m) 0 m) (\<lambda>m1.
                 kbind (um_drop UR_array m1) (\<lambda>m2. Inr (m2\<lparr>um_array := None\<rparr>)))
            else Inr m) (\<lambda>m3.
     kbind (um_drop UR_major m3) (\<lambda>m4.
     kbind (uringblk_cleanup_admin_dev m4) (\<lambda>m5. Inr (m5\<lparr>um_num := 0\<rparr>))))"

end
