(* ===== verification/Uring_Setup.thy ===== *)
theory Uring_Setup
  imports Uring_Module
begin

text \<open>
  What loading and unloading the uringblk module does: the ledger on every path, which device list
  entries matter, when loading can fault, and what the admin device's open sees.
\<close>

section \<open>One device\<close>

definition dev_res :: "uring_slot \<Rightarrow> ledger" where
  "dev_res sl = {#UR_backend, UR_tags, UR_disk, UR_added#} + (if sl_node sl then {#UR_node#} else {#}) +
     (case sl_disk sl of Disk gd \<Rightarrow> if gd_attrs gd = [] then {#} else {#UR_group#} | _ \<Rightarrow> {#})"

definition has_disk :: "uring_slot \<Rightarrow> bool" where
  "has_disk sl \<longleftrightarrow> (\<exists>gd. sl_disk sl = Disk gd)"

text \<open>What a device looks like after its set-up.\<close>

definition slot_ok :: "mod_params \<Rightarrow> uring_slot \<Rightarrow> bool" where
  "slot_ok p sl \<longleftrightarrow> sl_ops sl \<and> has_disk sl \<and>
     cfg_backend_device (u_config (sl_dev sl)) = take 255 (mp_backend_device p) \<and>
     u_features (sl_dev sl) = init_features (u_config (sl_dev sl)) \<and>
     u_stats (sl_dev sl) = stats_zero \<and> u_latency_buckets (sl_dev sl) = replicate 32 0"

lemmas init_device_ladder = uringblk_init_device_def err_put_disk_def err_free_tag_set_def
  err_cleanup_backend_def finish_device_def uringblk_sysfs_create_def

lemma init_device_ok:
  assumes "uringblk_init_device p ty env minor sl L = Inr (None, sl', L')"
  shows "slot_ok p sl' \<and> L' = L + dev_res sl' \<and> cfg_backend_type (u_config (sl_dev sl')) = ty"
  using assms
  by (auto simp: init_device_ladder Let_def kres_simps slot_ok_def has_disk_def dev_res_def setup_device_def slot_zero_def
      setup_disk_def uringblk_attrs_def split: option.splits prod.splits)

lemma init_device_disk:
  assumes "uringblk_init_device p ty env minor sl L = Inr (None, sl', L')"
  shows "sl_tags sl' = Some (setup_tags (sl_dev sl')) \<and>
    sl_disk sl' = Disk ((setup_disk p minor (sl_dev sl'))
      \<lparr>gd_attrs := if de_sysfs env = None then map fst uringblk_attrs else []\<rparr>)"
  using assms
  by (auto simp: init_device_ladder Let_def kres_simps setup_disk_def split: option.splits prod.splits)

lemma init_device_err:
  "uringblk_init_device p ty env minor sl L = Inr (Some e, sl', L') \<Longrightarrow> L' = L"
  by (auto simp: init_device_ladder Let_def kres_simps split: option.splits prod.splits)

lemma init_device_total:
  assumes "mp_logical_block_size p \<noteq> 0"
  shows "\<exists>r sl' L'. uringblk_init_device p ty env minor sl L = Inr (r, sl', L')"
  using assms by (simp add: init_device_ladder Let_def split: option.split prod.split)

lemma init_device_needs_path:
  assumes "mp_backend_device p = []"
  shows "uringblk_init_device p URINGBLK_BACKEND_DEVICE env minor sl L =
    Inr (Some EINVAL, setup_device p URINGBLK_BACKEND_DEVICE minor sl, L)"
  using assms by (simp add: uringblk_init_device_def Let_def setup_device_def validate_backend_config_def)

lemma cleanup_device_ok:
  assumes "sl_ops sl" and "has_disk sl"
  shows "uringblk_cleanup_device sl (L + dev_res sl) = Inr L"
proof -
  from assms(2) obtain gd where "sl_disk sl = Disk gd" by (auto simp: has_disk_def)
  with assms(1) show ?thesis
    by (cases "sl_node sl"; cases "gd_attrs gd = []")
      (simp_all add: uringblk_cleanup_device_def cleanup_disk_def uringblk_sysfs_remove_def dev_res_def drop_res_def)
qed

section \<open>The array of devices\<close>

lemma um_take_simps [simp]:
  "um_ledger (um_take r m) = add_mset r (um_ledger m)" "um_take r m\<lparr>um_ledger := L\<rparr> = m\<lparr>um_ledger := L\<rparr>"
  "um_array (um_take r m) = um_array m" "um_len (um_take r m) = um_len m" "um_num (um_take r m) = um_num m"
  "um_class (um_take r m) = um_class m" "um_backend_type (um_take r m) = um_backend_type m"
  by (simp_all add: um_take_def)

lemma um_drop_simps [simp]:
  "um_ledger m = add_mset r L \<Longrightarrow> um_drop r m = Inr (m\<lparr>um_ledger := L\<rparr>)"
  by (simp add: um_drop_def)

definition slots_res :: "uring_slot list \<Rightarrow> ledger" where
  "slots_res sls = sum_list (map (\<lambda>sl. add_mset UR_dev (dev_res sl)) sls)"

lemma slots_res_simps [simp]:
  "slots_res [] = {#}" "slots_res (sl # sls) = add_mset UR_dev (dev_res sl) + slots_res sls"
  "slots_res (xs @ ys) = slots_res xs + slots_res ys"
  by (simp_all add: slots_res_def)

text \<open>The first \<open>length sls\<close> entries are set-up devices and nothing else is written.\<close>

definition array_ok :: "mod_params \<Rightarrow> ledger \<Rightarrow> uring_slot list \<Rightarrow> uring_module \<Rightarrow> bool" where
  "array_ok p L sls m \<longleftrightarrow> um_array m = Some (map Some sls) \<and> um_num m = length sls \<and>
     um_ledger m = L + slots_res sls \<and> (\<forall>sl \<in> set sls. slot_ok p sl)"

text \<open>After the loop: all devices, or those before the one that failed and an empty entry.\<close>

definition loop_post :: "mod_params \<Rightarrow> ledger \<Rightarrow> uring_slot list \<Rightarrow> nat \<Rightarrow> ret \<Rightarrow> uring_module \<Rightarrow> bool" where
  "loop_post p L sls n r m \<longleftrightarrow> (\<exists>new. (if r = None then length new = n else length new < n) \<and>
     (\<forall>sl \<in> set new. slot_ok p sl) \<and> um_num m = length (sls @ new) \<and> um_ledger m = L + slots_res (sls @ new) \<and>
     um_array m = Some (map Some (sls @ new) @ (if r = None then [] else [None])))"

lemma loop_post_Cons:
  assumes "loop_post p L (sls @ [sl]) n r m" and "slot_ok p sl"
  shows "loop_post p L sls (Suc n) r m"
proof -
  from assms(1) obtain new where "(if r = None then length new = n else length new < n)"
    "\<forall>sl \<in> set new. slot_ok p sl" "um_num m = length (sls @ sl # new)" "um_ledger m = L + slots_res (sls @ sl # new)"
    "um_array m = Some (map Some (sls @ sl # new) @ (if r = None then [] else [None]))"
    by (auto simp: loop_post_def)
  with assms(2) show ?thesis unfolding loop_post_def by (intro exI [of _ "sl # new"]) (auto split: if_splits)
qed

lemma init_loop_result:
  assumes "array_ok p L sls m" and "init_loop p env pa n (length sls) m = Inr (r, m')"
  shows "um_len m' = um_len m \<and> um_class m' = um_class m \<and> loop_post p L sls n r m'"
  using assms
proof (induction n arbitrary: sls m)
  case (Suc n)
  show ?case
  proof (cases "de_mem (ue_dev env (length sls))")
    case False
    with Suc.prems show ?thesis by (auto simp: push_slot_def array_ok_def loop_post_def intro!: exI [of _ "[]"])
  next
    case True
    let ?env = "ue_dev env (length sls)"
    from Suc.prems(2) True obtain sl0 q sl L' where
      i: "uringblk_init_device p (um_backend_type m) ?env (int (length sls)) sl0 (add_mset UR_dev (um_ledger m))
        = Inr (q, sl, L')" and
      rest: "(case q of Some e \<Rightarrow> kbind (um_drop UR_dev (um_take UR_dev m\<lparr>um_ledger := L'\<rparr>)) (\<lambda>m2. Inr (Some e, push_slot None m2))
          | None \<Rightarrow> init_loop p env pa n (Suc (length sls))
              ((push_slot (Some sl) (um_take UR_dev m\<lparr>um_ledger := L'\<rparr>))\<lparr>um_num := Suc (um_num m)\<rparr>)) = Inr (r, m')"
      by (auto simp: Let_def kres_simps)
    show ?thesis
    proof (cases q)
      case (Some e)
      with rest init_device_err i have "L' = add_mset UR_dev (um_ledger m)" by blast
      with Some rest Suc.prems(1) show ?thesis
        by (auto simp: push_slot_def array_ok_def loop_post_def intro!: exI [of _ "[]"])
    next
      case None
      let ?m = "(push_slot (Some sl) (m\<lparr>um_ledger := L'\<rparr>))\<lparr>um_num := Suc (um_num m)\<rparr>"
      from None i init_device_ok have s: "slot_ok p sl" "L' = add_mset UR_dev (um_ledger m) + dev_res sl" by blast+
      with Suc.prems(1) have "array_ok p L (sls @ [sl]) ?m"
        by (auto simp: array_ok_def push_slot_def)
      from Suc.IH [OF this] rest None s(1) show ?thesis
        by (auto simp: push_slot_def intro: loop_post_Cons)
    qed
  qed
qed (auto simp: loop_post_def array_ok_def)

section \<open>Destroying the devices\<close>

definition live :: "uring_slot option list \<Rightarrow> uring_slot list" where
  "live es = List.map_filter id es"

lemma live_simps [simp]:
  "live [] = []" "live (None # es) = live es" "live (Some sl # es) = sl # live es"
  "live (map Some sls @ es) = sls @ live es" "live (map Some sls) = sls"
  by (simp_all add: live_def map_filter_def)

lemma live_nth: "i < length es \<Longrightarrow> es ! i = Some sl \<Longrightarrow> sl \<in> set (live es)"
proof (induction es arbitrary: i)
  case (Cons e es)
  then show ?case by (cases i; cases e) auto
qed simp

lemma cleanup_loop_ok:
  assumes "um_array m = Some es" and "i + n = length es" and "length es \<le> um_len m"
    and "um_ledger m = L + slots_res (live (drop i es))" and "\<forall>sl \<in> set (live es). sl_ops sl \<and> has_disk sl"
    and "\<forall>j < length es. es ! j \<noteq> None \<longrightarrow> j < um_num m"
  shows "cleanup_loop n i m = Inr (m\<lparr>um_ledger := L\<rparr>)"
  using assms
proof (induction n arbitrary: i m)
  case (Suc n)
  then have d: "drop i es = es ! i # drop (Suc i) es" by (simp add: Cons_nth_drop_Suc)
  have a: "device_at i m = Inr (es ! i)" using Suc.prems by (simp add: device_at_def)
  show ?case
  proof (cases "es ! i")
    case None
    with Suc.IH [of m "Suc i"] Suc.prems d a show ?thesis by simp
  next
    case (Some sl)
    then have sl: "sl_ops sl" "has_disk sl" "i < um_num m"
      using Suc.prems live_nth [OF _ Some] by auto
    let ?L = "L + slots_res (live (drop (Suc i) es))"
    have "um_ledger m = add_mset UR_dev ?L + dev_res sl" using Suc.prems(4) d Some by simp
    then have c: "uringblk_cleanup_device sl (um_ledger m) = Inr (add_mset UR_dev ?L)"
      by (simp only: cleanup_device_ok [OF sl(1,2)])
    let ?m = "m\<lparr>um_ledger := add_mset UR_dev ?L, um_ledger := ?L\<rparr>"
    have "cleanup_loop n (Suc i) ?m = Inr (?m\<lparr>um_ledger := L\<rparr>)"
      using Suc.prems by (intro Suc.IH) simp_all
    with a c Some sl(3) show ?thesis by simp
  qed
qed simp

lemma cleanup_loop_written:
  assumes "cleanup_loop n i m = Inr m'" and "um_array m = Some es"
  shows "n = 0 \<or> i + n \<le> length es"
  using assms
proof (induction n arbitrary: i m)
  case (Suc n)
  from Suc.prems have i: "i < length es" by (auto simp: kres_simps device_at_def split: if_splits)
  from Suc.prems obtain m1 where "cleanup_loop n (Suc i) m1 = Inr m'" "um_array m1 = Some es"
    by (auto simp: kres_simps um_drop_def split: option.splits)
  from Suc.IH [OF this] i show ?case by auto
qed simp

section \<open>Loading\<close>

text \<open>At most one path is found, and what was allocated for the paths is what the array holds.\<close>

definition paths_ok :: "mod_params \<Rightarrow> path_array \<Rightarrow> bool" where
  "paths_ok p pa \<longleftrightarrow> (case pa of None \<Rightarrow> mp_devices p = [] | Some (num, ps) \<Rightarrow> length ps \<le> 1 \<and> 0 < num \<and>
     (mp_devices p = [] \<or> first_path (mp_devices p) \<noteq> [] \<longrightarrow> length ps = 1) \<and>
     (mp_devices p \<noteq> [] \<and> first_path (mp_devices p) = [] \<longrightarrow> ps = []))"

lemma choose_devices_result:
  assumes "NUL \<notin> set (mp_devices p)"
  shows "\<exists>c. choose_devices p env ty L = Inr (c, case c of Inl e \<Rightarrow> L | Inr (pa, n, ty') \<Rightarrow> L + path_res pa) \<and>
    (case c of Inl e \<Rightarrow> True | Inr (pa, n, ty') \<Rightarrow> n \<le> 1 \<and> paths_ok p pa)"
proof (cases "mp_devices p = []")
  case True
  then show ?thesis by (auto simp: choose_devices_def paths_ok_def path_res_def Let_def)
next
  case False
  then show ?thesis
    using parse_device_list_first [OF False assms, of "ue_dup env" L]
    by (cases "ue_copy env"; cases "ue_paths env")
      (auto simp: choose_devices_def parse_device_list_def paths_ok_def Let_def)
qed

lemma choose_devices_ok:
  assumes "NUL \<notin> set (mp_devices p)" and "choose_devices p env ty L = Inr (Inr (pa, n, ty'), L')"
  shows "n \<le> 1" "paths_ok p pa" "L' = L + path_res pa"
  using choose_devices_result [OF assms(1), of env ty L] assms(2) by (auto split: sum.split_asm)

lemma limit_devices_le: "n \<le> 1 \<Longrightarrow> limit_devices p n \<le> 1"
  by (auto simp: limit_devices_def Let_def)

lemma create_devices_ok:
  assumes "create_devices p env pa n m = Inr (None, m')" and "um_num m = 0" and "um_ledger m = L + path_res pa"
  shows "\<exists>sls. length sls = nat n \<and> um_len m' = nat n \<and> um_class m' = um_class m \<and>
    array_ok p (add_mset UR_array L + unfreed pa n) sls m'"
proof -
  let ?m = "(um_take UR_array m)\<lparr>um_array := Some [], um_len := nat n\<rparr>"
  have a: "array_ok p (add_mset UR_array (um_ledger m)) [] ?m" using assms(2) by (simp add: array_ok_def)
  from assms(1) obtain m2 L' where i: "init_loop p env pa (nat n) (length ([] :: uring_slot list)) ?m = Inr (None, m2)"
    and f: "free_device_list pa n (um_ledger m2) = Inr L'" and m': "m' = m2\<lparr>um_ledger := L'\<rparr>"
    by (auto simp: create_devices_def err_cleanup_devices_def err_free_paths_def err_unregister_def Let_def
      kres_simps split: if_splits option.splits)
  from init_loop_result [OF a i] obtain sls where s: "length sls = nat n" "\<forall>sl \<in> set sls. slot_ok p sl"
    "um_num m2 = length sls" "um_array m2 = Some (map Some sls)" "um_len m2 = nat n" "um_class m2 = um_class m"
    "um_ledger m2 = (add_mset UR_array L + slots_res sls) + path_res pa"
    by (auto simp: loop_post_def assms(3))
  from free_device_list_res [OF f [unfolded s(7)]] s m' show ?thesis
    by (intro exI [of _ sls]) (auto simp: array_ok_def)
qed

lemma err_free_paths_res:
  assumes "err_free_paths pa n e m = Inr (r, m')" and "um_ledger m = add_mset UR_major L + path_res pa"
  shows "um_ledger m' = L + unfreed pa n"
proof -
  from assms(1) obtain L' where f: "free_device_list pa n (um_ledger m) = Inr L'"
    and u: "err_unregister e (m\<lparr>um_ledger := L'\<rparr>) = Inr (r, m')" by (auto simp: err_free_paths_def kres_simps)
  from free_device_list_res [OF f [unfolded assms(2)]] have "L' = add_mset UR_major (L + unfreed pa n)" by simp
  with u show ?thesis by (auto simp: err_unregister_def)
qed

lemma create_devices_err:
  assumes "create_devices p env pa n m = Inr (Some e, m')" and "um_num m = 0"
    and "um_ledger m = add_mset UR_major L + path_res pa"
  shows "um_ledger m' = L + unfreed pa n"
proof (cases "n < 0 \<or> \<not> ue_array env")
  case True
  with assms show ?thesis
    by (auto simp: create_devices_def intro!: err_free_paths_res [of pa n ENOMEM "m\<lparr>um_array := None\<rparr>"])
next
  case False
  let ?m = "(um_take UR_array m)\<lparr>um_array := Some [], um_len := nat n\<rparr>"
  have a: "array_ok p (add_mset UR_array (um_ledger m)) [] ?m" using assms(2) by (simp add: array_ok_def)
  from assms(1) False obtain m2 where
    i: "init_loop p env pa (nat n) (length ([] :: uring_slot list)) ?m = Inr (Some e, m2)" and
    c: "err_cleanup_devices pa n e m2 = Inr (Some e, m')"
    by (auto simp: create_devices_def err_cleanup_devices_def err_free_paths_def err_unregister_def Let_def
      kres_simps split: option.splits)
  from init_loop_result [OF a i] obtain new where
    new: "length new < nat n" "\<forall>sl \<in> set new. slot_ok p sl" "um_num m2 = length new" "um_len m2 = nat n"
      "um_array m2 = Some (map Some new @ [None])"
      "um_ledger m2 = add_mset UR_array (um_ledger m) + slots_res new"
    by (auto simp: loop_post_def)
  from c obtain m3 where m3: "cleanup_loop (nat n) 0 m2 = Inr m3" by (auto simp: err_cleanup_devices_def kres_simps)
  with cleanup_loop_written [OF m3 new(5)] new(1) have "nat n = Suc (length new)" by auto
  then have "cleanup_loop (nat n) 0 m2 = Inr (m2\<lparr>um_ledger := add_mset UR_array (um_ledger m)\<rparr>)"
    using new by (intro cleanup_loop_ok [of _ "map Some new @ [None]"]) (auto simp: slot_ok_def nth_append)
  with c have "err_free_paths pa n e (m2\<lparr>um_ledger := um_ledger m, um_array := None, um_num := 0\<rparr>) = Inr (Some e, m')"
    by (simp add: err_cleanup_devices_def)
  from err_free_paths_res [OF this] assms(3) show ?thesis by simp
qed

abbreviation admin_res :: ledger where
  "admin_res \<equiv> {#UR_region, UR_cdev, UR_class#}"

definition admin_up :: "uring_env \<Rightarrow> bool" where
  "admin_up env \<longleftrightarrow> ue_region env = None \<and> ue_cdev env = None \<and> ue_class env = None"

lemma init_admin_result:
  "uringblk_init_admin_dev env (module_fresh ty) =
     (if admin_up env then Inr (None, (module_fresh ty)\<lparr>um_ledger := admin_res, um_class := True\<rparr>)
      else Inr (case ue_region env of Some e \<Rightarrow> (Some e, module_fresh ty) | None \<Rightarrow>
            (case ue_cdev env of Some e \<Rightarrow> (Some e, module_fresh ty)
             | None \<Rightarrow> (ue_class env, (module_fresh ty)\<lparr>um_class := True\<rparr>))))"
  by (auto simp: uringblk_init_admin_dev_def admin_up_def module_fresh_def err_del_cdev_def err_unreg_chrdev_def
    um_take_def um_drop_def Let_def split: option.split)

lemma init_admin_err:
  "\<not> admin_up env \<Longrightarrow> \<exists>e m. uringblk_init_admin_dev env (module_fresh ty) = Inr (Some e, m) \<and> um_ledger m = {#}"
proof -
  have f: "um_ledger (module_fresh ty) = {#}" by (simp add: module_fresh_def)
  assume n: "\<not> admin_up env"
  then have r: "uringblk_init_admin_dev env (module_fresh ty) =
      Inr (case ue_region env of Some e \<Rightarrow> (Some e, module_fresh ty) | None \<Rightarrow>
            (case ue_cdev env of Some e \<Rightarrow> (Some e, module_fresh ty)
             | None \<Rightarrow> (ue_class env, (module_fresh ty)\<lparr>um_class := True\<rparr>)))"
    by (simp add: init_admin_result)
  show ?thesis unfolding r using n f by (auto simp: admin_up_def split: option.split)
qed

lemma init_not_up:
  "\<not> admin_up env \<Longrightarrow> \<exists>e m. uringblk_init p env (module_fresh ty) = Inr (Some e, m) \<and> um_ledger m = {#}"
  using init_admin_err [of env ty] by (auto simp: uringblk_init_def)

text \<open>The state in which the devices are created.\<close>

definition module_ready :: "int \<Rightarrow> path_array \<Rightarrow> uring_module" where
  "module_ready ty pa = \<lparr>um_ledger = add_mset UR_major admin_res + path_res pa, um_class = True, um_array = None, um_len = 0,
     um_num = 0, um_backend_type = ty\<rparr>"

lemma init_unfold:
  assumes "admin_up env" and "NUL \<notin> set (mp_devices p)"
  shows "uringblk_init p env (module_fresh ty) =
    (case validate_backend_config ty (mp_backend_device p) of
       Some e \<Rightarrow> Inr (Some e, (module_fresh ty)\<lparr>um_ledger := admin_res, um_class := True\<rparr>)
     | None \<Rightarrow>
         (case ue_major env of
            Some e \<Rightarrow> Inr (Some e, (module_fresh ty)\<lparr>um_ledger := admin_res, um_class := True\<rparr>)
          | None \<Rightarrow>
              kbind (choose_devices p env ty (add_mset UR_major admin_res)) (\<lambda>(c, L). case c of
                  Inl e \<Rightarrow> Inr (Some e, (module_ready ty None)\<lparr>um_ledger := admin_res\<rparr>)
                | Inr (pa, n, ty') \<Rightarrow> create_devices p env pa (limit_devices p n) (module_ready ty' pa))))"
proof -
  let ?L = "add_mset UR_major admin_res"
  have r: "um_take UR_major ((module_fresh ty)\<lparr>um_ledger := admin_res, um_class := True\<rparr>) = module_ready ty None"
    by (simp add: um_take_def module_fresh_def module_ready_def path_res_def)
  have t: "um_backend_type (module_fresh ty) = ty" "um_backend_type (module_ready ty None) = ty"
      "um_ledger (module_ready ty None) = ?L"
      "err_unregister e (module_ready ty None\<lparr>um_ledger := ?L\<rparr>) = Inr (Some e, (module_ready ty None)\<lparr>um_ledger := admin_res\<rparr>)"
      "module_ready ty None\<lparr>um_ledger := ?L + path_res pa, um_backend_type := ty'\<rparr> = module_ready ty' pa" for e ty' pa
    by (simp_all add: module_fresh_def module_ready_def path_res_def err_unregister_def)
  obtain c where c: "choose_devices p env ty ?L = Inr (c, case c of Inl e \<Rightarrow> ?L | Inr (pa, n, ty') \<Rightarrow> ?L + path_res pa)"
    using choose_devices_result [OF assms(2)] by blast
  show ?thesis
    using assms(1) t(4,5)
    by (cases c) (simp_all add: uringblk_init_def init_admin_result r t(1-3) c Let_def split: option.split prod.split)
qed

lemma init_stage:
  assumes "admin_up env" and "NUL \<notin> set (mp_devices p)" and "uringblk_init p env (module_fresh ty) = Inr (r, m)"
  obtains (early) e where "r = Some e" "um_ledger m = admin_res"
  | (created) pa n ty' L where "choose_devices p env ty (add_mset UR_major admin_res) = Inr (Inr (pa, n, ty'), L)"
      "create_devices p env pa (limit_devices p n) (module_ready ty' pa) = Inr (r, m)" "n \<le> 1" "paths_ok p pa"
proof (cases "validate_backend_config ty (mp_backend_device p) = None \<and> ue_major env = None")
  case False
  with assms(3) have "r \<noteq> None \<and> um_ledger m = admin_res" unfolding init_unfold [OF assms(1,2)]
    by (auto split: option.split_asm dest: sym)
  with early show thesis by auto
next
  case True
  with assms(3) obtain c L where c: "choose_devices p env ty (add_mset UR_major admin_res) = Inr (c, L)"
    unfolding init_unfold [OF assms(1,2)] by (auto simp: kres_simps)
  show thesis
  proof (cases c)
    case (Inl e)
    with assms(3) c True early show thesis
      unfolding init_unfold [OF assms(1,2)] by auto
  next
    case (Inr x)
    obtain pa n ty' where x: "x = (pa, n, ty')" by (cases x)
    from c Inr x have c': "choose_devices p env ty (add_mset UR_major admin_res) = Inr (Inr (pa, n, ty'), L)" by simp
    with assms(3) True have "create_devices p env pa (limit_devices p n) (module_ready ty' pa) = Inr (r, m)"
      unfolding init_unfold [OF assms(1,2)] by simp
    from created [OF c' this choose_devices_ok(1,2) [OF assms(2) c']] show thesis .
  qed
qed

lemma limit_devices_pos: "n \<le> 1 \<Longrightarrow> 0 < mp_max_devices p \<Longrightarrow> limit_devices p n = 1"
  by (simp add: limit_devices_def Let_def)

text \<open>With a limit of one device or more, every path is freed.\<close>

lemma unfreed_none: "paths_ok p pa \<Longrightarrow> unfreed pa 1 = {#}"
  by (auto simp: paths_ok_def unfreed_def split: option.split)

lemma init_ok_devices:
  assumes "uringblk_init p env (module_fresh ty) = Inr (None, m)" and "NUL \<notin> set (mp_devices p)"
  shows "\<exists>sls pa n. length sls \<le> 1 \<and> um_len m = length sls \<and> um_class m \<and> paths_ok p pa \<and> n \<le> 1 \<and>
    array_ok p (add_mset UR_array (add_mset UR_major admin_res) + unfreed pa (limit_devices p n)) sls m"
proof -
  have up: "admin_up env" using assms(1) init_not_up [of env p ty] by (cases "admin_up env") auto
  obtain pa n ty' where
    d: "create_devices p env pa (limit_devices p n) (module_ready ty' pa) = Inr (None, m)"
    and n: "n \<le> 1" "paths_ok p pa" by (rule init_stage [OF up assms(2,1)]) auto
  from create_devices_ok [OF d, of "add_mset UR_major admin_res"] obtain sls where "length sls = nat (limit_devices p n)"
    "um_len m = nat (limit_devices p n)" "um_class m"
    "array_ok p (add_mset UR_array (add_mset UR_major admin_res) + unfreed pa (limit_devices p n)) sls m"
    by (auto simp: module_ready_def)
  with limit_devices_le [OF n(1), of p] n show ?thesis by (intro exI [of _ sls] exI [of _ pa] exI [of _ n]) auto
qed

section \<open>Properties of loading and unloading\<close>

definition sample_params :: "string \<Rightarrow> string \<Rightarrow> mod_params" where
  "sample_params device devices = \<lparr>mp_nr_hw_queues = 4, mp_queue_depth = 1024, mp_enable_poll = True,
     mp_enable_discard = True, mp_write_cache = True, mp_logical_block_size = 512, mp_capacity_mb = 1,
     mp_backend_device = device, mp_auto_detect = True, mp_max_devices = 1, mp_devices = devices\<rparr>"

definition sample_dev_env :: dev_env where
  "sample_dev_env = \<lparr>de_mem = True, de_vmem = True, de_open = None, de_bytes = 4096, de_sectors = 8,
     de_tags = None, de_disk = None, de_add = None, de_sysfs = None, de_node = None\<rparr>"

definition sample_env :: uring_env where
  "sample_env = \<lparr>ue_region = None, ue_cdev = None, ue_class = None, ue_major = None, ue_copy = True,
     ue_paths = True, ue_dup = (\<lambda>_. True), ue_array = True, ue_dev = (\<lambda>_. sample_dev_env)\<rparr>"

lemma sample_up [simp]: "admin_up sample_env" "ue_major sample_env = None"
  by (simp_all add: admin_up_def sample_env_def)

lemma exit_ok:
  assumes "um_len m = length sls" and "um_class m" and "array_ok p (add_mset UR_array (add_mset UR_major admin_res) + L) sls m"
  shows "\<exists>m'. uringblk_exit m = Inr m' \<and> um_ledger m' = L \<and> um_array m' = None \<and> um_num m' = 0"
proof -
  have "cleanup_loop (um_num m) 0 m = Inr (m\<lparr>um_ledger := add_mset UR_array (add_mset UR_major admin_res) + L\<rparr>)"
    using assms by (intro cleanup_loop_ok [of _ "map Some sls"]) (auto simp: array_ok_def slot_ok_def)
  with assms show ?thesis
    by (auto simp: uringblk_exit_def array_ok_def uringblk_cleanup_admin_dev_def um_drop_def drop_res_def)
qed

text \<open>C31.  Unloading the module after a successful load gives back everything the load took from the
  kernel, the array of paths and the paths included, and faults nowhere, if \<open>max_devices\<close> is positive.\<close>

theorem uring_load_unload:
  assumes "uringblk_init p env (module_fresh ty) = Inr (None, m)" and "NUL \<notin> set (mp_devices p)"
    and "0 < mp_max_devices p"
  shows "\<exists>m'. uringblk_exit m = Inr m' \<and> um_ledger m' = {#} \<and> um_array m' = None \<and> um_num m' = 0"
proof -
  from init_ok_devices [OF assms(1,2)] obtain sls pa n where
    s: "um_len m = length sls" "um_class m" "paths_ok p pa" "n \<le> 1"
      "array_ok p (add_mset UR_array (add_mset UR_major admin_res) + unfreed pa (limit_devices p n)) sls m" by blast
  from s(5) unfreed_none [OF s(3)] limit_devices_pos [OF s(4) assms(3)]
  have "array_ok p (add_mset UR_array (add_mset UR_major admin_res) + {#}) sls m" by simp
  from exit_ok [OF s(1,2) this] show ?thesis .
qed

lemma sample_init:
  "\<exists>m. uringblk_init (sample_params [] []) sample_env (module_fresh 0) = Inr (None, m)"
proof -
  let ?p = "sample_params [] []"
  have c: "choose_devices ?p sample_env 0 L = Inr (Inr (None, 1, 0), L)" "limit_devices ?p 1 = 1" for L
    by (simp_all add: choose_devices_def limit_devices_def sample_params_def Let_def)
  have "\<exists>sl L. uringblk_init_device ?p 0 sample_dev_env 0 s L0 = Inr (None, sl, L)" for s L0
    by (simp add: init_device_ladder setup_device_def validate_backend_config_def init_backend_def
      virtual_backend_init_def capacity_bytes_def sample_params_def sample_dev_env_def Let_def slot_zero_def
      config_zero_def backend_zero_def)
  then obtain f g where fg: "\<And>s L0. uringblk_init_device ?p 0 sample_dev_env 0 s L0 = Inr (None, f s L0, g s L0)"
    by metis
  have "de_mem sample_dev_env" by (simp add: sample_dev_env_def)
  with fg have "\<exists>m. create_devices ?p sample_env None 1 (module_ready 0 None) = Inr (None, m)"
    by (auto simp: create_devices_def sample_env_def device_config_def free_device_list_def module_ready_def Let_def)
  moreover have "NUL \<notin> set (mp_devices ?p)" by (simp add: sample_params_def)
  ultimately show ?thesis using c by (simp add: init_unfold validate_backend_config_def)
qed

lemma uring_load_unload_witness:
  "\<exists>m m'. uringblk_init (sample_params [] []) sample_env (module_fresh 0) = Inr (None, m) \<and>
     uringblk_exit m = Inr m' \<and> um_ledger m' = {#}"
proof -
  obtain m where m: "uringblk_init (sample_params [] []) sample_env (module_fresh 0) = Inr (None, m)"
    using sample_init by blast
  from uring_load_unload [OF this] m show ?thesis by (auto simp: sample_params_def)
qed

text \<open>C32.  A load that fails gives back everything but the admin character device, if \<open>max_devices\<close> is
  positive: once that was registered, its device numbers, the character device and the class stay behind on every
  error path, and the module is gone.\<close>

theorem failed_load_leaks_admin:
  assumes "uringblk_init p env (module_fresh ty) = Inr (Some e, m)" and "NUL \<notin> set (mp_devices p)"
    and "0 < mp_max_devices p"
  shows "um_ledger m = (if admin_up env then {#UR_region, UR_cdev, UR_class#} else {#})"
proof (cases "admin_up env")
  case True
  show ?thesis
  proof (cases rule: init_stage [OF True assms(2,1)])
    case (2 pa n ty')
    from create_devices_err [OF this(2), of admin_res] True unfreed_none [OF 2(4)] limit_devices_pos [OF 2(3) assms(3)]
    show ?thesis by (simp add: module_ready_def)
  qed (simp add: True)
next
  case False
  with init_not_up [of env p ty] assms show ?thesis by auto
qed

lemma failed_load_leaks_admin_witness:
  "\<exists>m. uringblk_init (sample_params [] []) sample_env (module_fresh 1) = Inr (Some EINVAL, m) \<and>
     um_ledger m = {#UR_region, UR_cdev, UR_class#}"
proof -
  obtain m where m: "uringblk_init (sample_params [] []) sample_env (module_fresh 1) = Inr (Some EINVAL, m)"
    by (simp add: init_unfold validate_backend_config_def sample_params_def)
  from failed_load_leaks_admin [OF this] m show ?thesis by (simp add: sample_params_def)
qed

text \<open>C33.  With \<open>max_devices\<close> of 0 or less and a path, of the device list or of \<open>backend_device\<close>, the copy of the path is
  never freed: a load with 0 succeeds without a device and the string is still there after the module was unloaded, and one
  with a negative number, or without memory for the device array, fails and leaves the string behind beside the
  admin device.\<close>

theorem path_string_leaks:
  assumes "mp_max_devices p \<le> 0" and "NUL \<notin> set (mp_devices p)"
    and "first_path (mp_devices p) \<noteq> [] \<or> mp_devices p = [] \<and> ty = 1"
    and "admin_up env" and "validate_backend_config ty (mp_backend_device p) = None" and "ue_major env = None"
    and "ue_copy env" and "ue_paths env" and "ue_dup env 0"
  shows "if mp_max_devices p = 0 \<and> ue_array env
    then \<exists>m m'. uringblk_init p env (module_fresh ty) = Inr (None, m) \<and> um_num m = 0 \<and>
      uringblk_exit m = Inr m' \<and> um_ledger m' = {#UR_path#}
    else \<exists>m. uringblk_init p env (module_fresh ty) = Inr (Some ENOMEM, m) \<and>
      um_ledger m = {#UR_path, UR_region, UR_cdev, UR_class#}"
proof -
  let ?L = "add_mset UR_major admin_res"
  have "\<exists>num path n. 0 < num \<and> n \<le> 1 \<and>
      choose_devices p env ty ?L = Inr (Inr (Some (num, [path]), n, ty), ?L + path_res (Some (num, [path])))"
  proof (cases "mp_devices p = []")
    case True
    with assms(3) have "ty = 1" by (auto simp: first_path_def)
    with True assms(5,8,9) show ?thesis
      by (auto simp: choose_devices_def path_res_def Let_def validate_backend_config_def split: if_splits)
  next
    case False
    with parse_device_list_first [OF False assms(2), of "ue_dup env" ?L] assms(1,3,7-9) show ?thesis
      by (auto simp: choose_devices_def Let_def)
  qed
  then obtain num path n where
    c: "choose_devices p env ty ?L = Inr (Inr (Some (num, [path]), n, ty), ?L + path_res (Some (num, [path])))"
    and n: "0 < num" "n \<le> 1" by blast
  let ?pa = "Some (num, [path])" and ?m = "module_ready ty (Some (num, [path]))"
  have l: "limit_devices p n = mp_max_devices p" using assms(1) n(2) by (simp add: limit_devices_def Let_def)
  have i: "uringblk_init p env (module_fresh ty) = create_devices p env ?pa (mp_max_devices p) ?m"
    using assms(5,6) c l by (simp add: init_unfold [OF assms(4,2)])
  have f: "free_device_list ?pa (mp_max_devices p) (L + path_res ?pa) = Inr (add_mset UR_path L)" for L
    using free_device_list_ok [where pa = ?pa and n = "mp_max_devices p" and L = L] n(1) assms(1) by (simp add: unfreed_def)
  show ?thesis
  proof (cases "mp_max_devices p = 0 \<and> ue_array env")
    case True
    with f [of "add_mset UR_array ?L"] have "\<exists>m. uringblk_init p env (module_fresh ty) = Inr (None, m)"
      unfolding i by (auto simp: create_devices_def module_ready_def Let_def)
    then obtain m where m: "uringblk_init p env (module_fresh ty) = Inr (None, m)" ..
    from create_devices_ok [OF m [unfolded i], of ?L] True obtain sls where s: "sls = []" "um_len m = length sls" "um_class m"
      "array_ok p (add_mset UR_array ?L + {#UR_path#}) sls m" by (auto simp: module_ready_def unfreed_def)
    from exit_ok [OF s(2-4)] s(1,4) m True show ?thesis by (auto simp: array_ok_def)
  next
    case False
    with assms(1) f [of ?L] have "\<exists>m. uringblk_init p env (module_fresh ty) = Inr (Some ENOMEM, m)"
      unfolding i by (auto simp: create_devices_def err_free_paths_def err_unregister_def module_ready_def um_drop_def drop_res_def)
    then obtain m where m: "uringblk_init p env (module_fresh ty) = Inr (Some ENOMEM, m)" ..
    from create_devices_err [OF m [unfolded i], of admin_res] assms(1) have "um_ledger m = {#UR_path, UR_region, UR_cdev, UR_class#}"
      by (simp add: module_ready_def unfreed_def)
    with m False show ?thesis by auto
  qed
qed

lemma path_string_leaks_witness:
  "\<exists>m m'. uringblk_init ((sample_params [] ''/dev/a'')\<lparr>mp_max_devices := 0\<rparr>) sample_env (module_fresh 0) = Inr (None, m) \<and>
     um_num m = 0 \<and> uringblk_exit m = Inr m' \<and> um_ledger m' = {#UR_path#}"
  using path_string_leaks [of "(sample_params [] ''/dev/a'')\<lparr>mp_max_devices := 0\<rparr>" 0 sample_env]
  by (simp add: sample_params_def sample_env_def admin_up_def validate_backend_config_def first_path_def rtrim_def blank_def)

text \<open>The device list parameter never reaches a device: a loaded module has at most one device,
  whatever the list holds, and that device is configured with \<open>backend_device\<close>.  Where that parameter
  is empty and the list names a device, loading fails with \<open>EINVAL\<close> (or for want of memory before).\<close>

theorem device_list_ignored:
  assumes "NUL \<notin> set (mp_devices p)" and "uringblk_init p env (module_fresh ty) = Inr (r, m)"
  shows "(r = None \<longrightarrow> (\<exists>sls. length sls \<le> 1 \<and> um_array m = Some (map Some sls) \<and>
      (\<forall>sl \<in> set sls. cfg_backend_device (u_config (sl_dev sl)) = take 255 (mp_backend_device p)))) \<and>
    (mp_backend_device p = [] \<and> first_path (mp_devices p) \<noteq> [] \<and> 0 < mp_max_devices p \<longrightarrow> r \<noteq> None)"
proof -
  have "r \<noteq> None" if b: "mp_backend_device p = []" "first_path (mp_devices p) \<noteq> []" "0 < mp_max_devices p"
  proof
    assume n: "r = None"
    with assms init_not_up [of env p ty] have up: "admin_up env" by (cases "admin_up env") auto
    obtain pa k ty' L where
      c: "choose_devices p env ty (add_mset UR_major admin_res) = Inr (Inr (pa, k, ty'), L)" and
      d: "create_devices p env pa (limit_devices p k) (module_ready ty' pa) = Inr (None, m)"
      by (rule init_stage [OF up assms]) (auto simp: n)
    have v: "validate_backend_config ty [] = None"
      using assms(2) n b(1) unfolding init_unfold [OF up assms(1)] by (cases "validate_backend_config ty []") auto
    then have ty0: "ty = 0" by (simp add: validate_backend_config_def split: if_splits)
    have ne: "mp_devices p \<noteq> []" using b(2) by (auto simp: first_path_def)
    with c have a: "ue_copy env" "ue_paths env"
      by (auto simp: choose_devices_def parse_device_list_def Let_def kres_simps split: if_splits)
    from c parse_device_list_first [OF ne assms(1), of "ue_dup env" "add_mset UR_major admin_res"] ne a b ty0
    have t: "ty' = 1" "k = 1" by (auto simp: choose_devices_def Let_def kres_simps split: if_splits)
    have l: "limit_devices p 1 = 1" using b(3) by (simp add: limit_devices_def)
    from d show False unfolding t l
      by (auto simp: create_devices_def err_cleanup_devices_def err_free_paths_def err_unregister_def Let_def
        kres_simps module_ready_def init_device_needs_path [OF b(1)] split: if_splits)
  qed
  moreover have "\<exists>sls. length sls \<le> 1 \<and> um_array m = Some (map Some sls) \<and>
      (\<forall>sl \<in> set sls. cfg_backend_device (u_config (sl_dev sl)) = take 255 (mp_backend_device p))" if "r = None"
    using init_ok_devices [of p env ty m] assms that by (auto simp: array_ok_def slot_ok_def)
  ultimately show ?thesis by blast
qed

lemma device_list_ignored_witness:
  "\<exists>r m. uringblk_init (sample_params [] ''/dev/a'') sample_env (module_fresh 0) = Inr (r, m) \<and> r \<noteq> None"
proof -
  let ?p = "sample_params [] ''/dev/a''"
  have f: "first_path ''/dev/a'' = ''/dev/a''" by (simp add: first_path_def rtrim_def blank_def)
  let ?pa = "Some (1, [''/dev/a''])"
  have c: "choose_devices ?p sample_env 0 L = Inr (Inr (?pa, 1, 1), L + path_res ?pa)" "limit_devices ?p 1 = 1" for L
    using parse_device_list_first [of "''/dev/a''" "\<lambda>_. True" L] f
    by (simp_all add: choose_devices_def sample_params_def sample_env_def limit_devices_def)
  have i: "\<exists>m. create_devices ?p sample_env ?pa 1 (module_ready 1 ?pa) = Inr (Some EINVAL, m)"
    using init_device_needs_path [of ?p]
    by (simp add: create_devices_def sample_env_def sample_dev_env_def device_config_def path_at_def Let_def
      sample_params_def module_ready_def err_cleanup_devices_def err_free_paths_def err_unregister_def
      push_slot_def device_at_def free_device_list_def path_res_def um_drop_def drop_res_def)
  moreover have "NUL \<notin> set (mp_devices ?p)" by (simp add: sample_params_def)
  ultimately obtain m where m: "uringblk_init ?p sample_env (module_fresh 0) = Inr (Some EINVAL, m)"
    using c by (auto simp: init_unfold validate_backend_config_def)
  from device_list_ignored [OF _ this] f m show ?thesis by (auto simp: sample_params_def)
qed

lemma init_one_total:
  fixes m :: uring_module
  assumes "mp_logical_block_size p \<noteq> 0" and "n \<le> 1" and pa: "pa = None \<or> (\<exists>num path. pa = Some (num, [path]) \<and> 0 < num)"
  defines "m0 \<equiv> (um_take UR_array m)\<lparr>um_array := Some [], um_len := nat n\<rparr>"
  shows "\<exists>r m2. init_loop p env pa (nat n) 0 m0 = Inr (r, m2)"
proof (cases "nat n = 0 \<or> \<not> de_mem (ue_dev env 0)")
  case True
  then show ?thesis by (cases "nat n") auto
next
  case False
  then have n: "nat n = Suc 0" using assms(2) by linarith
  obtain sl where sl: "device_config p pa 0 (um_backend_type m0) = Inr sl"
    using pa by (auto simp: device_config_def path_at_def)
  obtain q sl1 L1 where i: "uringblk_init_device p (um_backend_type m0) (ue_dev env 0) 0 sl
      (add_mset UR_dev (um_ledger m0)) = Inr (q, sl1, L1)"
    using init_device_total [OF assms(1)] by blast
  show ?thesis
  proof (cases q)
    case None
    with n False sl i show ?thesis by (simp add: Let_def m0_def)
  next
    case (Some e)
    with init_device_err i have "L1 = add_mset UR_dev (um_ledger m0)" by blast
    with Some n False sl i show ?thesis by (simp add: Let_def m0_def)
  qed
qed

lemma create_one_total:
  assumes "mp_logical_block_size p \<noteq> 0" and "n \<le> 1" and "um_num m = 0" and "um_ledger m = add_mset UR_major L + path_res pa"
    and pa: "pa = None \<or> (\<exists>num path. pa = Some (num, [path]) \<and> 0 < num)"
  shows "\<exists>r m'. create_devices p env pa n m = Inr (r, m')"
proof -
  have f: "free_device_list pa n (L' + path_res pa) = Inr (L' + unfreed pa n)" for L'
    using pa assms(2) by (intro free_device_list_ok) auto
  have e: "\<exists>m'. err_free_paths pa n e m0 = Inr (Some e, m')" if "um_ledger m0 = um_ledger m" for e m0
    using f [of "add_mset UR_major L"] that assms(4) by (auto simp: err_free_paths_def err_unregister_def)
  let ?m = "(um_take UR_array m)\<lparr>um_array := Some [], um_len := nat n\<rparr>"
  have "\<exists>r m2. init_loop p env pa (nat n) 0 ?m = Inr (r, m2)" by (rule init_one_total [OF assms(1,2) pa])
  then obtain r m2 where i: "init_loop p env pa (nat n) (length ([] :: uring_slot list)) ?m = Inr (r, m2)" by auto
  have "array_ok p (add_mset UR_array (um_ledger m)) [] ?m" using assms(3) by (simp add: array_ok_def)
  from init_loop_result [OF this i] have post: "um_len m2 = nat n" "loop_post p (add_mset UR_array (um_ledger m)) [] (nat n) r m2"
    by simp_all
  have "\<exists>m'. err_cleanup_devices pa n e m2 = Inr (Some e, m')" if "r = Some e" for e
  proof -
    from post(2) that obtain new where new: "length new < nat n" "um_array m2 = Some (map Some new @ [None])"
      "um_ledger m2 = add_mset UR_array (um_ledger m) + slots_res new" by (auto simp: loop_post_def)
    then have "new = []" "nat n = 1" using assms(2) by (cases new; simp; linarith)+
    with new have "um_array m2 = Some [None]" "nat n = 1" "um_ledger m2 = add_mset UR_array (um_ledger m)" by simp_all
    with post(1) e [of "m2\<lparr>um_ledger := um_ledger m, um_array := None, um_num := 0\<rparr>"] show ?thesis
      by (simp add: err_cleanup_devices_def device_at_def)
  qed
  moreover have "\<exists>L'. free_device_list pa n (um_ledger m2) = Inr L'"
  proof -
    from post(2) obtain new where "um_ledger m2 = add_mset UR_array (um_ledger m) + slots_res new" by (auto simp: loop_post_def)
    then have "um_ledger m2 = (add_mset UR_array (add_mset UR_major L) + slots_res new) + path_res pa"
      by (simp add: assms(4))
    with f show ?thesis by metis
  qed
  ultimately show ?thesis
    using i e [of "m\<lparr>um_array := None\<rparr>" ENOMEM] by (cases r) (auto simp: create_devices_def Let_def)
qed

text \<open>Loading returns, with success or an error, for every outcome of the kernel's calls, if the
  logical block size is not zero and the device list is empty or starts with a path.\<close>

theorem load_returns:
  assumes "mp_logical_block_size p \<noteq> 0" and "NUL \<notin> set (mp_devices p)"
    and "mp_devices p = [] \<or> first_path (mp_devices p) \<noteq> []"
  shows "\<exists>r m. uringblk_init p env (module_fresh ty) = Inr (r, m)"
proof (cases "admin_up env \<and> validate_backend_config ty (mp_backend_device p) = None \<and> ue_major env = None")
  case False
  with init_not_up [of env p ty] show ?thesis
    by (cases "admin_up env") (auto simp: init_unfold [OF _ assms(2)] split: option.split)
next
  case True
  obtain c L where c: "choose_devices p env ty (add_mset UR_major admin_res) = Inr (c, L)"
    using choose_devices_result [OF assms(2)] by blast
  show ?thesis
  proof (cases c)
    case (Inl e)
    with c True show ?thesis by (simp add: init_unfold [OF _ assms(2)])
  next
    case (Inr x)
    obtain pa n ty' where x: "x = (pa, n, ty')" by (cases x)
    from choose_devices_ok [OF assms(2) c [unfolded Inr x]] assms(3)
    have "n \<le> 1" "pa = None \<or> (\<exists>num path. pa = Some (num, [path]) \<and> 0 < num)"
      by (auto simp: paths_ok_def length_Suc_conv split: option.split_asm)
    with create_one_total [OF assms(1), of "limit_devices p n" "module_ready ty' pa" admin_res pa env] limit_devices_le
    have "\<exists>r m. create_devices p env pa (limit_devices p n) (module_ready ty' pa) = Inr (r, m)"
      by (auto simp: module_ready_def)
    with c Inr x True show ?thesis by (simp add: init_unfold [OF _ assms(2)])
  qed
qed

lemma load_returns_witness:
  "\<exists>r m. uringblk_init (sample_params [] ''/dev/a,/dev/b'') sample_env (module_fresh 0) = Inr (r, m)"
  by (rule load_returns) (simp_all add: sample_params_def first_path_def rtrim_def blank_def)

text \<open>A device list that is not empty but starts with an empty path (a comma, or blanks) makes
  loading read an entry of the path array that was never written.\<close>

theorem blank_device_list_uninitialised:
  assumes "mp_devices p \<noteq> []" and "first_path (mp_devices p) = []" and "NUL \<notin> set (mp_devices p)"
    and "0 < mp_max_devices p" and "admin_up env" and "ue_major env = None" and "ue_copy env" and "ue_paths env"
    and "ue_array env" and "de_mem (ue_dev env 0)" and "validate_backend_config ty (mp_backend_device p) = None"
  shows "uringblk_init p env (module_fresh ty) = Inl UninitRead"
proof -
  let ?L = "add_mset UR_major admin_res"
  have "\<exists>num. 0 < num \<and> choose_devices p env ty ?L = Inr (Inr (Some (num, []), 0, ty), ?L + path_res (Some (num, [])))"
    using parse_device_list_first [OF assms(1,3), of "ue_dup env" ?L] assms(1,2,4,7,8)
    by (auto simp: choose_devices_def Let_def)
  moreover have "limit_devices p 0 = 1" using assms(4) by (simp add: limit_devices_def)
  ultimately show ?thesis
    using assms(6,9-11) by (auto simp: init_unfold [OF assms(5,3)] create_devices_def Let_def device_config_def path_at_def)
qed

lemma blank_device_list_uninitialised_witness:
  "uringblk_init (sample_params [] '',/dev/b'') sample_env (module_fresh 0) = Inl UninitRead"
  by (rule blank_device_list_uninitialised)
    (simp_all add: sample_params_def sample_env_def sample_dev_env_def first_path_def validate_backend_config_def
      admin_up_def)

text \<open>Opening the admin device of a loaded module: a minor number below the number of devices gives
  that device, one of 16 or more is refused, and one in between, which the character device accepts,
  reads past the end of the device array.\<close>

theorem admin_open_outcome:
  assumes "uringblk_init p env (module_fresh ty) = Inr (None, m)" and "NUL \<notin> set (mp_devices p)"
  shows "uringblk_admin_open minor m =
    (if minor \<ge> 16 then Inr (Inl ENODEV)
     else if minor < um_num m then Inr (Inr (the (the (um_array m) ! minor)))
     else Inl OutOfBounds)"
proof -
  from init_ok_devices [OF assms] obtain sls where
    "um_len m = length sls" "um_array m = Some (map Some sls)" "um_num m = length sls" by (auto simp: array_ok_def)
  then show ?thesis by (simp add: uringblk_admin_open_def URINGBLK_MINORS_def device_at_def)
qed

lemma admin_open_outcome_witness:
  "\<exists>m. uringblk_init (sample_params [] []) sample_env (module_fresh 0) = Inr (None, m) \<and>
     uringblk_admin_open 16 m = Inr (Inl ENODEV)"
proof -
  obtain m where m: "uringblk_init (sample_params [] []) sample_env (module_fresh 0) = Inr (None, m)"
    using sample_init by blast
  from admin_open_outcome [OF this, of 16] m show ?thesis by (simp add: sample_params_def)
qed

end
