(* ===== verification/Uring_Machine.thy ===== *)
theory Uring_Machine
  imports Uring_Theorems Uring_Setup
begin

text \<open>
  A uringblk device as a machine: requests, admin commands and statistics resets in any order,
  from the state the set-up leaves, with what stays true throughout.
\<close>

section \<open>Events\<close>

datatype uring_event =
    Ev_request io_env request
  | Ev_command cmd_env uring_sqe
  | Ev_reset "int option" u64

text \<open>One event; an event that faults leaves no next state, here the device as it was.\<close>

definition uring_step :: "'d lower_dev \<Rightarrow> u32 \<Rightarrow> uring_event \<Rightarrow> uringblk_device \<Rightarrow> uringblk_device" where
  "uring_step ld lbs ev dev =
     (case ev of
        Ev_request env rq \<Rightarrow> (case uringblk_queue_rq ld env lbs rq dev of Inr (_, dev') \<Rightarrow> dev' | Inl _ \<Rightarrow> dev)
      | Ev_command env sqe \<Rightarrow>
          (case uringblk_uring_cmd lbs env sqe (Some dev) of Inr (_, Some dev') \<Rightarrow> dev' | _ \<Rightarrow> dev)
      | Ev_reset parsed cnt \<Rightarrow> snd (stats_reset_store parsed cnt dev))"

section \<open>Invariant\<close>

definition features_ok :: "uringblk_device \<Rightarrow> bool" where
  "features_ok dev \<longleftrightarrow> u_features dev AND NOT supported_features = 0"

definition device_ok :: "uringblk_config \<Rightarrow> uringblk_device \<Rightarrow> bool" where
  "device_ok c dev \<longleftrightarrow> features_ok dev \<and> u_latency_buckets dev = replicate 32 0 \<and> u_config dev = c"

lemma queue_rq_keeps:
  "uringblk_queue_rq ld env lbs rq dev = Inr (r, dev') \<Longrightarrow>
     u_features dev' = u_features dev \<and> u_latency_buckets dev' = u_latency_buckets dev \<and> u_config dev' = u_config dev"
  by (auto simp: uringblk_queue_rq_def Let_def kres_simps split: if_splits)

lemma set_features_keeps:
  assumes "uringblk_cmd_set_features f len dev = (r, dev')" and "device_ok c dev"
  shows "device_ok c dev'"
  using assms by (auto simp: uringblk_cmd_set_features_def device_ok_def features_ok_def split: if_splits option.splits)

lemma uring_cmd_keeps:
  assumes "uringblk_uring_cmd lbs env sqe (Some dev) = Inr (r, Some dev')" and "device_ok c dev"
  shows "device_ok c dev'"
  using assms set_features_keeps [of "ce_from_user env" "sqe_len sqe" dev]
  by (auto simp: uringblk_uring_cmd_def cmd_switch_def uringblk_uring_cmd_complete_async_def Let_def kres_simps split: if_splits prod.splits option.splits)

lemma device_ok_step:
  assumes "device_ok c dev"
  shows "device_ok c (uring_step ld lbs ev dev)"
proof (cases ev)
  case (Ev_request env rq)
  with assms queue_rq_keeps [of ld env lbs rq dev] show ?thesis
    by (auto simp: uring_step_def device_ok_def features_ok_def split: sum.split)
next
  case (Ev_command env sqe)
  with assms uring_cmd_keeps [of lbs env sqe dev] show ?thesis
    by (auto simp: uring_step_def split: sum.split option.split)
next
  case (Ev_reset parsed cnt)
  with assms show ?thesis
    by (auto simp: uring_step_def stats_reset_store_def device_ok_def features_ok_def split: option.split)
qed

interpretation uring_dev: call_machine "uring_step ld lbs" "device_ok c" for ld lbs c
  by unfold_locales (rule device_ok_step)

lemma init_features_ok: "init_features c AND NOT supported_features = 0"
  by (cases "write_cache c"; cases "enable_discard c"; cases "enable_poll c")
    (simp_all add: init_features_def supported_features_def)

lemma init_device_ok_state:
  assumes "uringblk_init_device p ty env minor sl L = Inr (None, sl', L')"
  shows "device_ok (u_config (sl_dev sl')) (sl_dev sl')"
  using init_device_ok [OF assms] init_features_ok by (simp add: slot_ok_def device_ok_def features_ok_def)

lemma percentile_zero: "calculate_latency_percentile (replicate n 0) p = 0"
proof -
  have "fold (\<lambda>b a. a + ucast b) (replicate n (0::u32)) (0::u64) = 0" by (induction n) simp_all
  then show ?thesis by (simp add: calculate_latency_percentile_def)
qed

section \<open>Properties\<close>

text \<open>From a device that was set up, through any sequence of requests, admin commands and
  statistics resets, the feature word has supported features only and the configuration is that of
  the set-up; and the latency histogram stays empty, so that every percentile GET\_STATS reports
  is 0.\<close>

theorem device_invariant:
  assumes "uringblk_init_device p ty env minor sl L = Inr (None, sl', L')"
  shows "let dev = fold (uring_step ld lbs) evs (sl_dev sl') in
    u_features dev AND NOT supported_features = 0 \<and> u_config dev = u_config (sl_dev sl') \<and>
    calculate_latency_percentile (u_latency_buckets dev) q = 0"
  using uring_dev.inv_run [OF init_device_ok_state [OF assms], of ld lbs evs]
  by (simp add: device_ok_def features_ok_def percentile_zero Let_def)

lemma device_invariant_witness:
  "\<exists>sl' L'. uringblk_init_device (sample_params [] []) 0 sample_dev_env 0 slot_zero {#} = Inr (None, sl', L') \<and>
     u_features (fold (uring_step sample_lower 512) [Ev_reset (Some 1) 2] (sl_dev sl')) AND NOT supported_features = 0"
proof -
  obtain sl' L' where i: "uringblk_init_device (sample_params [] []) 0 sample_dev_env 0 slot_zero {#} = Inr (None, sl', L')"
    by (simp add: init_device_ladder setup_device_def validate_backend_config_def init_backend_def
      virtual_backend_init_def capacity_bytes_def sample_params_def sample_dev_env_def Let_def slot_zero_def
      config_zero_def backend_zero_def)
  from device_invariant [OF this, of sample_lower 512 "[Ev_reset (Some 1) 2]" 50] i show ?thesis
    by (auto simp: Let_def)
qed

text \<open>SET\_FEATURES followed by GET\_FEATURES: a set of supported features is stored and read
  back in 8 bytes; a set with an unsupported feature is refused with \<open>EINVAL\<close>, and the device is left
  as it was.\<close>

theorem features_round_trip:
  assumes "8 \<le> len" and "8 \<le> len'"
  shows "if f AND NOT supported_features = 0
    then \<exists>dev' bs. uringblk_cmd_set_features (Some f) len dev = (None, dev') \<and>
      uringblk_cmd_get_features True len' dev' = Inr bs \<and> length bs = 8 \<and> unle bs = unat f
    else uringblk_cmd_set_features (Some f) len dev = (Some EINVAL, dev)"
  using assms
  by (auto simp: uringblk_cmd_set_features_def uringblk_cmd_get_features_def respond_def not_less [symmetric])

lemma features_round_trip_witness:
  "\<exists>dev' bs. uringblk_cmd_set_features (Some 12) 8 (sl_dev slot_zero) = (None, dev') \<and>
     uringblk_cmd_get_features True 16 dev' = Inr bs \<and> unle bs = 12"
  using features_round_trip [of 8 16 12 "sl_dev slot_zero"] by (auto simp: supported_features_def)

text \<open>The percentile of a histogram of 32 buckets is ten times the index of the first bucket at
  which the running count reaches the wanted share of all operations; no 64-bit sum or product on
  the way wraps around.\<close>

theorem percentile_first_bucket:
  assumes "length bs = 32" and "p \<le> 100" and "0 < bsum bs"
  shows "\<exists>k < 32. calculate_latency_percentile bs p = of_nat k * 10 \<and>
     bsum bs * unat p div 100 \<le> bsum (take (Suc k) bs) \<and>
     (\<forall>j < k. bsum (take (Suc j) bs) < bsum bs * unat p div 100)"
  using assms by (rule percentile_bucket)

lemma percentile_first_bucket_witness:
  "\<exists>k < 32. calculate_latency_percentile (3 # replicate 31 1) 50 = of_nat k * 10"
  using percentile_first_bucket [of "3 # replicate 31 1" 50] by (auto simp: sum_list_replicate)

lemma handler_fits:
  "uringblk_cmd_identify ok lbs len dev = Inr (Inr bs) \<Longrightarrow> length bs \<le> unat len"
  "uringblk_cmd_get_limits ok lbs len dev = Inr bs \<Longrightarrow> length bs \<le> unat len"
  "uringblk_cmd_get_features ok len dev = Inr bs \<Longrightarrow> length bs \<le> unat len"
  "uringblk_cmd_get_geometry ok lbs len dev = Inr (Inr bs) \<Longrightarrow> length bs \<le> unat len"
  "uringblk_cmd_get_stats ok len dev = Inr bs \<Longrightarrow> length bs \<le> unat len"
  by (auto simp: uringblk_cmd_identify_def uringblk_cmd_get_limits_def uringblk_cmd_get_features_def
    uringblk_cmd_get_geometry_def uringblk_cmd_get_stats_def respond_def kres_simps Let_def word_less_nat_alt
    split: if_splits)

text \<open>C34.  An admin command never writes more than the caller's buffer of at most 4096 bytes takes,
  and no command but SET\_FEATURES changes the device.\<close>

theorem admin_response_fits:
  assumes "uringblk_uring_cmd lbs env sqe (Some dev) = Inr (out, dev')"
  shows "(\<forall>bs. out = Queued (Inr bs) \<longrightarrow> length bs \<le> unat (sqe_len sqe) \<and> unat (sqe_len sqe) \<le> 4096) \<and>
    (sqe_opcode sqe \<noteq> 4 \<longrightarrow> dev' = Some dev)"
proof -
  have "unat (sqe_len sqe) \<le> 4096" if "\<not> sqe_len sqe > 4096" using that by (simp add: word_less_nat_alt)
  with assms show ?thesis
    by (auto simp: uringblk_uring_cmd_def cmd_switch_def uringblk_uring_cmd_complete_async_def Let_def kres_simps dest: handler_fits
      split: if_splits prod.splits option.splits)
qed

lemma admin_response_fits_witness:
  "\<exists>bs. uringblk_uring_cmd 512 \<lparr>ce_locked = False, ce_interrupted = False, ce_to_user = True, ce_from_user = None\<rparr>
      \<lparr>sqe_opcode = 6, sqe_len = 128, sqe_cancel = False, sqe_nonblock = False\<rparr> (Some (sl_dev slot_zero)) =
    Inr (Queued (Inr bs), Some (sl_dev slot_zero)) \<and> length bs \<le> 128"
proof -
  let ?env = "\<lparr>ce_locked = False, ce_interrupted = False, ce_to_user = True, ce_from_user = None\<rparr>"
  let ?sqe = "\<lparr>sqe_opcode = 6, sqe_len = 128, sqe_cancel = False, sqe_nonblock = False\<rparr>"
  obtain bs where "uringblk_cmd_get_stats True 128 (sl_dev slot_zero) = Inr bs"
    by (simp add: uringblk_cmd_get_stats_def respond_def Let_def)
  then have c: "uringblk_uring_cmd 512 ?env ?sqe (Some (sl_dev slot_zero)) =
      Inr (Queued (Inr bs), Some (sl_dev slot_zero))"
    by (simp add: uringblk_uring_cmd_def cmd_switch_def uringblk_uring_cmd_complete_async_def Let_def)
  from admin_response_fits [OF this] c show ?thesis by auto
qed

end
