(* ===== verification/Uring_Threads.thy ===== *)
theory Uring_Threads
  imports Uring_Machine Interleaving
begin

text \<open>
  Calls of the uringblk driver as threads.  blk-mq calls \<open>uringblk_queue_rq\<close> from all its hardware
  queues at once, and io\_uring and sysfs enter from any process.  The driver takes the spin lock of
  the statistics for the counters and the admin mutex around the switch of an admin command; the
  copies between the memory of the virtual backend and the segments of a request run without a
  lock.  A call is cut at these points: one step counts a request, one moves a segment, and a
  command tests the mutex, takes it, runs its handler, gives it back and is completed by task work
  in one step each.
\<close>

section \<open>Threads\<close>

datatype ub_reply =
    Reply_rq rq_result
  | Reply_cmd cmd_outcome
  | Reply_store "errno + u64"

record ub_state =
  us_dev :: uringblk_device
  us_admin :: bool

text \<open>Where a call is; a request on the virtual backend has handed back some segments and has others
  to do.\<close>

datatype ub_pc =
    Ub_start uring_event
  | Rq_device io_env request
  | Rq_segs io_env request u64 "byte list list" "byte list list"
  | Cmd_lock cmd_env uring_sqe
  | Cmd_run cmd_env uring_sqe
  | Cmd_unlock cmd_env uring_sqe uringblk_cmd_pdu
  | Cmd_task cmd_env uring_sqe uringblk_cmd_pdu
  | Ub_done uring_event ub_reply

definition rq_reply :: "io_env \<Rightarrow> request \<Rightarrow> blk_status \<Rightarrow> byte list list \<Rightarrow> ub_pc" where
  "rq_reply env rq st segs =
     Ub_done (Ev_request env rq) (Reply_rq \<lparr>ended = [st], segs_out = segs, in_flight = None\<rparr>)"

text \<open>The range test and the critical section of the statistics.\<close>

definition rq_enter :: "u32 \<Rightarrow> io_env \<Rightarrow> request \<Rightarrow> uringblk_device \<Rightarrow> ub_pc \<times> uringblk_device" where
  "rq_enter lbs env rq dev =
     (let pos = rq_sector rq * ucast lbs;
          dev_size = be_capacity (u_backend dev)
      in if sint pos \<ge> sint dev_size \<or> sint (pos + ucast (rq_nbytes rq)) > sint dev_size
         then (rq_reply env rq STS_IOERR (rq_segs rq), dev)
         else if rq_op rq = REQ_OP_DRV_IN \<or> rq_op rq = REQ_OP_DRV_OUT
         then (Ub_done (Ev_request env rq) (Reply_rq (uringblk_handle_uring_cmd_request rq)), dev)
         else if rq_op rq = REQ_OP_OTHER
         then (rq_reply env rq STS_NOTSUPP (rq_segs rq), dev)
         else (if be_type (u_backend dev) = BACKEND_DEVICE then Rq_device env rq
               else Rq_segs env rq pos [] (rq_segs rq),
               dev\<lparr>u_stats := count_rq rq (u_stats dev)\<rparr>))"

text \<open>One pass of the loop over the segments on the virtual backend.\<close>

definition rq_segment ::
  "io_env \<Rightarrow> request \<Rightarrow> u64 \<Rightarrow> byte list list \<Rightarrow> byte list \<Rightarrow> byte list list \<Rightarrow> uringblk_device \<Rightarrow>
     (ub_pc \<times> uringblk_device) kres" where
  [simp]: "rq_segment env rq pos out buf bufs dev =
     (let b = u_backend dev;
          len = clip_len (be_capacity b) pos (of_nat (length buf)) in
      kbind (virtual_segment (rq_op rq) pos buf len b) (\<lambda>(st, buf', b').
        Inr (if st \<noteq> STS_OK then rq_reply env rq st (out @ buf' # bufs)
             else Rq_segs env rq (pos + len) (out @ [buf']) bufs,
             dev\<lparr>u_backend := b'\<rparr>)))"

text \<open>The tests of a command before it waits for the mutex; what it met is kept in its environment.\<close>

definition cmd_enter :: "cmd_env \<Rightarrow> uring_sqe \<Rightarrow> bool \<Rightarrow> ub_pc" where
  "cmd_enter env sqe locked =
     (let env' = env\<lparr>ce_locked := locked, ce_interrupted := False\<rparr>;
          fail = (\<lambda>e. Ub_done (Ev_command env' sqe) (Reply_cmd (Immediate e)))
      in if sqe_cancel sqe then fail ECANCELED
         else if sqe_len sqe > 4096 then fail EINVAL
         else if sqe_nonblock sqe \<and> locked then fail EAGAIN
         else Cmd_lock env' sqe)"

text \<open>One step; \<open>sg\<close> says that a signal arrives while the call waits for the mutex.\<close>

fun ub_next :: "'d lower_dev \<Rightarrow> u32 \<Rightarrow> bool \<Rightarrow> ub_pc \<Rightarrow> ub_state \<Rightarrow> (ub_pc \<times> ub_state) kres" where
  "ub_next ld lbs sg (Ub_start (Ev_request env rq)) s =
     (case rq_enter lbs env rq (us_dev s) of (k, dev) \<Rightarrow> Inr (k, s\<lparr>us_dev := dev\<rparr>))"
| "ub_next ld lbs sg (Ub_start (Ev_command env sqe)) s = Inr (cmd_enter env sqe (us_admin s), s)"
| "ub_next ld lbs sg (Ub_start (Ev_reset p n)) s =
     (case stats_reset_store p n (us_dev s) of (r, dev) \<Rightarrow> Inr (Ub_done (Ev_reset p n) (Reply_store r), s\<lparr>us_dev := dev\<rparr>))"
| "ub_next ld lbs sg (Rq_device env rq) s =
     kbind (device_dispatch ld env (be_capacity (u_backend (us_dev s))) (rq_sector rq * ucast lbs) rq
       (u_backend (us_dev s))) (\<lambda>r. Inr (Ub_done (Ev_request env rq) (Reply_rq r), s))"
| "ub_next ld lbs sg (Rq_segs env rq pos out []) s = Inr (rq_reply env rq STS_OK out, s)"
| "ub_next ld lbs sg (Rq_segs env rq pos out (buf # bufs)) s =
     kbind (rq_segment env rq pos out buf bufs (us_dev s)) (\<lambda>(k, dev). Inr (k, s\<lparr>us_dev := dev\<rparr>))"
| "ub_next ld lbs sg (Cmd_lock env sqe) s =
     (if sg then Inr (Ub_done (Ev_command (env\<lparr>ce_interrupted := True\<rparr>) sqe) (Reply_cmd (Immediate ERESTARTSYS)), s)
      else Inr (Cmd_run env sqe, s\<lparr>us_admin := True\<rparr>))"
| "ub_next ld lbs sg (Cmd_run env sqe) s =
     kbind (cmd_switch lbs env sqe (us_dev s)) (\<lambda>(r, dev).
       Inr (Cmd_unlock env sqe \<lparr>pdu_result = r\<rparr>, s\<lparr>us_dev := dev\<rparr>))"
| "ub_next ld lbs sg (Cmd_unlock env sqe pdu) s = Inr (Cmd_task env sqe pdu, s\<lparr>us_admin := False\<rparr>)"
| "ub_next ld lbs sg (Cmd_task env sqe pdu) s =
     Inr (Ub_done (Ev_command env sqe) (Reply_cmd (uringblk_uring_cmd_complete_async pdu)), s)"
| "ub_next ld lbs sg (Ub_done ev r) s = Inr (Ub_done ev r, s)"

text \<open>A call that wants the mutex waits until it is free or a signal arrives.\<close>

fun ub_ready :: "bool \<Rightarrow> ub_pc \<Rightarrow> ub_state \<Rightarrow> bool" where
  "ub_ready sg (Cmd_lock env sqe) s = (sg \<or> \<not> us_admin s)"
| "ub_ready sg k s = True"

fun ev_rank :: "uring_event \<Rightarrow> nat" where
  "ev_rank (Ev_request env rq) = length (rq_segs rq) + 2"
| "ev_rank (Ev_command env sqe) = 5"
| "ev_rank (Ev_reset p n) = 1"

fun ub_rank :: "ub_pc \<Rightarrow> nat" where
  "ub_rank (Ub_start ev) = ev_rank ev"
| "ub_rank (Rq_device env rq) = 1"
| "ub_rank (Rq_segs env rq pos out bufs) = length bufs + 1"
| "ub_rank (Cmd_lock env sqe) = 4"
| "ub_rank (Cmd_run env sqe) = 3"
| "ub_rank (Cmd_unlock env sqe pdu) = 2"
| "ub_rank (Cmd_task env sqe pdu) = 1"
| "ub_rank (Ub_done ev r) = 0"

text \<open>Signals arrive only if \<open>sig\<close>.\<close>

definition ub_step :: "bool \<Rightarrow> 'd lower_dev \<Rightarrow> u32 \<Rightarrow> ub_pc \<Rightarrow> ub_state \<Rightarrow> ub_pc \<Rightarrow> ub_state \<Rightarrow> bool" where
  "ub_step sig ld lbs k s k' s' \<longleftrightarrow> 0 < ub_rank k \<and>
     (\<exists>sg. (sg \<longrightarrow> sig) \<and> ub_ready sg k s \<and> ub_next ld lbs sg k s = Inr (k', s'))"

section \<open>Calls one after the other\<close>

fun ub_call :: "'d lower_dev \<Rightarrow> u32 \<Rightarrow> uring_event \<Rightarrow> uringblk_device \<Rightarrow> (ub_reply \<times> uringblk_device) kres" where
  "ub_call ld lbs (Ev_request env rq) dev =
     kbind (uringblk_queue_rq ld env lbs rq dev) (\<lambda>(r, dev'). Inr (Reply_rq r, dev'))"
| "ub_call ld lbs (Ev_command env sqe) dev =
     kbind (uringblk_uring_cmd lbs env sqe (Some dev)) (\<lambda>(r, devp).
     kbind (case devp of Some dev' \<Rightarrow> Inr dev' | None \<Rightarrow> Inl NullDeref) (\<lambda>dev'. Inr (Reply_cmd r, dev')))"
| "ub_call ld lbs (Ev_reset p n) dev = (case stats_reset_store p n dev of (r, dev') \<Rightarrow> Inr (Reply_store r, dev'))"

fun ub_calls ::
  "'d lower_dev \<Rightarrow> u32 \<Rightarrow> uring_event list \<Rightarrow> uringblk_device \<Rightarrow> (ub_reply list \<times> uringblk_device) kres" where
  "ub_calls ld lbs [] dev = Inr ([], dev)"
| "ub_calls ld lbs (ev # evs) dev =
     kbind (ub_call ld lbs ev dev) (\<lambda>(r, dev1).
     kbind (ub_calls ld lbs evs dev1) (\<lambda>(rs, dev2). Inr (r # rs, dev2)))"

lemma ub_calls_snoc:
  assumes "ub_calls ld lbs evs dev = Inr (rs, dev1)" and "ub_call ld lbs ev dev1 = Inr (r, dev2)"
  shows "ub_calls ld lbs (evs @ [ev]) dev = Inr (rs @ [r], dev2)"
  using assms
proof (induction evs arbitrary: dev rs)
  case (Cons e evs)
  then show ?case by (auto simp: kres_simps)
qed simp

text \<open>A sequence of calls is a history of the device machine.\<close>

lemma ub_call_step: "ub_call ld lbs ev dev = Inr (r, dev') \<Longrightarrow> uring_step ld lbs ev dev = dev'"
  by (cases ev) (auto simp: uring_step_def kres_simps split: prod.splits option.splits)

lemma ub_calls_fold: "ub_calls ld lbs evs dev = Inr (rs, dev') \<Longrightarrow> fold (uring_step ld lbs) evs dev = dev'"
  by (induction evs arbitrary: dev rs) (auto simp: kres_simps dest!: ub_call_step)

section \<open>A thread alone\<close>

primrec ub_run :: "nat \<Rightarrow> 'd lower_dev \<Rightarrow> u32 \<Rightarrow> ub_pc \<Rightarrow> ub_state \<Rightarrow> (ub_pc \<times> ub_state) kres" where
  "ub_run 0 ld lbs k s = Inr (k, s)"
| "ub_run (Suc n) ld lbs k s = kbind (ub_next ld lbs False k s) (\<lambda>(k', s'). ub_run n ld lbs k' s')"

text \<open>The call as a thread sees it that meets neither another holder of the mutex nor a signal.\<close>

fun ev_key :: "uring_event \<Rightarrow> uring_event" where
  "ev_key (Ev_command env sqe) = Ev_command (env\<lparr>ce_locked := False, ce_interrupted := False\<rparr>) sqe"
| "ev_key ev = ev"

lemma ub_run_done: "ub_run n ld lbs (Ub_done ev r) s = Inr (Ub_done ev r, s)"
  by (induction n) simp_all

lemma virtual_segment_capacity: "virtual_segment oper pos buf len b = Inr (st, buf', b') \<Longrightarrow> be_capacity b' = be_capacity b"
  by (cases oper; cases "be_memory b") (auto simp: virtual_segment_def virtual_backend_read_def
      virtual_backend_write_def virtual_backend_discard_def kres_simps split: if_splits)

lemma ub_run_segs:
  "ub_run (Suc (length bufs + n)) ld lbs (Rq_segs env rq pos out bufs) s =
     kbind (virtual_loop (rq_op rq) (be_capacity (u_backend (us_dev s))) pos bufs (u_backend (us_dev s))) (\<lambda>(st, bufs', b).
       Inr (rq_reply env rq st (out @ bufs'), s\<lparr>us_dev := (us_dev s)\<lparr>u_backend := b\<rparr>\<rparr>))"
proof (induction bufs arbitrary: pos out s)
  case (Cons buf bufs)
  let ?b = "u_backend (us_dev s)"
  let ?len = "clip_len (be_capacity ?b) pos (of_nat (length buf))"
  show ?case
  proof (cases "virtual_segment (rq_op rq) pos buf ?len ?b")
    case (Inr x)
    then obtain st buf' b' where v: "virtual_segment (rq_op rq) pos buf ?len ?b = Inr (st, buf', b')" by (cases x) blast
    note c = virtual_segment_capacity [OF v]
    show ?thesis
    proof (cases "st = STS_OK")
      case True
      with Cons.IH [of "pos + ?len" "out @ [buf']" "s\<lparr>us_dev := (us_dev s)\<lparr>u_backend := b'\<rparr>\<rparr>"] v c
      show ?thesis by (simp add: Let_def kbind_assoc split_def)
    next
      case False
      with v show ?thesis by (simp add: Let_def rq_reply_def ub_run_done)
    qed
  qed (simp add: Let_def)
qed (simp add: rq_reply_def ub_run_done)

lemma ub_run_device:
  "ub_run (Suc n) ld lbs (Rq_device env rq) s =
     kbind (device_dispatch ld env (be_capacity (u_backend (us_dev s))) (rq_sector rq * ucast lbs) rq (u_backend (us_dev s)))
       (\<lambda>r. Inr (Ub_done (Ev_request env rq) (Reply_rq r), s))"
  by (simp add: kbind_assoc ub_run_done)

lemma ub_run_rq:
  assumes "k = Ub_start (Ev_request env rq)"
  shows "ub_run (length (rq_segs rq) + 2) ld lbs k s =
    kbind (ub_call ld lbs (Ev_request env rq) (us_dev s)) (\<lambda>(r, dev). Inr (Ub_done (Ev_request env rq) r, s\<lparr>us_dev := dev\<rparr>))"
proof -
  have n: "length (rq_segs rq) + 2 = Suc (Suc (length (rq_segs rq) + 0))" by simp
  show ?thesis unfolding n
    by (subst ub_run.simps(2))
      (auto simp: assms rq_enter_def uringblk_queue_rq_def rq_reply_def ub_run_done ub_run_segs [where n = 0, simplified add_0_right]
        ub_run_device Let_def kbind_assoc split_def simp del: ub_run.simps(2))
qed

lemma ub_run_cmd:
  "ub_run 5 ld lbs (Ub_start (Ev_command env sqe)) \<lparr>us_dev = dev, us_admin = False\<rparr> =
    kbind (ub_call ld lbs (ev_key (Ev_command env sqe)) dev) (\<lambda>(r, dev').
      Inr (Ub_done (ev_key (Ev_command env sqe)) r, \<lparr>us_dev = dev', us_admin = False\<rparr>))"
  by (auto simp: eval_nat_numeral cmd_enter_def uringblk_uring_cmd_def Let_def ub_run_done kbind_assoc split_def)

text \<open>A call that runs without interruption is the sequential function.\<close>

lemma ub_run_call:
  "ub_run (ev_rank ev) ld lbs (Ub_start ev) \<lparr>us_dev = dev, us_admin = False\<rparr> =
    kbind (ub_call ld lbs (ev_key ev) dev) (\<lambda>(r, dev').
      Inr (Ub_done (ev_key ev) r, \<lparr>us_dev = dev', us_admin = False\<rparr>))"
proof (cases ev)
  case (Ev_request env rq)
  then show ?thesis using ub_run_rq [OF refl, of rq ld lbs env "\<lparr>us_dev = dev, us_admin = False\<rparr>"]
    by (simp add: split_def)
next
  case (Ev_command env sqe)
  then show ?thesis using ub_run_cmd [of ld lbs env sqe dev] by simp
qed (simp add: split_def)

end
