(* ===== verification/Uring_Linear.thy ===== *)
theory Uring_Linear
  imports Uring_Threads
begin

text \<open>
  What interleaved calls of the uringblk driver compute.  The order in which requests are counted
  and commands run their handlers is an order of whole calls: run one after the other they give the
  same replies and the same device.  The invariant compares the device with the one after the
  calls so far; the memory of the virtual backend may lag behind in what requests still have to store.
\<close>

section \<open>Requests that do not race\<close>

fun ub_ev :: "ub_pc \<Rightarrow> uring_event" where
  "ub_ev (Ub_start ev) = ev"
| "ub_ev (Rq_device env rq) = Ev_request env rq"
| "ub_ev (Rq_segs env rq pos out bufs) = Ev_request env rq"
| "ub_ev (Cmd_lock env sqe) = Ev_command env sqe"
| "ub_ev (Cmd_run env sqe) = Ev_command env sqe"
| "ub_ev (Cmd_unlock env sqe pdu) = Ev_command env sqe"
| "ub_ev (Cmd_task env sqe pdu) = Ev_command env sqe"
| "ub_ev (Ub_done ev r) = ev"

lemma ub_stepI:
  "0 < ub_rank k \<Longrightarrow> (sg \<Longrightarrow> sig) \<Longrightarrow> ub_ready sg k s \<Longrightarrow> ub_next ld lbs sg k s = Inr (k', s') \<Longrightarrow> ub_step sig ld lbs k s k' s'"
  unfolding ub_step_def by (intro conjI exI [of _ sg]) simp_all

fun ev_rq :: "uring_event \<Rightarrow> request option" where
  "ev_rq (Ev_request env rq) = Some rq"
| "ev_rq _ = None"

definition stores :: "request \<Rightarrow> bool" where
  "stores rq \<longleftrightarrow> rq_op rq = REQ_OP_WRITE \<or> rq_op rq = REQ_OP_DISCARD"

text \<open>Two requests race if their ranges meet and one of them stores.\<close>

definition no_race :: "u32 \<Rightarrow> request \<Rightarrow> request \<Rightarrow> bool" where
  "no_race lbs a b \<longleftrightarrow> \<not> stores a \<and> \<not> stores b \<or>
     rq_byte lbs a + length (concat (rq_segs a)) \<le> rq_byte lbs b \<or>
     rq_byte lbs b + length (concat (rq_segs b)) \<le> rq_byte lbs a"

definition race_free :: "u32 \<Rightarrow> uring_event list \<Rightarrow> bool" where
  "race_free lbs evs \<longleftrightarrow> (\<forall>t < length evs. \<forall>u < length evs. t \<noteq> u \<longrightarrow>
     (\<forall>a b. ev_rq (evs ! t) = Some a \<longrightarrow> ev_rq (evs ! u) = Some b \<longrightarrow> no_race lbs a b))"

definition ev_wf :: "u32 \<Rightarrow> uring_event \<Rightarrow> bool" where
  "ev_wf lbs ev \<longleftrightarrow> (case ev_rq ev of None \<Rightarrow> True | Some rq \<Rightarrow> rq_wf lbs rq)"

lemma ev_rq_key [simp]: "ev_rq (ev_key ev) = ev_rq ev"
  by (cases ev) simp_all

lemma ub_key_next: "ub_next ld lbs sg k s = Inr (k', s') \<Longrightarrow> ev_key (ub_ev k') = ev_key (ub_ev k)"
  by (induction ld lbs sg k s rule: ub_next.induct)
    (auto simp: kres_simps rq_enter_def cmd_enter_def rq_reply_def Let_def split: if_splits prod.splits)

lemma ub_rank_next: "ub_next ld lbs sg k s = Inr (k', s') \<Longrightarrow> 0 < ub_rank k \<Longrightarrow> ub_rank k' < ub_rank k"
  by (induction ld lbs sg k s rule: ub_next.induct)
    (auto simp: kres_simps rq_enter_def cmd_enter_def rq_reply_def Let_def split: if_splits prod.splits)

lemma race_free_keys:
  assumes "race_free lbs evs" and "map ev_key evs' = map ev_key evs"
  shows "race_free lbs evs'"
proof -
  have l: "length evs' = length evs" using assms(2) map_eq_imp_length_eq by blast
  then have "ev_rq (evs' ! t) = ev_rq (evs ! t)" if "t < length evs" for t
    using that assms(2) by (metis ev_rq_key nth_map)
  with l assms(1) show ?thesis by (auto simp: race_free_def)
qed

lemma map_key_update:
  "ub_next ld lbs sg (ks ! t) s = Inr (k', s') \<Longrightarrow> t < length ks \<Longrightarrow>
     map (ev_key \<circ> ub_ev) (ks[t := k']) = map (ev_key \<circ> ub_ev) ks"
  by (rule nth_equalityI) (auto simp: nth_list_update dest: ub_key_next)

section \<open>Device and memory\<close>

definition with_content :: "uringblk_device \<Rightarrow> byte list \<Rightarrow> uringblk_device" where
  "with_content dev d = dev\<lparr>u_backend := (u_backend dev)\<lparr>be_private_data := Memory d\<rparr>\<rparr>"

abbreviation dev_content :: "uringblk_device \<Rightarrow> byte list" where
  "dev_content dev \<equiv> vb_content (u_backend dev)"

lemma with_content_sel [simp]:
  "u_stats (with_content dev d) = u_stats dev" "u_features (with_content dev d) = u_features dev"
  "u_latency_buckets (with_content dev d) = u_latency_buckets dev" "u_config (with_content dev d) = u_config dev"
  "u_model (with_content dev d) = u_model dev" "u_firmware (with_content dev d) = u_firmware dev"
  "be_capacity (u_backend (with_content dev d)) = be_capacity (u_backend dev)"
  "be_type (u_backend (with_content dev d)) = be_type (u_backend dev)"
  by (simp_all add: with_content_def)

lemma with_content_upd [simp]:
  "(with_content dev d)\<lparr>u_stats := st\<rparr> = with_content (dev\<lparr>u_stats := st\<rparr>) d"
  "(with_content dev d)\<lparr>u_features := f\<rparr> = with_content (dev\<lparr>u_features := f\<rparr>) d"
  by (simp_all add: with_content_def)

lemma with_own_content: "vb_ok (u_backend dev) \<Longrightarrow> with_content dev (dev_content dev) = dev"
  by (auto simp: with_content_def vb_ok_def vb_content_def be_memory_def split: be_private.splits)

lemma with_content_backend:
  assumes "vb_ok (u_backend dev)" and "length d = length (dev_content dev)"
  shows "vb_ok (u_backend (with_content dev d))" and "dev_content (with_content dev d) = d"
  using vb_ok_update [OF assms] by (simp_all add: with_content_def)

text \<open>Commands and resets do not look at the memory.\<close>

lemma cmd_switch_content:
  "cmd_switch lbs env sqe (with_content dev d) =
     kbind (cmd_switch lbs env sqe dev) (\<lambda>(r, dev'). Inr (r, with_content dev' d))"
  by (auto simp: cmd_switch_def Let_def kbind_assoc uringblk_cmd_identify_def uringblk_cmd_get_limits_def
      uringblk_cmd_get_features_def uringblk_cmd_get_geometry_def uringblk_cmd_get_stats_def
      uringblk_cmd_set_features_def enc_identify_def enc_limits_def enc_geometry_def kguard_def split: option.split)

lemma cmd_switch_runs:
  assumes "lbs \<noteq> 0"
  shows "\<exists>r dev'. cmd_switch lbs env sqe dev = Inr (r, dev') \<and> u_backend dev' = u_backend dev"
  using assms by (auto simp: cmd_switch_def Let_def uringblk_cmd_identify_def uringblk_cmd_get_geometry_def
      uringblk_cmd_set_features_def split: option.split)

lemma reset_content:
  assumes "stats_reset_store p n dev = (r, dev')"
  shows "stats_reset_store p n (with_content dev d) = (r, with_content dev' d)" and "u_backend dev' = u_backend dev"
  using assms by (auto simp: stats_reset_store_def split: option.splits if_splits)

section \<open>Invariant\<close>

definition cmd_pre :: "cmd_env \<Rightarrow> uring_sqe \<Rightarrow> bool" where
  "cmd_pre env sqe \<longleftrightarrow> \<not> sqe_cancel sqe \<and> \<not> sqe_len sqe > 4096 \<and> \<not> (sqe_nonblock sqe \<and> ce_locked env) \<and>
     \<not> ce_interrupted env"

text \<open>What holds of a single thread on a device of \<open>cap\<close> bytes.\<close>

fun pc_ok :: "u32 \<Rightarrow> nat \<Rightarrow> ub_pc \<Rightarrow> bool" where
  "pc_ok lbs cap (Ub_start ev) = ev_wf lbs ev"
| "pc_ok lbs cap (Rq_device env rq) = False"
| "pc_ok lbs cap (Rq_segs env rq pos out bufs) = (data_op (rq_op rq) \<and> rq_byte lbs rq \<le> unat pos \<and>
     unat pos + length (concat bufs) = rq_byte lbs rq + length (concat (rq_segs rq)) \<and>
     unat pos + length (concat bufs) \<le> cap)"
| "pc_ok lbs cap (Cmd_lock env sqe) = cmd_pre env sqe"
| "pc_ok lbs cap (Cmd_run env sqe) = cmd_pre env sqe"
| "pc_ok lbs cap k = True"

text \<open>The bytes a request has still to store, and that the device after the calls has them already.\<close>

fun owed :: "ub_pc \<Rightarrow> nat \<Rightarrow> bool" where
  "owed (Rq_segs env rq pos out bufs) i = (stores rq \<and> unat pos \<le> i \<and> i < unat pos + length (concat bufs))"
| "owed k i = False"

fun promised :: "byte list \<Rightarrow> ub_pc \<Rightarrow> bool" where
  "promised d (Rq_segs env rq pos out bufs) =
     (stores rq \<longrightarrow> slice d (unat pos) (length (concat bufs)) = concat (map (seg_data (rq_op rq)) bufs))"
| "promised d k = True"

text \<open>The reply that a call which has taken its place in the order will give.\<close>

fun due :: "byte list \<Rightarrow> ub_pc \<Rightarrow> ub_reply option" where
  "due d (Rq_segs env rq pos out bufs) = Some (Reply_rq \<lparr>ended = [STS_OK],
     segs_out = out @ fst (flat_request (rq_op rq) (unat pos) bufs d), in_flight = None\<rparr>)"
| "due d (Cmd_unlock env sqe pdu) = Some (Reply_cmd (uringblk_uring_cmd_complete_async pdu))"
| "due d (Cmd_task env sqe pdu) = Some (Reply_cmd (uringblk_uring_cmd_complete_async pdu))"
| "due d (Ub_done ev r) = Some r"
| "due d k = None"

definition placed :: "ub_pc \<Rightarrow> bool" where
  "placed k \<longleftrightarrow> due [] k \<noteq> None"

lemma due_placed: "due d k = None \<longleftrightarrow> \<not> placed k"
  by (cases k) (simp_all add: placed_def)

text \<open>\<open>ts\<close> is the order of the calls, \<open>sd\<close> the device after them, \<open>d\<close> the memory as it is.\<close>

definition in_order ::
  "'d lower_dev \<Rightarrow> u32 \<Rightarrow> uringblk_device \<Rightarrow> ub_pc list \<Rightarrow> nat list \<Rightarrow> uringblk_device \<Rightarrow> bool" where
  "in_order ld lbs d0 ks ts sd \<longleftrightarrow> distinct ts \<and> set ts = {t. t < length ks \<and> placed (ks ! t)} \<and>
     ub_calls ld lbs (map (\<lambda>t. ub_ev (ks ! t)) ts) d0 = Inr (map (\<lambda>t. the (due (dev_content sd) (ks ! t))) ts, sd)"

definition lags :: "u32 \<Rightarrow> byte list \<Rightarrow> ub_pc list \<Rightarrow> byte list \<Rightarrow> bool" where
  "lags lbs c ks d \<longleftrightarrow> length d = length c \<and> (\<forall>k \<in> set ks. pc_ok lbs (length c) k \<and> promised c k) \<and>
     (\<forall>i < length c. (\<exists>k \<in> set ks. owed k i) \<or> d ! i = c ! i)"

lemma lags_pc: "lags lbs c ks d \<Longrightarrow> u < length ks \<Longrightarrow> pc_ok lbs (length c) (ks ! u) \<and> promised c (ks ! u)"
  by (simp add: lags_def)

text \<open>A step of a thread that has its place, or has not reached it, changes nothing of the order.\<close>

lemma in_order_keep:
  assumes "in_order ld lbs d0 ks ts sd" and "due (dev_content sd) k = due (dev_content sd) (ks ! t)"
    and "placed k \<Longrightarrow> ub_ev k = ub_ev (ks ! t)" and "t < length ks"
  shows "in_order ld lbs d0 (ks[t := k]) ts sd"
proof -
  have "placed k = placed (ks ! t)" using assms(2) by (metis due_placed)
  then have p: "set ts = {u. u < length (ks[t := k]) \<and> placed (ks[t := k] ! u)}"
    using assms(1,4) by (auto simp: in_order_def nth_list_update)
  have "ub_ev (ks[t := k] ! u) = ub_ev (ks ! u)" "due (dev_content sd) (ks[t := k] ! u) = due (dev_content sd) (ks ! u)"
    if "u \<in> set ts" for u
  proof -
    have "u = t \<Longrightarrow> placed k" using that p assms(4) by simp
    then show "ub_ev (ks[t := k] ! u) = ub_ev (ks ! u)" using assms(3,4) by (cases "u = t") simp_all
    show "due (dev_content sd) (ks[t := k] ! u) = due (dev_content sd) (ks ! u)"
      using assms(2,4) by (cases "u = t") simp_all
  qed
  then have "map (\<lambda>u. ub_ev (ks[t := k] ! u)) ts = map (\<lambda>u. ub_ev (ks ! u)) ts"
    "map (\<lambda>u. the (due (dev_content sd) (ks[t := k] ! u))) ts = map (\<lambda>u. the (due (dev_content sd) (ks ! u))) ts" by simp_all
  with assms(1) p show ?thesis by (simp only: in_order_def)
qed

text \<open>A step that gives a call its place, at the end of the order.\<close>

lemma in_order_place:
  assumes o: "in_order ld lbs d0 ks ts sd" and t: "t < length ks" "\<not> placed (ks ! t)"
    and c: "ub_call ld lbs (ub_ev k) sd = Inr (r, sd')" and r: "due (dev_content sd') k = Some r"
    and others: "\<And>u. u < length ks \<Longrightarrow> u \<noteq> t \<Longrightarrow> due (dev_content sd') (ks ! u) = due (dev_content sd) (ks ! u)"
  shows "in_order ld lbs d0 (ks[t := k]) (ts @ [t]) sd'"
proof -
  have ts: "distinct ts" "set ts = {t. t < length ks \<and> placed (ks ! t)}"
    and calls: "ub_calls ld lbs (map (\<lambda>t. ub_ev (ks ! t)) ts) d0 = Inr (map (\<lambda>t. the (due (dev_content sd) (ks ! t))) ts, sd)"
    using o by (simp_all add: in_order_def)
  have pk: "placed k" using r by (metis due_placed option.discI)
  have u: "u < length ks" "t \<noteq> u" if "u \<in> set ts" for u using that ts(2) t(2) by auto
  have "map (\<lambda>u. ub_ev (ks[t := k] ! u)) ts = map (\<lambda>u. ub_ev (ks ! u)) ts"
    "map (\<lambda>u. the (due (dev_content sd') (ks[t := k] ! u))) ts = map (\<lambda>u. the (due (dev_content sd) (ks ! u))) ts"
    using u others [OF u(1) u(2) [symmetric]] by (simp_all cong: map_cong)
  then have "map (\<lambda>u. ub_ev (ks[t := k] ! u)) (ts @ [t]) = map (\<lambda>u. ub_ev (ks ! u)) ts @ [ub_ev k]"
    "map (\<lambda>u. the (due (dev_content sd') (ks[t := k] ! u))) (ts @ [t]) =
      map (\<lambda>u. the (due (dev_content sd) (ks ! u))) ts @ [r]" using t(1) r by simp_all
  with ub_calls_snoc [OF calls c]
  have "ub_calls ld lbs (map (\<lambda>u. ub_ev (ks[t := k] ! u)) (ts @ [t])) d0 =
      Inr (map (\<lambda>u. the (due (dev_content sd') (ks[t := k] ! u))) (ts @ [t]), sd')" by metis
  moreover have "distinct (ts @ [t])" using ts t by auto
  moreover have "set (ts @ [t]) = {u. u < length (ks[t := k]) \<and> placed (ks[t := k] ! u)}"
    using ts(2) t pk by (auto simp: nth_list_update)
  ultimately show ?thesis by (simp only: in_order_def)
qed

text \<open>How the memory follows.\<close>

lemma lags_step:
  assumes l: "lags lbs c ks d" and t: "t < length ks" and len: "length c' = length c" "length d' = length d"
    and k: "pc_ok lbs (length c) k" "promised c' k"
    and others: "\<And>u. u < length ks \<Longrightarrow> u \<noteq> t \<Longrightarrow> promised c (ks ! u) \<Longrightarrow> promised c' (ks ! u)"
    and agree: "\<And>i. i < length c \<Longrightarrow> owed (ks ! t) i \<or> d ! i = c ! i \<Longrightarrow> owed k i \<or> d' ! i = c' ! i"
  shows "lags lbs c' (ks[t := k]) d'"
proof -
  have 1: "pc_ok lbs (length c') j \<and> promised c' j" if "j \<in> set (ks[t := k])" for j
  proof -
    from that obtain u where u: "u < length ks" "j = ks[t := k] ! u" by (auto simp: in_set_conv_nth)
    with k t l others [OF u(1)] len(1) show ?thesis by (cases "u = t") (auto simp: lags_def)
  qed
  have 2: "(\<exists>j \<in> set (ks[t := k]). owed j i) \<or> d' ! i = c' ! i" if i: "i < length c'" for i
  proof -
    have "(\<exists>k \<in> set ks. owed k i) \<or> d ! i = c ! i" using l i len(1) by (simp add: lags_def)
    then consider (other) u where "u < length ks" "u \<noteq> t" "owed (ks ! u) i" | (own) "owed (ks ! t) i \<or> d ! i = c ! i"
      by (metis in_set_conv_nth)
    then show ?thesis
    proof cases
      case other
      then have "u < length (ks[t := k])" "ks[t := k] ! u = ks ! u" by simp_all
      with other nth_mem show ?thesis by metis
    next
      case own
      with agree [of i] i len(1) set_update_memI [OF t, of k] show ?thesis by auto
    qed
  qed
  from 1 2 l len show ?thesis by (simp add: lags_def)
qed

section \<open>Requests\<close>

text \<open>What another request may do to the bytes of a request that does not race with it.\<close>

lemma apart_due:
  assumes "pc_ok lbs (length c) k" and "ev_rq (ub_ev k) = Some rq'" and "no_race lbs rq rq'" and "stores rq"
    and "length c' = length c"
    and "\<And>i. i < rq_byte lbs rq \<or> rq_byte lbs rq + length (concat (rq_segs rq)) \<le> i \<Longrightarrow> i < length c \<Longrightarrow> c' ! i = c ! i"
  shows "due c' k = due c k" and "promised c k \<Longrightarrow> promised c' k"
proof -
  have *: "due c' k = due c k \<and> (promised c k \<longrightarrow> promised c' k)"
  proof (cases k)
    case (Rq_segs env r pos out bufs)
    let ?n = "length (concat bufs)"
    have r: "unat pos + ?n \<le> length c" "rq_byte lbs r \<le> unat pos"
      "unat pos + ?n = rq_byte lbs r + length (concat (rq_segs r))" "rq' = r" "data_op (rq_op r)"
      using Rq_segs assms(1,2) by simp_all
    have "slice c' (unat pos) ?n = slice c (unat pos) ?n"
    proof (rule nth_equalityI)
      show "length (slice c' (unat pos) ?n) = length (slice c (unat pos) ?n)" using r assms(5) by simp
      fix i assume "i < length (slice c' (unat pos) ?n)"
      then have i: "i < ?n" using r assms(5) by simp
      have "unat pos + i < rq_byte lbs rq \<or> rq_byte lbs rq + length (concat (rq_segs rq)) \<le> unat pos + i"
        using assms(3,4) r i by (auto simp: no_race_def)
      from assms(6) [OF this] i r show "slice c' (unat pos) ?n ! i = slice c (unat pos) ?n ! i"
        by (simp add: nth_slice assms(5))
    qed
    moreover have "fst (flat_request (rq_op r) (unat pos) bufs c') = fst (flat_request (rq_op r) (unat pos) bufs c)"
      using calculation by (cases "rq_op r") simp_all
    ultimately show ?thesis using Rq_segs by simp
  qed simp_all
  from * show "due c' k = due c k" by simp
  from * show "promised c k \<Longrightarrow> promised c' k" by simp
qed

lemma not_request_due:
  assumes "ev_rq (ub_ev k) = None"
  shows "due c' k = due c k" and "promised c' k"
  using assms by (cases k; simp)+

lemma flat_request_apart:
  assumes "pos + length (concat segs) \<le> length c" and "i < pos \<or> pos + length (concat segs) \<le> i" and "i < length c"
  shows "snd (flat_request oper pos segs c) ! i = c ! i"
  using assms by (cases oper) (auto simp: nth_splice)

definition ordered :: "'d lower_dev \<Rightarrow> u32 \<Rightarrow> uringblk_device \<Rightarrow> ub_state \<Rightarrow> ub_pc list \<Rightarrow> bool" where
  "ordered ld lbs d0 s ks \<longleftrightarrow> (\<exists>ts sd d. us_dev s = with_content sd d \<and> vb_ok (u_backend sd) \<and>
     in_order ld lbs d0 ks ts sd \<and> lags lbs (dev_content sd) ks d)"

lemma orderedI:
  "us_dev s = with_content sd d \<Longrightarrow> vb_ok (u_backend sd) \<Longrightarrow> in_order ld lbs d0 ks ts sd \<Longrightarrow>
     lags lbs (dev_content sd) ks d \<Longrightarrow> ordered ld lbs d0 s ks"
  unfolding ordered_def by blast

lemma vb_own: "vb_ok b \<Longrightarrow> b\<lparr>be_private_data := Memory (vb_content b)\<rparr> = b"
  by (cases b) (auto simp: vb_ok_def vb_content_def be_memory_def split: be_private.splits)

lemma vb_same:
  "vb_ok b \<Longrightarrow> vb_ok b' \<Longrightarrow> be_capacity b' = be_capacity b \<Longrightarrow> b'\<lparr>be_private_data := Memory d\<rparr> = b\<lparr>be_private_data := Memory d\<rparr>"
  by (simp add: vb_ok_def)

lemma flat_request_loads: "\<not> stores rq \<Longrightarrow> snd (flat_request (rq_op rq) pos segs d) = d"
  by (cases "rq_op rq") (simp_all add: stores_def)

lemma flat_request_stores:
  assumes "stores rq" and "pos + length (concat segs) \<le> length d"
  shows "fst (flat_request (rq_op rq) pos segs c) = segs"
    and "slice (snd (flat_request (rq_op rq) pos segs d)) pos (length (concat segs)) = concat (map (seg_data (rq_op rq)) segs)"
  using assms slice_splice_same [of pos "concat (map (seg_data (rq_op rq)) segs)" d]
  by (auto simp: stores_def concat_seg_data)

lemma others_keep:
  assumes rf: "race_free lbs (map ub_ev ks)" and t: "t < length ks" "ev_rq (ub_ev (ks ! t)) = Some rq"
    and u: "u < length ks" "u \<noteq> t" "pc_ok lbs (length c) (ks ! u)"
    and fit: "rq_byte lbs rq + length (concat (rq_segs rq)) \<le> length c"
    and c': "c' = snd (flat_request (rq_op rq) (rq_byte lbs rq) (rq_segs rq) c)"
  shows "due c' (ks ! u) = due c (ks ! u)" and "promised c (ks ! u) \<Longrightarrow> promised c' (ks ! u)"
proof -
  have "due c' (ks ! u) = due c (ks ! u) \<and> (promised c (ks ! u) \<longrightarrow> promised c' (ks ! u))"
  proof (cases "stores rq \<and> ev_rq (ub_ev (ks ! u)) \<noteq> None")
    case True
    then obtain rq' where r: "ev_rq (ub_ev (ks ! u)) = Some rq'" by blast
    with rf t u have "no_race lbs rq rq'" by (simp add: race_free_def)
    with apart_due [OF u(3) r _ _ _ flat_request_apart [OF fit]] True length_flat_request [OF fit] c' show ?thesis by blast
  next
    case False
    with not_request_due flat_request_loads c' show ?thesis by metis
  qed
  then show "due c' (ks ! u) = due c (ks ! u)" "promised c (ks ! u) \<Longrightarrow> promised c' (ks ! u)" by simp_all
qed

lemma rq_enter_cases:
  assumes "vb_ok (u_backend sd)" and "rq_wf lbs rq"
  obtains (over) r where "rq_enter lbs env rq (with_content sd d) = (Ub_done (Ev_request env rq) (Reply_rq r), with_content sd d)"
      and "uringblk_queue_rq ld env lbs rq sd = Inr (r, sd)"
  | (segs) "rq_enter lbs env rq (with_content sd d) = (Rq_segs env rq (rq_sector rq * ucast lbs) [] (rq_segs rq),
        with_content (sd\<lparr>u_stats := count_rq rq (u_stats sd)\<rparr>) d)" and "rq_in_range lbs rq sd" and "data_op (rq_op rq)"
proof -
  have v: "be_type (u_backend sd) \<noteq> BACKEND_DEVICE" using assms(1) by (simp add: vb_ok_def)
  note r = queue_rq_range [OF vb_capacity [OF assms(1)] assms(2)]
  show ?thesis
  proof (cases "rq_in_range lbs rq sd \<and> data_op (rq_op rq)")
    case True
    with r v show ?thesis by (intro segs) (auto simp: rq_enter_def rq_rejected_def Let_def data_op_iff)
  next
    case False
    with r show ?thesis
      by (intro over [of "\<lparr>ended = [if rq_rejected lbs rq sd then STS_IOERR else if rq_op rq = REQ_OP_OTHER then STS_NOTSUPP
          else STS_OK], segs_out = rq_segs rq, in_flight = None\<rparr>"])
        (auto simp: rq_enter_def uringblk_queue_rq_def rq_reply_def rq_rejected_def Let_def data_op_iff
          uringblk_handle_uring_cmd_request_def)
  qed
qed

text \<open>A request that is counted takes its place; from then on it owes its stores.\<close>

lemma request_owes:
  assumes lag: "lags lbs c ks d" and t: "t < length ks" and k: "ks ! t = Ub_start (Ev_request env rq)"
    and wf: "rq_wf lbs rq" and op: "data_op (rq_op rq)" and fit: "rq_byte lbs rq + length (concat (rq_segs rq)) \<le> length c"
    and c': "c' = snd (flat_request (rq_op rq) (rq_byte lbs rq) (rq_segs rq) c)"
    and others: "\<And>u. u < length ks \<Longrightarrow> u \<noteq> t \<Longrightarrow> promised c (ks ! u) \<Longrightarrow> promised c' (ks ! u)"
  shows "lags lbs c' (ks[t := Rq_segs env rq (rq_sector rq * ucast lbs) [] (rq_segs rq)]) d" (is "lags _ _ (ks[t := ?k]) _")
proof (rule lags_step [OF lag t _ refl])
  show "length c' = length c" using c' length_flat_request [OF fit] by simp
  show "pc_ok lbs (length c) ?k" using op fit rq_pos [OF wf] by simp
  show "promised c' ?k" using flat_request_stores(2) [OF _ fit] c' rq_pos [OF wf] by simp
  show "owed ?k i \<or> d ! i = c' ! i" if "i < length c" "owed (ks ! t) i \<or> d ! i = c ! i" for i
  proof (cases "owed ?k i")
    case False
    then have "\<not> stores rq \<or> i < rq_byte lbs rq \<or> rq_byte lbs rq + length (concat (rq_segs rq)) \<le> i"
      using rq_pos [OF wf] by auto
    then have "c' ! i = c ! i" using flat_request_loads flat_request_apart [OF fit _ that(1)] c' by metis
    with that k show ?thesis by simp
  qed simp
qed (use others in blast)

lemma ordered_request:
  assumes o: "ordered ld lbs d0 s ks" and rf: "race_free lbs (map ub_ev ks)" and t: "t < length ks"
    and k: "ks ! t = Ub_start (Ev_request env rq)"
  shows "\<exists>k' s'. ub_next ld lbs sg (ks ! t) s = Inr (k', s') \<and> ordered ld lbs d0 s' (ks[t := k'])"
proof -
  from o obtain ts sd d where dev: "us_dev s = with_content sd d" and vb: "vb_ok (u_backend sd)"
    and ord: "in_order ld lbs d0 ks ts sd" and lag: "lags lbs (dev_content sd) ks d" by (auto simp: ordered_def)
  let ?c = "dev_content sd"
  have wf: "rq_wf lbs rq" using lags_pc [OF lag t] k by (simp add: ev_wf_def)
  have np: "\<not> placed (ks ! t)" using k by (simp add: placed_def)
  from vb wf show ?thesis
  proof (cases rule: rq_enter_cases [where env = env and d = d and ld = ld])
    case (over r)
    let ?k = "Ub_done (Ev_request env rq) (Reply_rq r)"
    have "in_order ld lbs d0 (ks[t := ?k]) (ts @ [t]) sd"
      using over(2) by (intro in_order_place [OF ord t np]) simp_all
    moreover have "lags lbs ?c (ks[t := ?k]) d" using k by (intro lags_step [OF lag t]) auto
    moreover have "ub_next ld lbs sg (ks ! t) s = Inr (?k, s\<lparr>us_dev := with_content sd d\<rparr>)" using over(1) dev k by simp
    ultimately show ?thesis using orderedI [of "s\<lparr>us_dev := with_content sd d\<rparr>" sd d] vb by fastforce
  next
    case segs
    let ?k = "Rq_segs env rq (rq_sector rq * ucast lbs) [] (rq_segs rq)"
      and ?flat = "flat_request (rq_op rq) (rq_byte lbs rq) (rq_segs rq)"
    from queue_rq_virtual [OF vb wf segs(2,3), of ld env] obtain b' where
      q: "uringblk_queue_rq ld env lbs rq sd = Inr (\<lparr>ended = [STS_OK], segs_out = fst (?flat ?c), in_flight = None\<rparr>,
           sd\<lparr>u_stats := count_rq rq (u_stats sd), u_backend := b'\<rparr>)"
      and b': "vb_ok b'" "be_capacity b' = be_capacity (u_backend sd)" "vb_content b' = snd (?flat ?c)" by blast
    let ?sd = "sd\<lparr>u_stats := count_rq rq (u_stats sd), u_backend := b'\<rparr>" and ?c' = "vb_content b'"
    have fit: "rq_byte lbs rq + length (concat (rq_segs rq)) \<le> length ?c"
      using segs(2) vb by (simp add: rq_in_range_def vb_ok_def)
    have tr: "ev_rq (ub_ev (ks ! t)) = Some rq" using k by simp
    have pc: "pc_ok lbs (length ?c) (ks ! u)" if "u < length ks" for u using lags_pc [OF lag that] by simp
    note others = others_keep [OF rf t tr _ _ pc fit b'(3)]
    have "fst (?flat ?c') = fst (?flat ?c)" using flat_request_loads flat_request_stores(1) [OF _ fit] b'(3) by metis
    then have "in_order ld lbs d0 (ks[t := ?k]) (ts @ [t]) ?sd"
      using q rq_pos [OF wf] others(1) by (intro in_order_place [OF ord t np]) simp_all
    moreover have "lags lbs ?c' (ks[t := ?k]) d" using others(2) by (intro request_owes [OF lag t k wf segs(3) fit b'(3)]) blast
    moreover have "with_content (sd\<lparr>u_stats := count_rq rq (u_stats sd)\<rparr>) d = with_content ?sd d"
      using vb_same [OF vb b'(1,2)] by (simp add: with_content_def)
    moreover have "ub_next ld lbs sg (ks ! t) s = Inr (?k, s\<lparr>us_dev := with_content ?sd d\<rparr>)"
      using segs(1) dev k calculation(3) by simp
    ultimately show ?thesis using orderedI [of "s\<lparr>us_dev := with_content ?sd d\<rparr>" ?sd d] b'(1) by fastforce
  qed
qed

text \<open>One segment of a request.  A read finds the bytes of the calls before it, because nobody owes
  any of them.\<close>

lemma read_settled:
  assumes lag: "lags lbs c ks d" and rf: "race_free lbs (map ub_ev ks)" and t: "t < length ks"
    and k: "ks ! t = Rq_segs env rq pos out bufs" and "\<not> stores rq"
    and i: "unat pos \<le> i" "i < unat pos + length (concat bufs)"
  shows "d ! i = c ! i"
proof (rule ccontr)
  assume "d ! i \<noteq> c ! i"
  have r: "rq_byte lbs rq \<le> unat pos" "unat pos + length (concat bufs) = rq_byte lbs rq + length (concat (rq_segs rq))"
    "unat pos + length (concat bufs) \<le> length c"
    using lags_pc [OF lag t] k by simp_all
  have "i < length c" using i r by simp
  with \<open>d ! i \<noteq> c ! i\<close> lag have "\<exists>k \<in> set ks. owed k i" unfolding lags_def by blast
  then obtain u where u: "u < length ks" "owed (ks ! u) i" by (metis in_set_conv_nth)
  then obtain env' rq' pos' out' bufs' where k': "ks ! u = Rq_segs env' rq' pos' out' bufs'" "stores rq'"
    "unat pos' \<le> i" "i < unat pos' + length (concat bufs')" by (cases "ks ! u") auto
  with lags_pc [OF lag u(1)] have r': "rq_byte lbs rq' \<le> i" "i < rq_byte lbs rq' + length (concat (rq_segs rq'))" by simp_all
  have "u \<noteq> t" using k k'(1,2) assms(5) by auto
  with rf t u(1) k k'(1) have "no_race lbs rq rq'" by (simp add: race_free_def)
  with k'(2) r' r i show False by (auto simp: no_race_def)
qed

lemma segment_ordered:
  assumes dev: "us_dev s = with_content sd d" and vb: "vb_ok (u_backend sd)"
    and ord: "in_order ld lbs d0 ks ts sd" and lag: "lags lbs (dev_content sd) ks d" and t: "t < length ks"
    and k: "ks ! t = Rq_segs env rq pos out (buf # bufs)"
  defines "k' \<equiv> \<lambda>buf'. Rq_segs env rq (pos + of_nat (length buf)) (out @ [buf']) bufs"
  assumes v: "virtual_segment (rq_op rq) pos buf (of_nat (length buf)) (u_backend (with_content sd d)) = Inr (STS_OK, buf', b')"
      "vb_ok b'" "be_capacity b' = be_capacity (u_backend (with_content sd d))"
    and due: "due (dev_content sd) (k' buf') = due (dev_content sd) (ks ! t)"
    and d': "vb_content b' = d'" "length d' = length d"
    and ag: "\<And>i. i < length (dev_content sd) \<Longrightarrow> owed (ks ! t) i \<or> d ! i = dev_content sd ! i \<Longrightarrow>
      owed (k' buf') i \<or> d' ! i = dev_content sd ! i"
    and p: "promised (dev_content sd) (k' buf')"
  shows "\<exists>k' s'. ub_next ld lbs sg (ks ! t) s = Inr (k', s') \<and> ordered ld lbs d0 s' (ks[t := k'])"
proof -
  let ?c = "dev_content sd" and ?n = "length buf" and ?b = "u_backend (with_content sd d)"
  have pc: "pc_ok lbs (length ?c) (ks ! t)" using lags_pc [OF lag t] by simp
  have ld: "length d = length ?c" using lag by (simp add: lags_def)
  have "unat (be_capacity ?b) < 2 ^ 63" "unat pos + ?n \<le> unat (be_capacity ?b)"
    using pc k vb ld by (simp_all add: vb_ok_def)
  note c = clip_in [OF this]
  have "in_order ld lbs d0 (ks[t := k' buf']) ts sd" using k by (intro in_order_keep [OF ord due _ t]) (simp add: k'_def)
  moreover have "lags lbs ?c (ks[t := k' buf']) d'"
    using pc k c(3) by (intro lags_step [OF lag t refl d'(2) _ p _ ag]) (simp_all add: k'_def)
  moreover have "(with_content sd d)\<lparr>u_backend := b'\<rparr> = with_content sd d'"
    using vb_same [OF vb v(2), of d'] vb_own [OF v(2)] v(3) d'(1) by (simp add: with_content_def)
  with v(1) c(1) k dev have "ub_next ld lbs sg (ks ! t) s = Inr (k' buf', s\<lparr>us_dev := with_content sd d'\<rparr>)"
    by (simp add: Let_def k'_def)
  ultimately show ?thesis using orderedI [of "s\<lparr>us_dev := with_content sd d'\<rparr>" sd d'] vb by fastforce
qed

text \<open>A store puts the bytes that were promised.\<close>

lemma store_keeps_promise:
  assumes "slice c p (length buf + length (concat bufs)) = seg_data oper buf @ concat (map (seg_data oper) bufs)"
    and le: "p + (length buf + length (concat bufs)) \<le> length c" and ld: "length d = length c"
  shows "slice c (p + length buf) (length (concat bufs)) = concat (map (seg_data oper) bufs)" (is ?rest)
    and "p \<le> i \<Longrightarrow> i < p + length buf \<Longrightarrow> splice d p (seg_data oper buf) ! i = c ! i"
proof -
  have e: "slice c p (length buf) @ slice c (p + length buf) (length (concat bufs)) =
      seg_data oper buf @ concat (map (seg_data oper) bufs)"
    using assms(1) slice_append [of p "length buf" "length (concat bufs)" c] le by simp
  then have "slice c p (length buf) = seg_data oper buf \<and> ?rest" using le by (simp add: append_eq_append_conv)
  then show ?rest by blast
  show "splice d p (seg_data oper buf) ! i = c ! i" if i: "p \<le> i" "i < p + length buf"
  proof -
    have "i - p < length buf" using i by linarith
    with \<open>slice c p (length buf) = seg_data oper buf \<and> ?rest\<close> nth_slice [of p "length buf" c "i - p"] le i
    have "seg_data oper buf ! (i - p) = c ! i" by simp
    with i le ld show ?thesis by (simp add: nth_splice)
  qed
qed

lemma ordered_segment:
  assumes o: "ordered ld lbs d0 s ks" and rf: "race_free lbs (map ub_ev ks)" and t: "t < length ks"
    and k: "ks ! t = Rq_segs env rq pos out (buf # bufs)"
  shows "\<exists>k' s'. ub_next ld lbs sg (ks ! t) s = Inr (k', s') \<and> ordered ld lbs d0 s' (ks[t := k'])"
proof -
  from o obtain ts sd d where dev: "us_dev s = with_content sd d" and vb: "vb_ok (u_backend sd)"
    and ord: "in_order ld lbs d0 ks ts sd" and lag: "lags lbs (dev_content sd) ks d" by (auto simp: ordered_def)
  let ?c = "dev_content sd" and ?b = "u_backend (with_content sd d)" and ?n = "length buf"
  have ld: "length d = length ?c" using lag by (simp add: lags_def)
  note b = with_content_backend [OF vb ld] and seg = segment_ordered [OF dev vb ord lag t k]
  have op: "data_op (rq_op rq)" and le: "unat pos + (?n + length (concat bufs)) \<le> length ?c"
    and pr: "promised ?c (ks ! t)" using lags_pc [OF lag t] k by simp_all
  have cap: "unat (be_capacity ?b) < 2 ^ 63" "unat pos + ?n \<le> unat (be_capacity ?b)" "unat pos + ?n \<le> length d"
    using le vb ld by (simp_all add: vb_ok_def)
  note c = clip_in [OF cap(1,2)]
  consider "rq_op rq = REQ_OP_READ" | "rq_op rq = REQ_OP_FLUSH" | "stores rq" using op by (auto simp: data_op_def stores_def)
  then show ?thesis
  proof cases
    case 1
    have "slice d (unat pos) ?n = slice ?c (unat pos) ?n"
      using read_settled [OF lag rf t k] 1 le ld by (intro nth_equalityI) (auto simp: nth_slice stores_def)
    then have "virtual_segment (rq_op rq) pos buf (of_nat ?n) ?b = Inr (STS_OK, slice ?c (unat pos) ?n, ?b)"
      using virtual_segment_read [OF b(1), of pos buf] b(2) cap(3) 1 by simp
    moreover have "slice ?c (unat pos) (?n + length (concat bufs)) =
        slice ?c (unat pos) ?n @ slice ?c (unat pos + ?n) (length (concat bufs))"
      using slice_append [of "unat pos" ?n "length (concat bufs)" ?c] le by simp
    ultimately show ?thesis using 1 k c(3) le by (intro seg [OF _ b(1) refl _ b(2) refl]) (auto simp: stores_def)
  next
    case 2
    then show ?thesis
      using k by (intro seg [OF _ b(1) refl _ b(2) refl]) (auto simp: virtual_segment_def virtual_backend_flush_def stores_def)
  next
    case 3
    then have oper: "rq_op rq = REQ_OP_WRITE \<or> rq_op rq = REQ_OP_DISCARD" by (simp add: stores_def)
    from virtual_segment_store [OF b(1) _ oper, of pos buf] b(2) cap(3) obtain b' where
      v: "virtual_segment (rq_op rq) pos buf (of_nat ?n) ?b = Inr (STS_OK, buf, b')" "vb_ok b'" "be_capacity b' = be_capacity ?b"
        "vb_content b' = splice d (unat pos) (seg_data (rq_op rq) buf)" by auto
    have p: "slice ?c (unat pos) (?n + length (concat bufs)) = seg_data (rq_op rq) buf @ concat (map (seg_data (rq_op rq)) bufs)"
      using pr k 3 by simp
    note put = store_keeps_promise [OF p le ld]
    show ?thesis
      using 3 put k oper c(3) cap(3) ld by (intro seg [OF v(1-3) _ v(4)]) (auto simp: nth_splice)
  qed
qed

section \<open>Commands, resets and the end of a request\<close>

text \<open>A step that leaves the device alone and neither gives nor changes a place.\<close>

lemma ordered_idle:
  assumes o: "ordered ld lbs d0 s ks" and t: "t < length ks" and dev: "us_dev s' = us_dev s"
    and k: "\<And>d. due d k = due d (ks ! t)" "ub_ev k = ub_ev (ks ! t) \<or> \<not> placed k" "\<And>cap. pc_ok lbs cap k" "\<And>d. promised d k"
    and own: "\<And>i. \<not> owed (ks ! t) i"
  shows "ordered ld lbs d0 s' (ks[t := k])"
proof -
  from o obtain ts sd d where "us_dev s = with_content sd d" and vb: "vb_ok (u_backend sd)"
    and ord: "in_order ld lbs d0 ks ts sd" and lag: "lags lbs (dev_content sd) ks d" by (auto simp: ordered_def)
  then have "us_dev s' = with_content sd d" using dev by simp
  moreover have "in_order ld lbs d0 (ks[t := k]) ts sd" using k(2) by (intro in_order_keep [OF ord k(1) _ t]) blast
  moreover have "lags lbs (dev_content sd) (ks[t := k]) d" using own by (intro lags_step [OF lag t refl refl k(3,4)]) auto
  ultimately show ?thesis using vb orderedI by blast
qed

text \<open>A call that does not look at the memory takes its place.\<close>

lemma ordered_call:
  assumes o: "ordered ld lbs d0 s ks" and t: "t < length ks" "\<not> placed (ks ! t)" and own: "\<And>i. \<not> owed (ks ! t) i"
    and call: "\<And>sd d. us_dev s = with_content sd d \<Longrightarrow> \<exists>sd'. ub_call ld lbs (ub_ev k) sd = Inr (r, sd') \<and>
      us_dev s' = with_content sd' d \<and> u_backend sd' = u_backend sd"
    and k: "\<And>d. due d k = Some r" "\<And>cap. pc_ok lbs cap k" "\<And>d. promised d k"
  shows "ordered ld lbs d0 s' (ks[t := k])"
proof -
  from o obtain ts sd d where dev: "us_dev s = with_content sd d" and vb: "vb_ok (u_backend sd)"
    and ord: "in_order ld lbs d0 ks ts sd" and lag: "lags lbs (dev_content sd) ks d" by (auto simp: ordered_def)
  from call [OF dev] obtain sd' where c: "ub_call ld lbs (ub_ev k) sd = Inr (r, sd')" "us_dev s' = with_content sd' d"
    "u_backend sd' = u_backend sd" by blast
  have "in_order ld lbs d0 (ks[t := k]) (ts @ [t]) sd'" using c(3) k(1) by (intro in_order_place [OF ord t c(1)]) simp_all
  moreover have "lags lbs (dev_content sd') (ks[t := k]) d"
    unfolding c(3) using own by (intro lags_step [OF lag t(1) refl refl k(2,3)]) auto
  ultimately show ?thesis using vb c(2,3) orderedI by metis
qed

lemma ordered_command:
  assumes o: "ordered ld lbs d0 s ks" and t: "t < length ks" and k: "ks ! t = Ub_start (Ev_command env sqe)"
  shows "\<exists>k' s'. ub_next ld lbs sg (ks ! t) s = Inr (k', s') \<and> ordered ld lbs d0 s' (ks[t := k'])"
proof (cases "\<exists>env'. cmd_enter env sqe (us_admin s) = Cmd_lock env' sqe")
  case True
  then obtain env' where "cmd_enter env sqe (us_admin s) = Cmd_lock env' sqe" "cmd_pre env' sqe"
    by (auto simp: cmd_enter_def cmd_pre_def Let_def split: if_splits)
  with k ordered_idle [OF o t refl, of "Cmd_lock env' sqe"] show ?thesis by (simp add: placed_def)
next
  case False
  let ?env = "env\<lparr>ce_locked := us_admin s, ce_interrupted := False\<rparr>"
  from False obtain e where e: "cmd_enter env sqe (us_admin s) = Ub_done (Ev_command ?env sqe) (Reply_cmd (Immediate e))"
    "\<And>dev. uringblk_uring_cmd lbs ?env sqe (Some dev) = Inr (Immediate e, Some dev)"
    by (auto simp: cmd_enter_def uringblk_uring_cmd_def Let_def split: if_splits)
  have "ordered ld lbs d0 s (ks[t := Ub_done (Ev_command ?env sqe) (Reply_cmd (Immediate e))])"
    using k e(2) by (intro ordered_call [OF o t]) (simp_all add: placed_def)
  with k e(1) show ?thesis by simp
qed

lemma uring_cmd_pre:
  "cmd_pre env sqe \<Longrightarrow> uringblk_uring_cmd lbs env sqe (Some dev) =
     kbind (cmd_switch lbs env sqe dev) (\<lambda>(r, dev'). Inr (uringblk_uring_cmd_complete_async \<lparr>pdu_result = r\<rparr>, Some dev'))"
  by (auto simp: cmd_pre_def uringblk_uring_cmd_def)

lemma ordered_run:
  assumes o: "ordered ld lbs d0 s ks" and t: "t < length ks" and k: "ks ! t = Cmd_run env sqe" and "lbs \<noteq> 0"
  shows "\<exists>k' s'. ub_next ld lbs sg (ks ! t) s = Inr (k', s') \<and> ordered ld lbs d0 s' (ks[t := k'])"
proof -
  from o k t have pre: "cmd_pre env sqe" by (auto simp: ordered_def dest: lags_pc)
  from cmd_switch_runs [OF assms(4), of env sqe "us_dev s"] obtain r dev' where
    sw: "cmd_switch lbs env sqe (us_dev s) = Inr (r, dev')" by blast
  let ?k = "Cmd_unlock env sqe \<lparr>pdu_result = r\<rparr>" and ?s = "s\<lparr>us_dev := dev'\<rparr>"
  have "ordered ld lbs d0 ?s (ks[t := ?k])"
  proof (rule ordered_call [OF o t])
    fix sd d assume d: "us_dev s = with_content sd d"
    from cmd_switch_runs [OF assms(4), of env sqe sd] obtain r1 sd' where
      "cmd_switch lbs env sqe sd = Inr (r1, sd')" "u_backend sd' = u_backend sd" by blast
    with sw d cmd_switch_content [of lbs env sqe sd d] uring_cmd_pre [OF pre, of lbs sd]
    show "\<exists>sd'. ub_call ld lbs (ub_ev ?k) sd = Inr (Reply_cmd (uringblk_uring_cmd_complete_async \<lparr>pdu_result = r\<rparr>), sd') \<and>
      us_dev ?s = with_content sd' d \<and> u_backend sd' = u_backend sd" by simp
  qed (simp_all add: k placed_def)
  with k sw show ?thesis by simp
qed

lemma ordered_reset:
  assumes o: "ordered ld lbs d0 s ks" and t: "t < length ks" and k: "ks ! t = Ub_start (Ev_reset p n)"
  shows "\<exists>k' s'. ub_next ld lbs sg (ks ! t) s = Inr (k', s') \<and> ordered ld lbs d0 s' (ks[t := k'])"
proof -
  obtain r dev' where st: "stats_reset_store p n (us_dev s) = (r, dev')" by fastforce
  let ?k = "Ub_done (Ev_reset p n) (Reply_store r)" and ?s = "s\<lparr>us_dev := dev'\<rparr>"
  have "ordered ld lbs d0 ?s (ks[t := ?k])"
  proof (rule ordered_call [OF o t])
    fix sd d assume d: "us_dev s = with_content sd d"
    obtain r1 sd' where sd: "stats_reset_store p n sd = (r1, sd')" by fastforce
    from reset_content(1) [OF this, of d] reset_content(2) [OF this] st d sd
    show "\<exists>sd'. ub_call ld lbs (ub_ev ?k) sd = Inr (Reply_store r, sd') \<and> us_dev ?s = with_content sd' d \<and>
      u_backend sd' = u_backend sd" by simp
  qed (simp_all add: k placed_def)
  with k st show ?thesis by simp
qed

text \<open>Every step of every thread.\<close>

lemma ordered_next:
  assumes o: "ordered ld lbs d0 s ks" and rf: "race_free lbs (map ub_ev ks)" and t: "t < length ks" and "lbs \<noteq> 0"
  shows "\<exists>k' s'. ub_next ld lbs sg (ks ! t) s = Inr (k', s') \<and> ordered ld lbs d0 s' (ks[t := k'])"
proof (cases "ks ! t")
  case (Ub_start ev)
  then show ?thesis using ordered_request [OF o rf t] ordered_command [OF o t] ordered_reset [OF o t] by (cases ev) blast+
next
  case (Rq_device env rq)
  then show ?thesis using o t by (auto simp: ordered_def dest: lags_pc)
next
  case (Rq_segs env rq pos out bufs)
  show ?thesis
  proof (cases bufs)
    case Nil
    have "fst (flat_request (rq_op rq) (unat pos) [] d) = []" for d by (cases "rq_op rq") simp_all
    with Nil Rq_segs ordered_idle [OF o t refl, of "rq_reply env rq STS_OK out"] show ?thesis
      by (simp add: rq_reply_def)
  qed (use Rq_segs ordered_segment [OF o rf t] in blast)
next
  case (Cmd_lock env sqe)
  have pre: "cmd_pre env sqe" using o t Cmd_lock by (auto simp: ordered_def dest: lags_pc)
  let ?env = "env\<lparr>ce_interrupted := True\<rparr>"
  have "uringblk_uring_cmd lbs ?env sqe (Some dev) = Inr (Immediate ERESTARTSYS, Some dev)" for dev
    using pre by (auto simp: cmd_pre_def uringblk_uring_cmd_def)
  then have "ordered ld lbs d0 s (ks[t := Ub_done (Ev_command ?env sqe) (Reply_cmd (Immediate ERESTARTSYS))])"
    using Cmd_lock by (intro ordered_call [OF o t]) (simp_all add: placed_def)
  moreover have "ordered ld lbs d0 (s\<lparr>us_admin := True\<rparr>) (ks[t := Cmd_run env sqe])"
    using Cmd_lock pre by (intro ordered_idle [OF o t]) simp_all
  ultimately show ?thesis using Cmd_lock by simp
next
  case (Cmd_run env sqe)
  with ordered_run [OF o t] assms(4) show ?thesis by blast
next
  case (Cmd_unlock env sqe pdu)
  then have "ordered ld lbs d0 (s\<lparr>us_admin := False\<rparr>) (ks[t := Cmd_task env sqe pdu])"
    by (intro ordered_idle [OF o t]) simp_all
  with Cmd_unlock show ?thesis by simp
next
  case (Cmd_task env sqe pdu)
  then have "ordered ld lbs d0 s (ks[t := Ub_done (Ev_command env sqe) (Reply_cmd (uringblk_uring_cmd_complete_async pdu))])"
    by (intro ordered_idle [OF o t]) simp_all
  with Cmd_task show ?thesis by simp
next
  case (Ub_done ev r)
  then have "ks[t := Ub_done ev r] = ks" by (metis list_update_id)
  with o Ub_done show ?thesis by simp
qed

section \<open>Contract\<close>

fun in_admin :: "ub_pc \<Rightarrow> bool" where
  "in_admin (Cmd_run env sqe) = True"
| "in_admin (Cmd_unlock env sqe pdu) = True"
| "in_admin k = False"

definition ub_inv :: "'d lower_dev \<Rightarrow> u32 \<Rightarrow> uringblk_device \<Rightarrow> ub_state \<Rightarrow> ub_pc list \<Rightarrow> bool" where
  "ub_inv ld lbs d0 s ks \<longleftrightarrow> lbs \<noteq> 0 \<and> race_free lbs (map ub_ev ks) \<and>
     n_threads in_admin ks = (if us_admin s then 1 else 0) \<and> ordered ld lbs d0 s ks"

lemma admin_next:
  assumes "ub_next ld lbs sg k s = Inr (k', s')" and "ub_ready sg k s"
  shows "in_admin k' = in_admin k \<and> us_admin s' = us_admin s \<or>
    \<not> in_admin k \<and> in_admin k' \<and> \<not> us_admin s \<and> us_admin s' \<or> in_admin k \<and> \<not> in_admin k' \<and> \<not> us_admin s'"
  using assms by (induction ld lbs sg k s rule: ub_next.induct)
    (auto simp: kres_simps rq_enter_def cmd_enter_def rq_reply_def Let_def split: if_splits prod.splits)

lemma admin_step:
  assumes "ub_next ld lbs sg (ks ! t) s = Inr (k', s')" and "ub_ready sg (ks ! t) s" and "t < length ks"
    and "n_threads in_admin ks = (if us_admin s then 1 else 0)"
  shows "n_threads in_admin (ks[t := k']) = (if us_admin s' then 1 else 0)"
  using admin_next [OF assms(1,2)] n_threads_update [OF assms(3), of in_admin k'] assms(4) by (auto split: if_splits)

lemma ub_inv_step:
  assumes "ub_inv ld lbs d0 s ks" and "t < length ks" and "ub_step sig ld lbs (ks ! t) s k s'"
  shows "ub_inv ld lbs d0 s' (ks[t := k])"
proof -
  from assms(3) obtain sg where n: "ub_next ld lbs sg (ks ! t) s = Inr (k, s')" and r: "ub_ready sg (ks ! t) s"
    by (auto simp: ub_step_def)
  from assms(1) have i: "lbs \<noteq> 0" "race_free lbs (map ub_ev ks)" "n_threads in_admin ks = (if us_admin s then 1 else 0)"
    "ordered ld lbs d0 s ks" by (simp_all add: ub_inv_def)
  have "map ev_key (map ub_ev (ks[t := k])) = map ev_key (map ub_ev ks)"
    using map_key_update [OF n assms(2)] by (simp only: map_map)
  with race_free_keys [OF i(2)] have "race_free lbs (map ub_ev (ks[t := k]))" by blast
  moreover have "ordered ld lbs d0 s' (ks[t := k])" using ordered_next [OF i(4,2) assms(2) i(1), of sg] n by auto
  ultimately show ?thesis using i(1) admin_step [OF n r assms(2) i(3)] by (simp add: ub_inv_def)
qed

text \<open>Only a held mutex stops a call, and its holder can move.\<close>

lemma ub_no_deadlock:
  assumes i: "ub_inv ld lbs d0 s ks" and "\<not> all_done ub_rank ks"
  shows "\<exists>t < length ks. \<exists>k s'. ub_step sig ld lbs (ks ! t) s k s'"
proof -
  have move: ?thesis if "t < length ks" "0 < ub_rank (ks ! t)" "ub_ready False (ks ! t) s" for t
  proof -
    from i ordered_next [of ld lbs d0 s ks t False] that(1) obtain k' s' where "ub_next ld lbs False (ks ! t) s = Inr (k', s')"
      by (auto simp: ub_inv_def)
    from ub_stepI [OF that(2) _ that(3) this] have "ub_step sig ld lbs (ks ! t) s k' s'" by simp
    with that(1) show ?thesis by blast
  qed
  from assms(2) obtain t where t: "t < length ks" "0 < ub_rank (ks ! t)" by (auto simp: all_done_def in_set_conv_nth)
  show ?thesis
  proof (cases "us_admin s")
    case True
    then have "n_threads in_admin ks = 1" using i by (simp add: ub_inv_def)
    then obtain u where u: "u < length ks" "in_admin (ks ! u)" 
      by (metis in_set_conv_nth n_threads_0 zero_neq_one)
    then have "0 < ub_rank (ks ! u)" "ub_ready False (ks ! u) s" by (cases "ks ! u"; simp)+
    with move u(1) show ?thesis by blast
  next
    case False
    then have "ub_ready False (ks ! t) s" by (cases "ks ! t") simp_all
    with move t show ?thesis by blast
  qed
qed

interpretation ub: threads "ub_step sig ld lbs" ub_rank "ub_inv ld lbs d0" for sig ld lbs d0
proof
  show "ub_rank k' < ub_rank k" if "ub_step sig ld lbs k s k' s'" for k s k' s'
    using that ub_rank_next by (auto simp: ub_step_def)
qed (fact ub_inv_step ub_no_deadlock)+

text \<open>Calls that are about to start.\<close>

lemma ub_inv_start:
  assumes "vb_ok (u_backend dev)" and "lbs \<noteq> 0" and "\<forall>ev \<in> set evs. ev_wf lbs ev" and "race_free lbs evs"
  shows "ub_inv ld lbs dev \<lparr>us_dev = dev, us_admin = False\<rparr> (map Ub_start evs)"
proof -
  have "\<not> placed k \<and> \<not> owed k i" if "k \<in> set (map Ub_start evs)" for k i using that by (auto simp: placed_def)
  then have "in_order ld lbs dev (map Ub_start evs) [] dev" "lags lbs (dev_content dev) (map Ub_start evs) (dev_content dev)"
    using assms(3) by (auto simp: in_order_def lags_def placed_def)
  from orderedI [OF _ assms(1) this, of "\<lparr>us_dev = dev, us_admin = False\<rparr>"] assms
  have "ordered ld lbs dev \<lparr>us_dev = dev, us_admin = False\<rparr> (map Ub_start evs)" by (simp add: with_own_content)
  moreover have "n_threads in_admin (map Ub_start evs) = 0" by (intro n_threads_0) auto
  ultimately show ?thesis using assms by (simp add: ub_inv_def comp_def)
qed

text \<open>When all calls have returned the memory has caught up.\<close>

lemma ordered_done:
  assumes "ordered ld lbs d0 s ks" and "all_done ub_rank ks"
  shows "\<exists>ts. in_order ld lbs d0 ks ts (us_dev s)"
proof -
  from assms(1) obtain ts sd d where dev: "us_dev s = with_content sd d" and vb: "vb_ok (u_backend sd)"
    and ord: "in_order ld lbs d0 ks ts sd" and lag: "lags lbs (dev_content sd) ks d" by (auto simp: ordered_def)
  have "\<not> owed k i" if "k \<in> set ks" for k i
  proof -
    have "ub_rank k = 0" using that assms(2) by (simp add: all_done_def)
    then show ?thesis by (cases k) simp_all
  qed
  then have "d = dev_content sd" using lag by (auto simp: lags_def intro: nth_equalityI)
  with dev with_own_content [OF vb] ord show ?thesis by auto
qed

end
