(* ===== verification/Uring_Schedules.thy ===== *)
theory Uring_Schedules
  imports Uring_Linear
begin

text \<open>
  Properties of concurrent calls of the uringblk driver: requests, admin commands and statistics
  resets on one device with the virtual backend.
\<close>

section \<open>Schedules\<close>

text \<open>A given schedule, without signals: the thread that moves next, step by step.\<close>

fun ub_schedule ::
  "'d lower_dev \<Rightarrow> u32 \<Rightarrow> nat list \<Rightarrow> ub_state \<Rightarrow> ub_pc list \<Rightarrow> (ub_state \<times> ub_pc list) option" where
  "ub_schedule ld lbs [] s ks = Some (s, ks)"
| "ub_schedule ld lbs (t # ts) s ks =
     (if t < length ks \<and> 0 < ub_rank (ks ! t) \<and> ub_ready False (ks ! t) s then
        (case ub_next ld lbs False (ks ! t) s of
           Inl _ \<Rightarrow> None
         | Inr (k, s') \<Rightarrow> ub_schedule ld lbs ts s' (ks[t := k]))
      else None)"

lemma ub_schedule_reach:
  "ub_schedule ld lbs ts s ks = Some (s', ks') \<Longrightarrow> par_reach (ub_step sig ld lbs) (s, ks) (s', ks')"
proof (induction ts arbitrary: s ks)
  case (Cons t ts)
  then have t: "t < length ks" "0 < ub_rank (ks ! t)" "ub_ready False (ks ! t) s"
    by (simp_all add: ub_schedule.simps split: if_splits)
  with Cons.prems obtain k s1 where n: "ub_next ld lbs False (ks ! t) s = Inr (k, s1)"
    and r: "ub_schedule ld lbs ts s1 (ks[t := k]) = Some (s', ks')" by (simp split: sum.splits prod.splits)
  from ub_stepI [OF t(2) _ t(3) n] have "ub_step sig ld lbs (ks ! t) s k s1" by simp
  then have "par_step (ub_step sig ld lbs) (s, ks) (s1, ks[t := k])" by (rule par_step.move [OF t(1)])
  with Cons.IH [OF r] show ?case unfolding par_reach_def by (meson converse_rtranclp_into_rtranclp)
qed (simp add: par_reach_def)

abbreviation ub_init :: "uringblk_device \<Rightarrow> uring_event list \<Rightarrow> ub_state \<times> ub_pc list" where
  "ub_init dev evs \<equiv> (\<lparr>us_dev = dev, us_admin = False\<rparr>, map Ub_start evs)"

lemma ub_reach_inv:
  assumes "vb_ok (u_backend dev)" and "lbs \<noteq> 0" and "\<forall>ev \<in> set evs. ev_wf lbs ev" and "race_free lbs evs"
    and "par_reach (ub_step sig ld lbs) (ub_init dev evs) (s, ks)"
  shows "ub_inv ld lbs dev s ks"
  using ub.inv_reach [OF assms(5) ub_inv_start [OF assms(1-4)]] .

lemma ub_reach_key:
  assumes "par_reach (ub_step sig ld lbs) (ub_init dev evs) (s, ks)" and "t < length evs"
  shows "ev_key (ub_ev (ks ! t)) = ev_key (evs ! t)"
proof -
  have "ev_key (ub_ev k') = ev_key (ub_ev k)" if "ub_step sig ld lbs k s k' s'" for k s k' s'
    using that ub_key_next by (auto simp: ub_step_def)
  with par_reach_thread [OF assms(1), of "\<lambda>k. ev_key (ub_ev k)" t] assms(2) show ?thesis by simp
qed

section \<open>What the set-up fixes\<close>

lemma cmd_switch_keeps:
  assumes "cmd_switch lbs env sqe dev = Inr (r, dev')" and "device_ok c dev"
  shows "device_ok c dev' \<and> u_backend dev' = u_backend dev"
  using assms set_features_keeps [of "ce_from_user env" "sqe_len sqe" dev]
  by (auto simp: cmd_switch_def Let_def kres_simps uringblk_cmd_set_features_def split: if_splits prod.splits option.splits)

lemma virtual_segment_size:
  assumes "virtual_segment oper pos buf len b = Inr (st, buf', b')"
  shows "be_capacity b' = be_capacity b \<and> be_type b' = be_type b"
proof (cases "oper = REQ_OP_READ")
  case True
  with assms obtain r where "virtual_backend_read pos len b = Inr r" by (auto simp: virtual_segment_def kres_simps)
  with True assms show ?thesis by (cases r) (auto simp: virtual_segment_def kres_simps)
next
  case False
  with assms show ?thesis
    by (cases oper) (auto simp: virtual_segment_def virtual_backend_write_def virtual_backend_discard_def kres_simps
      split: if_splits option.splits be_private.splits)
qed

text \<open>What the set-up fixes of a device.\<close>

definition device_kept :: "uringblk_device \<Rightarrow> uringblk_device \<Rightarrow> bool" where
  "device_kept dev0 dev \<longleftrightarrow> device_ok (u_config dev0) dev \<and>
     be_capacity (u_backend dev) = be_capacity (u_backend dev0) \<and> be_type (u_backend dev) = be_type (u_backend dev0)"

lemma ub_next_kept:
  assumes "ub_next ld lbs sg k s = Inr (k', s')" and "device_kept d0 (us_dev s)"
  shows "device_kept d0 (us_dev s')"
  using assms
proof (induction ld lbs sg k s rule: ub_next.induct)
  case (6 ld lbs sg env rq pos out buf bufs s)
  then show ?case by (auto simp: Let_def kres_simps device_kept_def device_ok_def features_ok_def dest: virtual_segment_size)
next
  case (8 ld lbs sg env sqe s)
  then show ?case using cmd_switch_keeps [of lbs env sqe "us_dev s"] by (auto simp: kres_simps device_kept_def)
qed (auto simp: rq_enter_def Let_def kres_simps stats_reset_store_def device_kept_def device_ok_def features_ok_def
    split: if_splits option.splits prod.splits)

section \<open>Examples\<close>

text \<open>A write of two segments, a read beside it and a command that reads the features.\<close>

definition ex_cmd :: "bool \<Rightarrow> uring_event" where
  "ex_cmd nonblock = Ev_command \<lparr>ce_locked = False, ce_interrupted = False, ce_to_user = True, ce_from_user = None\<rparr>
     \<lparr>sqe_opcode = 3, sqe_len = 8, sqe_cancel = False, sqe_nonblock = nonblock\<rparr>"

definition ex_calls :: "uring_event list" where
  "ex_calls = [Ev_request sample_io (mk_rq REQ_OP_WRITE 0 [[1, 2], [3, 4]]),
     Ev_request sample_io (mk_rq REQ_OP_READ 4 [[0, 0]]), ex_cmd True]"

lemma ex_calls_ok:
  "vb_ok (u_backend (sample_device BACKEND_VIRTUAL 8))" "(1 :: u32) \<noteq> 0" "\<forall>ev \<in> set ex_calls. ev_wf 1 ev" "race_free 1 ex_calls"
proof -
  show "vb_ok (u_backend (sample_device BACKEND_VIRTUAL 8))" by (simp add: sample_device_ok)
  show "(1 :: u32) \<noteq> 0" by simp
  show "\<forall>ev \<in> set ex_calls. ev_wf 1 ev" by (simp add: ex_calls_def ex_cmd_def ev_wf_def rq_wf_def rq_byte_def)
  show "race_free 1 ex_calls"
    by (auto simp: race_free_def ex_calls_def ex_cmd_def less_Suc_eq no_race_def rq_byte_def)
qed

lemma ex_calls_finish:
  "\<exists>s ks. par_reach (ub_step False sample_lower 1) (ub_init (sample_device BACKEND_VIRTUAL 8) ex_calls) (s, ks) \<and> all_done ub_rank ks"
  using ub.can_finish [OF ub_inv_start [OF ex_calls_ok], of False sample_lower] by blast

section \<open>Properties\<close>

text \<open>C4.  Requests that do not race, admin commands and resets may enter the driver from any number of processors at
  once.  However their steps interleave, when all have returned there is an order of the calls such that
  the sequential driver, run in that order, gives every call the reply it got and ends with the same
  device, bytes, counters and features included; and the admin mutex is free.\<close>

theorem concurrent_calls_linearizable:
  assumes "vb_ok (u_backend dev)" and "lbs \<noteq> 0" and "\<forall>ev \<in> set evs. ev_wf lbs ev" and "race_free lbs evs"
    and "par_reach (ub_step sig ld lbs) (ub_init dev evs) (s, ks)" and "all_done ub_rank ks"
  shows "\<not> us_admin s \<and> (\<exists>ts call reply. distinct ts \<and> set ts = {..<length evs} \<and>
    (\<forall>t < length evs. ks ! t = Ub_done (call t) (reply t) \<and> ev_key (call t) = ev_key (evs ! t)) \<and>
    ub_calls ld lbs (map call ts) dev = Inr (map reply ts, us_dev s))"
proof -
  have inv: "ub_inv ld lbs dev s ks" by (rule ub_reach_inv [OF assms(1-5)])
  then have "ordered ld lbs dev s ks" by (simp add: ub_inv_def)
  from ordered_done [OF this assms(6)] obtain ts where o: "in_order ld lbs dev ks ts (us_dev s)" by blast
  have len: "length ks = length evs" using par_reach_length [OF assms(5)] by simp
  define reply where "reply t = the (due (dev_content (us_dev s)) (ks ! t))" for t
  have fin: "ks ! t = Ub_done (ub_ev (ks ! t)) (reply t)" if "t < length evs" for t
  proof -
    have "ub_rank (ks ! t) = 0" using that len assms(6) by (simp add: all_done_def)
    then show ?thesis by (cases "ks ! t") (auto simp: reply_def elim: ev_rank.elims)
  qed
  then have "placed (ks ! t)" if "t < length evs" for t using that by (metis due.simps(4) option.discI placed_def)
  then have "set ts = {..<length evs}" using o len by (auto simp: in_order_def)
  moreover have "distinct ts" "ub_calls ld lbs (map (\<lambda>t. ub_ev (ks ! t)) ts) dev = Inr (map reply ts, us_dev s)"
    using o by (simp_all add: in_order_def reply_def)
  moreover have "ks ! t = Ub_done (ub_ev (ks ! t)) (reply t) \<and> ev_key (ub_ev (ks ! t)) = ev_key (evs ! t)"
    if "t < length evs" for t
    using fin [OF that] ub_reach_key [OF assms(5) that] by simp
  ultimately have 1: "\<exists>ts call reply. distinct ts \<and> set ts = {..<length evs} \<and>
    (\<forall>t < length evs. ks ! t = Ub_done (call t) (reply t) \<and> ev_key (call t) = ev_key (evs ! t)) \<and>
    ub_calls ld lbs (map call ts) dev = Inr (map reply ts, us_dev s)"
    by (intro exI [of _ ts] exI [of _ "\<lambda>t. ub_ev (ks ! t)"] exI [of _ reply]) blast
  have "\<not> in_admin k" if "k \<in> set ks" for k
  proof -
    have "ub_rank k = 0" using that assms(6) by (simp add: all_done_def)
    then show ?thesis by (cases k) simp_all
  qed
  then have "n_threads in_admin ks = 0" by (rule n_threads_0)
  with inv 1 show ?thesis by (auto simp: ub_inv_def split: if_splits)
qed

lemma concurrent_calls_linearizable_witness:
  "\<exists>(s :: ub_state) ks. all_done ub_rank ks \<and> (\<exists>ts call reply. distinct ts \<and> set ts = {..<length ex_calls} \<and>
     (\<forall>t < length ex_calls. ks ! t = Ub_done (call t) (reply t) \<and> ev_key (call t) = ev_key (ex_calls ! t)) \<and>
     ub_calls sample_lower 1 (map call ts) (sample_device BACKEND_VIRTUAL 8) = Inr (map reply ts, us_dev s))"
proof -
  from ex_calls_finish obtain s ks where
    r: "par_reach (ub_step False sample_lower 1) (ub_init (sample_device BACKEND_VIRTUAL 8) ex_calls) (s, ks)" "all_done ub_rank ks"
    by blast
  show ?thesis
    by (rule exI [of _ s], rule exI [of _ ks], rule conjI [OF r(2)])
      (rule concurrent_calls_linearizable [OF ex_calls_ok r, THEN conjunct2])
qed

text \<open>A command that must not block tests the mutex before it takes it.  Between the two another command can
  take the mutex, and then the command waits for it in spite of the flag: it has no step of its own until
  the holder lets go.\<close>

theorem nonblocking_command_waits:
  "\<exists>s ks env sqe. par_reach (ub_step False sample_lower 1)
      (ub_init (sample_device BACKEND_VIRTUAL 8) [ex_cmd True, ex_cmd False]) (s, ks) \<and>
    ks ! 0 = Cmd_lock env sqe \<and> sqe_nonblock sqe \<and> us_admin s \<and> (\<nexists>k s'. ub_step False sample_lower 1 (ks ! 0) s k s')"
proof -
  let ?ks = "map Ub_start [ex_cmd True, ex_cmd False]" and ?s = "\<lparr>us_dev = sample_device BACKEND_VIRTUAL 8, us_admin = False\<rparr>"
  obtain s ks env sqe where sch: "ub_schedule sample_lower 1 [0, 1, 1] ?s ?ks = Some (s, ks)"
    and k: "ks ! 0 = Cmd_lock env sqe" "sqe_nonblock sqe" "us_admin s"
    by (simp add: ex_cmd_def cmd_enter_def Let_def)
  with ub_schedule_reach [OF sch, of False] show ?thesis by (force simp: ub_step_def)
qed

text \<open>Requests that race are not atomic.  Two writes of two segments each to the same place, moved in turn, leave
  the first segment of one and the second of the other.\<close>

definition ex_write_two :: "byte \<Rightarrow> uring_event" where
  "ex_write_two b = Ev_request sample_io (mk_rq REQ_OP_WRITE 0 [[b], [b]])"

theorem racing_writes_mix:
  "\<exists>s ks. par_reach (ub_step False sample_lower 1)
      (ub_init (sample_device BACKEND_VIRTUAL 2) [ex_write_two 1, ex_write_two 2]) (s, ks) \<and>
    all_done ub_rank ks \<and> dev_content (us_dev s) = [2, 1]"
proof -
  let ?ks = "map Ub_start [ex_write_two 1, ex_write_two 2]" and ?s = "\<lparr>us_dev = sample_device BACKEND_VIRTUAL 2, us_admin = False\<rparr>"
  have "case ub_schedule sample_lower 1 [0, 1, 0, 1, 1, 0, 0, 1] ?s ?ks of None \<Rightarrow> False
      | Some (s, ks) \<Rightarrow> all_done ub_rank ks \<and> dev_content (us_dev s) = [2, 1]" by code_simp
  then obtain s ks where sch: "ub_schedule sample_lower 1 [0, 1, 0, 1, 1, 0, 0, 1] ?s ?ks = Some (s, ks)"
    and k: "all_done ub_rank ks" "dev_content (us_dev s) = [2, 1]" by (auto split: option.splits)
  with ub_schedule_reach [OF sch, of False] show ?thesis by blast
qed

end
