(* ===== verification/Uring_Progress.thy ===== *)
theory Uring_Progress
  imports Uring_Schedules
begin

text \<open>
  That calls of the uringblk driver return, whether or not their requests race and whichever
  backend the device has.  Nothing is said here about what they compute.
\<close>

section \<open>Invariant\<close>





section \<open>Steps\<close>









section \<open>Properties\<close>



end
