(* ===== verification/Uring_Async.thy ===== *)
theory Uring_Async
  imports Uring_Theorems Interleaving "HOL-Library.Multiset"
begin

text \<open>
  Asynchronous transfers of the device backend, with what they hold.  A transfer allocates a context,
  a page, a mapping of the page and a bio; on an error it gives them back, otherwise they belong to
  the bio until its completion callback runs.  The lower device serves the bios in any order while
  other requests start and finish.
\<close>

section \<open>Resources of a transfer\<close>

datatype io_res = IO_ctx | IO_page | IO_map | IO_bio

type_synonym io_held = "io_res multiset"

definition io_drop :: "io_res \<Rightarrow> io_held \<Rightarrow> io_held kres" where
  "io_drop r H = (if r \<in># H then Inr (H - {#r#}) else Inl UseAfterFree)"

text \<open>\<open>kunmap\<close>, \<open>__free_page\<close>, \<open>kfree\<close> and \<open>bio_put\<close> after a bio that takes no page.\<close>

definition undo_transfer :: "io_held \<Rightarrow> io_held kres" where
  "undo_transfer H =
     kbind (io_drop IO_map H) (\<lambda>H1. kbind (io_drop IO_page H1) (\<lambda>H2.
     kbind (io_drop IO_ctx H2) (io_drop IO_bio)))"

definition held_read_async ::
  "'d lower_dev \<Rightarrow> io_env \<Rightarrow> u64 \<Rightarrow> u64 \<Rightarrow> uringblk_backend \<Rightarrow> io_held \<Rightarrow> ((errno + io_context) \<times> io_held) kres" where
  "held_read_async ld env pos len b H =
     (if be_private_data b = No_data \<or> pos + len > be_capacity b then Inr (Inl EINVAL, H)
      else if \<not> ld_bdev ld then Inr (Inl EINVAL, H)
      else if \<not> io_ctx_mem env then Inr (Inl ENOMEM, H)
      else let H1 = add_mset IO_ctx H in
        if \<not> io_page_mem env then kbind (io_drop IO_ctx H1) (\<lambda>H2. Inr (Inl ENOMEM, H2))
        else let H2 = add_mset IO_bio (add_mset IO_map (add_mset IO_page H1)) in
          if \<not> io_add_page env then kbind (undo_transfer H2) (\<lambda>H3. Inr (Inl EIO, H3))
          else Inr (Inr \<lparr>ioc_op = REQ_OP_READ, ioc_buffer = True, ioc_pos = pos, ioc_len = len,
                         ioc_page = Some (replicate PG 0)\<rparr>, H2))"

definition held_write_async ::
  "'d lower_dev \<Rightarrow> io_env \<Rightarrow> u64 \<Rightarrow> byte list \<Rightarrow> u64 \<Rightarrow> uringblk_backend \<Rightarrow> io_held \<Rightarrow>
     ((errno + io_context) \<times> io_held) kres" where
  "held_write_async ld env pos buf len b H =
     (if be_private_data b = No_data \<or> pos + len > be_capacity b then Inr (Inl EINVAL, H)
      else if \<not> ld_bdev ld then Inr (Inl EINVAL, H)
      else if \<not> io_ctx_mem env then Inr (Inl ENOMEM, H)
      else let H1 = add_mset IO_ctx H in
        if \<not> io_page_mem env then kbind (io_drop IO_ctx H1) (\<lambda>H2. Inr (Inl ENOMEM, H2))
        else let H2 = add_mset IO_bio (add_mset IO_map (add_mset IO_page H1)) in
          kbind (mem_read buf 0 (bio_bytes len)) (\<lambda>src.
            if \<not> io_add_page env then kbind (undo_transfer H2) (\<lambda>H3. Inr (Inl EIO, H3))
            else Inr (Inr \<lparr>ioc_op = REQ_OP_WRITE, ioc_buffer = False, ioc_pos = pos, ioc_len = len,
                           ioc_page = Some src\<rparr>, H2)))"

definition held_flush_async ::
  "'d lower_dev \<Rightarrow> io_env \<Rightarrow> uringblk_backend \<Rightarrow> io_held \<Rightarrow> (errno + io_context) \<times> io_held" where
  "held_flush_async ld env b H =
     (if be_private_data b = No_data then (Inl EINVAL, H)
      else if \<not> ld_bdev ld then (Inl EINVAL, H)
      else if \<not> io_ctx_mem env then (Inl ENOMEM, H)
      else (Inr \<lparr>ioc_op = REQ_OP_FLUSH, ioc_buffer = False, ioc_pos = 0, ioc_len = 0, ioc_page = None\<rparr>,
            add_mset IO_bio (add_mset IO_ctx H)))"

text \<open>The completion callback, as far as it gives back.\<close>

definition held_bio_complete :: "io_context \<Rightarrow> io_held \<Rightarrow> io_held kres" where
  "held_bio_complete ctx H =
     kbind (if ioc_page ctx \<noteq> None then kbind (io_drop IO_map H) (io_drop IO_page) else Inr H) (\<lambda>H1.
     kbind (io_drop IO_ctx H1) (io_drop IO_bio))"

definition held_dispatch ::
  "'d lower_dev \<Rightarrow> io_env \<Rightarrow> u64 \<Rightarrow> u64 \<Rightarrow> request \<Rightarrow> uringblk_backend \<Rightarrow> io_held \<Rightarrow> (rq_result \<times> io_held) kres" where
  "held_dispatch ld env dev_size pos rq b H =
     (case rq_segs rq of
        [] \<Rightarrow> Inr (\<lparr>ended = [], segs_out = [], in_flight = None\<rparr>, H)
      | buf # _ \<Rightarrow>
          let len = clip_len dev_size pos (of_nat (length buf)) in
          (case rq_op rq of
             REQ_OP_READ \<Rightarrow> kbind (held_read_async ld env pos len b H) (\<lambda>(r, H'). Inr (start_async rq r, H'))
           | REQ_OP_WRITE \<Rightarrow> kbind (held_write_async ld env pos buf len b H) (\<lambda>(r, H'). Inr (start_async rq r, H'))
           | REQ_OP_FLUSH \<Rightarrow> (case held_flush_async ld env b H of (r, H') \<Rightarrow> Inr (start_async rq r, H'))
           | REQ_OP_DISCARD \<Rightarrow> Inr (\<lparr>ended = [STS_OK], segs_out = rq_segs rq, in_flight = None\<rparr>, H)
           | _ \<Rightarrow> Inr (\<lparr>ended = [STS_NOTSUPP], segs_out = rq_segs rq, in_flight = None\<rparr>, H)))"

text \<open>What a transfer in flight holds.\<close>

definition ctx_held :: "io_context \<Rightarrow> io_held" where
  "ctx_held ctx = {#IO_ctx, IO_bio#} + (if ioc_page ctx \<noteq> None then {#IO_page, IO_map#} else {#})"

definition result_held :: "rq_result \<Rightarrow> io_held" where
  "result_held r = (case in_flight r of None \<Rightarrow> {#} | Some ctx \<Rightarrow> ctx_held ctx)"

lemma io_drop_add [simp]:
  "io_drop r (add_mset r H) = Inr H" "r \<noteq> q \<Longrightarrow> io_drop r (add_mset q H) = kbind (io_drop r H) (\<lambda>H'. Inr (add_mset q H'))"
  by (auto simp: io_drop_def)

lemma undo_transfer_add [simp]:
  "undo_transfer (add_mset IO_bio (add_mset IO_map (add_mset IO_page (add_mset IO_ctx H)))) = Inr H"
  by (simp add: undo_transfer_def)

lemma held_bio_complete_add: "held_bio_complete ctx (H + ctx_held ctx) = Inr H"
  by (simp add: held_bio_complete_def ctx_held_def)

text \<open>The start of a transfer is that of the request path, and it holds exactly what is in flight afterwards.\<close>

lemma held_dispatch_refines:
  "held_dispatch ld env dev_size pos rq b H =
     kbind (device_dispatch ld env dev_size pos rq b) (\<lambda>r. Inr (r, H + result_held r))"
proof (cases "rq_segs rq")
  case (Cons buf bufs)
  let ?len = "clip_len dev_size pos (of_nat (length buf))"
  have r: "held_read_async ld env pos ?len b H =
      Inr (let r = device_backend_read_async ld env pos ?len b in (r, H + result_held (start_async rq r)))"
    by (auto simp: held_read_async_def device_backend_read_async_def start_async_def result_held_def ctx_held_def Let_def)
  have w: "held_write_async ld env pos buf ?len b H =
      kbind (device_backend_write_async ld env pos buf ?len b) (\<lambda>r. Inr (r, H + result_held (start_async rq r)))"
    by (auto simp: held_write_async_def device_backend_write_async_def start_async_def result_held_def ctx_held_def
      Let_def kbind_assoc kbind_def split: sum.split)
  have f: "held_flush_async ld env b H =
      (let r = device_backend_flush_async ld env b in (r, H + result_held (start_async rq r)))"
    by (auto simp: held_flush_async_def device_backend_flush_async_def start_async_def result_held_def ctx_held_def Let_def)
  from Cons r w f show ?thesis
    by (cases "rq_op rq") (simp_all add: held_dispatch_def device_dispatch_def Let_def kbind_assoc result_held_def)
qed (simp add: held_dispatch_def device_dispatch_def result_held_def)

section \<open>Transfers as threads\<close>

record 'd io_state =
  io_low :: 'd
  io_hold :: io_held

text \<open>A request that passed the range test: about to start, with a bio at the lower device, with a bio that
  is done, ended.\<close>

datatype io_pc =
    Io_start io_env request
  | Io_flight request io_context
  | Io_ready request io_context blk_status "byte list"
  | Io_done request rq_result

text \<open>
  The lower device serves a bio.  The driver gives the position in sectors and sees the status, and
  for a read the page; \<open>es\<close> is the kernel's translation of error codes.
\<close>

definition lower_transfer ::
  "'d lower_dev \<Rightarrow> (errno \<Rightarrow> blk_status) \<Rightarrow> io_context \<Rightarrow> 'd \<Rightarrow> blk_status \<times> byte list \<times> 'd" where
  "lower_transfer ld es ctx low =
     (let sector = signed_drop_bit 9 (ioc_pos ctx);
          status = (\<lambda>r. case r of None \<Rightarrow> STS_OK | Some e \<Rightarrow> es e)
      in case ioc_op ctx of
           REQ_OP_READ \<Rightarrow>
             (case ld_read ld sector (bio_bytes (ioc_len ctx)) low of
                (Inl e, low') \<Rightarrow> (es e, replicate PG 0, low')
              | (Inr bs, low') \<Rightarrow> (STS_OK, splice (replicate PG 0) 0 bs, low'))
         | REQ_OP_WRITE \<Rightarrow>
             (case ld_write ld sector (case ioc_page ctx of Some bs \<Rightarrow> bs | None \<Rightarrow> []) low of (r, low') \<Rightarrow> (status r, [], low'))
         | _ \<Rightarrow> (case ld_flush ld low of (r, low') \<Rightarrow> (status r, [], low')))"

fun io_next ::
  "'d lower_dev \<Rightarrow> (errno \<Rightarrow> blk_status) \<Rightarrow> u32 \<Rightarrow> uringblk_backend \<Rightarrow> io_pc \<Rightarrow> 'd io_state \<Rightarrow> (io_pc \<times> 'd io_state) kres" where
  "io_next ld es lbs b (Io_start env rq) s =
     kbind (held_dispatch ld env (be_capacity b) (rq_sector rq * ucast lbs) rq b (io_hold s)) (\<lambda>(r, H).
       Inr (case in_flight r of None \<Rightarrow> Io_done rq r | Some ctx \<Rightarrow> Io_flight rq ctx, s\<lparr>io_hold := H\<rparr>))"
| "io_next ld es lbs b (Io_flight rq ctx) s =
     (case lower_transfer ld es ctx (io_low s) of (st, page, low) \<Rightarrow> Inr (Io_ready rq ctx st page, s\<lparr>io_low := low\<rparr>))"
| "io_next ld es lbs b (Io_ready rq ctx st page) s =
     (case rq_segs rq of
        [] \<Rightarrow> Inl NullDeref
      | buf # rest \<Rightarrow>
          kbind (device_backend_bio_complete st page buf ctx) (\<lambda>(buf', st').
          kbind (held_bio_complete ctx (io_hold s)) (\<lambda>H.
            Inr (Io_done rq \<lparr>ended = [st'], segs_out = buf' # rest, in_flight = None\<rparr>, s\<lparr>io_hold := H\<rparr>))))"
| "io_next ld es lbs b (Io_done rq r) s = Inr (Io_done rq r, s)"

fun io_rank :: "io_pc \<Rightarrow> nat" where
  "io_rank (Io_start env rq) = 3"
| "io_rank (Io_flight rq ctx) = 2"
| "io_rank (Io_ready rq ctx st page) = 1"
| "io_rank (Io_done rq r) = 0"

definition io_step ::
  "'d lower_dev \<Rightarrow> (errno \<Rightarrow> blk_status) \<Rightarrow> u32 \<Rightarrow> uringblk_backend \<Rightarrow> io_pc \<Rightarrow> 'd io_state \<Rightarrow> io_pc \<Rightarrow> 'd io_state \<Rightarrow> bool" where
  "io_step ld es lbs b k s k' s' \<longleftrightarrow> 0 < io_rank k \<and> io_next ld es lbs b k s = Inr (k', s')"

section \<open>Invariant\<close>

text \<open>Documented behaviour of the lower device: a read that succeeds fills the whole bio.\<close>

definition lower_ok :: "'d lower_dev \<Rightarrow> bool" where
  "lower_ok ld \<longleftrightarrow> (\<forall>sector n low bs low'. ld_read ld sector n low = (Inr bs, low') \<longrightarrow> length bs = n)"

definition io_accepted :: "u32 \<Rightarrow> uringblk_backend \<Rightarrow> request \<Rightarrow> bool" where
  "io_accepted lbs b rq \<longleftrightarrow> rq_wf lbs rq \<and> data_op (rq_op rq) \<and> unat (be_capacity b) < 2 ^ 63 \<and>
     rq_byte lbs rq + length (concat (rq_segs rq)) \<le> unat (be_capacity b)"

fun io_ok :: "u32 \<Rightarrow> uringblk_backend \<Rightarrow> io_pc \<Rightarrow> bool" where
  "io_ok lbs b (Io_start env rq) = io_accepted lbs b rq"
| "io_ok lbs b (Io_flight rq ctx) = (\<exists>buf rest. rq_segs rq = buf # rest \<and>
     (ioc_op ctx = REQ_OP_READ \<longrightarrow> unat (ioc_len ctx) = length buf))"
| "io_ok lbs b (Io_ready rq ctx st page) = (\<exists>buf rest. rq_segs rq = buf # rest \<and>
     (ioc_op ctx = REQ_OP_READ \<longrightarrow> unat (ioc_len ctx) = length buf \<and> length page = PG))"
| "io_ok lbs b (Io_done rq r) = (in_flight r = None \<and> length (ended r) = (if rq_segs rq = [] then 0 else 1))"

fun io_rq :: "io_pc \<Rightarrow> request" where
  "io_rq (Io_start env rq) = rq"
| "io_rq (Io_flight rq ctx) = rq"
| "io_rq (Io_ready rq ctx st page) = rq"
| "io_rq (Io_done rq r) = rq"

fun pc_held :: "io_pc \<Rightarrow> io_held" where
  "pc_held (Io_flight rq ctx) = ctx_held ctx"
| "pc_held (Io_ready rq ctx st page) = ctx_held ctx"
| "pc_held k = {#}"

definition all_held :: "io_pc list \<Rightarrow> io_held" where
  "all_held ks = sum_list (map pc_held ks)"

definition io_inv :: "'d lower_dev \<Rightarrow> u32 \<Rightarrow> uringblk_backend \<Rightarrow> 'd io_state \<Rightarrow> io_pc list \<Rightarrow> bool" where
  "io_inv ld lbs b s ks \<longleftrightarrow> lower_ok ld \<and> (\<forall>k \<in> set ks. io_ok lbs b k) \<and> io_hold s = all_held ks"

lemma all_held_update:
  "t < length ks \<Longrightarrow> all_held (ks[t := k]) + pc_held (ks ! t) = all_held ks + pc_held k"
  unfolding all_held_def
proof (induction ks arbitrary: t)
  case (Cons a ks)
  then show ?case by (cases t) (auto simp: ac_simps)
qed simp

lemma bio_bytes_le: "bio_bytes len \<le> PG" "bio_bytes len \<le> unat len"
  by (simp_all add: bio_bytes_def)

lemma lower_page:
  assumes "lower_ok ld" and "lower_transfer ld es ctx low = (st, page, low')" and "ioc_op ctx = REQ_OP_READ"
  shows "length page = PG"
proof (cases "ld_read ld (signed_drop_bit 9 (ioc_pos ctx)) (bio_bytes (ioc_len ctx)) low")
  case (Pair r low'')
  show ?thesis
  proof (cases r)
    case (Inr bs)
    then have "length bs = bio_bytes (ioc_len ctx)" using Pair assms(1) unfolding lower_ok_def by blast
    with Inr Pair assms(2,3) bio_bytes_le(1) [of "ioc_len ctx"] show ?thesis
      by (auto simp: lower_transfer_def Let_def)
  qed (use Pair assms(2,3) in \<open>auto simp: lower_transfer_def Let_def\<close>)
qed

text \<open>The start of an accepted request: a transfer for its first segment, or the end.\<close>

lemma dispatch_accepted:
  assumes "io_accepted lbs b rq"
  shows "\<exists>r. device_dispatch ld env (be_capacity b) (rq_sector rq * ucast lbs) rq b = Inr r \<and>
    (case in_flight r of None \<Rightarrow> io_ok lbs b (Io_done rq r) | Some ctx \<Rightarrow> io_ok lbs b (Io_flight rq ctx))"
proof (cases "rq_segs rq")
  case (Cons buf rest)
  let ?pos = "rq_sector rq * ucast lbs"
  have "unat ?pos + length buf \<le> unat (be_capacity b)" "unat (be_capacity b) < 2 ^ 63"
    using assms Cons rq_pos by (simp_all add: io_accepted_def)
  note c = clip_in [OF this(2,1)]
  have m: "mem_read buf 0 (bio_bytes (of_nat (length buf))) = Inr (take PG buf)"
    using c(2) by (auto simp: bio_bytes_def slice_def min_def)
  from assms Cons c(1,2) m show ?thesis
    by (cases "rq_op rq") (auto simp: device_dispatch_def Let_def start_async_def io_accepted_def data_op_def
      device_backend_read_async_def device_backend_write_async_def device_backend_flush_async_def)
qed (simp add: device_dispatch_def)

lemma complete_total:
  assumes "ioc_op ctx = REQ_OP_READ \<longrightarrow> unat (ioc_len ctx) = length buf \<and> length page = PG"
  shows "\<exists>buf' st'. device_backend_bio_complete st page buf ctx = Inr (buf', st')"
proof -
  have "bio_bytes (ioc_len ctx) \<le> length page" "bio_bytes (ioc_len ctx) \<le> length buf" if "ioc_op ctx = REQ_OP_READ"
    using assms that bio_bytes_le [of "ioc_len ctx"] by simp_all
  then show ?thesis by (auto simp: device_backend_bio_complete_def)
qed

lemma io_next_ok:
  assumes "io_inv ld lbs b s ks" and t: "t < length ks"
  shows "\<exists>k' s'. io_next ld es lbs b (ks ! t) s = Inr (k', s') \<and> io_inv ld lbs b s' (ks[t := k']) \<and> io_rq k' = io_rq (ks ! t)"
proof -
  have lo: "lower_ok ld" and ok: "\<And>k. k \<in> set ks \<Longrightarrow> io_ok lbs b k" and h: "io_hold s = all_held ks"
    using assms(1) by (simp_all add: io_inv_def)
  have inv: "io_inv ld lbs b s' (ks[t := k'])" if "io_ok lbs b k'" "io_hold s' + pc_held (ks ! t) = io_hold s + pc_held k'" for k' s'
  proof -
    have "io_ok lbs b k" if "k \<in> set (ks[t := k'])" for k using in_update_cases [OF t that] ok \<open>io_ok lbs b k'\<close> by blast
    moreover have "io_hold s' = all_held (ks[t := k'])" using all_held_update [OF t, of k'] that(2) h by (metis add_right_cancel)
    ultimately show ?thesis using lo by (simp add: io_inv_def)
  qed
  show ?thesis
  proof (cases "ks ! t")
    case (Io_start env rq)
    from ok [OF nth_mem [OF t]] Io_start dispatch_accepted [of lbs b rq ld env] obtain r where
      d: "device_dispatch ld env (be_capacity b) (rq_sector rq * ucast lbs) rq b = Inr r"
      "case in_flight r of None \<Rightarrow> io_ok lbs b (Io_done rq r) | Some ctx \<Rightarrow> io_ok lbs b (Io_flight rq ctx)" by auto
    let ?k = "case in_flight r of None \<Rightarrow> Io_done rq r | Some ctx \<Rightarrow> Io_flight rq ctx"
    have "io_inv ld lbs b (s\<lparr>io_hold := io_hold s + result_held r\<rparr>) (ks[t := ?k])"
      using d(2) Io_start by (intro inv) (auto simp: result_held_def split: option.splits)
    with Io_start d(1) show ?thesis by (auto simp: held_dispatch_refines split: option.splits)
  next
    case (Io_flight rq ctx)
    obtain st page low where l: "lower_transfer ld es ctx (io_low s) = (st, page, low)" by (cases "lower_transfer ld es ctx (io_low s)") blast
    have "io_inv ld lbs b (s\<lparr>io_low := low\<rparr>) (ks[t := Io_ready rq ctx st page])"
      using ok [OF nth_mem [OF t]] Io_flight lower_page [OF lo l] by (intro inv) auto
    with Io_flight l show ?thesis by simp
  next
    case (Io_ready rq ctx st page)
    with ok [OF nth_mem [OF t]] obtain buf rest where sg: "rq_segs rq = buf # rest"
      "ioc_op ctx = REQ_OP_READ \<longrightarrow> unat (ioc_len ctx) = length buf \<and> length page = PG" by auto
    from complete_total [OF sg(2)] obtain buf' st' where c: "device_backend_bio_complete st page buf ctx = Inr (buf', st')" by blast
    let ?k = "Io_done rq \<lparr>ended = [st'], segs_out = buf' # rest, in_flight = None\<rparr>"
    have H: "io_hold s = all_held (ks[t := ?k]) + ctx_held ctx" using all_held_update [OF t, of ?k] Io_ready h by simp
    then have "io_inv ld lbs b (s\<lparr>io_hold := all_held (ks[t := ?k])\<rparr>) (ks[t := ?k])"
      using Io_ready sg(1) by (intro inv) simp_all
    with Io_ready sg(1) c H show ?thesis by (simp add: held_bio_complete_add)
  next
    case (Io_done rq r)
    then have "ks[t := Io_done rq r] = ks" by (metis list_update_id)
    with Io_done assms(1) show ?thesis by simp
  qed
qed

interpretation io: wait_free "io_step ld es lbs b" io_rank "io_inv ld lbs b" for ld es lbs b
proof
  show "io_rank k' < io_rank k" if "io_step ld es lbs b k s k' s'" for k s k' s'
    using that by (cases k) (auto simp: io_step_def kres_simps split: option.splits list.splits prod.splits)
  show "io_inv ld lbs b s' (ks[t := k])" if "io_inv ld lbs b s ks" "t < length ks" "io_step ld es lbs b (ks ! t) s k s'" for s ks t k s'
    using io_next_ok [OF that(1,2), of es] that(3) by (auto simp: io_step_def)
  show "\<exists>k s'. io_step ld es lbs b (ks ! t) s k s'" if "io_inv ld lbs b s ks" "t < length ks" "0 < io_rank (ks ! t)" for s ks t
    using io_next_ok [OF that(1,2), of es] that(3) by (auto simp: io_step_def)
qed

section \<open>Properties\<close>

lemma io_start_inv:
  "lower_ok ld \<Longrightarrow> \<forall>(env, rq) \<in> set rqs. io_accepted lbs b rq \<Longrightarrow>
     io_inv ld lbs b \<lparr>io_low = low, io_hold = {#}\<rparr> (map (\<lambda>(env, rq). Io_start env rq) rqs)"
  by (induction rqs) (auto simp: io_inv_def all_held_def)

lemma io_reach_rq:
  assumes "par_reach (io_step ld es lbs b) (s0, ks0) (s, ks)" and "io_inv ld lbs b s0 ks0" and "t < length ks0"
  shows "io_rq (ks ! t) = io_rq (ks0 ! t)"
proof -
  have "io_rq k' = io_rq k" if "io_step ld es lbs b k s k' s'" for k s k' s'
    using that by (cases k) (auto simp: io_step_def kres_simps split: option.splits list.splits prod.splits)
  with par_reach_thread [OF assms(1), of io_rq t] assms(3) show ?thesis by simp
qed

text \<open>C11.  Requests on the device backend that run at the same time, with the lower device serving their bios in any
  order: no step touches memory that was freed or is outside a buffer and none waits for another; at every moment
  exactly the transfers in flight hold a context, a bio and, for data, a page and its mapping; after at most
  three steps for each request all have returned and nothing is held; and each request was ended once, those
  without a segment excepted, which are lost.\<close>

theorem async_transfers_balanced:
  assumes "lower_ok ld" and "\<forall>(env, rq) \<in> set rqs. io_accepted lbs b rq"
    and "(par_step (io_step ld es lbs b) ^^ n)
      (\<lparr>io_low = low, io_hold = {#}\<rparr>, map (\<lambda>(env, rq). Io_start env rq) rqs) (s, ks)"
  shows "n \<le> 3 * length rqs \<and> io_hold s = sum_list (map pc_held ks) \<and>
    (\<forall>t < length rqs. 0 < io_rank (ks ! t) \<longrightarrow> (\<exists>k s'. io_step ld es lbs b (ks ! t) s k s')) \<and>
    (all_done io_rank ks \<longrightarrow> io_hold s = {#} \<and>
       (\<forall>t < length rqs. \<exists>r. ks ! t = Io_done (snd (rqs ! t)) r \<and>
          length (ended r) = (if rq_segs (snd (rqs ! t)) = [] then 0 else 1)))"
proof -
  let ?ks = "map (\<lambda>(env, rq). Io_start env rq) rqs"
  note i0 = io_start_inv [OF assms(1,2), of low]
  have r: "par_reach (io_step ld es lbs b) (\<lparr>io_low = low, io_hold = {#}\<rparr>, ?ks) (s, ks)"
    using relpowp_imp_rtranclp [OF assms(3)] by (simp add: par_reach_def)
  note inv = io.inv_reach [OF r i0]
  have len: "length ks = length rqs" using par_reach_length [OF r] by simp
  have "rank_sum io_rank ?ks = 3 * length rqs" unfolding rank_sum_def by (induction rqs) auto
  with io.schedule_bound [OF assms(3)] have n: "n \<le> 3 * length rqs" by simp
  have fin: "\<exists>r. ks ! t = Io_done (snd (rqs ! t)) r \<and> length (ended r) = (if rq_segs (snd (rqs ! t)) = [] then 0 else 1)"
    if "all_done io_rank ks" "t < length rqs" for t
  proof -
    have "ks ! t \<in> set ks" using that(2) len by simp
    with that(1) inv have k: "io_rank (ks ! t) = 0" "io_ok lbs b (ks ! t)" by (simp_all add: all_done_def io_inv_def)
    moreover have "io_rq (ks ! t) = snd (rqs ! t)" using io_reach_rq [OF r i0, of t] that(2) by (simp add: split_def)
    ultimately show ?thesis by (cases "ks ! t") auto
  qed
  have "all_held ks = {#}" if "all_done io_rank ks"
  proof -
    have "pc_held k = {#}" if "io_rank k = 0" for k using that by (cases k) simp_all
    with that have "\<forall>x \<in> set (map pc_held ks). x = {#}" by (simp add: all_done_def)
    then show ?thesis unfolding all_held_def by (induction "map pc_held ks" arbitrary: ks) auto
  qed
  moreover have "io_hold s = sum_list (map pc_held ks)" using inv by (simp add: io_inv_def all_held_def)
  ultimately show ?thesis using n fin io.free_moves [OF inv, of _ es] len by (auto simp: all_held_def)
qed

lemma async_transfers_balanced_witness:
  "\<exists>k s'. io_step sample_lower (\<lambda>_. STS_IOERR) 512 (u_backend (sample_device BACKEND_DEVICE 8192))
     (Io_start sample_io (mk_rq REQ_OP_READ 1 [replicate 512 0])) \<lparr>io_low = (), io_hold = {#}\<rparr> k s'"
proof -
  let ?b = "u_backend (sample_device BACKEND_DEVICE 8192)" and ?rq = "mk_rq REQ_OP_READ 1 [replicate 512 0]"
  have "lower_ok sample_lower" by (auto simp: lower_ok_def sample_lower_def)
  moreover have "io_accepted 512 ?b ?rq"
    by (simp add: io_accepted_def rq_wf_def rq_byte_def data_op_def sample_device_def)
  ultimately show ?thesis
    using async_transfers_balanced [of sample_lower "[(sample_io, ?rq)]" 512 ?b 0 "\<lambda>_. STS_IOERR" "()"] by auto
qed

end
