(* ===== verification/Posix_Process.thy ===== *)
theory Posix_Process
  imports Kernel_Prelude "HOL-Library.Multiset"
begin

text \<open>
  The world of the command line client \<^verbatim>\<open>src/src/kvm_db.cc\<close>: a process with a descriptor table,
  the device nodes it sees, its \<open>errno\<close>, its standard output and its io\_uring instances.

  A C++ function is a function of the process that returns a value, throws (a
  \<open>std::filesystem_error\<close>) or aborts (a failed \<open>assert\<close>).  What the operating system decides is
  the argument \<open>K\<close>, a record of functions over a state of its own; the descriptor table and the
  nodes follow POSIX (the lowest free descriptor, no creation over an existing name).
  The ghost counter \<open>p_bad\<close> records descriptors or rings that are released without being held.
\<close>

section \<open>Programs\<close>

datatype 'a outcome = Val 'a | Throw errno | Abort

datatype ftype = S_IFCHR | S_IFBLK | S_IFREG

record inode =
  i_type :: ftype
  i_major :: nat
  i_minor :: nat
  i_mode :: u32

type_synonym open_file = "string \<times> inode"

record 'k proc =
  p_os :: 'k
  p_nodes :: "string \<rightharpoonup> inode"
  p_fds :: "open_file option list"
  p_errno :: errno
  p_out :: "string list"
  p_umask :: u32
  p_stack :: "byte list"
  p_rings :: nat
  p_bad :: nat

type_synonym ('k, 'a) io = "'k proc \<Rightarrow> 'a outcome \<times> 'k proc"

definition return :: "'a \<Rightarrow> ('k, 'a) io" where
  "return x p = (Val x, p)"

definition call :: "('k, 'a) io \<Rightarrow> ('a \<Rightarrow> ('k, 'b) io) \<Rightarrow> ('k, 'b) io" where
  "call m f p = (case m p of
       (Val x, q) \<Rightarrow> f x q
     | (Throw e, q) \<Rightarrow> (Throw e, q)
     | (Abort, q) \<Rightarrow> (Abort, q))"

definition try_catch :: "('k, 'a) io \<Rightarrow> (errno \<Rightarrow> ('k, 'a) io) \<Rightarrow> ('k, 'a) io" where
  "try_catch m h p = (case m p of
       (Throw e, q) \<Rightarrow> h e q
     | (Val x, q) \<Rightarrow> (Val x, q)
     | (Abort, q) \<Rightarrow> (Abort, q))"

text \<open>\<open>assert\<close>, compiled out when \<open>NDEBUG\<close> is defined.\<close>

definition cassert :: "bool \<Rightarrow> bool \<Rightarrow> ('k, unit) io" where
  "cassert NDEBUG b p = (if b \<or> NDEBUG then (Val (), p) else (Abort, p))"

abbreviation newline :: string where
  "newline \<equiv> [CHR 0x0A]"

definition print :: "string \<Rightarrow> ('k, unit) io" where
  "print s p = (Val (), p\<lparr>p_out := p_out p @ [s]\<rparr>)"

definition println :: "string \<Rightarrow> ('k, unit) io" where
  "println s = print (s @ newline)"

definition say :: "string \<Rightarrow> ('k, 'a) io \<Rightarrow> ('k, 'a) io" where
  "say s m = call (println s) (\<lambda>_. m)"

definition get_errno :: "('k, errno) io" where
  "get_errno p = (Val (p_errno p), p)"

text \<open>What an uninitialised local array holds.\<close>

definition stack_memory :: "('k, byte list) io" where
  "stack_memory p = (Val (p_stack p), p)"

section \<open>The operating system\<close>

datatype oflag = O_RDWR | O_RDONLY | O_NONBLOCK | O_CLOEXEC

text \<open>A prepared submission entry: the arguments of the \<open>io_uring_prep\<close> calls.\<close>

record sqe =
  sq_opcode :: u8
  sq_fd :: int
  sq_buf :: "byte list"
  sq_len :: u32
  sq_off :: u64
  sq_async :: bool
  sq_datasync :: bool

text \<open>
  Decisions of the operating system: \<open>None\<close> is success where a call returns no value, and a
  completion is an error or a count, with the bytes that were stored in the caller's buffer.
\<close>

record 'k kernel =
  k_euid :: "'k \<Rightarrow> nat"
  k_strerror :: "errno \<Rightarrow> string"
  k_lookup :: "string \<Rightarrow> 'k \<Rightarrow> errno option \<times> 'k"
  k_open :: "open_file \<Rightarrow> oflag list \<Rightarrow> 'k \<Rightarrow> errno option \<times> 'k"
  k_close :: "open_file \<Rightarrow> 'k \<Rightarrow> errno option \<times> 'k"
  k_mknod :: "string \<Rightarrow> 'k \<Rightarrow> errno option \<times> 'k"
  k_unlink :: "string \<Rightarrow> 'k \<Rightarrow> errno option \<times> 'k"
  k_read :: "open_file \<Rightarrow> nat \<Rightarrow> 'k \<Rightarrow> (errno + byte list) \<times> 'k"
  k_write :: "open_file \<Rightarrow> byte list \<Rightarrow> 'k \<Rightarrow> (errno + nat) \<times> 'k"
  k_ioctl :: "open_file \<Rightarrow> u32 \<Rightarrow> int \<Rightarrow> 'k \<Rightarrow> (errno + int) \<times> 'k"
  k_getline :: "string \<Rightarrow> 'k \<Rightarrow> (errno + string) \<times> 'k"
  k_ring_init :: "bool \<Rightarrow> 'k \<Rightarrow> errno option \<times> 'k"
  k_get_sqe :: "'k \<Rightarrow> bool"
  k_submit :: "bool \<Rightarrow> open_file option \<Rightarrow> sqe \<Rightarrow> 'k \<Rightarrow> errno option \<times> 'k"
  k_wait :: "'k \<Rightarrow> (errno + (errno + nat) \<times> byte list) \<times> 'k"

definition fail_with :: "errno option \<Rightarrow> 'k proc \<Rightarrow> 'k proc" where
  "fail_with r p = (case r of None \<Rightarrow> p | Some e \<Rightarrow> p\<lparr>p_errno := e\<rparr>)"

section \<open>System calls\<close>

text \<open>The lowest free descriptor.\<close>

fun alloc_fd :: "'a \<Rightarrow> 'a option list \<Rightarrow> nat \<times> 'a option list" where
  "alloc_fd x [] = (0, [Some x])"
| "alloc_fd x (None # t) = (0, Some x # t)"
| "alloc_fd x (Some y # t) = (let (n, t') = alloc_fd x t in (Suc n, Some y # t'))"

definition fd_file :: "int \<Rightarrow> 'k proc \<Rightarrow> open_file option" where
  "fd_file fd p = (if 0 \<le> fd \<and> nat fd < length (p_fds p) then p_fds p ! nat fd else None)"

definition sys_stat :: "'k kernel \<Rightarrow> string \<Rightarrow> ('k, inode option) io" where
  "sys_stat K path p =
     (case k_lookup K path (p_os p) of
        (Some e, os) \<Rightarrow> (Val None, p\<lparr>p_os := os, p_errno := e\<rparr>)
      | (None, os) \<Rightarrow>
          (case p_nodes p path of
             None \<Rightarrow> (Val None, p\<lparr>p_os := os, p_errno := ENOENT\<rparr>)
           | Some i \<Rightarrow> (Val (Some i), p\<lparr>p_os := os\<rparr>)))"

text \<open>\<open>std::filesystem::exists\<close> and \<open>remove\<close>: errors other than a missing file are thrown.\<close>

definition fs_exists :: "'k kernel \<Rightarrow> string \<Rightarrow> ('k, bool) io" where
  "fs_exists K path = call (sys_stat K path) (\<lambda>r. case r of
       Some _ \<Rightarrow> return True
     | None \<Rightarrow> call get_errno (\<lambda>e p.
         if e = ENOENT \<or> e = ENOTDIR then (Val False, p) else (Throw e, p)))"

definition sys_unlink :: "'k kernel \<Rightarrow> string \<Rightarrow> ('k, bool) io" where
  "sys_unlink K path p =
     (case p_nodes p path of
        None \<Rightarrow> (Val False, p\<lparr>p_errno := ENOENT\<rparr>)
      | Some i \<Rightarrow>
          (case k_unlink K path (p_os p) of
             (Some e, os) \<Rightarrow> (Val False, p\<lparr>p_os := os, p_errno := e\<rparr>)
           | (None, os) \<Rightarrow> (Val True, p\<lparr>p_os := os, p_nodes := (p_nodes p)(path := None)\<rparr>)))"

definition fs_remove :: "'k kernel \<Rightarrow> string \<Rightarrow> ('k, bool) io" where
  "fs_remove K path = call (sys_unlink K path) (\<lambda>ok.
     if ok then return True
     else call get_errno (\<lambda>e p. if e = ENOENT then (Val False, p) else (Throw e, p)))"

definition sys_mknod :: "'k kernel \<Rightarrow> string \<Rightarrow> ftype \<Rightarrow> u32 \<Rightarrow> nat \<times> nat \<Rightarrow> ('k, bool) io" where
  "sys_mknod K path ty mode dev p =
     (case p_nodes p path of
        Some i \<Rightarrow> (Val False, p\<lparr>p_errno := EEXIST\<rparr>)
      | None \<Rightarrow>
          (case k_mknod K path (p_os p) of
             (Some e, os) \<Rightarrow> (Val False, p\<lparr>p_os := os, p_errno := e\<rparr>)
           | (None, os) \<Rightarrow>
               (Val True, p\<lparr>p_os := os, p_nodes := (p_nodes p)(path \<mapsto>
                  \<lparr>i_type = ty, i_major = fst dev, i_minor = snd dev,
                   i_mode = mode AND NOT (p_umask p)\<rparr>)\<rparr>)))"

definition sys_open :: "'k kernel \<Rightarrow> string \<Rightarrow> oflag list \<Rightarrow> ('k, int) io" where
  "sys_open K path flags = call (sys_stat K path) (\<lambda>r p.
     case r of
       None \<Rightarrow> (Val (- 1), p)
     | Some i \<Rightarrow>
         (case k_open K (path, i) flags (p_os p) of
            (Some e, os) \<Rightarrow> (Val (- 1), p\<lparr>p_os := os, p_errno := e\<rparr>)
          | (None, os) \<Rightarrow>
              (let (n, t) = alloc_fd (path, i) (p_fds p)
               in (Val (int n), p\<lparr>p_os := os, p_fds := t\<rparr>))))"

text \<open>\<open>close\<close> frees the descriptor even when it reports an error; a descriptor that is not open counts as bad.\<close>

definition sys_close :: "'k kernel \<Rightarrow> int \<Rightarrow> ('k, unit) io" where
  "sys_close K fd p =
     (case fd_file fd p of
        None \<Rightarrow> (Val (), p\<lparr>p_errno := EBADF, p_bad := Suc (p_bad p)\<rparr>)
      | Some f \<Rightarrow>
          (let (r, os) = k_close K f (p_os p)
           in (Val (), fail_with r (p\<lparr>p_os := os, p_fds := (p_fds p)[nat fd := None]\<rparr>))))"

definition on_file :: "int \<Rightarrow> (open_file \<Rightarrow> 'k \<Rightarrow> (errno + 'a) \<times> 'k) \<Rightarrow> ('k, 'a option) io" where
  "on_file fd f p =
     (case fd_file fd p of
        None \<Rightarrow> (Val None, p\<lparr>p_errno := EBADF\<rparr>)
      | Some fl \<Rightarrow>
          (case f fl (p_os p) of
             (Inl e, os) \<Rightarrow> (Val None, p\<lparr>p_os := os, p_errno := e\<rparr>)
           | (Inr x, os) \<Rightarrow> (Val (Some x), p\<lparr>p_os := os\<rparr>)))"

text \<open>The result \<open>None\<close> is the return value \<open>-1\<close>, with \<open>errno\<close> set.\<close>

definition sys_read :: "'k kernel \<Rightarrow> int \<Rightarrow> nat \<Rightarrow> ('k, byte list option) io" where
  "sys_read K fd n = on_file fd (\<lambda>f. k_read K f n)"

definition sys_write :: "'k kernel \<Rightarrow> int \<Rightarrow> byte list \<Rightarrow> ('k, nat option) io" where
  "sys_write K fd bs = on_file fd (\<lambda>f. k_write K f bs)"

definition sys_ioctl :: "'k kernel \<Rightarrow> int \<Rightarrow> u32 \<Rightarrow> int \<Rightarrow> ('k, int option) io" where
  "sys_ioctl K fd cmd arg = on_file fd (\<lambda>f. k_ioctl K f cmd arg)"

text \<open>Reading the first line of a text file through \<open>std::ifstream\<close>.\<close>

definition read_line :: "'k kernel \<Rightarrow> string \<Rightarrow> ('k, string option) io" where
  "read_line K path p =
     (case k_getline K path (p_os p) of
        (Inl e, os) \<Rightarrow> (Val None, p\<lparr>p_os := os, p_errno := e\<rparr>)
      | (Inr s, os) \<Rightarrow> (Val (Some s), p\<lparr>p_os := os\<rparr>))"

section \<open>Rings\<close>

definition ring_init :: "'k kernel \<Rightarrow> bool \<Rightarrow> ('k, errno option) io" where
  "ring_init K iopoll p =
     (case k_ring_init K iopoll (p_os p) of
        (Some e, os) \<Rightarrow> (Val (Some e), p\<lparr>p_os := os\<rparr>)
      | (None, os) \<Rightarrow> (Val None, p\<lparr>p_os := os, p_rings := Suc (p_rings p)\<rparr>))"

definition ring_exit :: "('k, unit) io" where
  "ring_exit p =
     (case p_rings p of
        0 \<Rightarrow> (Val (), p\<lparr>p_bad := Suc (p_bad p)\<rparr>)
      | Suc n \<Rightarrow> (Val (), p\<lparr>p_rings := n\<rparr>))"

definition ring_get_sqe :: "'k kernel \<Rightarrow> ('k, bool) io" where
  "ring_get_sqe K p = (Val (k_get_sqe K (p_os p)), p)"

definition ring_submit :: "'k kernel \<Rightarrow> bool \<Rightarrow> sqe \<Rightarrow> ('k, errno option) io" where
  "ring_submit K iopoll s p =
     (let (r, os) = k_submit K iopoll (fd_file (sq_fd s) p) s (p_os p)
      in (Val r, p\<lparr>p_os := os\<rparr>))"

definition ring_wait :: "'k kernel \<Rightarrow> ('k, errno + (errno + nat) \<times> byte list) io" where
  "ring_wait K p = (let (r, os) = k_wait K (p_os p) in (Val r, p\<lparr>p_os := os\<rparr>))"

section \<open>Running programs\<close>

named_theorems run_simps \<open>running a program in a process\<close>

definition printed :: "string \<Rightarrow> 'k proc \<Rightarrow> 'k proc" where
  "printed s p = p\<lparr>p_out := p_out p @ [s]\<rparr>"

lemma printed_fields [simp]:
  "p_nodes (printed s p) = p_nodes p" "p_umask (printed s p) = p_umask p" "p_fds (printed s p) = p_fds p"
  "p_os (printed s p) = p_os p" "p_errno (printed s p) = p_errno p" "p_rings (printed s p) = p_rings p"
  "p_bad (printed s p) = p_bad p" "p_stack (printed s p) = p_stack p"
  "p_out (printed s p) = p_out p @ [s]"
  by (simp_all add: printed_def)

lemma fd_file_printed [simp]: "fd_file fd (printed s p) = fd_file fd p"
  by (simp add: fd_file_def)

lemma run_return [run_simps]: "return x p = (Val x, p)"
  by (simp add: return_def)

lemma run_print [run_simps]: "print s p = (Val (), printed s p)"
  by (simp add: print_def printed_def)

lemma run_println [run_simps]: "println s p = (Val (), printed (s @ newline) p)"
  by (simp add: println_def run_simps)

lemma run_call [run_simps]: "m p = (Val x, q) \<Longrightarrow> call m f p = f x q"
  by (simp add: call_def)

lemma run_call_Throw [run_simps]: "m p = (Throw e, q) \<Longrightarrow> call m f p = (Throw e, q)"
  by (simp add: call_def)

lemma run_say [run_simps]: "say s m p = m (printed (s @ newline) p)"
  by (simp add: say_def run_simps)

lemma run_get_errno [run_simps]: "get_errno p = (Val (p_errno p), p)"
  by (simp add: get_errno_def)

end
