(* ===== verification/Posix_Ownership.thy ===== *)
theory Posix_Ownership
  imports Posix_Process
begin

text \<open>
  Ownership of descriptors and rings.  The resources of a process are a multiset; a program that
  starts with \<open>X\<close> beside any frame \<open>F\<close> ends with what its result owns beside the same frame.
  An exception or abort may strand resources of its own, but never touches the frame.  The rules
  follow the shape of programs; \<open>io_rules\<close> collects them.
\<close>

datatype resource = Descriptor int | Ring

definition open_fds :: "'k proc \<Rightarrow> int set" where
  "open_fds p = {fd. fd_file fd p \<noteq> None}"

definition held :: "'k proc \<Rightarrow> resource multiset" where
  "held p = image_mset Descriptor (mset_set (open_fds p)) + replicate_mset (p_rings p) Ring"

definition transfers :: "resource multiset \<Rightarrow> ('k, 'a) io \<Rightarrow> ('a \<Rightarrow> resource multiset) \<Rightarrow> bool" where
  "transfers X m Y \<longleftrightarrow> (\<forall>p F. held p = F + X \<longrightarrow>
     p_bad (snd (m p)) = p_bad p \<and>
     (case fst (m p) of
        Val r \<Rightarrow> held (snd (m p)) = F + Y r
      | Throw e \<Rightarrow> F \<subseteq># held (snd (m p))
      | Abort \<Rightarrow> F \<subseteq># held (snd (m p))))"

text \<open>The resources of a descriptor variable, where \<open>-1\<close> (any negative value) is none.\<close>

definition fd_res :: "int \<Rightarrow> resource multiset" where
  "fd_res fd = (if 0 \<le> fd then {#Descriptor fd#} else {#})"

lemma fd_res_neg [simp]: "fd < 0 \<Longrightarrow> fd_res fd = {#}"
  by (simp add: fd_res_def)

named_theorems io_rules \<open>transfer rules of programs\<close>

section \<open>Rules\<close>

lemma transfersD:
  assumes "transfers X m Y" and "held p = F + X"
  shows "p_bad (snd (m p)) = p_bad p"
    and "fst (m p) = Val r \<Longrightarrow> held (snd (m p)) = F + Y r"
    and "fst (m p) = Throw e \<Longrightarrow> F \<subseteq># held (snd (m p))"
    and "fst (m p) = Abort \<Longrightarrow> F \<subseteq># held (snd (m p))"
  using assms unfolding transfers_def by fastforce+

lemma transfersI:
  assumes "\<And>p F. held p = F + X \<Longrightarrow> p_bad (snd (m p)) = p_bad p"
    and "\<And>p F r. held p = F + X \<Longrightarrow> fst (m p) = Val r \<Longrightarrow> held (snd (m p)) = F + Y r"
    and "\<And>p F. held p = F + X \<Longrightarrow> \<forall>r. fst (m p) \<noteq> Val r \<Longrightarrow> F \<subseteq># held (snd (m p))"
  shows "transfers X m Y"
  using assms unfolding transfers_def by (fastforce split: outcome.splits)

lemma transfers_return [io_rules]: "X = Y x \<Longrightarrow> transfers X (return x) Y"
  by (rule transfersI) (simp_all add: return_def)

lemma transfers_call:
  fixes m :: "('k, 'a) io"
  assumes m: "transfers X m Y" and f: "\<And>r. transfers (Y r) (f r) Z"
  shows "transfers X (call m f) Z"
  unfolding transfers_def
proof (intro allI impI)
  fix p :: "'k proc" and F assume h: "held p = F + X"
  obtain r q where mp: "m p = (r, q)" by (cases "m p")
  note d = transfersD [OF m h, unfolded mp fst_conv snd_conv]
  show "p_bad (snd (call m f p)) = p_bad p \<and>
     (case fst (call m f p) of Val r \<Rightarrow> held (snd (call m f p)) = F + Z r
      | Throw e \<Rightarrow> F \<subseteq># held (snd (call m f p)) | Abort \<Rightarrow> F \<subseteq># held (snd (call m f p)))"
  proof (cases r)
    case (Val x)
    from d(2) [OF Val] have "held q = F + Y x" .
    moreover have c: "call m f p = f x q" using Val mp by (simp add: call_def)
    ultimately show ?thesis using f [of x] d(1) unfolding transfers_def c by simp
  qed (use d mp in \<open>simp_all add: call_def\<close>)
qed

lemma transfers_frame:
  fixes m :: "('k, 'a) io"
  assumes t: "transfers X m Y"
  shows "transfers (X + Z) m (\<lambda>r. Y r + Z)"
proof (rule transfersI)
  fix p :: "'k proc" and F assume h: "held p = F + (X + Z)"
  then have h': "held p = (F + Z) + X" by (simp add: ac_simps)
  note d = transfersD [OF t h']
  show "p_bad (snd (m p)) = p_bad p" by (rule d(1))
  show "held (snd (m p)) = F + (Y r + Z)" if "fst (m p) = Val r" for r
    using d(2) [OF that] by (simp add: ac_simps)
  show "F \<subseteq># held (snd (m p))" if "\<forall>r. fst (m p) \<noteq> Val r"
    using d(3,4) that by (cases "fst (m p)") (auto dest: mset_subset_eq_exists_conv [THEN iffD1] intro: subset_mset.order_trans [OF mset_subset_eq_add_left])
qed

lemma transfers_weaken: "transfers X m Y \<Longrightarrow> (\<And>r. Y r = Y' r) \<Longrightarrow> transfers X m Y'"
  by (auto simp: transfers_def split: outcome.splits)

lemma transfers_cong: "X = X' \<Longrightarrow> transfers X' m Y \<Longrightarrow> transfers X m Y"
  by simp

text \<open>A program that owns nothing runs beside what its caller owns.\<close>

abbreviation neutral :: "('k, 'a) io \<Rightarrow> bool" where
  "neutral m \<equiv> transfers {#} m (\<lambda>_. {#})"

lemma transfers_neutral: "neutral m \<Longrightarrow> transfers X m (\<lambda>_. X)"
  using transfers_frame [of "{#}" m "\<lambda>_. {#}" X] by simp

lemma call_neutral [io_rules]:
  "neutral m \<Longrightarrow> (\<And>r. transfers X (f r) Z) \<Longrightarrow> transfers X (call m f) Z"
  by (rule transfers_call [OF transfers_neutral])

text \<open>The callee consumes the part \<open>A\<close> of what the caller owns and gives back the part \<open>B\<close>.\<close>

lemma call_part:
  assumes "transfers A m B" and "X = A + R" and "\<And>r. transfers (B r + R) (f r) Z"
  shows "transfers X (call m f) Z"
  using transfers_call [OF transfers_frame [OF assms(1)] assms(3)] assms(2) by simp

lemma transfers_if [io_rules]:
  "(b \<Longrightarrow> transfers X m Y) \<Longrightarrow> (\<not> b \<Longrightarrow> transfers X n Y) \<Longrightarrow> transfers X (if b then m else n) Y"
  by simp

lemma transfers_option [io_rules]:
  "(r = None \<Longrightarrow> transfers X m Y) \<Longrightarrow> (\<And>x. r = Some x \<Longrightarrow> transfers X (f x) Y) \<Longrightarrow>
     transfers X (case r of None \<Rightarrow> m | Some x \<Rightarrow> f x) Y"
  by (cases r) simp_all

lemma transfers_sum [io_rules]:
  "(\<And>x. r = Inl x \<Longrightarrow> transfers X (f x) Y) \<Longrightarrow> (\<And>x. r = Inr x \<Longrightarrow> transfers X (g x) Y) \<Longrightarrow>
     transfers X (case r of Inl x \<Rightarrow> f x | Inr x \<Rightarrow> g x) Y"
  by (cases r) simp_all

lemma transfers_prod [io_rules]:
  "(\<And>x y. r = (x, y) \<Longrightarrow> transfers X (f x y) Y) \<Longrightarrow> transfers X (case r of (x, y) \<Rightarrow> f x y) Y"
  by (cases r) simp

section \<open>Programs that change neither descriptors nor rings\<close>

lemma held_cong: "p_fds q = p_fds p \<Longrightarrow> p_rings q = p_rings p \<Longrightarrow> held q = held p"
  by (simp add: held_def open_fds_def fd_file_def)

lemma neutralI:
  assumes "\<And>p. p_fds (snd (m p)) = p_fds p" and "\<And>p. p_rings (snd (m p)) = p_rings p"
    and "\<And>p. p_bad (snd (m p)) = p_bad p"
  shows "neutral m"
  by (rule transfersI) (use assms in \<open>simp_all add: held_cong [of "snd (m p)" p for p]\<close>)

lemma neutral_print [io_rules]: "neutral (print s)"
  by (rule neutralI) (simp_all add: print_def)

lemma neutral_println [io_rules]: "neutral (println s)"
  by (simp add: println_def io_rules)

lemma transfers_say [io_rules]: "transfers X m Y \<Longrightarrow> transfers X (say s m) Y"
  unfolding say_def by (intro io_rules)

lemma neutral_get_errno [io_rules]: "neutral get_errno"
  by (rule neutralI) (simp_all add: get_errno_def)

lemma neutral_stack_memory [io_rules]: "neutral stack_memory"
  by (rule neutralI) (simp_all add: stack_memory_def)

lemma neutral_cassert [io_rules]: "neutral (cassert ND b)"
  by (rule neutralI) (simp_all add: cassert_def)

lemma neutral_sys_stat [io_rules]: "neutral (sys_stat K path)"
  by (rule neutralI) (simp_all add: sys_stat_def split: prod.splits option.splits)

lemma neutral_throwing [io_rules]: "neutral (\<lambda>p. if b then (Val x, p) else (Throw e, p))"
  by (rule neutralI) simp_all

lemma neutral_fs_exists [io_rules]: "neutral (fs_exists K path)"
  unfolding fs_exists_def by (intro io_rules) simp

lemma neutral_sys_unlink [io_rules]: "neutral (sys_unlink K path)"
  by (rule neutralI) (simp_all add: sys_unlink_def split: prod.splits option.splits)

lemma neutral_fs_remove [io_rules]: "neutral (fs_remove K path)"
  unfolding fs_remove_def by (intro io_rules) simp

lemma neutral_sys_mknod [io_rules]: "neutral (sys_mknod K path ty mode dev)"
  by (rule neutralI) (simp_all add: sys_mknod_def split: prod.splits option.splits)

lemma neutral_on_file [io_rules]: "neutral (on_file fd f)"
  by (rule neutralI) (simp_all add: on_file_def split: prod.splits option.splits sum.splits)

lemma neutral_files [io_rules]:
  "neutral (sys_read K fd n)" "neutral (sys_write K fd bs)" "neutral (sys_ioctl K fd cmd arg)"
  by (simp_all add: sys_read_def sys_write_def sys_ioctl_def io_rules)

lemma neutral_read_line [io_rules]: "neutral (read_line K path)"
  by (rule neutralI) (simp_all add: read_line_def split: prod.splits sum.splits)

lemma neutral_ring [io_rules]:
  "neutral (ring_get_sqe K)" "neutral (ring_submit K io s)" "neutral (ring_wait K)"
  by (rule neutralI; simp add: ring_get_sqe_def ring_submit_def ring_wait_def split: prod.splits)+

section \<open>Opening and closing\<close>

lemma finite_open_fds [simp]: "finite (open_fds p)"
proof (rule finite_subset)
  show "open_fds p \<subseteq> int ` {..<length (p_fds p)}"
    by (auto simp: open_fds_def fd_file_def image_iff intro!: bexI [of _ "nat _"] split: if_splits)
qed simp

lemma alloc_fd_spec:
  "alloc_fd x t = (n, t') \<Longrightarrow> (n < length t \<longrightarrow> t ! n = None) \<and> n < length t' \<and> t' ! n = Some x \<and>
     (\<forall>i. i \<noteq> n \<longrightarrow> (if i < length t' then t' ! i else None) = (if i < length t then t ! i else None))"
proof (induction x t arbitrary: n t' rule: alloc_fd.induct)
  case (3 x y t)
  obtain m u where a: "alloc_fd x t = (m, u)" by (cases "alloc_fd x t")
  with 3 have n: "n = Suc m" "t' = Some y # u" by simp_all
  from 3(1) [OF a] show ?case unfolding n by (auto simp: nth_Cons split: nat.splits)
qed (auto simp: nth_Cons split: nat.splits)

lemma fd_file_alloc:
  assumes "alloc_fd x (p_fds p) = (n, t)"
  shows "fd_file (int n) p = None"
    and "fd_file fd (p\<lparr>p_fds := t\<rparr>) = (if fd = int n then Some x else fd_file fd p)"
proof -
  note s = alloc_fd_spec [OF assms]
  show "fd_file (int n) p = None" using s by (simp add: fd_file_def)
  show "fd_file fd (p\<lparr>p_fds := t\<rparr>) = (if fd = int n then Some x else fd_file fd p)"
  proof (cases "0 \<le> fd \<and> nat fd \<noteq> n")
    case True
    with s have "(if nat fd < length t then t ! nat fd else None) =
      (if nat fd < length (p_fds p) then p_fds p ! nat fd else None)" by blast
    with True show ?thesis by (auto simp: fd_file_def split: if_splits)
  qed (use s in \<open>auto simp: fd_file_def\<close>)
qed

lemma open_fds_alloc:
  assumes "alloc_fd x (p_fds p) = (n, t)"
  shows "int n \<notin> open_fds p" and "open_fds (p\<lparr>p_fds := t\<rparr>) = insert (int n) (open_fds p)"
  using fd_file_alloc [OF assms] by (auto simp: open_fds_def)

lemma held_alloc:
  assumes "alloc_fd x (p_fds p) = (n, t)" and "p_fds q = t" and "p_rings q = p_rings p"
  shows "held q = held p + fd_res (int n)"
proof -
  from assms have "held q = held (p\<lparr>p_fds := t\<rparr>)" by (intro held_cong) simp_all
  with open_fds_alloc [OF assms(1)] show ?thesis
    by (simp add: held_def fd_res_def)
qed

lemma transfers_sys_open [io_rules]: "transfers {#} (sys_open K path flags) fd_res"
  unfolding sys_open_def
proof (intro call_neutral io_rules)
  fix r
  show "transfers {#} (\<lambda>p. case r of None \<Rightarrow> (Val (- 1), p)
     | Some i \<Rightarrow> (case k_open K (path, i) flags (p_os p) of
            (Some e, os) \<Rightarrow> (Val (- 1), p\<lparr>p_os := os, p_errno := e\<rparr>)
          | (None, os) \<Rightarrow> (let (n, t) = alloc_fd (path, i) (p_fds p)
               in (Val (int n), p\<lparr>p_os := os, p_fds := t\<rparr>)))) fd_res"
    by (rule transfersI)
      (auto split: option.splits prod.splits intro: held_cong held_alloc)
qed

lemma held_close:
  assumes "fd_file fd p = Some f" and "p_fds q = (p_fds p)[nat fd := None]" and "p_rings q = p_rings p"
  shows "held p = held q + fd_res fd"
proof -
  have fd: "0 \<le> fd" "nat fd < length (p_fds p)" using assms(1) by (auto simp: fd_file_def split: if_splits)
  have "fd_file x q = (if x = fd then None else fd_file x p)" for x
    using fd assms(2) by (auto simp: fd_file_def nth_list_update nat_eq_iff)
  then have "open_fds q = open_fds p - {fd}" and "fd \<in> open_fds p"
    using assms(1) by (auto simp: open_fds_def)
  then have "open_fds p = insert fd (open_fds q)" and "fd \<notin> open_fds q" by auto
  with fd assms(3) show ?thesis by (simp add: held_def fd_res_def)
qed

lemma held_open: "held p = F + {#Descriptor fd#} \<Longrightarrow> fd_file fd p \<noteq> None"
proof -
  assume "held p = F + {#Descriptor fd#}"
  then have "Descriptor fd \<in># held p" by simp
  then have "fd \<in> open_fds p" by (auto simp: held_def split: if_splits)
  then show ?thesis by (simp add: open_fds_def)
qed

lemma fail_with_fields [simp]:
  "p_fds (fail_with r p) = p_fds p" "p_rings (fail_with r p) = p_rings p"
  "p_bad (fail_with r p) = p_bad p" "p_nodes (fail_with r p) = p_nodes p"
  "p_out (fail_with r p) = p_out p" "p_os (fail_with r p) = p_os p"
  by (simp_all add: fail_with_def split: option.splits)

lemma transfers_sys_close:
  fixes K :: "'k kernel"
  assumes fd: "0 \<le> fd"
  shows "transfers (fd_res fd) (sys_close K fd) (\<lambda>_. {#})"
proof (rule transfersI)
  fix p :: "'k proc" and F assume h: "held p = F + fd_res fd"
  with fd have "fd_file fd p \<noteq> None" by (intro held_open) (simp add: fd_res_def)
  then obtain f where f: "fd_file fd p = Some f" by blast
  then show "p_bad (snd (sys_close K fd p)) = p_bad p"
    by (simp add: sys_close_def split: prod.splits)
  show "held (snd (sys_close K fd p)) = F + {#}"
    using f h held_close [OF f, of "snd (sys_close K fd p)"] fd
    by (simp add: sys_close_def split: prod.splits)
  show "F \<subseteq># held (snd (sys_close K fd p))" if "\<forall>r. fst (sys_close K fd p) \<noteq> Val r"
    using f that by (simp add: sys_close_def split: prod.splits)
qed

lemma close_fd_transfers: "transfers (fd_res fd) (if 0 \<le> fd then sys_close K fd else return ()) (\<lambda>_. {#})"
  by (simp add: transfers_sys_close transfers_return)

lemma transfers_ring_init:
  "transfers {#} (ring_init K io) (\<lambda>r. if r = None then {#Ring#} else {#})"
  by (rule transfersI)
    (auto simp: ring_init_def held_def open_fds_def fd_file_def split: option.splits prod.splits)

lemma transfers_ring_exit: "transfers {#Ring#} ring_exit (\<lambda>_. {#})"
proof (rule transfersI)
  fix p :: "'k proc" and F assume h: "held p = F + {#Ring#}"
  have "Ring \<in># held p" using h by simp
  then obtain n where n: "p_rings p = Suc n" by (cases "p_rings p") (auto simp: held_def)
  then show "p_bad (snd (ring_exit p)) = p_bad p" by (simp add: ring_exit_def)
  show "held (snd (ring_exit p)) = F + {#}"
  proof -
    have "open_fds (p\<lparr>p_rings := n\<rparr>) = open_fds p" by (simp add: open_fds_def fd_file_def)
    then show ?thesis using h n by (simp add: ring_exit_def held_def)
  qed
  show "F \<subseteq># held (snd (ring_exit p))" if "\<forall>r. fst (ring_exit p) \<noteq> Val r"
    using n that by (simp add: ring_exit_def)
qed

section \<open>Programs that neither throw nor abort\<close>

definition returns :: "('k, 'a) io \<Rightarrow> bool" where
  "returns m \<longleftrightarrow> (\<forall>p. \<exists>r q. m p = (Val r, q))"

named_theorems ret_rules \<open>programs that return\<close>

lemma returnsI: "(\<And>p. \<exists>r q. m p = (Val r, q)) \<Longrightarrow> returns m"
  by (simp add: returns_def)

lemma returnsE: assumes "returns m" obtains r q where "m p = (Val r, q)"
  using assms unfolding returns_def by blast

lemma returns_return [ret_rules]: "returns (return x)"
  by (rule returnsI) (simp add: return_def)

lemma returns_call [ret_rules]: "returns m \<Longrightarrow> (\<And>r. returns (f r)) \<Longrightarrow> returns (call m f)"
  by (auto simp: returns_def call_def split: prod.splits outcome.splits) (metis Pair_inject outcome.distinct)+

lemma returns_say [ret_rules]: "returns m \<Longrightarrow> returns (say s m)"
  by (simp add: say_def println_def print_def returns_def call_def)

lemma returns_if [ret_rules]: "(b \<Longrightarrow> returns m) \<Longrightarrow> (\<not> b \<Longrightarrow> returns n) \<Longrightarrow> returns (if b then m else n)"
  by simp

lemma returns_option [ret_rules]:
  "(r = None \<Longrightarrow> returns m) \<Longrightarrow> (\<And>x. r = Some x \<Longrightarrow> returns (f x)) \<Longrightarrow> returns (case r of None \<Rightarrow> m | Some x \<Rightarrow> f x)"
  by (cases r) simp_all

lemma returns_sum [ret_rules]:
  "(\<And>x. r = Inl x \<Longrightarrow> returns (f x)) \<Longrightarrow> (\<And>x. r = Inr x \<Longrightarrow> returns (g x)) \<Longrightarrow>
     returns (case r of Inl x \<Rightarrow> f x | Inr x \<Rightarrow> g x)"
  by (cases r) simp_all

lemma returns_prod [ret_rules]:
  "(\<And>x y. r = (x, y) \<Longrightarrow> returns (f x y)) \<Longrightarrow> returns (case r of (x, y) \<Rightarrow> f x y)"
  by (cases r) simp

lemma returns_basic [ret_rules]:
  "returns (print s)" "returns (println s)" "returns get_errno" "returns stack_memory"
  "returns (sys_stat K path)" "returns (sys_unlink K path)" "returns (sys_mknod K path ty mode dev)"
  "returns (sys_close K fd)" "returns (on_file fd f)" "returns (read_line K path)"
  "returns (ring_init K io)" "returns ring_exit" "returns (ring_get_sqe K)" "returns (ring_submit K io sq)"
  "returns (ring_wait K)"
  by (auto simp: returns_def println_def print_def get_errno_def stack_memory_def sys_stat_def sys_unlink_def
      sys_mknod_def sys_close_def on_file_def read_line_def ring_init_def ring_exit_def
      ring_get_sqe_def ring_submit_def ring_wait_def
      split: prod.splits option.splits sum.splits nat.splits)

lemma returns_sys_open [ret_rules]: "returns (sys_open K path flags)"
  unfolding sys_open_def
  by (rule returns_call [OF returns_basic(5)]) (auto simp: returns_def split: prod.splits option.splits)

lemma returns_files [ret_rules]:
  "returns (sys_read K fd n)" "returns (sys_write K fd bs)" "returns (sys_ioctl K fd cmd arg)"
  by (simp_all add: sys_read_def sys_write_def sys_ioctl_def ret_rules)

end
