(* ===== verification/Client_Format.thy ===== *)
theory Client_Format
  imports Uring_Cmd
begin

text \<open>
  The structures of \<^verbatim>\<open>src/include/uringblk_uapi.h\<close> as the client reads them from a packed
  little-endian buffer, and the text functions at the end of \<^verbatim>\<open>src/src/kvm_uringblk.cc\<close>.  The
  conversions of \<open>std::format\<close> are written out: decimal and padded hexadecimal numbers, and
  \<open>{:.2f}\<close> on the doubles the code computes (a conversion of an unsigned integer, rounded to 53
  bits, and exact scalings by powers of two).
\<close>

section \<open>Packed structures\<close>

record uringblk_ucmd_hdr =
  h_abi_major :: u16
  h_abi_minor :: u16
  h_opcode :: u16
  h_flags :: u16
  h_payload_len :: u32

record uringblk_identify =
  id_model :: "byte list"
  id_firmware :: "byte list"
  id_logical_block_size :: u32
  id_physical_block_size :: u32
  id_capacity_sectors :: u64
  id_features_bitmap :: u64
  id_queue_count :: u32
  id_queue_depth :: u32
  id_max_segments :: u32
  id_max_segment_size :: u32
  id_dma_alignment :: u32
  id_io_min :: u32
  id_io_opt :: u32
  id_discard_granularity :: u32
  id_discard_max_bytes :: u64

record uringblk_limits =
  li_max_hw_sectors_kb :: u32
  li_max_sectors_kb :: u32
  li_nr_hw_queues :: u32
  li_queue_depth :: u32
  li_max_segments :: u32
  li_max_segment_size :: u32
  li_dma_alignment :: u32
  li_io_min :: u32
  li_io_opt :: u32
  li_discard_granularity :: u32
  li_discard_max_bytes :: u64

record uringblk_geometry =
  ge_capacity_sectors :: u64
  ge_logical_block_size :: u32
  ge_physical_block_size :: u32
  ge_cylinders :: u16
  ge_heads :: u8
  ge_sectors_per_track :: u8

definition enc_hdr :: "uringblk_ucmd_hdr \<Rightarrow> byte list" where
  "enc_hdr h = le 2 (h_abi_major h) @ le 2 (h_abi_minor h) @ le 2 (h_opcode h) @ le 2 (h_flags h) @
     le 4 (h_payload_len h)"

text \<open>The unsigned field of \<open>n\<close> bytes at an offset.\<close>

definition field :: "nat \<Rightarrow> nat \<Rightarrow> byte list \<Rightarrow> 'a::len word" where
  "field off n bs = of_nat (unle (slice bs off n))"

definition dec_identify :: "byte list \<Rightarrow> uringblk_identify" where
  "dec_identify bs = \<lparr>id_model = slice bs 0 40, id_firmware = slice bs 40 16,
     id_logical_block_size = field 56 4 bs, id_physical_block_size = field 60 4 bs,
     id_capacity_sectors = field 64 8 bs, id_features_bitmap = field 72 8 bs,
     id_queue_count = field 80 4 bs, id_queue_depth = field 84 4 bs,
     id_max_segments = field 88 4 bs, id_max_segment_size = field 92 4 bs,
     id_dma_alignment = field 96 4 bs, id_io_min = field 100 4 bs, id_io_opt = field 104 4 bs,
     id_discard_granularity = field 108 4 bs, id_discard_max_bytes = field 112 8 bs\<rparr>"

definition dec_limits :: "byte list \<Rightarrow> uringblk_limits" where
  "dec_limits bs = \<lparr>li_max_hw_sectors_kb = field 0 4 bs, li_max_sectors_kb = field 4 4 bs,
     li_nr_hw_queues = field 8 4 bs, li_queue_depth = field 12 4 bs,
     li_max_segments = field 16 4 bs, li_max_segment_size = field 20 4 bs,
     li_dma_alignment = field 24 4 bs, li_io_min = field 28 4 bs, li_io_opt = field 32 4 bs,
     li_discard_granularity = field 36 4 bs, li_discard_max_bytes = field 40 8 bs\<rparr>"

definition dec_geometry :: "byte list \<Rightarrow> uringblk_geometry" where
  "dec_geometry bs = \<lparr>ge_capacity_sectors = field 0 8 bs, ge_logical_block_size = field 8 4 bs,
     ge_physical_block_size = field 12 4 bs, ge_cylinders = field 16 2 bs, ge_heads = field 18 1 bs,
     ge_sectors_per_track = field 19 1 bs\<rparr>"

definition dec_stats :: "byte list \<Rightarrow> uringblk_stats" where
  "dec_stats bs = \<lparr>read_ops = field 0 8 bs, write_ops = field 8 8 bs, flush_ops = field 16 8 bs,
     discard_ops = field 24 8 bs, read_sectors = field 32 8 bs, write_sectors = field 40 8 bs,
     read_bytes = field 48 8 bs, write_bytes = field 56 8 bs, queue_full_events = field 64 8 bs,
     media_errors = field 72 8 bs, retries = field 80 8 bs, p50_read_latency_us = field 88 4 bs,
     p99_read_latency_us = field 92 4 bs, p50_write_latency_us = field 96 4 bs,
     p99_write_latency_us = field 100 4 bs\<rparr>"

section \<open>Numbers as text\<close>

definition udec :: "'a::len word \<Rightarrow> string" where
  "udec w = dec (unat w)"

text \<open>\<open>{:016x}\<close> and \<open>{:02x}\<close>.\<close>

definition padded_hex :: "nat \<Rightarrow> nat \<Rightarrow> string" where
  "padded_hex w n = replicate (w - length (hex n)) (CHR ''0'') @ hex n"

text \<open>The number \<open>a / b\<close> rounded to an integer, ties to even.\<close>

definition round_half_even :: "nat \<Rightarrow> nat \<Rightarrow> nat" where
  "round_half_even a b =
     (let q = a div b; r = a mod b
      in if 2 * r < b then q else if 2 * r > b then q + 1 else if even q then q else q + 1)"

fun bit_length :: "nat \<Rightarrow> nat" where
  "bit_length n = (if n = 0 then 0 else Suc (bit_length (n div 2)))"

declare bit_length.simps [simp del]

text \<open>\<open>static_cast<double>\<close> of an unsigned 64-bit integer: a multiple of a power of two with 53 bits.\<close>

definition to_double :: "u64 \<Rightarrow> nat" where
  "to_double w =
     (let n = unat w; e = bit_length n - 53 in round_half_even n (2 ^ e) * 2 ^ e)"

text \<open>\<open>{:.2f}\<close> of the double \<open>d / 2 ^ k\<close>.\<close>

definition fixed2 :: "nat \<Rightarrow> nat \<Rightarrow> string" where
  "fixed2 d k =
     (let c = round_half_even (d * 100) (2 ^ k)
      in dec (c div 100) @ ''.'' @ [digit (c mod 100 div 10), digit (c mod 10)])"

definition gigabytes :: "u64 \<Rightarrow> u32 \<Rightarrow> string" where
  "gigabytes sectors lbs = fixed2 (to_double (sectors * ucast lbs)) 30"

definition join :: "string \<Rightarrow> string list \<Rightarrow> string" where
  "join sep xs = (case xs of [] \<Rightarrow> [] | x # ys \<Rightarrow> x @ concat (map (\<lambda>y. sep @ y) ys))"

text \<open>\<open>{:.ns}\<close> on a byte array read as a C string.\<close>

definition cstr_prefix :: "nat \<Rightarrow> byte list \<Rightarrow> string" where
  "cstr_prefix n bs = map (\<lambda>b. char_of (unat b)) (take n (takeWhile (\<lambda>b. b \<noteq> 0) bs))"

section \<open>Helper functions\<close>

definition format_uringblk_identify :: "uringblk_identify \<Rightarrow> string" where
  "format_uringblk_identify i = join nl
     [''  Model: '' @ cstr_prefix 40 (id_model i @ id_firmware i),
      ''  Firmware: '' @ cstr_prefix 16 (id_firmware i),
      ''  Logical Block Size: '' @ udec (id_logical_block_size i) @ '' bytes'',
      ''  Physical Block Size: '' @ udec (id_physical_block_size i) @ '' bytes'',
      ''  Capacity: '' @ udec (id_capacity_sectors i) @ '' sectors ('' @
        gigabytes (id_capacity_sectors i) (id_logical_block_size i) @ '' GB)'',
      ''  Features: 0x'' @ padded_hex 16 (unat (id_features_bitmap i)),
      ''  Queue Count: '' @ udec (id_queue_count i),
      ''  Queue Depth: '' @ udec (id_queue_depth i),
      ''  Max Segments: '' @ udec (id_max_segments i),
      ''  Max Segment Size: '' @ udec (id_max_segment_size i) @ '' bytes'',
      ''  DMA Alignment: '' @ udec (id_dma_alignment i),
      ''  IO Min: '' @ udec (id_io_min i),
      ''  IO Opt: '' @ udec (id_io_opt i),
      ''  Discard Granularity: '' @ udec (id_discard_granularity i),
      ''  Discard Max: '' @ udec (id_discard_max_bytes i) @ '' bytes'']"

definition format_uringblk_limits :: "uringblk_limits \<Rightarrow> string" where
  "format_uringblk_limits l = join nl
     [''  Max HW Sectors: '' @ udec (li_max_hw_sectors_kb l) @ '' KB'',
      ''  Max Sectors: '' @ udec (li_max_sectors_kb l) @ '' KB'',
      ''  HW Queues: '' @ udec (li_nr_hw_queues l),
      ''  Queue Depth: '' @ udec (li_queue_depth l),
      ''  Max Segments: '' @ udec (li_max_segments l),
      ''  Max Segment Size: '' @ udec (li_max_segment_size l) @ '' bytes'',
      ''  DMA Alignment: '' @ udec (li_dma_alignment l),
      ''  IO Min: '' @ udec (li_io_min l),
      ''  IO Opt: '' @ udec (li_io_opt l),
      ''  Discard Granularity: '' @ udec (li_discard_granularity l),
      ''  Discard Max: '' @ udec (li_discard_max_bytes l) @ '' bytes'']"

definition format_uringblk_geometry :: "uringblk_geometry \<Rightarrow> string" where
  "format_uringblk_geometry g = join nl
     [''  Capacity: '' @ udec (ge_capacity_sectors g) @ '' sectors ('' @
        gigabytes (ge_capacity_sectors g) (ge_logical_block_size g) @ '' GB)'',
      ''  Logical Block Size: '' @ udec (ge_logical_block_size g) @ '' bytes'',
      ''  Physical Block Size: '' @ udec (ge_physical_block_size g) @ '' bytes'',
      ''  Cylinders: '' @ udec (ge_cylinders g),
      ''  Heads: '' @ udec (ge_heads g),
      ''  Sectors per Track: '' @ udec (ge_sectors_per_track g)]"

text \<open>The micro sign is two bytes of UTF-8.\<close>

abbreviation micros :: string where
  "micros \<equiv> '' '' @ [CHR 0xCE, CHR 0xBC] @ ''s''"

definition format_uringblk_stats :: "uringblk_stats \<Rightarrow> string" where
  "format_uringblk_stats s = join nl
     [''  Operations:'',
      ''    Read Ops: '' @ udec (read_ops s),
      ''    Write Ops: '' @ udec (write_ops s),
      ''    Flush Ops: '' @ udec (flush_ops s),
      ''    Discard Ops: '' @ udec (discard_ops s),
      ''  Data Transfer:'',
      ''    Read Sectors: '' @ udec (read_sectors s) @ '' ('' @ fixed2 (to_double (read_sectors s)) 11 @ '' MB)'',
      ''    Write Sectors: '' @ udec (write_sectors s) @ '' ('' @ fixed2 (to_double (write_sectors s)) 11 @ '' MB)'',
      ''    Read Bytes: '' @ udec (read_bytes s) @ '' ('' @ fixed2 (to_double (read_bytes s)) 20 @ '' MB)'',
      ''    Write Bytes: '' @ udec (write_bytes s) @ '' ('' @ fixed2 (to_double (write_bytes s)) 20 @ '' MB)'',
      ''  Performance:'',
      ''    Queue Full Events: '' @ udec (queue_full_events s),
      ''    Media Errors: '' @ udec (media_errors s),
      ''    Retries: '' @ udec (retries s),
      ''    P50 Read Latency: '' @ udec (p50_read_latency_us s) @ micros,
      ''    P99 Read Latency: '' @ udec (p99_read_latency_us s) @ micros,
      ''    P50 Write Latency: '' @ udec (p50_write_latency_us s) @ micros,
      ''    P99 Write Latency: '' @ udec (p99_write_latency_us s) @ micros]"

definition feature_names :: "u64 \<Rightarrow> string list" where
  "feature_names features =
     (if features AND FEAT_WRITE_CACHE \<noteq> 0 then [''WRITE_CACHE''] else []) @
     (if features AND FEAT_FUA \<noteq> 0 then [''FUA''] else []) @
     (if features AND FEAT_FLUSH \<noteq> 0 then [''FLUSH''] else []) @
     (if features AND FEAT_DISCARD \<noteq> 0 then [''DISCARD''] else []) @
     (if features AND FEAT_WRITE_ZEROES \<noteq> 0 then [''WRITE_ZEROES''] else []) @
     (if features AND FEAT_ZONED \<noteq> 0 then [''ZONED''] else []) @
     (if features AND FEAT_POLLING \<noteq> 0 then [''POLLING''] else [])"

fun append_names :: "nat \<Rightarrow> string list \<Rightarrow> string \<Rightarrow> string" where
  "append_names i [] result = result"
| "append_names i (n # ns) result =
     append_names (Suc i) ns ((if i > 0 then result @ '', '' else result) @ n)"

definition format_features_bitmap :: "u64 \<Rightarrow> string" where
  "format_features_bitmap features =
     (let result = ''0x'' @ padded_hex 16 (unat features) @ '' ('';
          names = feature_names features
      in if names = [] then result @ ''none)'' else append_names 0 names result @ '')'')"

section \<open>Decoding inverts the driver's encoding\<close>

lemma slice_skip: "length xs \<le> off \<Longrightarrow> slice (xs @ ys) off n = slice ys (off - length xs) n"
  by (simp add: slice_def)

lemma slice_here: "length xs = n \<Longrightarrow> slice (xs @ ys) 0 n = xs"
  by (simp add: slice_def)

lemma slice_whole: "length xs = n \<Longrightarrow> slice xs 0 n = xs"
  by (simp add: slice_def)

lemma of_nat_unle_le: "LENGTH('a::len) \<le> 8 * n \<Longrightarrow> (of_nat (unle (le n (w :: 'a word))) :: 'a word) = w"
proof -
  assume n: "LENGTH('a) \<le> 8 * n"
  have "unat w < 2 ^ LENGTH('a)" by (rule unsigned_less)
  also have "(2::nat) ^ LENGTH('a) \<le> 2 ^ (8 * n)" by (rule power_increasing [OF n]) simp
  also have "(2::nat) ^ (8 * n) = 256 ^ n" by (simp add: power_mult)
  finally show ?thesis by (simp add: unle_le)
qed

lemmas decode_simps = field_def slice_skip slice_here slice_whole of_nat_unle_le

lemma dec_enc_identify:
  "dec_identify (enc_identify lbs dev) =
     \<lparr>id_model = cstr_field 40 (u_model dev), id_firmware = cstr_field 16 (u_firmware dev),
      id_logical_block_size = lbs, id_physical_block_size = lbs,
      id_capacity_sectors = be_capacity (u_backend dev) div ucast lbs,
      id_features_bitmap = u_features dev, id_queue_count = nr_hw_queues (u_config dev),
      id_queue_depth = queue_depth (u_config dev), id_max_segments = URINGBLK_MAX_SEGMENTS,
      id_max_segment_size = URINGBLK_MAX_SEGMENT_SIZE, id_dma_alignment = 4096, id_io_min = lbs,
      id_io_opt = 65536, id_discard_granularity = 0, id_discard_max_bytes = 0\<rparr>"
  by (simp add: dec_identify_def enc_identify_def decode_simps)

lemma dec_enc_limits:
  "dec_limits (enc_limits lbs dev) =
     \<lparr>li_max_hw_sectors_kb = 4096, li_max_sectors_kb = 4096,
      li_nr_hw_queues = nr_hw_queues (u_config dev), li_queue_depth = queue_depth (u_config dev),
      li_max_segments = URINGBLK_MAX_SEGMENTS, li_max_segment_size = URINGBLK_MAX_SEGMENT_SIZE,
      li_dma_alignment = 4096, li_io_min = lbs, li_io_opt = 65536, li_discard_granularity = 0,
      li_discard_max_bytes = 0\<rparr>"
  by (simp add: dec_limits_def enc_limits_def decode_simps)

lemma dec_enc_geometry:
  "dec_geometry (enc_geometry lbs dev) =
     (let sectors = be_capacity (u_backend dev) div ucast lbs
      in \<lparr>ge_capacity_sectors = sectors, ge_logical_block_size = lbs, ge_physical_block_size = lbs,
          ge_cylinders = ucast (sectors div (16 * 63)), ge_heads = 16, ge_sectors_per_track = 63\<rparr>)"
  by (simp add: dec_geometry_def enc_geometry_def decode_simps Let_def)

lemma dec_enc_stats: "dec_stats (enc_stats st) = st"
  by (simp add: dec_stats_def enc_stats_def decode_simps)

end
