(* ===== verification/Uring_Client.thy ===== *)
theory Uring_Client
  imports Posix_Ownership Client_Format
begin

text \<open>
  The client side of the uringblk driver: the classes \<open>UringBlkDevice\<close> and \<open>UringBlkManager\<close> of
  \<^verbatim>\<open>src/src/kvm_uringblk.cc\<close> and \<^verbatim>\<open>src/include/kvm_uringblk.h\<close>.  A method is a function of
  the kernel \<open>K\<close> and the object; a method that changes the object returns it.
  \<open>std::expected\<close> is a sum with the error on the left.  A reference parameter that may refer to a
  member of the object is a function of the object, read where the code reads it.
\<close>

section \<open>UringBlkDevice\<close>

record UringBlkDevice =
  m_device_fd :: int
  m_device_path :: string

definition new_UringBlkDevice :: UringBlkDevice where
  "new_UringBlkDevice = \<lparr>m_device_fd = - 1, m_device_path = []\<rparr>"

definition close_device :: "'k kernel \<Rightarrow> UringBlkDevice \<Rightarrow> ('k, UringBlkDevice) io" where
  "close_device K d =
     (if m_device_fd d \<ge> 0
      then call (sys_close K (m_device_fd d)) (\<lambda>_.
           say (''Closed uringblk device: '' @ m_device_path d)
             (return (d\<lparr>m_device_fd := - 1, m_device_path := []\<rparr>)))
      else return d)"

definition open_device ::
  "'k kernel \<Rightarrow> (UringBlkDevice \<Rightarrow> string) \<Rightarrow> UringBlkDevice \<Rightarrow> ('k, (errno + unit) \<times> UringBlkDevice) io" where
  "open_device K device_path d =
     call (close_device K d) (\<lambda>d1.
     call (sys_open K (device_path d1) [O_RDWR]) (\<lambda>fd.
       let d2 = d1\<lparr>m_device_fd := fd\<rparr> in
       if fd < 0 then call get_errno (\<lambda>e. return (Inl e, d2))
       else
         let d3 = d2\<lparr>m_device_path := device_path d2\<rparr> in
         say (''Successfully opened uringblk device: '' @ device_path d3 @ '' (fd='' @ dec_int fd @ '')'')
           (return (Inr (), d3))))"

definition is_device_open :: "UringBlkDevice \<Rightarrow> bool" where
  "is_device_open d \<longleftrightarrow> m_device_fd d \<ge> 0"

text \<open>Move construction and move assignment (\<open>same\<close>: from the object itself); the results are the target and the source.\<close>

definition move_UringBlkDevice :: "UringBlkDevice \<Rightarrow> UringBlkDevice \<times> UringBlkDevice" where
  "move_UringBlkDevice other = (other, \<lparr>m_device_fd = - 1, m_device_path = []\<rparr>)"

definition assign_UringBlkDevice ::
  "'k kernel \<Rightarrow> bool \<Rightarrow> UringBlkDevice \<Rightarrow> UringBlkDevice \<Rightarrow> ('k, UringBlkDevice \<times> UringBlkDevice) io" where
  "assign_UringBlkDevice K same self other =
     (if same then return (self, other)
      else call (close_device K self) (\<lambda>_. return (move_UringBlkDevice other)))"

definition destroy_UringBlkDevice :: "'k kernel \<Rightarrow> UringBlkDevice \<Rightarrow> ('k, unit) io" where
  "destroy_UringBlkDevice K d = call (close_device K d) (\<lambda>_. return ())"

section \<open>Requests over io\_uring\<close>

text \<open>The value of the macro: \<open>IORING_OP_URING_CMD\<close> is an enumerator of the kernel's header, not a macro,
  so the fallback definition always applies.\<close>

definition IORING_OP_URING_CMD :: u8 where
  "IORING_OP_URING_CMD = 26"

definition IORING_OP_FSYNC :: u8 where
  "IORING_OP_FSYNC = 3"

definition IORING_OP_READ :: u8 where
  "IORING_OP_READ = 22"

definition IORING_OP_WRITE :: u8 where
  "IORING_OP_WRITE = 23"

definition exit_with :: "errno \<Rightarrow> ('k, errno + 'a) io" where
  "exit_with e = call ring_exit (\<lambda>_. return (Inl e))"

text \<open>Submission, completion and release of the ring, common to the four requests.\<close>

definition submit_and_wait :: "'k kernel \<Rightarrow> bool \<Rightarrow> sqe \<Rightarrow> ('k, errno + nat \<times> byte list) io" where
  "submit_and_wait K iopoll s =
     call (ring_submit K iopoll s) (\<lambda>r. case r of
         Some e \<Rightarrow> exit_with e
       | None \<Rightarrow>
           call (ring_wait K) (\<lambda>w. case w of
               Inl e \<Rightarrow> exit_with e
             | Inr (res, bs) \<Rightarrow>
                 call ring_exit (\<lambda>_. return (case res of Inl e \<Rightarrow> Inl e | Inr n \<Rightarrow> Inr (n, bs)))))"

definition mk_sqe :: "u8 \<Rightarrow> int \<Rightarrow> byte list \<Rightarrow> u32 \<Rightarrow> u64 \<Rightarrow> sqe" where
  "mk_sqe opc fd buf len off = \<lparr>sq_opcode = opc, sq_fd = fd, sq_buf = buf, sq_len = len, sq_off = off,
     sq_async = False, sq_datasync = False\<rparr>"

text \<open>
  The response buffer is overwritten from the start; what the command did not fill keeps its value.
  The data part of the command buffer is memory of the stack that is not initialised.
\<close>

definition send_uring_cmd ::
  "'k kernel \<Rightarrow> u16 \<Rightarrow> byte list option \<Rightarrow> u32 \<Rightarrow> byte list option \<Rightarrow> u32 \<Rightarrow> UringBlkDevice \<Rightarrow>
     ('k, errno + byte list) io" where
  "send_uring_cmd K opcode payload payload_len response response_len d =
     call (ring_init K False) (\<lambda>r. case r of
         Some e \<Rightarrow> return (Inl e)
       | None \<Rightarrow>
           call stack_memory (\<lambda>data.
             let header = \<lparr>h_abi_major = 1, h_abi_minor = 0, h_opcode = opcode, h_flags = 0,
                           h_payload_len = payload_len\<rparr>
             in if payload \<noteq> None \<and> payload_len > 0 \<and> payload_len > 4096 then exit_with E2BIG
                else
                  let data' = (case payload of
                                 Some pl \<Rightarrow> if payload_len > 0 then splice data 0 (take (unat payload_len) pl) else data
                               | None \<Rightarrow> data);
                      cmd_buffer = enc_hdr header @ data'
                  in call (ring_get_sqe K) (\<lambda>ok.
                       if \<not> ok then exit_with ENOMEM
                       else
                         call (submit_and_wait K False
                                (mk_sqe IORING_OP_URING_CMD (m_device_fd d) cmd_buffer 4108 0)) (\<lambda>w.
                           case w of
                             Inl e \<Rightarrow> return (Inl e)
                           | Inr (cmd_result, bs) \<Rightarrow>
                               (case response of
                                  None \<Rightarrow> return (Inr [])
                                | Some resp \<Rightarrow>
                                    if response_len > 0 then
                                      if response_len > 4096 then return (Inl E2BIG)
                                      else return (Inr (splice resp 0
                                        (take (min (unat response_len) cmd_result)
                                          (drop 12 (splice cmd_buffer 0 bs)))))
                                    else return (Inr resp))))))"

section \<open>Admin commands\<close>

definition query ::
  "'k kernel \<Rightarrow> u16 \<Rightarrow> nat \<Rightarrow> (byte list \<Rightarrow> 'a) \<Rightarrow> UringBlkDevice \<Rightarrow> ('k, errno + 'a) io" where
  "query K opcode n decode d =
     (if m_device_fd d < 0 then return (Inl EBADF)
      else call (send_uring_cmd K opcode None 0 (Some (replicate n 0)) (of_nat n) d) (\<lambda>r.
        case r of Inl e \<Rightarrow> return (Inl e) | Inr bs \<Rightarrow> return (Inr (decode bs))))"

definition identify :: "'k kernel \<Rightarrow> UringBlkDevice \<Rightarrow> ('k, errno + uringblk_identify) io" where
  "identify K d = query K URINGBLK_UCMD_IDENTIFY 120 dec_identify d"

definition get_limits :: "'k kernel \<Rightarrow> UringBlkDevice \<Rightarrow> ('k, errno + uringblk_limits) io" where
  "get_limits K d = query K URINGBLK_UCMD_GET_LIMITS 48 dec_limits d"

definition get_features :: "'k kernel \<Rightarrow> UringBlkDevice \<Rightarrow> ('k, errno + u64) io" where
  "get_features K d = query K URINGBLK_UCMD_GET_FEATURES 8 (field 0 8) d"

definition set_features :: "'k kernel \<Rightarrow> u64 \<Rightarrow> UringBlkDevice \<Rightarrow> ('k, errno + unit) io" where
  "set_features K features d =
     (if m_device_fd d < 0 then return (Inl EBADF)
      else call (send_uring_cmd K URINGBLK_UCMD_SET_FEATURES (Some (le 8 features)) 8 None 0 d) (\<lambda>r.
        case r of Inl e \<Rightarrow> return (Inl e) | Inr _ \<Rightarrow> return (Inr ())))"

definition get_geometry :: "'k kernel \<Rightarrow> UringBlkDevice \<Rightarrow> ('k, errno + uringblk_geometry) io" where
  "get_geometry K d = query K URINGBLK_UCMD_GET_GEOMETRY 20 dec_geometry d"

definition get_stats :: "'k kernel \<Rightarrow> UringBlkDevice \<Rightarrow> ('k, errno + uringblk_stats) io" where
  "get_stats K d = query K URINGBLK_UCMD_GET_STATS 104 dec_stats d"

definition get_capacity_sectors :: "'k kernel \<Rightarrow> UringBlkDevice \<Rightarrow> ('k, errno + u64) io" where
  "get_capacity_sectors K d = call (identify K d) (\<lambda>r. case r of
       Inl e \<Rightarrow> return (Inl e) | Inr i \<Rightarrow> return (Inr (id_capacity_sectors i)))"

definition get_logical_block_size :: "'k kernel \<Rightarrow> UringBlkDevice \<Rightarrow> ('k, errno + u32) io" where
  "get_logical_block_size K d = call (identify K d) (\<lambda>r. case r of
       Inl e \<Rightarrow> return (Inl e) | Inr i \<Rightarrow> return (Inr (id_logical_block_size i)))"

definition supports_feature :: "'k kernel \<Rightarrow> u64 \<Rightarrow> UringBlkDevice \<Rightarrow> ('k, errno + bool) io" where
  "supports_feature K feature_flag d = call (get_features K d) (\<lambda>r. case r of
       Inl e \<Rightarrow> return (Inl e) | Inr f \<Rightarrow> return (Inr (f AND feature_flag \<noteq> 0)))"

section \<open>Data transfer\<close>

text \<open>A polled ring, or a plain one when the kernel refuses to set that up.\<close>

definition init_polled :: "'k kernel \<Rightarrow> ('k, errno + bool) io" where
  "init_polled K = call (ring_init K True) (\<lambda>r. case r of
       None \<Rightarrow> return (Inr True)
     | Some _ \<Rightarrow> call (ring_init K False) (\<lambda>r. case r of
           None \<Rightarrow> return (Inr False)
         | Some e \<Rightarrow> return (Inl e)))"

text \<open>The transfer length is cut to 32 bits; the second result of a read is the caller's buffer.\<close>

definition read_async ::
  "'k kernel \<Rightarrow> u64 \<Rightarrow> byte list \<Rightarrow> u64 \<Rightarrow> UringBlkDevice \<Rightarrow> ('k, (errno + nat) \<times> byte list) io" where
  "read_async K offset buffer len d =
     (if m_device_fd d < 0 then return (Inl EBADF, buffer)
      else call (init_polled K) (\<lambda>r. case r of
          Inl e \<Rightarrow> return (Inl e, buffer)
        | Inr polled \<Rightarrow>
            call (ring_get_sqe K) (\<lambda>ok.
              if \<not> ok then call (exit_with ENOMEM) (\<lambda>r. return (r, buffer))
              else
                call (submit_and_wait K polled
                  ((mk_sqe IORING_OP_READ (m_device_fd d) buffer (ucast len) offset)\<lparr>sq_async := True\<rparr>))
                  (\<lambda>w. case w of
                      Inl e \<Rightarrow> return (Inl e, buffer)
                    | Inr (n, bs) \<Rightarrow> return (Inr n, splice buffer 0 bs)))))"

definition write_async ::
  "'k kernel \<Rightarrow> u64 \<Rightarrow> byte list \<Rightarrow> u64 \<Rightarrow> UringBlkDevice \<Rightarrow> ('k, errno + nat) io" where
  "write_async K offset buffer len d =
     (if m_device_fd d < 0 then return (Inl EBADF)
      else call (init_polled K) (\<lambda>r. case r of
          Inl e \<Rightarrow> return (Inl e)
        | Inr polled \<Rightarrow>
            call (ring_get_sqe K) (\<lambda>ok.
              if \<not> ok then exit_with ENOMEM
              else
                call (submit_and_wait K polled
                  ((mk_sqe IORING_OP_WRITE (m_device_fd d) buffer (ucast len) offset)\<lparr>sq_async := True\<rparr>))
                  (\<lambda>w. case w of Inl e \<Rightarrow> return (Inl e) | Inr (n, _) \<Rightarrow> return (Inr n)))))"

definition flush_async :: "'k kernel \<Rightarrow> UringBlkDevice \<Rightarrow> ('k, errno + unit) io" where
  "flush_async K d =
     (if m_device_fd d < 0 then return (Inl EBADF)
      else call (ring_init K False) (\<lambda>r. case r of
          Some e \<Rightarrow> return (Inl e)
        | None \<Rightarrow>
            call (ring_get_sqe K) (\<lambda>ok.
              if \<not> ok then exit_with ENOMEM
              else
                call (submit_and_wait K False
                  ((mk_sqe IORING_OP_FSYNC (m_device_fd d) [] 0 0)\<lparr>sq_datasync := True\<rparr>))
                  (\<lambda>w. case w of Inl e \<Rightarrow> return (Inl e) | Inr _ \<Rightarrow> return (Inr ())))))"

section \<open>UringBlkManager\<close>

fun enumerate_loop :: "'k kernel \<Rightarrow> nat list \<Rightarrow> string list \<Rightarrow> ('k, string list) io" where
  "enumerate_loop K [] devices = return devices"
| "enumerate_loop K (i # is) devices =
     (let device_path = ''/dev/uringblk'' @ dec i
      in call (fs_exists K device_path) (\<lambda>b.
           enumerate_loop K is (if b then devices @ [device_path] else devices)))"

definition enumerate_devices :: "'k kernel \<Rightarrow> ('k, string list) io" where
  "enumerate_devices K = enumerate_loop K [0..<16] []"

definition is_device_available :: "'k kernel \<Rightarrow> string \<Rightarrow> ('k, bool) io" where
  "is_device_available K device_path =
     call (fs_exists K device_path) (\<lambda>b.
       if \<not> b then return False
       else call (sys_open K device_path [O_RDONLY, O_NONBLOCK]) (\<lambda>fd.
         if fd \<ge> 0 then call (sys_close K fd) (\<lambda>_. return True) else return False))"

definition is_driver_loaded :: "'k kernel \<Rightarrow> ('k, bool) io" where
  "is_driver_loaded K =
     call (fs_exists K ''/proc/modules'') (\<lambda>b.
       if b then fs_exists K ''/sys/module/uringblk_driver'' else return False)"

definition get_driver_version :: "'k kernel \<Rightarrow> ('k, errno + string) io" where
  "get_driver_version K =
     (let version_path = ''/sys/module/uringblk_driver/version''
      in try_catch
           (call (fs_exists K version_path) (\<lambda>b.
              if \<not> b then return (Inl ENOENT)
              else call (read_line K version_path) (\<lambda>r.
                case r of
                  None \<Rightarrow> call get_errno (\<lambda>e. return (Inl e))
                | Some version \<Rightarrow> return (Inr version))))
           (\<lambda>_. return (Inl EIO)))"

definition check_sysfs_path :: "'k kernel \<Rightarrow> string \<Rightarrow> ('k, bool) io" where
  "check_sysfs_path K device_name = fs_exists K (''/sys/block/'' @ device_name @ ''/uringblk'')"

text \<open>One of the commands after identification: its report or the error, then the rest.\<close>

definition report ::
  "'k kernel \<Rightarrow> string \<Rightarrow> string \<Rightarrow> ('a \<Rightarrow> string) \<Rightarrow> ('k, errno + 'a) io \<Rightarrow> ('k, unit) io" where
  "report K title what fmt cmd =
     call cmd (\<lambda>r. case r of
         Inr x \<Rightarrow> say (title @ '':'') (println (fmt x))
       | Inl e \<Rightarrow> println (''Failed to get device '' @ what @ '': '' @ k_strerror K e))"

text \<open>
  The part of \<open>test_device\<close> after the device was opened.  The destructor of the local object runs
  at every return.
\<close>

definition test_opened :: "'k kernel \<Rightarrow> string \<Rightarrow> UringBlkDevice \<Rightarrow> ('k, errno + unit) io" where
  "test_opened K device_path device =
     say (newline @ ''=== Testing uringblk device: '' @ device_path @ '' ==='')
     (call (identify K device) (\<lambda>i.
        case i of
          Inl e \<Rightarrow>
            say (''Failed to get device identification: '' @ k_strerror K e)
            (call (destroy_UringBlkDevice K device) (\<lambda>_. return (Inl e)))
        | Inr info \<Rightarrow>
            say ''Device Identification:'' (say (format_uringblk_identify info)
            (call (report K ''Device Limits'' ''limits'' format_uringblk_limits (get_limits K device)) (\<lambda>_.
             call (report K ''Device Geometry'' ''geometry'' format_uringblk_geometry (get_geometry K device)) (\<lambda>_.
             call (report K ''Device Features'' ''features'' format_features_bitmap (get_features K device)) (\<lambda>_.
             call (report K ''Device Statistics'' ''statistics'' format_uringblk_stats (get_stats K device)) (\<lambda>_.
             say (''=== Device test completed ==='' @ newline)
             (call (destroy_UringBlkDevice K device) (\<lambda>_. return (Inr ())))))))))))"

definition test_device :: "'k kernel \<Rightarrow> string \<Rightarrow> ('k, errno + unit) io" where
  "test_device K device_path =
     call (open_device K (\<lambda>_. device_path) new_UringBlkDevice) (\<lambda>(r, device).
       case r of
         Inl e \<Rightarrow> call (destroy_UringBlkDevice K device) (\<lambda>_. return (Inl e))
       | Inr _ \<Rightarrow> test_opened K device_path device)"

fun test_loop :: "'k kernel \<Rightarrow> string list \<Rightarrow> ('k, unit) io" where
  "test_loop K [] = return ()"
| "test_loop K (device_path # ds) =
     call (test_device K device_path) (\<lambda>r. case r of
         Inl e \<Rightarrow>
           say (''Test failed for device '' @ device_path @ '': '' @ k_strerror K e) (test_loop K ds)
       | Inr _ \<Rightarrow> test_loop K ds)"

definition test_all_devices :: "'k kernel \<Rightarrow> ('k, errno + unit) io" where
  "test_all_devices K =
     call (enumerate_devices K) (\<lambda>devices.
       if devices = [] then say ''No uringblk devices found'' (return (Inr ()))
       else
         say (''Found '' @ dec (length devices) @ '' uringblk device(s)'')
         (call (test_loop K devices) (\<lambda>_. return (Inr ()))))"

section \<open>Builds without the driver\<close>

definition stub_open_device :: "string \<Rightarrow> ('k, errno + unit) io" where
  "stub_open_device path = return (Inl ENOSYS)"

definition stub_close_device :: "('k, unit) io" where
  "stub_close_device = return ()"

definition stub_is_device_open :: bool where
  "stub_is_device_open \<longleftrightarrow> False"

definition stub_is_driver_loaded :: "('k, errno + bool) io" where
  "stub_is_driver_loaded = return (Inr False)"

definition stub_format :: string where
  "stub_format = ''uringblk driver not available''"

section \<open>Ownership\<close>

definition dev_res :: "UringBlkDevice \<Rightarrow> resource multiset" where
  "dev_res d = fd_res (m_device_fd d)"

lemma dev_res_simps [simp]:
  "dev_res new_UringBlkDevice = {#}" "m_device_fd d < 0 \<Longrightarrow> dev_res d = {#}"
  "dev_res \<lparr>m_device_fd = fd, m_device_path = s\<rparr> = fd_res fd"
  "dev_res (d\<lparr>m_device_fd := fd\<rparr>) = fd_res fd" "dev_res (d\<lparr>m_device_path := s\<rparr>) = dev_res d"
  by (simp_all add: dev_res_def new_UringBlkDevice_def)

lemma close_device_transfers: "transfers (dev_res d) (close_device K d) (\<lambda>_. {#})"
proof (cases "0 \<le> m_device_fd d")
  case True
  then have "transfers (dev_res d) (sys_close K (m_device_fd d)) (\<lambda>_. {#})"
    by (simp add: dev_res_def transfers_sys_close)
  with True show ?thesis
    unfolding close_device_def by simp (rule transfers_call, assumption, intro io_rules, simp)
next
  case False
  then show ?thesis unfolding close_device_def by (simp add: transfers_return)
qed

lemma close_device_closed: "fst (close_device K d p) = Val d' \<Longrightarrow> dev_res d' = {#}"
  by (auto simp: close_device_def call_def say_def println_def print_def return_def dev_res_def
      split: if_splits prod.splits outcome.splits)

lemma open_device_transfers: "transfers (dev_res d) (open_device K path d) (\<lambda>(r, d'). dev_res d')"
  unfolding open_device_def Let_def
  by (rule transfers_call [OF close_device_transfers], rule transfers_call [OF transfers_sys_open])
    (intro io_rules; simp)

lemma assign_device_transfers:
  "transfers (dev_res a + dev_res b) (assign_UringBlkDevice K same a b) (\<lambda>(a', b'). dev_res a' + dev_res b')"
  unfolding assign_UringBlkDevice_def
  by (cases same) (auto simp: move_UringBlkDevice_def
      intro!: transfers_return call_part [OF close_device_transfers])

lemma destroy_device_transfers: "transfers (dev_res d) (destroy_UringBlkDevice K d) (\<lambda>_. {#})"
  unfolding destroy_UringBlkDevice_def
  by (rule transfers_call [OF close_device_transfers]) (intro io_rules; simp)

lemma exit_with_transfers: "transfers {#Ring#} (exit_with e) (\<lambda>_. {#})"
  unfolding exit_with_def by (rule transfers_call [OF transfers_ring_exit]) (intro io_rules; simp)

lemma submit_and_wait_transfers: "transfers {#Ring#} (submit_and_wait K iopoll s) (\<lambda>_. {#})"
  unfolding submit_and_wait_def
  by (intro io_rules exit_with_transfers transfers_call [OF transfers_ring_exit]; simp)

text \<open>Every request gives its ring back, on every path.\<close>

lemma after_ring_init:
  "(\<And>e. neutral (f (Some e))) \<Longrightarrow> transfers {#Ring#} (f None) (\<lambda>_. {#}) \<Longrightarrow>
     neutral (call (ring_init K io) f)"
proof (rule transfers_call [OF transfers_ring_init])
  fix r
  assume a: "\<And>e. neutral (f (Some e))" and b: "transfers {#Ring#} (f None) (\<lambda>_. {#})"
  show "transfers (if r = None then {#Ring#} else {#}) (f r) (\<lambda>_. {#})"
    using a b by (cases r) simp_all
qed

lemma neutral_flush_async [io_rules]: "neutral (flush_async K d)"
  unfolding flush_async_def
  by (intro io_rules after_ring_init exit_with_transfers
      transfers_call [OF submit_and_wait_transfers]; simp add: io_rules)

lemma init_polled_transfers:
  "transfers {#} (init_polled K) (\<lambda>r. case r of Inl e \<Rightarrow> {#} | Inr _ \<Rightarrow> {#Ring#})"
  unfolding init_polled_def
proof (rule transfers_call [OF transfers_ring_init])
  fix r
  show "transfers (if r = None then {#Ring#} else {#}) (case r of None \<Rightarrow> return (Inr True)
     | Some _ \<Rightarrow> call (ring_init K False) (\<lambda>r. case r of None \<Rightarrow> return (Inr False)
         | Some e \<Rightarrow> return (Inl e))) (\<lambda>r. case r of Inl e \<Rightarrow> {#} | Inr _ \<Rightarrow> {#Ring#})"
    by (cases r) (auto intro!: transfers_return transfers_call [OF transfers_ring_init] transfers_option)
qed

lemma after_init_polled:
  "(\<And>e. neutral (f (Inl e))) \<Longrightarrow> (\<And>b. transfers {#Ring#} (f (Inr b)) (\<lambda>_. {#})) \<Longrightarrow>
     neutral (call (init_polled K) f)"
  by (rule transfers_call [OF init_polled_transfers]) (auto split: sum.splits)

lemma neutral_write_async [io_rules]: "neutral (write_async K off buf len d)"
  unfolding write_async_def
  by (intro io_rules after_init_polled exit_with_transfers
      transfers_call [OF submit_and_wait_transfers]; simp add: io_rules)

lemma neutral_read_async [io_rules]: "neutral (read_async K off buf len d)"
  unfolding read_async_def
  by (intro io_rules after_init_polled transfers_call [OF exit_with_transfers]
      transfers_call [OF submit_and_wait_transfers]; simp add: io_rules)

lemma neutral_send_uring_cmd [io_rules]: "neutral (send_uring_cmd K opc pl pln resp rln d)"
  unfolding send_uring_cmd_def Let_def
  by (intro io_rules after_ring_init exit_with_transfers
      transfers_call [OF submit_and_wait_transfers]; simp add: io_rules)

lemma neutral_query [io_rules]: "neutral (query K opc n f d)"
  unfolding query_def by (intro io_rules; simp)

lemma neutral_commands [io_rules]:
  "neutral (identify K d)" "neutral (get_limits K d)" "neutral (get_features K d)"
  "neutral (get_geometry K d)" "neutral (get_stats K d)"
  by (simp_all add: identify_def get_limits_def get_features_def get_geometry_def get_stats_def io_rules)

lemma neutral_set_features [io_rules]: "neutral (set_features K f d)"
  unfolding set_features_def by (intro io_rules; simp)

lemma neutral_convenience [io_rules]:
  "neutral (get_capacity_sectors K d)" "neutral (get_logical_block_size K d)"
  "neutral (supports_feature K flag d)"
  unfolding get_capacity_sectors_def get_logical_block_size_def supports_feature_def
  by (intro io_rules; simp)+

lemma neutral_enumerate_loop [io_rules]: "neutral (enumerate_loop K is ds)"
  by (induction "is" arbitrary: ds) (auto simp: Let_def intro!: io_rules)

lemma neutral_enumerate [io_rules]: "neutral (enumerate_devices K)"
  by (simp add: enumerate_devices_def io_rules)

lemma neutral_is_device_available [io_rules]: "neutral (is_device_available K path)"
  unfolding is_device_available_def
proof (intro call_neutral [OF neutral_fs_exists] transfers_if)
  show "transfers {#} (call (sys_open K path [O_RDONLY, O_NONBLOCK]) (\<lambda>fd.
      if 0 \<le> fd then call (sys_close K fd) (\<lambda>_. return True) else return False)) (\<lambda>_. {#})"
    by (rule transfers_call [OF transfers_sys_open])
      (auto intro!: transfers_if transfers_return transfers_call [OF transfers_sys_close])
qed (simp add: transfers_return)

lemma neutral_is_driver_loaded [io_rules]: "neutral (is_driver_loaded K)"
  unfolding is_driver_loaded_def by (intro io_rules; simp)

lemma neutral_try_catch:
  assumes "\<And>p. p_fds (snd (m p)) = p_fds p \<and> p_rings (snd (m p)) = p_rings p \<and> p_bad (snd (m p)) = p_bad p"
    and "\<And>e p. p_fds (snd (h e p)) = p_fds p \<and> p_rings (snd (h e p)) = p_rings p \<and> p_bad (snd (h e p)) = p_bad p"
  shows "neutral (try_catch m h)"
  by (rule neutralI; use assms in \<open>simp add: try_catch_def split: prod.splits outcome.splits\<close>)
    (metis snd_conv)+

lemma neutral_get_driver_version [io_rules]: "neutral (get_driver_version K)"
  unfolding get_driver_version_def Let_def
  by (rule neutral_try_catch)
    (auto simp: call_def fs_exists_def sys_stat_def read_line_def get_errno_def return_def
      split: prod.splits option.splits outcome.splits sum.splits if_splits)

lemma neutral_check_sysfs_path [io_rules]: "neutral (check_sysfs_path K name)"
  by (simp add: check_sysfs_path_def io_rules)

lemma neutral_report [io_rules]: "neutral cmd \<Longrightarrow> neutral (report K t w f cmd)"
  unfolding report_def by (intro io_rules)

lemma end_of_scope: "transfers (dev_res d) (call (destroy_UringBlkDevice K d) (\<lambda>_. return x)) (\<lambda>_. {#})"
  by (rule transfers_call [OF destroy_device_transfers]) (simp add: transfers_return)

lemma test_opened_transfers: "transfers (dev_res d) (test_opened K path d) (\<lambda>_. {#})"
  unfolding test_opened_def
  by (intro transfers_sum end_of_scope transfers_say call_neutral neutral_report neutral_commands)

lemma neutral_test_device [io_rules]: "neutral (test_device K path)"
  unfolding test_device_def
proof (rule transfers_call)
  show "transfers {#} (open_device K (\<lambda>_. path) new_UringBlkDevice) (\<lambda>(r, d'). dev_res d')"
    using open_device_transfers [of new_UringBlkDevice] by simp
qed (auto intro!: transfers_sum end_of_scope test_opened_transfers)

lemma neutral_test_loop [io_rules]: "neutral (test_loop K ds)"
  by (induction ds) (auto intro!: io_rules split: sum.splits)

lemma neutral_test_all_devices [io_rules]: "neutral (test_all_devices K)"
  unfolding test_all_devices_def by (intro io_rules; simp)

end
