(* ===== verification/Wal_Client.thy ===== *)
theory Wal_Client
  imports Posix_Ownership Client_Format
begin

text \<open>
  The client side of the WAL driver: \<open>WAL_device_manager\<close>, which creates and removes the device
  nodes, and \<open>WAL_device_interface\<close>, which opens and exercises them, of \<^verbatim>\<open>src/src/kvm_wal.cc\<close>
  and \<^verbatim>\<open>src/include/kvm_wal.h\<close>.
\<close>

section \<open>Text\<close>

abbreviation dq :: string where
  "dq \<equiv> [CHR 0x22]"

abbreviation apos :: string where
  "apos \<equiv> [CHR 0x27]"

definition CHAR_DEVICE_PATH :: string where
  "CHAR_DEVICE_PATH = ''/dev/rwal''"

definition BLOCK_DEVICE_PATH :: string where
  "BLOCK_DEVICE_PATH = ''/dev/wal''"

definition DEVICE_MAJOR :: nat where
  "DEVICE_MAJOR = 240"

definition CHAR_DEVICE_MINOR :: nat where
  "CHAR_DEVICE_MINOR = 0"

definition BLOCK_DEVICE_MINOR :: nat where
  "BLOCK_DEVICE_MINOR = 1"

definition WAL_RESPONSE :: string where
  "WAL_RESPONSE = ''Hello from WAL'' @ newline"

text \<open>\<open>{:o}\<close>.\<close>

fun oct :: "nat \<Rightarrow> string" where
  "oct n = (if n < 8 then [digit n] else oct (n div 8) @ [digit (n mod 8)])"

declare oct.simps [simp del]

definition bytes_of :: "string \<Rightarrow> byte list" where
  "bytes_of s = map of_char s"

definition text_of :: "byte list \<Rightarrow> string" where
  "text_of bs = map (\<lambda>b. char_of (unat b)) bs"

section \<open>WAL\_device\_manager\<close>

record WAL_device_manager =
  m_char_device_created :: bool
  m_block_device_created :: bool

definition new_WAL_device_manager :: WAL_device_manager where
  "new_WAL_device_manager = \<lparr>m_char_device_created = False, m_block_device_created = False\<rparr>"

definition create_single_device :: "'k kernel \<Rightarrow> string \<Rightarrow> ftype \<Rightarrow> nat \<Rightarrow> ('k, errno + unit) io" where
  "create_single_device K device_path device_type minor_dev =
     call (fs_exists K device_path) (\<lambda>present.
     call (if present then
             say (''Warning: '' @ device_path @ '' already exists, removing it first'')
             (call (fs_remove K device_path) (\<lambda>removed.
                if removed then say (''Removed existing '' @ device_path) (return None)
                else call get_errno (\<lambda>e. return (Some e))))
           else return None) (\<lambda>r.
       case r of
         Some e \<Rightarrow> return (Inl e)
       | None \<Rightarrow>
           call (sys_mknod K device_path device_type 438 (DEVICE_MAJOR, minor_dev)) (\<lambda>ok.
             if \<not> ok then call get_errno (\<lambda>e. return (Inl e)) else return (Inr ()))))"

text \<open>The new value of the flag is the result.\<close>

definition cleanup_single_device :: "'k kernel \<Rightarrow> string \<Rightarrow> bool \<Rightarrow> ('k, bool) io" where
  "cleanup_single_device K device_path created_flag =
     (if \<not> created_flag then return created_flag
      else call (fs_exists K device_path) (\<lambda>present.
        if \<not> present then return created_flag
        else call (sys_unlink K device_path) (\<lambda>ok.
          if ok then say (''Successfully removed device: '' @ device_path) (return False)
          else call get_errno (\<lambda>e.
            say (''Failed to remove device '' @ device_path @ '': '' @ k_strerror K e) (return False)))))"

definition wal_create_devices ::
  "'k kernel \<Rightarrow> WAL_device_manager \<Rightarrow> ('k, (errno + unit) \<times> WAL_device_manager) io" where
  "wal_create_devices K m =
     call (create_single_device K CHAR_DEVICE_PATH S_IFCHR CHAR_DEVICE_MINOR) (\<lambda>r.
       case r of
         Inl e \<Rightarrow> return (Inl e, m)
       | Inr _ \<Rightarrow>
           let m1 = m\<lparr>m_char_device_created := True\<rparr> in
           call (create_single_device K BLOCK_DEVICE_PATH S_IFBLK BLOCK_DEVICE_MINOR) (\<lambda>r.
             case r of
               Inl e \<Rightarrow>
                 call (cleanup_single_device K CHAR_DEVICE_PATH (m_char_device_created m1)) (\<lambda>f.
                   return (Inl e, m1\<lparr>m_char_device_created := f\<rparr>))
             | Inr _ \<Rightarrow>
                 say ''Successfully created WAL devices:''
                 (say (''  Character device: '' @ CHAR_DEVICE_PATH @ '' (major='' @ dec DEVICE_MAJOR @
                       '', minor='' @ dec CHAR_DEVICE_MINOR @ '')'')
                 (say (''  Block device:     '' @ BLOCK_DEVICE_PATH @ '' (major='' @ dec DEVICE_MAJOR @
                       '', minor='' @ dec BLOCK_DEVICE_MINOR @ '')'')
                 (return (Inr (), m1\<lparr>m_block_device_created := True\<rparr>))))))"

definition cleanup_devices :: "'k kernel \<Rightarrow> WAL_device_manager \<Rightarrow> ('k, WAL_device_manager) io" where
  "cleanup_devices K m =
     call (cleanup_single_device K CHAR_DEVICE_PATH (m_char_device_created m)) (\<lambda>c.
     call (cleanup_single_device K BLOCK_DEVICE_PATH (m_block_device_created m)) (\<lambda>b.
       return \<lparr>m_char_device_created = c, m_block_device_created = b\<rparr>))"

definition assign_WAL_device_manager ::
  "'k kernel \<Rightarrow> bool \<Rightarrow> WAL_device_manager \<Rightarrow> WAL_device_manager \<Rightarrow>
     ('k, WAL_device_manager \<times> WAL_device_manager) io" where
  "assign_WAL_device_manager K same self rhs =
     (if same then return (self, rhs)
      else call (cleanup_devices K self) (\<lambda>_. return (rhs, new_WAL_device_manager)))"

definition destroy_WAL_device_manager :: "'k kernel \<Rightarrow> WAL_device_manager \<Rightarrow> ('k, unit) io" where
  "destroy_WAL_device_manager K m = call (cleanup_devices K m) (\<lambda>_. return ())"

definition is_device_accessible :: "'k kernel \<Rightarrow> string \<Rightarrow> ('k, bool) io" where
  "is_device_accessible K device_path =
     call (fs_exists K device_path) (\<lambda>present.
       if \<not> present then return False
       else call (sys_open K device_path [O_RDONLY, O_NONBLOCK]) (\<lambda>fd.
         if fd \<ge> 0 then call (sys_close K fd) (\<lambda>_. return True) else return False))"

definition are_devices_accessible :: "'k kernel \<Rightarrow> ('k, bool) io" where
  "are_devices_accessible K =
     call (is_device_accessible K CHAR_DEVICE_PATH) (\<lambda>b.
       if b then is_device_accessible K BLOCK_DEVICE_PATH else return False)"

definition test_single_device :: "'k kernel \<Rightarrow> string \<Rightarrow> string \<Rightarrow> ('k, errno + unit) io" where
  "test_single_device K device_path device_type_name =
     call (sys_stat K device_path) (\<lambda>st. case st of
         None \<Rightarrow> call get_errno (\<lambda>e. return (Inl e))
       | Some i \<Rightarrow>
           let is_expected_type =
                 (if device_type_name = ''Character'' then i_type i = S_IFCHR
                  else if device_type_name = ''Block'' then i_type i = S_IFBLK
                  else False)
           in if \<not> is_expected_type then return (Inl ENOTTY)
              else
                say (''Device '' @ device_path @ '' verified:'')
                (say (''  Type: '' @ device_type_name @ '' device'')
                (say (''  Major: '' @ dec (i_major i) @ '', Minor: '' @ dec (i_minor i))
                (say (''  Permissions: '' @ oct (unat (i_mode i AND 511)))
                (if i_major i \<noteq> DEVICE_MAJOR
                 then say (''Warning: Major number '' @ dec (i_major i) @ '' doesn'' @ apos @ ''t match expected '' @
                        dec DEVICE_MAJOR) (return (Inr ()))
                 else return (Inr ()))))))"

definition test_devices :: "'k kernel \<Rightarrow> WAL_device_manager \<Rightarrow> ('k, errno + unit) io" where
  "test_devices K m =
     (if \<not> m_char_device_created m \<or> \<not> m_block_device_created m then return (Inl ENOENT)
      else call (test_single_device K CHAR_DEVICE_PATH ''Character'') (\<lambda>r. case r of
          Inl e \<Rightarrow> return (Inl e)
        | Inr _ \<Rightarrow>
            call (test_single_device K BLOCK_DEVICE_PATH ''Block'') (\<lambda>r. case r of
                Inl e \<Rightarrow> return (Inl e)
              | Inr _ \<Rightarrow> return (Inr ()))))"

definition devices_created :: "WAL_device_manager \<Rightarrow> bool" where
  "devices_created m \<longleftrightarrow> m_char_device_created m \<and> m_block_device_created m"

section \<open>WAL\_device\_interface\<close>

record WAL_device_interface =
  m_char_device_fd :: int
  m_block_device_fd :: int

definition new_WAL_device_interface :: WAL_device_interface where
  "new_WAL_device_interface = \<lparr>m_char_device_fd = - 1, m_block_device_fd = - 1\<rparr>"

definition open_devices ::
  "'k kernel \<Rightarrow> WAL_device_interface \<Rightarrow> ('k, (errno + unit) \<times> WAL_device_interface) io" where
  "open_devices K w =
     call (sys_open K CHAR_DEVICE_PATH [O_RDWR]) (\<lambda>c.
       let w1 = w\<lparr>m_char_device_fd := c\<rparr> in
       if c < 0 then call get_errno (\<lambda>e. return (Inl e, w1))
       else
         call (sys_open K BLOCK_DEVICE_PATH [O_RDWR]) (\<lambda>b.
           let w2 = w1\<lparr>m_block_device_fd := b\<rparr> in
           if b < 0 then
             call (sys_close K c) (\<lambda>_.
             call get_errno (\<lambda>e. return (Inl e, w2\<lparr>m_char_device_fd := - 1\<rparr>)))
           else
             say ''Successfully opened WAL devices:''
             (say (''  Character device: '' @ CHAR_DEVICE_PATH @ '' (fd='' @ dec_int c @ '')'')
             (say (''  Block device:     '' @ BLOCK_DEVICE_PATH @ '' (fd='' @ dec_int b @ '')'')
             (return (Inr (), w2))))))"

definition close_char :: "'k kernel \<Rightarrow> WAL_device_interface \<Rightarrow> ('k, WAL_device_interface) io" where
  "close_char K w =
     (if m_char_device_fd w \<ge> 0 then
        call (sys_close K (m_char_device_fd w)) (\<lambda>_.
        say (''Closed character device: '' @ CHAR_DEVICE_PATH) (return (w\<lparr>m_char_device_fd := - 1\<rparr>)))
      else return w)"

definition close_block :: "'k kernel \<Rightarrow> WAL_device_interface \<Rightarrow> ('k, WAL_device_interface) io" where
  "close_block K w =
     (if m_block_device_fd w \<ge> 0 then
        call (sys_close K (m_block_device_fd w)) (\<lambda>_.
        say (''Closed block device: '' @ BLOCK_DEVICE_PATH) (return (w\<lparr>m_block_device_fd := - 1\<rparr>)))
      else return w)"

definition close_devices :: "'k kernel \<Rightarrow> WAL_device_interface \<Rightarrow> ('k, WAL_device_interface) io" where
  "close_devices K w = call (close_char K w) (close_block K)"

definition move_WAL_device_interface ::
  "WAL_device_interface \<Rightarrow> WAL_device_interface \<times> WAL_device_interface" where
  "move_WAL_device_interface other = (other, \<lparr>m_char_device_fd = - 1, m_block_device_fd = - 1\<rparr>)"

definition assign_WAL_device_interface ::
  "'k kernel \<Rightarrow> bool \<Rightarrow> WAL_device_interface \<Rightarrow> WAL_device_interface \<Rightarrow>
     ('k, WAL_device_interface \<times> WAL_device_interface) io" where
  "assign_WAL_device_interface K same self other =
     (if same then return (self, other)
      else call (close_devices K self) (\<lambda>_. return (move_WAL_device_interface other)))"

definition destroy_WAL_device_interface :: "'k kernel \<Rightarrow> WAL_device_interface \<Rightarrow> ('k, unit) io" where
  "destroy_WAL_device_interface K w = call (close_devices K w) (\<lambda>_. return ())"

definition are_devices_open :: "WAL_device_interface \<Rightarrow> bool" where
  "are_devices_open w \<longleftrightarrow> m_char_device_fd w \<ge> 0 \<and> m_block_device_fd w \<ge> 0"

section \<open>Transfers\<close>

definition read_char_device :: "'k kernel \<Rightarrow> nat \<Rightarrow> WAL_device_interface \<Rightarrow> ('k, errno + string) io" where
  "read_char_device K max_bytes w =
     (if m_char_device_fd w < 0 then return (Inl EBADF)
      else call (sys_read K (m_char_device_fd w) max_bytes) (\<lambda>r. case r of
          None \<Rightarrow> call get_errno (\<lambda>e. return (Inl e))
        | Some bs \<Rightarrow>
            let result = text_of bs in
            say (''Read from '' @ CHAR_DEVICE_PATH @ '': '' @ dq @ result @ dq @ '' ('' @ dec (length bs) @ '' bytes)'')
            (if result = [] then
               say (''Simulated response: '' @ dq @ WAL_RESPONSE @ dq) (return (Inr WAL_RESPONSE))
             else return (Inr result))))"

fun hex_dump :: "byte list \<Rightarrow> ('k, unit) io" where
  "hex_dump [] = return ()"
| "hex_dump (b # bs) = call (print (padded_hex 2 (unat b) @ '' '')) (\<lambda>_. hex_dump bs)"

definition write_char_device :: "'k kernel \<Rightarrow> string \<Rightarrow> WAL_device_interface \<Rightarrow> ('k, errno + nat) io" where
  "write_char_device K data w =
     (if m_char_device_fd w < 0 then return (Inl EBADF)
      else
        say (''Writing to '' @ CHAR_DEVICE_PATH @ '': '' @ dq @ data @ dq @ '' ('' @ dec (length data) @ '' bytes)'')
        (say ''Captured write data:''
        (say (''  Raw data: '' @ dq @ data @ dq)
        (call (print ''  Hex dump: '') (\<lambda>_.
         call (hex_dump (take 64 (bytes_of data))) (\<lambda>_.
         call (if length data > 64 then print ''... (truncated)'' else return ()) (\<lambda>_.
         say []
         (call (sys_write K (m_char_device_fd w) (bytes_of data)) (\<lambda>r. case r of
             None \<Rightarrow> call get_errno (\<lambda>e. return (Inl e))
           | Some n \<Rightarrow>
               say (''Successfully wrote '' @ dec n @ '' bytes to character device'')
               (return (Inr n)))))))))))"

definition read_block_device :: "'k kernel \<Rightarrow> nat \<Rightarrow> WAL_device_interface \<Rightarrow> ('k, errno + byte list) io" where
  "read_block_device K block_size w =
     (if m_block_device_fd w < 0 then return (Inl EBADF)
      else call (sys_read K (m_block_device_fd w) block_size) (\<lambda>r. case r of
          None \<Rightarrow> call get_errno (\<lambda>e. return (Inl e))
        | Some bs \<Rightarrow>
            say (''Read from '' @ BLOCK_DEVICE_PATH @ '': '' @ dec (length bs) @ '' bytes'')
            (if bs = [] then
               say (''Simulated block response: '' @ dq @ WAL_RESPONSE @ dq)
                 (return (Inr (bytes_of WAL_RESPONSE)))
             else return (Inr bs))))"

text \<open>Sixteen bytes to a line; \<open>i\<close> is the index of the first byte of the list.\<close>

fun block_dump :: "nat \<Rightarrow> byte list \<Rightarrow> ('k, unit) io" where
  "block_dump i [] = return ()"
| "block_dump i (b # bs) =
     call (if i mod 16 = 0 \<and> i > 0 then say [] (print ''            '') else return ()) (\<lambda>_.
     call (print (padded_hex 2 (unat b) @ '' '')) (\<lambda>_. block_dump (Suc i) bs))"

text \<open>\<open>std::isprint\<close> and \<open>std::isspace\<close> in the C locale, and the loop that collects printable text.\<close>

definition isprint :: "byte \<Rightarrow> bool" where
  "isprint b \<longleftrightarrow> 0x20 \<le> b \<and> b \<le> 0x7e"

definition isspace :: "byte \<Rightarrow> bool" where
  "isspace b \<longleftrightarrow> b = 0x20 \<or> (9 \<le> b \<and> b \<le> 13)"

fun printable_text :: "byte list \<Rightarrow> string \<Rightarrow> bool \<times> string" where
  "printable_text [] text_view = (True, text_view)"
| "printable_text (b # bs) text_view =
     (if isprint b \<or> isspace b then printable_text bs (text_view @ [char_of (unat b)])
      else (False, text_view))"

definition write_block_device :: "'k kernel \<Rightarrow> byte list \<Rightarrow> WAL_device_interface \<Rightarrow> ('k, errno + nat) io" where
  "write_block_device K data w =
     (if m_block_device_fd w < 0 then return (Inl EBADF)
      else
        say (''Writing to '' @ BLOCK_DEVICE_PATH @ '': '' @ dec (length data) @ '' bytes'')
        (say ''Captured block write data:''
        (call (print ''  Hex dump: '') (\<lambda>_.
         call (block_dump 0 (take 128 data)) (\<lambda>_.
         call (if length data > 128 then print ''... (truncated)'' else return ()) (\<lambda>_.
         say []
         (case printable_text data [] of (is_printable, text_view) \<Rightarrow>
          call (if is_printable \<and> text_view \<noteq> [] then println (''  As text: '' @ dq @ text_view @ dq)
                else return ()) (\<lambda>_.
          call (sys_write K (m_block_device_fd w) data) (\<lambda>r. case r of
              None \<Rightarrow> call get_errno (\<lambda>e. return (Inl e))
            | Some n \<Rightarrow>
                say (''Successfully wrote '' @ dec n @ '' bytes to block device'') (return (Inr n)))))))))))"

definition write_block_string :: "'k kernel \<Rightarrow> string \<Rightarrow> WAL_device_interface \<Rightarrow> ('k, errno + nat) io" where
  "write_block_string K data w = write_block_device K (bytes_of data) w"

definition TEST_CHAR_DATA :: string where
  "TEST_CHAR_DATA = ''Hello, character device!''"

definition TEST_BLOCK_DATA :: string where
  "TEST_BLOCK_DATA = ''Hello, block device! This is a longer message.''"

definition test_device_operations :: "'k kernel \<Rightarrow> WAL_device_interface \<Rightarrow> ('k, errno + unit) io" where
  "test_device_operations K w =
     (if m_char_device_fd w < 0 \<or> m_block_device_fd w < 0 then return (Inl EBADF)
      else
        say (newline @ ''=== Testing WAL Device Operations ==='')
        (say (newline @ ''--- Character Device Tests ---'')
        (call (write_char_device K TEST_CHAR_DATA w) (\<lambda>r. case r of
            Inl e \<Rightarrow> say (''Character device write failed: '' @ k_strerror K e) (return (Inl e))
          | Inr _ \<Rightarrow>
        call (read_char_device K 1024 w) (\<lambda>r. case r of
            Inl e \<Rightarrow> say (''Character device read failed: '' @ k_strerror K e) (return (Inl e))
          | Inr s \<Rightarrow>
        say (''Character device read result: '' @ dq @ s @ dq)
        (say (newline @ ''--- Block Device Tests ---'')
        (call (write_block_string K TEST_BLOCK_DATA w) (\<lambda>r. case r of
            Inl e \<Rightarrow> say (''Block device write failed: '' @ k_strerror K e) (return (Inl e))
          | Inr _ \<Rightarrow>
        call (read_block_device K 512 w) (\<lambda>r. case r of
            Inl e \<Rightarrow> say (''Block device read failed: '' @ k_strerror K e) (return (Inl e))
          | Inr bs \<Rightarrow>
        say (''Block device read result: '' @ dec (length bs) @ '' bytes'')
        (say (newline @ ''=== Device Operation Tests Complete ==='' @ newline)
        (return (Inr ()))))))))))))"

section \<open>Ownership\<close>

definition wal_res :: "WAL_device_interface \<Rightarrow> resource multiset" where
  "wal_res w = fd_res (m_char_device_fd w) + fd_res (m_block_device_fd w)"

lemma neutral_create_single_device [io_rules]: "neutral (create_single_device K path ty mi)"
  unfolding create_single_device_def by (intro io_rules; simp)

lemma neutral_cleanup_single_device [io_rules]: "neutral (cleanup_single_device K path f)"
  unfolding cleanup_single_device_def by (intro io_rules; simp)

lemma neutral_manager [io_rules]:
  "neutral (wal_create_devices K m)" "neutral (cleanup_devices K m)"
  "neutral (assign_WAL_device_manager K same m m')" "neutral (destroy_WAL_device_manager K m)"
proof -
  show c: "neutral (cleanup_devices K m)" unfolding cleanup_devices_def by (intro io_rules; simp)
  show "neutral (wal_create_devices K m)" unfolding wal_create_devices_def Let_def by (intro io_rules; simp)
  show "neutral (assign_WAL_device_manager K same m m')"
    unfolding assign_WAL_device_manager_def by (intro c io_rules; simp)
  show "neutral (destroy_WAL_device_manager K m)"
    unfolding destroy_WAL_device_manager_def by (intro c io_rules; simp)
qed

lemma neutral_is_device_accessible [io_rules]: "neutral (is_device_accessible K path)"
  unfolding is_device_accessible_def
  by (intro call_neutral [OF neutral_fs_exists] transfers_if transfers_call [OF transfers_sys_open])
    (auto intro!: transfers_return transfers_call [OF transfers_sys_close])

lemma neutral_are_devices_accessible [io_rules]: "neutral (are_devices_accessible K)"
  unfolding are_devices_accessible_def by (intro io_rules; simp)

lemma neutral_test_single_device [io_rules]: "neutral (test_single_device K path name)"
  unfolding test_single_device_def Let_def by (intro io_rules; simp)

lemma neutral_test_devices [io_rules]: "neutral (test_devices K m)"
  unfolding test_devices_def by (intro io_rules; simp)

lemma neutral_hex_dump [io_rules]: "neutral (hex_dump bs)"
  by (induction bs) (auto intro!: io_rules)

lemma neutral_block_dump [io_rules]: "neutral (block_dump i bs)"
  by (induction i bs rule: block_dump.induct) (auto intro!: io_rules)

lemma neutral_read_char_device [io_rules]: "neutral (read_char_device K n w)"
  unfolding read_char_device_def Let_def by (intro io_rules; simp)

lemma neutral_write_char_device [io_rules]: "neutral (write_char_device K s w)"
  unfolding write_char_device_def by (intro io_rules; simp)

lemma neutral_read_block_device [io_rules]: "neutral (read_block_device K n w)"
  unfolding read_block_device_def by (intro io_rules; simp)

lemma neutral_write_block_device [io_rules]:
  "neutral (write_block_device K bs w)" "neutral (write_block_string K s w)"
  unfolding write_block_string_def write_block_device_def by (intro io_rules; simp)+

lemma neutral_test_device_operations [io_rules]: "neutral (test_device_operations K w)"
  unfolding test_device_operations_def by (intro io_rules; simp)

lemma close_char_transfers:
  "transfers (wal_res w) (close_char K w) (\<lambda>w'. fd_res (m_block_device_fd w'))"
  unfolding close_char_def wal_res_def
  by (intro transfers_if) (auto intro!: transfers_say transfers_return call_part [OF transfers_sys_close])

lemma close_block_transfers:
  "transfers (fd_res (m_block_device_fd w)) (close_block K w) (\<lambda>_. {#})"
  unfolding close_block_def
  by (intro transfers_if) (auto intro!: transfers_say transfers_return transfers_call [OF transfers_sys_close])

lemma close_devices_transfers: "transfers (wal_res w) (close_devices K w) (\<lambda>_. {#})"
  unfolding close_devices_def by (rule transfers_call [OF close_char_transfers close_block_transfers])

lemma open_devices_transfers:
  assumes "m_char_device_fd w < 0" and "m_block_device_fd w < 0"
  shows "transfers (wal_res w) (open_devices K w) (\<lambda>(r, w'). wal_res w')"
proof -
  have "transfers {#} (open_devices K w) (\<lambda>(r, w'). wal_res w')"
    unfolding open_devices_def Let_def wal_res_def
  proof (intro transfers_call [OF transfers_sys_open] transfers_if call_part [OF transfers_sys_open])
    fix c :: int assume "c < 0"
    with assms show "transfers (fd_res c) (call get_errno (\<lambda>e. return (Inl e, w\<lparr>m_char_device_fd := c\<rparr>)))
      (\<lambda>(r, w'). fd_res (m_char_device_fd w') + fd_res (m_block_device_fd w'))"
      by (intro io_rules) simp
  next
    fix c b :: int assume c: "\<not> c < 0" and "b < 0"
    then show "transfers (fd_res b + fd_res c) (call (sys_close K c) (\<lambda>_. call get_errno (\<lambda>e.
        return (Inl e, w\<lparr>m_char_device_fd := c, m_block_device_fd := b, m_char_device_fd := - 1\<rparr>))))
      (\<lambda>(r, w'). fd_res (m_char_device_fd w') + fd_res (m_block_device_fd w'))"
      by (intro transfers_call [OF transfers_cong [OF _ transfers_sys_close]] io_rules) simp_all
  qed (auto intro!: io_rules)
  with assms show ?thesis by (simp add: wal_res_def)
qed

lemma assign_interface_transfers:
  "transfers (wal_res a + wal_res b) (assign_WAL_device_interface K same a b)
     (\<lambda>(a', b'). wal_res a' + wal_res b')"
  unfolding assign_WAL_device_interface_def
  by (intro transfers_if call_part [OF close_devices_transfers refl] transfers_return;
      simp add: move_WAL_device_interface_def wal_res_def)

lemma destroy_interface_transfers: "transfers (wal_res w) (destroy_WAL_device_interface K w) (\<lambda>_. {#})"
  unfolding destroy_WAL_device_interface_def
  by (rule transfers_call [OF close_devices_transfers]) (simp add: transfers_return)

end
