(* ===== verification/Kvm_Probe.thy ===== *)
theory Kvm_Probe
  imports Posix_Ownership Client_Format
begin

text \<open>
  The KVM capability probe of \<^verbatim>\<open>src/src/kvm_probe.cc\<close>.  The capability numbers are constants of the
  kernel's header, an argument \<open>CAP\<close> from the name to the number.
\<close>

section \<open>State and system calls\<close>

record KVM_probe =
  m_kvm_fd :: int

definition new_KVM_probe :: KVM_probe where
  "new_KVM_probe = \<lparr>m_kvm_fd = - 1\<rparr>"

definition KVM_GET_API_VERSION :: u32 where
  "KVM_GET_API_VERSION = IO 0xAE 0"

definition KVM_CHECK_EXTENSION :: u32 where
  "KVM_CHECK_EXTENSION = IO 0xAE 3"

definition KVM_GET_VCPU_MMAP_SIZE :: u32 where
  "KVM_GET_VCPU_MMAP_SIZE = IO 0xAE 4"

definition destroy_KVM_probe :: "'k kernel \<Rightarrow> KVM_probe \<Rightarrow> ('k, unit) io" where
  "destroy_KVM_probe K d = (if m_kvm_fd d \<ge> 0 then sys_close K (m_kvm_fd d) else return ())"

definition move_KVM_probe :: "KVM_probe \<Rightarrow> KVM_probe \<times> KVM_probe" where
  "move_KVM_probe other = (other, \<lparr>m_kvm_fd = - 1\<rparr>)"

definition assign_KVM_probe ::
  "'k kernel \<Rightarrow> bool \<Rightarrow> KVM_probe \<Rightarrow> KVM_probe \<Rightarrow> ('k, KVM_probe \<times> KVM_probe) io" where
  "assign_KVM_probe K same self other =
     (if same then return (self, other)
      else call (if m_kvm_fd self \<ge> 0 then sys_close K (m_kvm_fd self) else return ()) (\<lambda>_.
        return (\<lparr>m_kvm_fd = m_kvm_fd other\<rparr>, \<lparr>m_kvm_fd = - 1\<rparr>)))"

definition initialize :: "'k kernel \<Rightarrow> bool \<Rightarrow> KVM_probe \<Rightarrow> ('k, (errno + unit) \<times> KVM_probe) io" where
  "initialize K NDEBUG d =
     call (cassert NDEBUG (m_kvm_fd d = - 1)) (\<lambda>_.
     call (sys_open K ''/dev/kvm'' [O_RDWR, O_CLOEXEC]) (\<lambda>fd.
       let d1 = d\<lparr>m_kvm_fd := fd\<rparr> in
       if fd < 0 then call get_errno (\<lambda>e. return (Inl e, d1)) else return (Inr (), d1)))"

text \<open>A negative result of \<open>ioctl\<close> is an error, with the code in \<open>errno\<close>.\<close>

definition get_api_version :: "'k kernel \<Rightarrow> KVM_probe \<Rightarrow> ('k, errno + int) io" where
  "get_api_version K d =
     call (sys_ioctl K (m_kvm_fd d) KVM_GET_API_VERSION 0) (\<lambda>r. case r of
         None \<Rightarrow> call get_errno (\<lambda>e. return (Inl e))
       | Some version \<Rightarrow> if version < 0 then call get_errno (\<lambda>e. return (Inl e)) else return (Inr version))"

text \<open>The value of the ioctl, \<open>-1\<close> when it fails.\<close>

definition capability :: "'k kernel \<Rightarrow> int \<Rightarrow> KVM_probe \<Rightarrow> ('k, int) io" where
  "capability K extension d =
     call (sys_ioctl K (m_kvm_fd d) KVM_CHECK_EXTENSION extension) (\<lambda>r.
       return (case r of None \<Rightarrow> - 1 | Some v \<Rightarrow> v))"

definition check_extension :: "'k kernel \<Rightarrow> int \<Rightarrow> KVM_probe \<Rightarrow> ('k, bool) io" where
  "check_extension K extension d = call (capability K extension d) (\<lambda>v. return (v > 0))"

definition get_vcpu_mmap_size :: "'k kernel \<Rightarrow> KVM_probe \<Rightarrow> ('k, errno + nat) io" where
  "get_vcpu_mmap_size K d =
     call (sys_ioctl K (m_kvm_fd d) KVM_GET_VCPU_MMAP_SIZE 0) (\<lambda>r. case r of
         None \<Rightarrow> call get_errno (\<lambda>e. return (Inl e))
       | Some sz \<Rightarrow> if sz < 0 then call get_errno (\<lambda>e. return (Inl e)) else return (Inr (nat sz)))"

section \<open>The report\<close>

definition extensions :: "(string \<times> string) list" where
  "extensions =
     [(''KVM_CAP_IRQCHIP'', ''In-kernel interrupt controller''),
      (''KVM_CAP_HLT'', ''HLT instruction support''),
      (''KVM_CAP_MMU_SHADOW_CACHE_CONTROL'', ''MMU shadow cache control''),
      (''KVM_CAP_USER_MEMORY'', ''User memory regions''),
      (''KVM_CAP_SET_TSS_ADDR'', ''TSS address setting''),
      (''KVM_CAP_VAPIC'', ''Virtual APIC''),
      (''KVM_CAP_EXT_CPUID'', ''Extended CPUID''),
      (''KVM_CAP_CLOCKSOURCE'', ''Clock source''),
      (''KVM_CAP_NR_VCPUS'', ''Maximum VCPUs''),
      (''KVM_CAP_NR_MEMSLOTS'', ''Maximum memory slots''),
      (''KVM_CAP_PIT'', ''Programmable Interval Timer''),
      (''KVM_CAP_NOP_IO_DELAY'', ''NOP IO delay''),
      (''KVM_CAP_PV_MMU'', ''Paravirtual MMU''),
      (''KVM_CAP_MP_STATE'', ''MP state control''),
      (''KVM_CAP_COALESCED_MMIO'', ''Coalesced MMIO''),
      (''KVM_CAP_SYNC_MMU'', ''Synchronous MMU''),
      (''KVM_CAP_IOMMU'', ''IOMMU support''),
      (''KVM_CAP_DESTROY_MEMORY_REGION_WORKS'', ''Memory region destruction''),
      (''KVM_CAP_USER_NMI'', ''User NMI injection''),
      (''KVM_CAP_SET_GUEST_DEBUG'', ''Guest debugging''),
      (''KVM_CAP_REINJECT_CONTROL'', ''Interrupt reinjection control''),
      (''KVM_CAP_IRQ_ROUTING'', ''IRQ routing''),
      (''KVM_CAP_IRQ_INJECT_STATUS'', ''IRQ injection status''),
      (''KVM_CAP_ASSIGN_DEV_IRQ'', ''Device IRQ assignment''),
      (''KVM_CAP_JOIN_MEMORY_REGIONS_WORKS'', ''Memory region joining''),
      (''KVM_CAP_MCE'', ''Machine Check Exception''),
      (''KVM_CAP_IRQFD'', ''IRQ file descriptor''),
      (''KVM_CAP_PIT2'', ''PIT2 support''),
      (''KVM_CAP_SET_BOOT_CPU_ID'', ''Boot CPU ID setting''),
      (''KVM_CAP_PIT_STATE2'', ''PIT state 2''),
      (''KVM_CAP_IOEVENTFD'', ''IO event file descriptor''),
      (''KVM_CAP_SET_IDENTITY_MAP_ADDR'', ''Identity map address''),
      (''KVM_CAP_XEN_HVM'', ''Xen HVM support''),
      (''KVM_CAP_ADJUST_CLOCK'', ''Clock adjustment''),
      (''KVM_CAP_INTERNAL_ERROR_DATA'', ''Internal error data''),
      (''KVM_CAP_VCPU_EVENTS'', ''VCPU events''),
      (''KVM_CAP_S390_PSW'', ''S390 PSW''),
      (''KVM_CAP_PPC_SEGSTATE'', ''PowerPC segment state''),
      (''KVM_CAP_HYPERV'', ''Hyper-V support''),
      (''KVM_CAP_HYPERV_VAPIC'', ''Hyper-V VAPIC''),
      (''KVM_CAP_HYPERV_SPIN'', ''Hyper-V spinlocks''),
      (''KVM_CAP_PCI_SEGMENT'', ''PCI segments''),
      (''KVM_CAP_PPC_PAIRED_SINGLES'', ''PowerPC paired singles''),
      (''KVM_CAP_INTR_SHADOW'', ''Interrupt shadow''),
      (''KVM_CAP_DEBUGREGS'', ''Debug registers''),
      (''KVM_CAP_X86_ROBUST_SINGLESTEP'', ''Robust single-step''),
      (''KVM_CAP_PPC_OSI'', ''PowerPC OSI''),
      (''KVM_CAP_PPC_UNSET_IRQ'', ''PowerPC IRQ unsetting''),
      (''KVM_CAP_ENABLE_CAP'', ''Enable capability''),
      (''KVM_CAP_XSAVE'', ''XSAVE support''),
      (''KVM_CAP_XCRS'', ''Extended control registers''),
      (''KVM_CAP_PPC_GET_PVINFO'', ''PowerPC PV info''),
      (''KVM_CAP_PPC_IRQ_LEVEL'', ''PowerPC IRQ level''),
      (''KVM_CAP_ASYNC_PF'', ''Async page fault''),
      (''KVM_CAP_TSC_CONTROL'', ''TSC control''),
      (''KVM_CAP_GET_TSC_KHZ'', ''Get TSC frequency''),
      (''KVM_CAP_PPC_BOOKE_SREGS'', ''PowerPC BookE special registers''),
      (''KVM_CAP_SPAPR_TCE'', ''SPAPR TCE''),
      (''KVM_CAP_PPC_SMT'', ''PowerPC SMT''),
      (''KVM_CAP_PPC_RMA'', ''PowerPC RMA''),
      (''KVM_CAP_MAX_VCPUS'', ''Maximum VCPUs (hard limit)''),
      (''KVM_CAP_PPC_HIOR'', ''PowerPC HIOR''),
      (''KVM_CAP_PPC_PAPR'', ''PowerPC PAPR''),
      (''KVM_CAP_SW_TLB'', ''Software TLB''),
      (''KVM_CAP_ONE_REG'', ''One register interface''),
      (''KVM_CAP_S390_GMAP'', ''S390 guest mapping''),
      (''KVM_CAP_TSC_DEADLINE_TIMER'', ''TSC deadline timer''),
      (''KVM_CAP_S390_UCONTROL'', ''S390 user control''),
      (''KVM_CAP_SYNC_REGS'', ''Sync registers''),
      (''KVM_CAP_PCI_2_3'', ''PCI 2.3 features''),
      (''KVM_CAP_KVMCLOCK_CTRL'', ''KVM clock control''),
      (''KVM_CAP_SIGNAL_MSI'', ''Signal MSI''),
      (''KVM_CAP_PPC_GET_SMMU_INFO'', ''PowerPC SMMU info''),
      (''KVM_CAP_S390_COW'', ''S390 copy-on-write''),
      (''KVM_CAP_PPC_ALLOC_HTAB'', ''PowerPC HTAB allocation''),
      (''KVM_CAP_READONLY_MEM'', ''Read-only memory''),
      (''KVM_CAP_IRQFD_RESAMPLE'', ''IRQ file descriptor resampling''),
      (''KVM_CAP_PPC_BOOKE_WATCHDOG'', ''PowerPC BookE watchdog''),
      (''KVM_CAP_PPC_HTAB_FD'', ''PowerPC HTAB file descriptor''),
      (''KVM_CAP_S390_CSS_SUPPORT'', ''S390 channel subsystem''),
      (''KVM_CAP_PPC_EPR'', ''PowerPC external proxy''),
      (''KVM_CAP_ARM_PSCI'', ''ARM PSCI''),
      (''KVM_CAP_ARM_SET_DEVICE_ADDR'', ''ARM device address''),
      (''KVM_CAP_DEVICE_CTRL'', ''Device control''),
      (''KVM_CAP_IRQ_MPIC'', ''MPIC interrupt controller''),
      (''KVM_CAP_PPC_RTAS'', ''PowerPC RTAS''),
      (''KVM_CAP_IRQ_XICS'', ''XICS interrupt controller''),
      (''KVM_CAP_ARM_EL1_32BIT'', ''ARM EL1 32-bit''),
      (''KVM_CAP_SPAPR_MULTITCE'', ''SPAPR multiple TCE''),
      (''KVM_CAP_EXT_EMUL_CPUID'', ''Extended emulated CPUID''),
      (''KVM_CAP_HYPERV_TIME'', ''Hyper-V time''),
      (''KVM_CAP_IOAPIC_POLARITY_IGNORED'', ''IOAPIC polarity ignored''),
      (''KVM_CAP_ENABLE_CAP_VM'', ''Enable VM capability''),
      (''KVM_CAP_S390_IRQCHIP'', ''S390 interrupt chip''),
      (''KVM_CAP_IOEVENTFD_NO_LENGTH'', ''IO event FD no length''),
      (''KVM_CAP_VM_ATTRIBUTES'', ''VM attributes''),
      (''KVM_CAP_ARM_PSCI_0_2'', ''ARM PSCI 0.2''),
      (''KVM_CAP_PPC_FIXUP_HCALL'', ''PowerPC hypercall fixup''),
      (''KVM_CAP_PPC_ENABLE_HCALL'', ''PowerPC enable hypercall''),
      (''KVM_CAP_CHECK_EXTENSION_VM'', ''Check VM extension'')]"

definition pad_right :: "nat \<Rightarrow> string \<Rightarrow> string" where
  "pad_right w s = s @ replicate (w - length s) (CHR '' '')"

definition extension_line :: "string \<Rightarrow> bool \<Rightarrow> string \<Rightarrow> string" where
  "extension_line name supported description =
     pad_right 35 name @ '' '' @ pad_right 8 (if supported then ''[YES]'' else ''[NO]'') @ '' '' @ description"

fun print_extensions ::
  "'k kernel \<Rightarrow> (string \<Rightarrow> int) \<Rightarrow> KVM_probe \<Rightarrow> (string \<times> string) list \<Rightarrow> ('k, unit) io" where
  "print_extensions K CAP d [] = return ()"
| "print_extensions K CAP d ((name, description) # exts) =
     call (check_extension K (CAP name) d) (\<lambda>supported.
     say (extension_line name supported description) (print_extensions K CAP d exts))"

definition print_positive :: "'k kernel \<Rightarrow> int \<Rightarrow> (string \<Rightarrow> string) \<Rightarrow> KVM_probe \<Rightarrow> ('k, unit) io" where
  "print_positive K extension line d =
     call (capability K extension d) (\<lambda>v. if v > 0 then println (line (dec_int v)) else return ())"

definition print_capabilities :: "'k kernel \<Rightarrow> (string \<Rightarrow> int) \<Rightarrow> KVM_probe \<Rightarrow> ('k, unit) io" where
  "print_capabilities K CAP d =
     say (''=== KVM Capabilities ==='' @ newline)
     (call (get_api_version K d) (\<lambda>r. case r of
         Inl e \<Rightarrow> println (''Failed to get API version: '' @ k_strerror K e)
       | Inr version \<Rightarrow>
           say (''API Version: '' @ dec_int version)
           (call (get_vcpu_mmap_size K d) (\<lambda>r.
            call (case r of
                    Inr sz \<Rightarrow> println (''VCPU mmap size: '' @ dec sz @ '' bytes'' @ newline)
                  | Inl _ \<Rightarrow> return ()) (\<lambda>_.
            say ''Supported Extensions:''
            (say ''---------------------''
            (call (print_extensions K CAP d extensions) (\<lambda>_.
             say (newline @ ''Numeric Capabilities:'')
             (say ''--------------------''
             (call (print_positive K (CAP ''KVM_CAP_NR_VCPUS'') (\<lambda>v. ''Recommended max VCPUs: '' @ v) d) (\<lambda>_.
              call (print_positive K (CAP ''KVM_CAP_MAX_VCPUS'') (\<lambda>v. ''Hard limit max VCPUs: '' @ v) d) (\<lambda>_.
              call (print_positive K (CAP ''KVM_CAP_NR_MEMSLOTS'') (\<lambda>v. ''Max memory slots: '' @ v) d) (\<lambda>_.
              print_positive K (CAP ''KVM_CAP_GET_TSC_KHZ'') (\<lambda>v. ''TSC frequency: '' @ v @ '' kHz'') d)))))))))))))"

section \<open>Ownership\<close>

definition probe_res :: "KVM_probe \<Rightarrow> resource multiset" where
  "probe_res d = fd_res (m_kvm_fd d)"

lemma destroy_probe_transfers: "transfers (probe_res d) (destroy_KVM_probe K d) (\<lambda>_. {#})"
  unfolding destroy_KVM_probe_def probe_res_def by (rule close_fd_transfers)

lemma assign_probe_transfers:
  "transfers (probe_res a + probe_res b) (assign_KVM_probe K same a b) (\<lambda>(a', b'). probe_res a' + probe_res b')"
  unfolding assign_KVM_probe_def probe_res_def
  by (intro transfers_if call_part [OF close_fd_transfers refl] transfers_return; simp)

lemma initialize_transfers:
  "m_kvm_fd d < 0 \<Longrightarrow> transfers (probe_res d) (initialize K ND d) (\<lambda>(r, d'). probe_res d')"
  unfolding initialize_def Let_def probe_res_def
  by (rule call_neutral [OF neutral_cassert], simp, rule transfers_call [OF transfers_sys_open])
    (intro io_rules; simp)

lemma neutral_get_api_version [io_rules]: "neutral (get_api_version K d)"
  unfolding get_api_version_def by (intro io_rules; simp)

lemma neutral_get_vcpu_mmap_size [io_rules]: "neutral (get_vcpu_mmap_size K d)"
  unfolding get_vcpu_mmap_size_def by (intro io_rules; simp)

lemma neutral_capability [io_rules]: "neutral (capability K e d)"
  unfolding capability_def by (intro io_rules; simp)

lemma neutral_check_extension [io_rules]: "neutral (check_extension K e d)"
  unfolding check_extension_def by (intro io_rules; simp)

lemma neutral_print_extensions [io_rules]: "neutral (print_extensions K CAP d exts)"
  by (induction K CAP d exts rule: print_extensions.induct) (auto intro!: io_rules)

lemma neutral_print_positive [io_rules]: "neutral (print_positive K e l d)"
  unfolding print_positive_def by (intro io_rules; simp)

lemma neutral_print_capabilities [io_rules]: "neutral (print_capabilities K CAP d)"
  unfolding print_capabilities_def by (intro io_rules; simp)

end
