(* ===== verification/Kvm_Db.thy ===== *)
theory Kvm_Db
  imports Uring_Client Wal_Client Kvm_Probe
begin

text \<open>
  The program \<^verbatim>\<open>src/src/kvm_db.cc\<close>: \<open>main\<close> with its local objects.  An object is destroyed where
  its scope ends, in the reverse order of construction, also on the early returns.  An exception
  that leaves a method is not caught by \<open>main\<close>; it is the outcome \<open>Throw\<close> of the program, which
  then terminates without running destructors.
\<close>

section \<open>Asynchronous transfers\<close>

definition geteuid :: "'k kernel \<Rightarrow> ('k, nat) io" where
  "geteuid K p = (Val (k_euid K (p_os p)), p)"

definition test_data :: "byte list" where
  "test_data = replicate 4096 0x42"

definition integrity_test :: "'k kernel \<Rightarrow> UringBlkDevice \<Rightarrow> ('k, unit) io" where
  "integrity_test K device =
     call (write_async K 0 test_data 4096 device) (\<lambda>w. case w of
         Inl e \<Rightarrow> println (''Async write failed: '' @ k_strerror K e)
       | Inr n \<Rightarrow>
           say (''Async write completed: '' @ dec n @ '' bytes written'')
           (call (read_async K 0 (replicate 4096 0) 4096 device) (\<lambda>(r, read_buffer). case r of
               Inl e \<Rightarrow> println (''Async read failed: '' @ k_strerror K e)
             | Inr n \<Rightarrow>
                 say (''Async read completed: '' @ dec n @ '' bytes read'')
                 (println (''Data integrity check: '' @
                    (if test_data = read_buffer then ''PASSED'' else ''FAILED''))))))"

definition flush_test :: "'k kernel \<Rightarrow> UringBlkDevice \<Rightarrow> ('k, unit) io" where
  "flush_test K device =
     call (flush_async K device) (\<lambda>f. case f of
         Inr _ \<Rightarrow> println ''Async flush completed successfully''
       | Inl e \<Rightarrow> println (''Async flush failed: '' @ k_strerror K e))"

definition async_test :: "'k kernel \<Rightarrow> string \<Rightarrow> ('k, unit) io" where
  "async_test K path =
     call (open_device K (\<lambda>_. path) new_UringBlkDevice) (\<lambda>(r, device).
       call (case r of
               Inl e \<Rightarrow> return ()
             | Inr _ \<Rightarrow>
                 say (''Testing async I/O operations on '' @ path)
                 (call (integrity_test K device) (\<lambda>_. flush_test K device)))
         (\<lambda>_. destroy_UringBlkDevice K device))"

section \<open>main\<close>

definition uringblk_part :: "'k kernel \<Rightarrow> ('k, unit) io" where
  "uringblk_part K =
     say (newline @ ''=== Testing uringblk Driver Interface ==='')
     (call (is_driver_loaded K) (\<lambda>loaded.
        if loaded then
          say ''uringblk driver is loaded''
          (call (get_driver_version K) (\<lambda>v.
           call (case v of Inr version \<Rightarrow> println (''Driver version: '' @ version) | Inl _ \<Rightarrow> return ()) (\<lambda>_.
           call (test_all_devices K) (\<lambda>r.
           call (case r of
                   Inl e \<Rightarrow> println (''uringblk device testing failed: '' @ k_strerror K e)
                 | Inr _ \<Rightarrow> return ()) (\<lambda>_.
           say (newline @ ''--- Testing High-Performance I/O ---'')
           (call (enumerate_devices K) (\<lambda>devices. case devices of
                [] \<Rightarrow> return ()
              | front # _ \<Rightarrow> async_test K front)))))))
        else
          say ''uringblk driver is not loaded''
          (say ''To load the driver, run: sudo make uringblk_driver_load''
          (println ''Note: This requires the uringblk kernel module to be built first''))))"

definition no_uringblk_part :: "('k, unit) io" where
  "no_uringblk_part =
     say (newline @ ''=== uringblk Driver Support ==='')
     (say ''uringblk driver support is not compiled in''
     (println ''Rebuild with HAVE_URINGBLK_DRIVER=1 to enable uringblk support''))"

definition wal_interface_part :: "'k kernel \<Rightarrow> ('k, WAL_device_interface) io" where
  "wal_interface_part K =
     say (newline @ ''=== Testing WAL Device Interface ==='')
     (call (open_devices K new_WAL_device_interface) (\<lambda>(r, wal_interface).
        call (case r of
                Inl e \<Rightarrow>
                  say (''Failed to open WAL devices for I/O: '' @ k_strerror K e)
                  (println ''Note: This is expected if no kernel driver is loaded for these devices'')
              | Inr _ \<Rightarrow>
                  call (test_device_operations K wal_interface) (\<lambda>t. case t of
                      Inl e \<Rightarrow> println (''WAL device operation tests failed: '' @ k_strerror K e)
                    | Inr _ \<Rightarrow> return ()))
          (\<lambda>_. return wal_interface)))"

text \<open>From the probe to the end, with the manager of the device nodes still alive.\<close>

definition main_tests ::
  "'k kernel \<Rightarrow> (string \<Rightarrow> int) \<Rightarrow> bool \<Rightarrow> WAL_device_manager \<Rightarrow> KVM_probe \<Rightarrow> ('k, nat) io" where
  "main_tests K CAP HAVE_URINGBLK_DRIVER wal_manager probe =
     call (print_capabilities K CAP probe) (\<lambda>_.
     call (wal_interface_part K) (\<lambda>wal_interface.
     call (if HAVE_URINGBLK_DRIVER then uringblk_part K else no_uringblk_part) (\<lambda>_.
     say (newline @ ''Shutdown: WAL devices will be cleaned up automatically...'')
     (call (destroy_WAL_device_interface K wal_interface) (\<lambda>_.
      call (destroy_KVM_probe K probe) (\<lambda>_.
      call (destroy_WAL_device_manager K wal_manager) (\<lambda>_. return 0)))))))"

definition main_failed :: "'k kernel \<Rightarrow> WAL_device_manager \<Rightarrow> KVM_probe \<Rightarrow> errno \<Rightarrow> ('k, nat) io" where
  "main_failed K wal_manager probe e =
     say (''Failed to initialize KVM: '' @ k_strerror K e)
     (say ''Make sure:''
     (say ''1. KVM is loaded (modprobe kvm kvm-intel/kvm-amd)''
     (say ''2. /dev/kvm exists and is accessible''
     (say ''3. You have proper permissions''
     (call (destroy_KVM_probe K probe) (\<lambda>_.
      call (destroy_WAL_device_manager K wal_manager) (\<lambda>_. return 1)))))))"

definition main_probe ::
  "'k kernel \<Rightarrow> bool \<Rightarrow> (string \<Rightarrow> int) \<Rightarrow> bool \<Rightarrow> WAL_device_manager \<Rightarrow> ('k, nat) io" where
  "main_probe K NDEBUG CAP HAVE_URINGBLK_DRIVER wal_manager =
     call (initialize K NDEBUG new_KVM_probe) (\<lambda>(r, probe). case r of
         Inl e \<Rightarrow> main_failed K wal_manager probe e
       | Inr _ \<Rightarrow> main_tests K CAP HAVE_URINGBLK_DRIVER wal_manager probe)"

definition main_created ::
  "'k kernel \<Rightarrow> bool \<Rightarrow> (string \<Rightarrow> int) \<Rightarrow> bool \<Rightarrow> (errno + unit) \<times> WAL_device_manager \<Rightarrow> ('k, nat) io" where
  "main_created K NDEBUG CAP HAVE_URINGBLK_DRIVER = (\<lambda>(r, wal_manager). case r of
       Inl e \<Rightarrow>
         say (''Failed to create WAL devices: '' @ k_strerror K e)
         (say (''Make sure you'' @ apos @ ''re running as root (sudo)'')
         (call (destroy_WAL_device_manager K wal_manager) (\<lambda>_. return 1)))
     | Inr _ \<Rightarrow>
         call (test_devices K wal_manager) (\<lambda>t.
         call (case t of
                 Inl e \<Rightarrow> println (''Warning: WAL device test failed: '' @ k_strerror K e)
               | Inr _ \<Rightarrow> println ''All WAL devices verified successfully'') (\<lambda>_.
         say [] (main_probe K NDEBUG CAP HAVE_URINGBLK_DRIVER wal_manager))))"

definition main ::
  "'k kernel \<Rightarrow> bool \<Rightarrow> (string \<Rightarrow> int) \<Rightarrow> bool \<Rightarrow> ('k, nat) io" where
  "main K NDEBUG CAP HAVE_URINGBLK_DRIVER =
     say (''=== KVM Database Probe with WAL Devices ==='' @ newline)
     (call (geteuid K) (\<lambda>euid.
      call (if euid \<noteq> 0 then
              say ''Warning: Not running as root. Device creation may fail.''
              (println (''Try: sudo ./kvm_db'' @ newline))
            else return ()) (\<lambda>_.
      say ''Creating WAL devices...''
      (call (wal_create_devices K new_WAL_device_manager)
         (main_created K NDEBUG CAP HAVE_URINGBLK_DRIVER)))))"

section \<open>Ownership\<close>

lemma neutral_geteuid [io_rules]: "neutral (geteuid K)"
  by (rule neutralI) (simp_all add: geteuid_def)

lemma neutral_integrity_test [io_rules]: "neutral (integrity_test K d)"
  unfolding integrity_test_def by (intro io_rules; simp)

lemma neutral_flush_test [io_rules]: "neutral (flush_test K d)"
  unfolding flush_test_def by (intro io_rules; simp)

lemma neutral_async_test [io_rules]: "neutral (async_test K path)"
  unfolding async_test_def
proof (rule transfers_call)
  show "transfers {#} (open_device K (\<lambda>_. path) new_UringBlkDevice) (\<lambda>(r, d'). dev_res d')"
    using open_device_transfers [of new_UringBlkDevice] by simp
qed (auto intro!: call_neutral destroy_device_transfers transfers_sum io_rules)

lemma neutral_uringblk_part [io_rules]: "neutral (uringblk_part K)"
  unfolding uringblk_part_def
proof (intro io_rules)
  fix devices
  show "neutral (case devices of [] \<Rightarrow> return () | front # _ \<Rightarrow> async_test K front)"
    by (cases devices) (auto intro!: io_rules)
qed simp_all

lemma neutral_no_uringblk_part [io_rules]: "neutral no_uringblk_part"
  unfolding no_uringblk_part_def by (intro io_rules)

lemma wal_interface_part_transfers: "transfers {#} (wal_interface_part K) wal_res"
  unfolding wal_interface_part_def
proof (intro transfers_say transfers_call)
  show "transfers {#} (open_devices K new_WAL_device_interface) (\<lambda>(r, w'). wal_res w')"
    using open_devices_transfers [of new_WAL_device_interface K]
    by (simp add: new_WAL_device_interface_def wal_res_def)
qed (auto intro!: call_neutral io_rules)

lemma last_scope: "neutral (call (destroy_WAL_device_manager K m) (\<lambda>_. return (x :: nat)))"
  by (intro io_rules) simp

lemma main_tests_transfers: "transfers (probe_res d) (main_tests K CAP H m d) (\<lambda>_. {#})"
  unfolding main_tests_def
  by (intro call_neutral [OF neutral_print_capabilities] call_part [OF wal_interface_part_transfers])
    (auto intro!: call_neutral [OF neutral_uringblk_part] call_neutral [OF neutral_no_uringblk_part]
      transfers_say call_part [OF destroy_interface_transfers] transfers_call [OF destroy_probe_transfers]
      last_scope)

lemma main_failed_transfers: "transfers (probe_res d) (main_failed K m d e) (\<lambda>_. {#})"
  unfolding main_failed_def
  by (intro transfers_say transfers_call [OF destroy_probe_transfers] last_scope)

lemma neutral_main_probe [io_rules]: "neutral (main_probe K ND CAP H m)"
  unfolding main_probe_def
proof (rule transfers_call)
  show "transfers {#} (initialize K ND new_KVM_probe) (\<lambda>(r, d'). probe_res d')"
    using initialize_transfers [of new_KVM_probe] by (simp add: new_KVM_probe_def probe_res_def)
qed (auto intro!: transfers_sum main_tests_transfers main_failed_transfers)

lemma neutral_main: "neutral (main K ND CAP H)"
  unfolding main_def main_created_def by (intro io_rules; simp)

end
