(* ===== verification/Client_Lifetimes.thy ===== *)
theory Client_Lifetimes
  imports Kvm_Db
begin

text \<open>
  Objects that own descriptors.  \<open>owning_class\<close> is the interface that the three classes of the
  client share: methods, move assignment and a destructor, each of which transfers exactly the
  descriptors of the objects involved.  The lemmas of the locale follow any program over an array
  of such objects; the interpretations discharge the laws for \<open>UringBlkDevice\<close>,
  \<open>WAL_device_interface\<close> and \<open>KVM_probe\<close>.
\<close>

section \<open>Programs over an array of objects\<close>

datatype 'e action = Method nat 'e | Assign nat nat

definition pool_act ::
  "('e \<Rightarrow> 'o \<Rightarrow> ('k, 'o) io) \<Rightarrow> ('e \<Rightarrow> 'o \<Rightarrow> bool) \<Rightarrow> (bool \<Rightarrow> 'o \<Rightarrow> 'o \<Rightarrow> ('k, 'o \<times> 'o) io) \<Rightarrow>
     'e action \<Rightarrow> 'o list \<Rightarrow> ('k, 'o list) io" where
  "pool_act meth can assign a os = (case a of
       Method i e \<Rightarrow>
         if i < length os \<and> can e (os ! i)
         then call (meth e (os ! i)) (\<lambda>o'. return (os[i := o'])) else return os
     | Assign i j \<Rightarrow>
         if i < length os \<and> j < length os \<and> i \<noteq> j
         then call (assign False (os ! i) (os ! j)) (\<lambda>(a, b). return (os[i := a, j := b])) else return os)"

fun pool_run where
  "pool_run meth can assign [] os = return os"
| "pool_run meth can assign (a # as) os =
     call (pool_act meth can assign a os) (pool_run meth can assign as)"

fun pool_destroy :: "('o \<Rightarrow> ('k, unit) io) \<Rightarrow> 'o list \<Rightarrow> ('k, unit) io" where
  "pool_destroy destroy [] = return ()"
| "pool_destroy destroy (x # xs) = call (destroy x) (\<lambda>_. pool_destroy destroy xs)"

abbreviation pool_res :: "('o \<Rightarrow> resource multiset) \<Rightarrow> 'o list \<Rightarrow> resource multiset" where
  "pool_res res os \<equiv> sum_list (map res os)"

lemma pool_res_index: "pool_res res os = (\<Sum>k<length os. res (os ! k))"
  by (simp add: sum_list_sum_nth atLeast0LessThan)

text \<open>The resources of one or two objects beside those of the others.\<close>

lemma pool_res_one:
  assumes "i < length os"
  shows "pool_res res (os[i := x]) = res x + (\<Sum>k\<in>{..<length os} - {i}. res (os ! k))"
proof -
  have "(\<Sum>k\<in>{..<length os} - {i}. res (os[i := x] ! k)) = (\<Sum>k\<in>{..<length os} - {i}. res (os ! k))"
    by (rule sum.cong) auto
  with assms show ?thesis unfolding pool_res_index by (subst sum.remove [of _ i]) auto
qed

lemma pool_res_two:
  assumes "i < length os" and "j < length os" and "i \<noteq> j"
  shows "pool_res res (os[i := x, j := y]) =
    (res x + res y) + (\<Sum>k\<in>{..<length os} - {j} - {i}. res (os ! k))"
proof -
  have "(\<Sum>k\<in>{..<length os} - {j} - {i}. res (os[i := x] ! k)) = (\<Sum>k\<in>{..<length os} - {j} - {i}. res (os ! k))"
    by (rule sum.cong) auto
  moreover have "pool_res res (os[i := x, j := y]) = res y + (\<Sum>k\<in>{..<length os} - {j}. res (os[i := x] ! k))"
    using assms pool_res_one [of j "os[i := x]" res y] by simp
  moreover have "(\<Sum>k\<in>{..<length os} - {j}. res (os[i := x] ! k)) =
      res x + (\<Sum>k\<in>{..<length os} - {j} - {i}. res (os[i := x] ! k))"
    using assms by (subst sum.remove [of _ i]) auto
  ultimately show ?thesis by (simp add: ac_simps)
qed

lemma pool_res_self:
  "i < length os \<Longrightarrow> pool_res res os = res (os ! i) + (\<Sum>k\<in>{..<length os} - {i}. res (os ! k))"
  "i < length os \<Longrightarrow> j < length os \<Longrightarrow> i \<noteq> j \<Longrightarrow>
     pool_res res os = (res (os ! i) + res (os ! j)) + (\<Sum>k\<in>{..<length os} - {j} - {i}. res (os ! k))"
  using pool_res_one [of i os res "os ! i"] pool_res_two [of i os j res "os ! i" "os ! j"] by simp_all

section \<open>The interface\<close>

locale owning_class =
  fixes res :: "'o \<Rightarrow> resource multiset"
    and meth :: "'e \<Rightarrow> 'o \<Rightarrow> ('k, 'o) io"
    and can :: "'e \<Rightarrow> 'o \<Rightarrow> bool"
    and assign :: "bool \<Rightarrow> 'o \<Rightarrow> 'o \<Rightarrow> ('k, 'o \<times> 'o) io"
    and destroy :: "'o \<Rightarrow> ('k, unit) io"
  assumes meth_transfers: "can e x \<Longrightarrow> transfers (res x) (meth e x) res"
    and meth_returns: "can e x \<Longrightarrow> returns (meth e x)"
    and assign_transfers: "transfers (res x + res y) (assign b x y) (\<lambda>(x', y'). res x' + res y')"
    and assign_returns: "returns (assign b x y)"
    and destroy_transfers: "transfers (res x) (destroy x) (\<lambda>_. {#})"
    and destroy_returns: "returns (destroy x)"
begin

lemma act_transfers: "transfers (pool_res res os) (pool_act meth can assign a os) (pool_res res)"
proof (cases a)
  case (Method i e)
  show ?thesis
  proof (cases "i < length os \<and> can e (os ! i)")
    case True
    then show ?thesis unfolding pool_act_def Method action.case if_P [OF True]
      by (intro call_part [OF meth_transfers pool_res_self(1)]) (auto intro!: transfers_return simp: pool_res_one)
  qed (auto simp: pool_act_def Method intro: transfers_return)
next
  case (Assign i j)
  show ?thesis
  proof (cases "i < length os \<and> j < length os \<and> i \<noteq> j")
    case True
    then show ?thesis unfolding pool_act_def Assign action.case if_P [OF True]
      by (intro call_part [OF assign_transfers pool_res_self(2)])
        (auto intro!: transfers_prod transfers_return simp: pool_res_two)
  qed (auto simp: pool_act_def Assign intro: transfers_return)
qed

lemma run_transfers: "transfers (pool_res res os) (pool_run meth can assign as os) (pool_res res)"
  by (induction as arbitrary: os) (auto intro: transfers_return transfers_call [OF act_transfers])

lemma pool_destroy_transfers: "transfers (pool_res res os) (pool_destroy destroy os) (\<lambda>_. {#})"
  by (induction os) (auto intro: transfers_return call_part [OF destroy_transfers])

lemma act_returns: "returns (pool_act meth can assign a os)"
  by (auto simp: pool_act_def split: action.splits intro!: ret_rules meth_returns assign_returns)

lemma run_returns: "returns (pool_run meth can assign as os)"
  by (induction as arbitrary: os) (auto intro: returns_return returns_call [OF act_returns])

text \<open>Objects that start empty own, at any point, exactly what the process holds more than at the start;
  nothing is released twice, and destroying them gives everything back.\<close>

lemma lifetime:
  assumes "pool_res res os = {#}"
  shows "\<exists>os' q t. pool_run meth can assign as os p = (Val os', q) \<and> pool_destroy destroy os' q = (Val (), t) \<and>
    held q = held p + pool_res res os' \<and> p_bad q = p_bad p \<and> held t = held p \<and> p_bad t = p_bad p"
proof -
  obtain os' q where r: "pool_run meth can assign as os p = (Val os', q)"
    using run_returns by (rule returnsE)
  have h: "held p = held p + pool_res res os" by (simp add: assms)
  note d = transfersD [OF run_transfers h, of as]
  have q: "held q = held p + pool_res res os'" "p_bad q = p_bad p"
    using d(2) [of os'] d(1) r by simp_all
  have "returns (pool_destroy destroy xs)" for xs
    by (induction xs) (auto intro: ret_rules destroy_returns)
  then obtain u t where t: "pool_destroy destroy os' q = (Val u, t)" by (rule returnsE)
  note e = transfersD [OF pool_destroy_transfers q(1)]
  from e(2) [of u] e(1) t q(2) r q show ?thesis by simp
qed

end

section \<open>UringBlkDevice\<close>

datatype ubd_call =
    U_open "UringBlkDevice \<Rightarrow> string" | U_close | U_identify | U_limits | U_features | U_set_features u64
  | U_geometry | U_stats | U_capacity | U_block_size | U_supports u64
  | U_read u64 "byte list" u64 | U_write u64 "byte list" u64 | U_flush

definition ubd_method :: "'k kernel \<Rightarrow> ubd_call \<Rightarrow> UringBlkDevice \<Rightarrow> ('k, UringBlkDevice) io" where
  "ubd_method K e d = (case e of
       U_open path \<Rightarrow> call (open_device K path d) (\<lambda>(r, d'). return d')
     | U_close \<Rightarrow> close_device K d
     | U_identify \<Rightarrow> call (identify K d) (\<lambda>_. return d)
     | U_limits \<Rightarrow> call (get_limits K d) (\<lambda>_. return d)
     | U_features \<Rightarrow> call (get_features K d) (\<lambda>_. return d)
     | U_set_features f \<Rightarrow> call (set_features K f d) (\<lambda>_. return d)
     | U_geometry \<Rightarrow> call (get_geometry K d) (\<lambda>_. return d)
     | U_stats \<Rightarrow> call (get_stats K d) (\<lambda>_. return d)
     | U_capacity \<Rightarrow> call (get_capacity_sectors K d) (\<lambda>_. return d)
     | U_block_size \<Rightarrow> call (get_logical_block_size K d) (\<lambda>_. return d)
     | U_supports f \<Rightarrow> call (supports_feature K f d) (\<lambda>_. return d)
     | U_read off buf n \<Rightarrow> call (read_async K off buf n d) (\<lambda>_. return d)
     | U_write off buf n \<Rightarrow> call (write_async K off buf n d) (\<lambda>_. return d)
     | U_flush \<Rightarrow> call (flush_async K d) (\<lambda>_. return d))"

definition always :: "'e \<Rightarrow> 'o \<Rightarrow> bool" where
  "always e x \<longleftrightarrow> True"

lemma close_device_res: "transfers (dev_res d) (close_device K d) dev_res"
proof -
  have "transfers (dev_res d) (if 0 \<le> m_device_fd d then call (sys_close K (m_device_fd d)) (\<lambda>_.
      say (''Closed uringblk device: '' @ m_device_path d) (return (d\<lparr>m_device_fd := - 1, m_device_path := []\<rparr>)))
    else return d) dev_res"
    by (intro transfers_if)
      (auto simp: dev_res_def intro!: transfers_call [OF transfers_sys_close] transfers_say transfers_return)
  then show ?thesis by (simp add: close_device_def)
qed

lemma ubd_method_transfers: "transfers (dev_res d) (ubd_method K e d) dev_res"
  unfolding ubd_method_def
  by (cases e) (auto intro!: close_device_res transfers_call [OF open_device_transfers] transfers_prod
      transfers_return call_neutral neutral_commands neutral_set_features neutral_convenience
      neutral_read_async neutral_write_async neutral_flush_async)

lemma returns_close_device [ret_rules]: "returns (close_device K d)"
  unfolding close_device_def by (intro ret_rules)

lemma returns_open_device [ret_rules]: "returns (open_device K path d)"
  unfolding open_device_def Let_def by (intro ret_rules)

lemma returns_submit_and_wait [ret_rules]: "returns (submit_and_wait K io s)" "returns (exit_with e)"
  unfolding submit_and_wait_def exit_with_def by (intro ret_rules)+

lemma returns_init_polled [ret_rules]: "returns (init_polled K)"
  unfolding init_polled_def by (intro ret_rules)

lemma returns_transfers [ret_rules]:
  "returns (read_async K off buf n d)" "returns (write_async K off buf n d)" "returns (flush_async K d)"
  unfolding read_async_def write_async_def flush_async_def by (intro ret_rules)+

lemma returns_query [ret_rules]: "returns (query K opc n f d)"
  unfolding query_def send_uring_cmd_def Let_def by (intro ret_rules)

lemma returns_set_features [ret_rules]: "returns (set_features K f d)"
  unfolding set_features_def send_uring_cmd_def Let_def by (intro ret_rules)

lemma returns_commands [ret_rules]:
  "returns (identify K d)" "returns (get_limits K d)" "returns (get_features K d)"
  "returns (get_geometry K d)" "returns (get_stats K d)" "returns (get_capacity_sectors K d)"
  "returns (get_logical_block_size K d)" "returns (supports_feature K f d)"
  unfolding identify_def get_limits_def get_features_def get_geometry_def get_stats_def
    get_capacity_sectors_def get_logical_block_size_def supports_feature_def by (intro ret_rules)+

interpretation ubd: owning_class dev_res "ubd_method K" always "assign_UringBlkDevice K" "destroy_UringBlkDevice K"
  for K :: "'k kernel"
proof
  show "transfers (dev_res x) (ubd_method K e x) dev_res" for e x by (rule ubd_method_transfers)
  show "returns (ubd_method K e x)" for e x
    unfolding ubd_method_def by (cases e) (auto intro!: ret_rules)
  show "transfers (dev_res x + dev_res y) (assign_UringBlkDevice K b x y) (\<lambda>(x', y'). dev_res x' + dev_res y')" for b x y
    by (rule assign_device_transfers)
  show "returns (assign_UringBlkDevice K b x y)" for b x y
    unfolding assign_UringBlkDevice_def by (intro ret_rules)
  show "transfers (dev_res x) (destroy_UringBlkDevice K x) (\<lambda>_. {#})" for x by (rule destroy_device_transfers)
  show "returns (destroy_UringBlkDevice K x)" for x
    unfolding destroy_UringBlkDevice_def by (intro ret_rules)
qed

section \<open>WAL\_device\_interface\<close>

datatype wal_call = W_open | W_close | W_read nat | W_write string | W_read_block nat
  | W_write_block "byte list" | W_write_string string | W_test

definition wal_method :: "'k kernel \<Rightarrow> wal_call \<Rightarrow> WAL_device_interface \<Rightarrow> ('k, WAL_device_interface) io" where
  "wal_method K e w = (case e of
       W_open \<Rightarrow> call (open_devices K w) (\<lambda>(r, w'). return w')
     | W_close \<Rightarrow> close_devices K w
     | W_read n \<Rightarrow> call (read_char_device K n w) (\<lambda>_. return w)
     | W_write s \<Rightarrow> call (write_char_device K s w) (\<lambda>_. return w)
     | W_read_block n \<Rightarrow> call (read_block_device K n w) (\<lambda>_. return w)
     | W_write_block bs \<Rightarrow> call (write_block_device K bs w) (\<lambda>_. return w)
     | W_write_string s \<Rightarrow> call (write_block_string K s w) (\<lambda>_. return w)
     | W_test \<Rightarrow> call (test_device_operations K w) (\<lambda>_. return w))"

text \<open>The devices are opened on an object that has none open.\<close>

definition wal_can :: "wal_call \<Rightarrow> WAL_device_interface \<Rightarrow> bool" where
  "wal_can e w \<longleftrightarrow> (e = W_open \<longrightarrow> m_char_device_fd w < 0 \<and> m_block_device_fd w < 0)"

lemma close_devices_res: "transfers (wal_res w) (close_devices K w) wal_res"
  unfolding close_devices_def
proof (rule transfers_call)
  show "transfers (wal_res w) (close_char K w) wal_res"
    unfolding close_char_def wal_res_def
    by (intro transfers_if) (auto intro!: call_part [OF transfers_sys_close] transfers_say transfers_return)
  show "transfers (wal_res v) (close_block K v) wal_res" for v
    unfolding close_block_def wal_res_def
    by (intro transfers_if) (auto simp: add.commute [of "fd_res (m_char_device_fd v)"]
        intro!: call_part [OF transfers_sys_close] transfers_say transfers_return)
qed

lemma wal_method_transfers: "wal_can e w \<Longrightarrow> transfers (wal_res w) (wal_method K e w) wal_res"
proof (cases "e = W_open")
  case True
  assume "wal_can e w"
  with True show ?thesis
    by (auto simp: wal_method_def wal_can_def intro!: transfers_call [OF open_devices_transfers] transfers_return)
qed (cases e; auto simp: wal_method_def intro!: close_devices_res transfers_return call_neutral io_rules)

lemma returns_close_devices [ret_rules]: "returns (close_devices K w)"
  unfolding close_devices_def close_char_def close_block_def by (intro ret_rules)

lemma returns_open_devices [ret_rules]: "returns (open_devices K w)"
  unfolding open_devices_def Let_def by (intro ret_rules)

lemma returns_dumps [ret_rules]: "returns (hex_dump bs)" "returns (block_dump i bs)"
proof -
  show "returns (hex_dump bs)" by (induction bs) (auto intro!: ret_rules)
  show "returns (block_dump i bs)" by (induction i bs rule: block_dump.induct) (auto intro!: ret_rules)
qed

lemma returns_wal_transfers [ret_rules]:
  "returns (read_char_device K n w)" "returns (write_char_device K s w)" "returns (read_block_device K n w)"
  "returns (write_block_device K bs w)" "returns (write_block_string K s w)"
  unfolding read_char_device_def write_char_device_def read_block_device_def write_block_device_def
    write_block_string_def Let_def by (intro ret_rules)+

lemma returns_test_device_operations [ret_rules]: "returns (test_device_operations K w)"
  unfolding test_device_operations_def by (intro ret_rules)

interpretation wdi: owning_class wal_res "wal_method K" wal_can "assign_WAL_device_interface K" "destroy_WAL_device_interface K"
  for K :: "'k kernel"
proof
  show "transfers (wal_res x) (wal_method K e x) wal_res" if "wal_can e x" for e x
    using that by (rule wal_method_transfers)
  show "returns (wal_method K e x)" for e x
    unfolding wal_method_def by (cases e) (auto intro!: ret_rules)
  show "transfers (wal_res x + wal_res y) (assign_WAL_device_interface K b x y) (\<lambda>(x', y'). wal_res x' + wal_res y')" for b x y
    by (rule assign_interface_transfers)
  show "returns (assign_WAL_device_interface K b x y)" for b x y
    unfolding assign_WAL_device_interface_def by (intro ret_rules)
  show "transfers (wal_res x) (destroy_WAL_device_interface K x) (\<lambda>_. {#})" for x
    by (rule destroy_interface_transfers)
  show "returns (destroy_WAL_device_interface K x)" for x
    unfolding destroy_WAL_device_interface_def by (intro ret_rules)
qed

section \<open>KVM\_probe\<close>

datatype kvm_call = P_initialize | P_version | P_check int | P_mmap_size | P_print

definition kvm_method ::
  "'k kernel \<Rightarrow> bool \<Rightarrow> (string \<Rightarrow> int) \<Rightarrow> kvm_call \<Rightarrow> KVM_probe \<Rightarrow> ('k, KVM_probe) io" where
  "kvm_method K NDEBUG CAP e d = (case e of
       P_initialize \<Rightarrow> call (initialize K NDEBUG d) (\<lambda>(r, d'). return d')
     | P_version \<Rightarrow> call (get_api_version K d) (\<lambda>_. return d)
     | P_check x \<Rightarrow> call (check_extension K x d) (\<lambda>_. return d)
     | P_mmap_size \<Rightarrow> call (get_vcpu_mmap_size K d) (\<lambda>_. return d)
     | P_print \<Rightarrow> call (print_capabilities K CAP d) (\<lambda>_. return d))"

text \<open>The assertion of \<open>initialize\<close>.\<close>

definition kvm_can :: "kvm_call \<Rightarrow> KVM_probe \<Rightarrow> bool" where
  "kvm_can e d \<longleftrightarrow> (e = P_initialize \<longrightarrow> m_kvm_fd d = - 1)"

lemma returns_ioctls [ret_rules]:
  "returns (get_api_version K d)" "returns (get_vcpu_mmap_size K d)" "returns (capability K x d)"
  unfolding get_api_version_def get_vcpu_mmap_size_def capability_def by (intro ret_rules)+

lemma returns_check_extension [ret_rules]: "returns (check_extension K x d)"
  unfolding check_extension_def by (intro ret_rules)

lemma returns_print_extensions [ret_rules]: "returns (print_extensions K CAP d exts)"
  by (induction K CAP d exts rule: print_extensions.induct) (auto intro!: ret_rules)

lemma returns_print_capabilities [ret_rules]: "returns (print_capabilities K CAP d)"
  unfolding print_capabilities_def print_positive_def by (intro ret_rules)

lemma returns_initialize: "m_kvm_fd d = - 1 \<Longrightarrow> returns (initialize K ND d)"
  unfolding initialize_def Let_def
  by (intro ret_rules) (simp add: cassert_def returns_def)

lemma kvm_method_returns: "kvm_can e d \<Longrightarrow> returns (kvm_method K ND CAP e d)"
  unfolding kvm_method_def kvm_can_def by (cases e) (auto intro!: ret_rules returns_initialize)

lemma kvm_method_transfers: "kvm_can e d \<Longrightarrow> transfers (probe_res d) (kvm_method K ND CAP e d) probe_res"
proof (cases "e = P_initialize")
  case True
  assume "kvm_can e d"
  with True show ?thesis
    by (auto simp: kvm_method_def kvm_can_def intro!: transfers_call [OF initialize_transfers] transfers_return)
qed (cases e; auto simp: kvm_method_def intro!: transfers_return call_neutral io_rules)

interpretation kvm: owning_class probe_res "kvm_method K ND CAP" kvm_can "assign_KVM_probe K" "destroy_KVM_probe K"
  for K :: "'k kernel" and ND CAP
proof
  show "transfers (probe_res x) (kvm_method K ND CAP e x) probe_res" if "kvm_can e x" for e x
    using that by (rule kvm_method_transfers)
  show "returns (kvm_method K ND CAP e x)" if "kvm_can e x" for e x
    using that by (rule kvm_method_returns)
  show "transfers (probe_res x + probe_res y) (assign_KVM_probe K b x y) (\<lambda>(x', y'). probe_res x' + probe_res y')" for b x y
    by (rule assign_probe_transfers)
  show "returns (assign_KVM_probe K b x y)" for b x y
    unfolding assign_KVM_probe_def by (intro ret_rules)
  show "transfers (probe_res x) (destroy_KVM_probe K x) (\<lambda>_. {#})" for x
    by (rule destroy_probe_transfers)
  show "returns (destroy_KVM_probe K x)" for x
    unfolding destroy_KVM_probe_def by (intro ret_rules)
qed

end
