(* ===== verification/Client_Nodes.thy ===== *)
theory Client_Nodes
  imports Client_Lifetimes
begin

text \<open>
  The device nodes under the client.  All of the program but \<open>WAL_device_manager\<close> leaves them
  alone (\<open>keeps_nodes\<close>); \<open>fs_permits\<close> says that the process may look up, remove and create nodes,
  as root may, and then no call throws.  The effect of the manager is given exactly.
\<close>

section \<open>Programs that leave the nodes alone\<close>

definition keeps_nodes :: "('k, 'a) io \<Rightarrow> bool" where
  "keeps_nodes m \<longleftrightarrow> (\<forall>p. p_nodes (snd (m p)) = p_nodes p)"

named_theorems keep_rules \<open>programs that keep the device nodes\<close>

lemma keeps_return [keep_rules]: "keeps_nodes (return x)"
  by (simp add: keeps_nodes_def return_def)

lemma keeps_call [keep_rules]: "keeps_nodes m \<Longrightarrow> (\<And>r. keeps_nodes (f r)) \<Longrightarrow> keeps_nodes (call m f)"
  unfolding keeps_nodes_def call_def by (auto split: prod.splits outcome.splits) (metis snd_conv)+

lemma keeps_try_catch [keep_rules]:
  "keeps_nodes m \<Longrightarrow> (\<And>e. keeps_nodes (h e)) \<Longrightarrow> keeps_nodes (try_catch m h)"
  unfolding keeps_nodes_def try_catch_def by (auto split: prod.splits outcome.splits) (metis snd_conv)+

lemma keeps_say [keep_rules]: "keeps_nodes m \<Longrightarrow> keeps_nodes (say s m)"
  by (simp add: say_def println_def print_def keeps_nodes_def call_def)

lemma keeps_if [keep_rules]: "(b \<Longrightarrow> keeps_nodes m) \<Longrightarrow> (\<not> b \<Longrightarrow> keeps_nodes n) \<Longrightarrow> keeps_nodes (if b then m else n)"
  by simp

lemma keeps_option [keep_rules]:
  "keeps_nodes m \<Longrightarrow> (\<And>x. keeps_nodes (f x)) \<Longrightarrow> keeps_nodes (case r of None \<Rightarrow> m | Some x \<Rightarrow> f x)"
  by (cases r) simp_all

lemma keeps_sum [keep_rules]:
  "(\<And>x. keeps_nodes (f x)) \<Longrightarrow> (\<And>x. keeps_nodes (g x)) \<Longrightarrow> keeps_nodes (case r of Inl x \<Rightarrow> f x | Inr x \<Rightarrow> g x)"
  by (cases r) simp_all

lemma keeps_prod [keep_rules]: "(\<And>x y. keeps_nodes (f x y)) \<Longrightarrow> keeps_nodes (case r of (x, y) \<Rightarrow> f x y)"
  by (cases r) simp

lemma keeps_basic [keep_rules]:
  "keeps_nodes (print s)" "keeps_nodes (println s)" "keeps_nodes get_errno" "keeps_nodes stack_memory"
  "keeps_nodes (cassert ND b)" "keeps_nodes (geteuid K)"
  "keeps_nodes (sys_stat K path)" "keeps_nodes (sys_close K fd)" "keeps_nodes (on_file fd f)"
  "keeps_nodes (read_line K path)" "keeps_nodes (ring_init K io)" "keeps_nodes ring_exit"
  "keeps_nodes (ring_get_sqe K)" "keeps_nodes (ring_submit K io sq)" "keeps_nodes (ring_wait K)"
  by (auto simp: keeps_nodes_def println_def print_def get_errno_def stack_memory_def cassert_def geteuid_def
      sys_stat_def sys_close_def on_file_def read_line_def ring_init_def ring_exit_def
      ring_get_sqe_def ring_submit_def ring_wait_def
      split: prod.splits option.splits sum.splits nat.splits)

lemma keeps_sys_open [keep_rules]: "keeps_nodes (sys_open K path flags)"
  unfolding sys_open_def
  by (rule keeps_call [OF keeps_basic(7)]) (auto simp: keeps_nodes_def split: prod.splits option.splits)

lemma keeps_files [keep_rules]:
  "keeps_nodes (sys_read K fd n)" "keeps_nodes (sys_write K fd bs)" "keeps_nodes (sys_ioctl K fd cmd arg)"
  by (simp_all add: sys_read_def sys_write_def sys_ioctl_def keep_rules)

lemma keeps_fs_exists [keep_rules]: "keeps_nodes (fs_exists K path)"
  unfolding fs_exists_def by (intro keep_rules) (simp add: keeps_nodes_def)

section \<open>The classes that open devices\<close>

lemma keeps_ubd [keep_rules]:
  "keeps_nodes (close_device K d)" "keeps_nodes (exit_with e)" "keeps_nodes (submit_and_wait K io s)"
  "keeps_nodes (init_polled K)"
  unfolding close_device_def exit_with_def submit_and_wait_def init_polled_def by (intro keep_rules)+

lemma keeps_ubd_calls [keep_rules]:
  "keeps_nodes (open_device K path d)" "keeps_nodes (destroy_UringBlkDevice K d)" "keeps_nodes (query K opc n f d)"
  "keeps_nodes (read_async K off buf len d)" "keeps_nodes (write_async K off buf len d)" "keeps_nodes (flush_async K d)"
  unfolding open_device_def destroy_UringBlkDevice_def query_def send_uring_cmd_def read_async_def
    write_async_def flush_async_def Let_def by (intro keep_rules)+

lemma keeps_commands [keep_rules]:
  "keeps_nodes (identify K d)" "keeps_nodes (get_limits K d)" "keeps_nodes (get_features K d)"
  "keeps_nodes (get_geometry K d)" "keeps_nodes (get_stats K d)"
  unfolding identify_def get_limits_def get_features_def get_geometry_def get_stats_def by (intro keep_rules)+

lemma keeps_enumerate [keep_rules]: "keeps_nodes (enumerate_devices K)"
proof -
  have "keeps_nodes (enumerate_loop K is ds)" for "is" ds
    by (induction "is" arbitrary: ds) (auto simp: Let_def intro!: keep_rules)
  then show ?thesis by (simp add: enumerate_devices_def)
qed

lemma keeps_test_device [keep_rules]: "keeps_nodes (test_device K path)"
  unfolding test_device_def test_opened_def report_def by (intro keep_rules)

lemma keeps_test_all [keep_rules]: "keeps_nodes (test_all_devices K)"
proof -
  have "keeps_nodes (test_loop K ds)" for ds
    by (induction ds) (auto intro!: keep_rules)
  then show ?thesis unfolding test_all_devices_def by (intro keep_rules)
qed

lemma keeps_uringblk_part [keep_rules]: "keeps_nodes (uringblk_part K)" "keeps_nodes no_uringblk_part"
proof -
  have a: "keeps_nodes (async_test K path)" for path
    unfolding async_test_def integrity_test_def flush_test_def by (intro keep_rules)
  have "keeps_nodes (case ds of [] \<Rightarrow> return () | front # _ \<Rightarrow> async_test K front)" for ds
    by (cases ds) (auto intro!: keep_rules a)
  then show "keeps_nodes (uringblk_part K)"
    unfolding uringblk_part_def is_driver_loaded_def get_driver_version_def Let_def by (intro keep_rules)
  show "keeps_nodes no_uringblk_part" unfolding no_uringblk_part_def by (intro keep_rules)
qed

lemma keeps_wal_interface [keep_rules]:
  "keeps_nodes (open_devices K w)" "keeps_nodes (close_devices K w)" "keeps_nodes (test_device_operations K w)"
proof -
  have d: "keeps_nodes (hex_dump bs)" "keeps_nodes (block_dump i bs)" for bs i
    by (induction bs arbitrary: i) (auto intro!: keep_rules)
  show "keeps_nodes (open_devices K w)" unfolding open_devices_def Let_def by (intro keep_rules)
  show "keeps_nodes (close_devices K w)"
    unfolding close_devices_def close_char_def close_block_def by (intro keep_rules)
  show "keeps_nodes (test_device_operations K w)"
    unfolding test_device_operations_def write_char_device_def read_char_device_def write_block_string_def
      write_block_device_def read_block_device_def Let_def by (intro keep_rules d)
qed

lemma keeps_wal_part [keep_rules]:
  "keeps_nodes (wal_interface_part K)" "keeps_nodes (destroy_WAL_device_interface K w)"
  unfolding wal_interface_part_def destroy_WAL_device_interface_def by (intro keep_rules)+

lemma keeps_probe [keep_rules]:
  "keeps_nodes (initialize K ND d)" "keeps_nodes (destroy_KVM_probe K d)" "keeps_nodes (print_capabilities K CAP d)"
proof -
  have c: "keeps_nodes (capability K x d)" for x unfolding capability_def by (intro keep_rules)
  have "keeps_nodes (print_extensions K CAP d exts)" for exts
    unfolding check_extension_def by (induction exts) (auto simp: check_extension_def intro!: keep_rules c)
  then show "keeps_nodes (print_capabilities K CAP d)"
    unfolding print_capabilities_def print_positive_def get_api_version_def get_vcpu_mmap_size_def
    by (intro keep_rules c)
  show "keeps_nodes (initialize K ND d)" "keeps_nodes (destroy_KVM_probe K d)"
    unfolding initialize_def destroy_KVM_probe_def Let_def by (intro keep_rules)+
qed

lemma keeps_test_devices [keep_rules]: "keeps_nodes (test_devices K m)"
  unfolding test_devices_def test_single_device_def Let_def by (intro keep_rules)

section \<open>A process that may manage nodes\<close>

definition fs_permits :: "'k kernel \<Rightarrow> bool" where
  "fs_permits K \<longleftrightarrow> (\<forall>path os. fst (k_lookup K path os) = None \<and> fst (k_unlink K path os) = None \<and>
     fst (k_mknod K path os) = None)"

lemma fs_permitsE:
  assumes "fs_permits K"
  obtains os' where "k_lookup K path os = (None, os')"
    and "\<And>os. \<exists>os'. k_unlink K path os = (None, os')" and "\<And>os. \<exists>os'. k_mknod K path os = (None, os')"
  using assms unfolding fs_permits_def by (metis prod.collapse)

lemma fs_exists_permits:
  assumes "fs_permits K"
  obtains q where "fs_exists K path p = (Val (p_nodes p path \<noteq> None), q)"
    and "p_nodes q = p_nodes p" and "p_umask q = p_umask p"
proof -
  obtain os' where l: "k_lookup K path (p_os p) = (None, os')" using fs_permitsE [OF assms] by blast
  show ?thesis
  proof (cases "p_nodes p path")
    case None
    with l show ?thesis
      by (intro that [of "p\<lparr>p_os := os', p_errno := ENOENT\<rparr>"]) (simp_all add: fs_exists_def call_def sys_stat_def get_errno_def)
  next
    case (Some i)
    with l show ?thesis
      by (intro that [of "p\<lparr>p_os := os'\<rparr>"]) (simp_all add: fs_exists_def call_def sys_stat_def return_def)
  qed
qed

lemma returns_fs_exists: "fs_permits K \<Longrightarrow> returns (fs_exists K path)"
  by (rule returnsI) (metis fs_exists_permits)

lemma sys_unlink_permits:
  assumes "fs_permits K" and "p_nodes p path \<noteq> None"
  obtains q where "sys_unlink K path p = (Val True, q)" and "p_nodes q = (p_nodes p)(path := None)"
    and "p_umask q = p_umask p"
proof -
  obtain os' where "k_unlink K path (p_os p) = (None, os')" using fs_permitsE [OF assms(1)] by metis
  with assms(2) show ?thesis
    by (intro that [of "p\<lparr>p_os := os', p_nodes := (p_nodes p)(path := None)\<rparr>"]) (auto simp: sys_unlink_def)
qed

lemma sys_mknod_permits:
  assumes "fs_permits K" and "p_nodes p path = None"
  obtains q where "sys_mknod K path ty mode (ma, mi) p = (Val True, q)" and "p_umask q = p_umask p"
    and "p_nodes q = (p_nodes p)(path \<mapsto> \<lparr>i_type = ty, i_major = ma, i_minor = mi, i_mode = mode AND NOT (p_umask p)\<rparr>)"
proof -
  obtain os' where "k_mknod K path (p_os p) = (None, os')" using fs_permitsE [OF assms(1)] by metis
  with assms(2) show ?thesis
    by (intro that [of "p\<lparr>p_os := os', p_nodes := (p_nodes p)(path \<mapsto>
        \<lparr>i_type = ty, i_major = ma, i_minor = mi, i_mode = mode AND NOT (p_umask p)\<rparr>)\<rparr>"]) (auto simp: sys_mknod_def)
qed

definition wal_node :: "ftype \<Rightarrow> nat \<Rightarrow> u32 \<Rightarrow> inode" where
  "wal_node ty mi um = \<lparr>i_type = ty, i_major = 240, i_minor = mi, i_mode = 438 AND NOT um\<rparr>"

lemma create_single_device_permits:
  assumes K: "fs_permits K"
  obtains q where "create_single_device K path ty mi p = (Val (Inr ()), q)" and "p_umask q = p_umask p"
    and "p_nodes q = (p_nodes p)(path \<mapsto> wal_node ty mi (p_umask p))"
proof -
  obtain p1 where e: "fs_exists K path p = (Val (p_nodes p path \<noteq> None), p1)"
    and n1: "p_nodes p1 = p_nodes p" "p_umask p1 = p_umask p"
    by (rule fs_exists_permits [OF K])
  obtain p2 where r: "(if p_nodes p path \<noteq> None then
             say (''Warning: '' @ path @ '' already exists, removing it first'')
             (call (fs_remove K path) (\<lambda>removed.
                if removed then say (''Removed existing '' @ path) (return None)
                else call get_errno (\<lambda>e. return (Some e))))
           else return None) p1 = (Val None, p2)"
    and n2: "p_nodes p2 = (p_nodes p)(path := None)" "p_umask p2 = p_umask p"
  proof (cases "p_nodes p path")
    case None
    then show ?thesis using n1 by (intro that [of p1]) (auto simp: return_def)
  next
    case (Some i)
    let ?p1 = "printed ((''Warning: '' @ path @ '' already exists, removing it first'') @ newline) p1"
    have "p_nodes ?p1 path \<noteq> None" using Some n1 by simp
    then obtain p2 where u: "sys_unlink K path ?p1 = (Val True, p2)" "p_nodes p2 = (p_nodes ?p1)(path := None)"
      "p_umask p2 = p_umask ?p1" by (rule sys_unlink_permits [OF K])
    then have r: "fs_remove K path ?p1 = (Val True, p2)" by (simp add: fs_remove_def run_simps)
    show ?thesis
    proof (rule that)
      show "(if p_nodes p path \<noteq> None then
             say (''Warning: '' @ path @ '' already exists, removing it first'')
             (call (fs_remove K path) (\<lambda>removed.
                if removed then say (''Removed existing '' @ path) (return None)
                else call get_errno (\<lambda>e. return (Some e))))
           else return None) p1 = (Val None, printed ((''Removed existing '' @ path) @ newline) p2)"
        using Some r by (simp add: run_simps)
    qed (use u n1 in simp_all)
  qed
  from n2 have "p_nodes p2 path = None" by simp
  then obtain p3 where m: "sys_mknod K path ty 438 (DEVICE_MAJOR, mi) p2 = (Val True, p3)"
    and n3: "p_umask p3 = p_umask p2"
      "p_nodes p3 = (p_nodes p2)(path \<mapsto> \<lparr>i_type = ty, i_major = DEVICE_MAJOR, i_minor = mi, i_mode = 438 AND NOT (p_umask p2)\<rparr>)"
    by (rule sys_mknod_permits [OF K])
  show ?thesis
  proof (rule that)
    show "create_single_device K path ty mi p = (Val (Inr ()), p3)"
      unfolding create_single_device_def call_def e prod.case outcome.case r option.case m by (simp add: return_def)
  qed (use n2 n3 in \<open>simp_all add: wal_node_def DEVICE_MAJOR_def\<close>)
qed

lemma cleanup_single_device_permits:
  assumes K: "fs_permits K"
  obtains f q where "cleanup_single_device K path True p = (Val f, q)"
    and "p_nodes q = (p_nodes p)(path := None)"
proof -
  obtain p1 where e: "fs_exists K path p = (Val (p_nodes p path \<noteq> None), p1)"
    and n1: "p_nodes p1 = p_nodes p" by (rule fs_exists_permits [OF K])
  show ?thesis
  proof (cases "p_nodes p path")
    case None
    with e n1 show ?thesis
      by (intro that [of True p1]) (auto simp: cleanup_single_device_def call_def return_def)
  next
    case (Some i)
    with n1 have "p_nodes p1 path \<noteq> None" by simp
    then obtain p2 where "sys_unlink K path p1 = (Val True, p2)" "p_nodes p2 = (p_nodes p1)(path := None)"
      by (rule sys_unlink_permits [OF K])
    with e n1 Some show ?thesis
      by (intro that [of False "printed ((''Successfully removed device: '' @ path) @ newline) p2"])
        (simp_all add: cleanup_single_device_def run_simps)
  qed
qed

section \<open>Programs that end by removing the nodes\<close>

definition clears :: "('k, 'a) io \<Rightarrow> bool" where
  "clears m \<longleftrightarrow> (\<forall>p. \<exists>r q. m p = (Val r, q) \<and>
     p_nodes q = (p_nodes p)(CHAR_DEVICE_PATH := None, BLOCK_DEVICE_PATH := None))"

lemma clears_after:
  assumes "\<And>p. \<exists>x q. m p = (Val x, q) \<and> clears (f x) \<and>
    (p_nodes q)(CHAR_DEVICE_PATH := None, BLOCK_DEVICE_PATH := None) =
    (p_nodes p)(CHAR_DEVICE_PATH := None, BLOCK_DEVICE_PATH := None)"
  shows "clears (call m f)"
  unfolding clears_def
proof
  fix p
  obtain x q where "m p = (Val x, q)" and f: "clears (f x)"
    and "(p_nodes q)(CHAR_DEVICE_PATH := None, BLOCK_DEVICE_PATH := None) =
      (p_nodes p)(CHAR_DEVICE_PATH := None, BLOCK_DEVICE_PATH := None)" using assms [of p] by blast
  moreover obtain r t where "f x q = (Val r, t)"
    "p_nodes t = (p_nodes q)(CHAR_DEVICE_PATH := None, BLOCK_DEVICE_PATH := None)"
    using f unfolding clears_def by blast
  ultimately show "\<exists>r q. call m f p = (Val r, q) \<and>
      p_nodes q = (p_nodes p)(CHAR_DEVICE_PATH := None, BLOCK_DEVICE_PATH := None)"
    by (simp add: run_simps)
qed

lemma clears_call: "returns m \<Longrightarrow> keeps_nodes m \<Longrightarrow> (\<And>r. clears (f r)) \<Longrightarrow> clears (call m f)"
  by (rule clears_after) (metis keeps_nodes_def returnsE snd_conv)

lemma clears_say: "clears m \<Longrightarrow> clears (say s m)"
  unfolding say_def by (rule clears_call) (simp_all add: ret_rules keep_rules)

definition both_created :: WAL_device_manager where
  "both_created = \<lparr>m_char_device_created = True, m_block_device_created = True\<rparr>"

lemma clears_destroy:
  assumes "fs_permits K"
  shows "clears (call (destroy_WAL_device_manager K both_created) (\<lambda>_. return x))"
  unfolding clears_def
proof
  fix p
  obtain f q where c: "cleanup_single_device K CHAR_DEVICE_PATH True p = (Val f, q)"
    "p_nodes q = (p_nodes p)(CHAR_DEVICE_PATH := None)"
    by (rule cleanup_single_device_permits [OF assms])
  obtain g t where d: "cleanup_single_device K BLOCK_DEVICE_PATH True q = (Val g, t)"
    "p_nodes t = (p_nodes q)(BLOCK_DEVICE_PATH := None)"
    by (rule cleanup_single_device_permits [OF assms])
  have "cleanup_devices K both_created p = (Val \<lparr>m_char_device_created = f, m_block_device_created = g\<rparr>, t)"
    by (simp add: cleanup_devices_def both_created_def c(1) d(1) run_simps)
  with c(2) d(2) show "\<exists>r q. call (destroy_WAL_device_manager K both_created) (\<lambda>_. return x) p = (Val r, q) \<and>
      p_nodes q = (p_nodes p)(CHAR_DEVICE_PATH := None, BLOCK_DEVICE_PATH := None)"
    by (simp add: destroy_WAL_device_manager_def run_simps)
qed

lemma wal_create_devices_permits:
  assumes K: "fs_permits K"
  obtains q where "wal_create_devices K new_WAL_device_manager p = (Val (Inr (), both_created), q)"
    and "p_nodes q = (p_nodes p)(CHAR_DEVICE_PATH \<mapsto> wal_node S_IFCHR 0 (p_umask p),
           BLOCK_DEVICE_PATH \<mapsto> wal_node S_IFBLK 1 (p_umask p))"
proof -
  obtain q where c: "create_single_device K CHAR_DEVICE_PATH S_IFCHR CHAR_DEVICE_MINOR p = (Val (Inr ()), q)"
    and q: "p_umask q = p_umask p"
      "p_nodes q = (p_nodes p)(CHAR_DEVICE_PATH \<mapsto> wal_node S_IFCHR CHAR_DEVICE_MINOR (p_umask p))"
    by (rule create_single_device_permits [OF K])
  obtain t where d: "create_single_device K BLOCK_DEVICE_PATH S_IFBLK BLOCK_DEVICE_MINOR q = (Val (Inr ()), t)"
    and t: "p_umask t = p_umask q"
      "p_nodes t = (p_nodes q)(BLOCK_DEVICE_PATH \<mapsto> wal_node S_IFBLK BLOCK_DEVICE_MINOR (p_umask q))"
    by (rule create_single_device_permits [OF K])
  obtain s where s: "wal_create_devices K new_WAL_device_manager p = (Val (Inr (), both_created), s)"
    and "p_nodes s = p_nodes t"
    by (simp add: wal_create_devices_def c d run_simps new_WAL_device_manager_def both_created_def)
  with q t show ?thesis
    by (intro that [OF s]) (simp add: CHAR_DEVICE_MINOR_def BLOCK_DEVICE_MINOR_def)
qed

section \<open>main as root\<close>

lemma returns_try_catch: "(\<And>p e q. m p \<noteq> (Abort, q)) \<Longrightarrow> (\<And>e. returns (h e)) \<Longrightarrow> returns (try_catch m h)"
  unfolding returns_def try_catch_def by (auto split: prod.splits outcome.splits)

lemma returns_get_driver_version [ret_rules]: "returns (get_driver_version K)"
  unfolding get_driver_version_def Let_def
  by (rule returns_try_catch)
    (auto simp: call_def fs_exists_def sys_stat_def read_line_def get_errno_def return_def returns_return
      split: prod.splits option.splits outcome.splits sum.splits if_splits)

lemma returns_test_device [ret_rules]: "returns (test_device K path)"
  unfolding test_device_def test_opened_def report_def destroy_UringBlkDevice_def by (intro ret_rules)

lemma returns_test_all_devices: "fs_permits K \<Longrightarrow> returns (enumerate_devices K)"
  "fs_permits K \<Longrightarrow> returns (test_all_devices K)"
proof -
  assume K: "fs_permits K"
  have "returns (enumerate_loop K is ds)" for "is" ds
    by (induction "is" arbitrary: ds) (auto simp: Let_def intro!: ret_rules returns_fs_exists [OF K])
  then show e: "returns (enumerate_devices K)" by (simp add: enumerate_devices_def)
  have "returns (test_loop K ds)" for ds by (induction ds) (auto intro!: ret_rules)
  with e show "returns (test_all_devices K)" unfolding test_all_devices_def by (intro ret_rules)
qed

lemma returns_uringblk_part: "fs_permits K \<Longrightarrow> returns (uringblk_part K)"
proof -
  assume K: "fs_permits K"
  have "returns (async_test K path)" for path
    unfolding async_test_def integrity_test_def flush_test_def destroy_UringBlkDevice_def by (intro ret_rules)
  then have "returns (case ds of [] \<Rightarrow> return () | front # _ \<Rightarrow> async_test K front)" for ds
    by (cases ds) (auto intro: ret_rules)
  then show ?thesis unfolding uringblk_part_def is_driver_loaded_def
    by (intro ret_rules returns_test_all_devices [OF K] returns_fs_exists [OF K])
qed

lemma returns_parts [ret_rules]:
  "returns (wal_interface_part K)" "returns no_uringblk_part" "returns (geteuid K)"
  "returns (destroy_KVM_probe K d)" "returns (destroy_WAL_device_interface K w)"
  unfolding wal_interface_part_def no_uringblk_part_def destroy_KVM_probe_def destroy_WAL_device_interface_def
  by (intro ret_rules, intro ret_rules, simp add: returns_def geteuid_def, intro ret_rules, intro ret_rules)

lemma clears_main_probe:
  assumes K: "fs_permits K"
  shows "clears (main_probe K ND CAP H both_created)"
  unfolding main_probe_def
proof (intro clears_call)
  show "returns (initialize K ND new_KVM_probe)" by (rule returns_initialize) (simp add: new_KVM_probe_def)
  fix rd :: "(errno + unit) \<times> KVM_probe"
  obtain r d where rd: "rd = (r, d)" by (cases rd)
  have f: "clears (main_failed K both_created d e)" for e
    unfolding main_failed_def by (intro clears_say clears_call clears_destroy [OF K] ret_rules keep_rules)
  have t: "clears (main_tests K CAP H both_created d)"
    unfolding main_tests_def
    by (intro clears_say clears_call clears_destroy [OF K] ret_rules keep_rules returns_uringblk_part [OF K])
  show "clears (case rd of (r, probe) \<Rightarrow> case r of Inl e \<Rightarrow> main_failed K both_created probe e
     | Inr _ \<Rightarrow> main_tests K CAP H both_created probe)"
    unfolding rd by (cases r) (simp_all add: f t)
qed (rule keep_rules)

lemma returns_test_devices [ret_rules]: "returns (test_devices K m)"
  unfolding test_devices_def test_single_device_def Let_def by (intro ret_rules)

lemma clears_main:
  assumes K: "fs_permits K"
  shows "clears (main K ND CAP H)"
proof -
  have v: "clears (main_created K ND CAP H (Inr (), both_created))"
    unfolding main_created_def prod.case sum.case
    by (intro clears_say clears_call clears_main_probe [OF K] ret_rules keep_rules)
  have c: "clears (call (wal_create_devices K new_WAL_device_manager) (main_created K ND CAP H))"
  proof (rule clears_after)
    fix p
    obtain q where c: "wal_create_devices K new_WAL_device_manager p = (Val (Inr (), both_created), q)"
      and "p_nodes q = (p_nodes p)(CHAR_DEVICE_PATH \<mapsto> wal_node S_IFCHR 0 (p_umask p),
           BLOCK_DEVICE_PATH \<mapsto> wal_node S_IFBLK 1 (p_umask p))"
      by (rule wal_create_devices_permits [OF K])
    then have n: "(p_nodes q)(CHAR_DEVICE_PATH := None, BLOCK_DEVICE_PATH := None) =
        (p_nodes p)(CHAR_DEVICE_PATH := None, BLOCK_DEVICE_PATH := None)"
      by (auto simp: CHAR_DEVICE_PATH_def BLOCK_DEVICE_PATH_def)
    show "\<exists>x q. wal_create_devices K new_WAL_device_manager p = (Val x, q) \<and> clears (main_created K ND CAP H x) \<and>
      (p_nodes q)(CHAR_DEVICE_PATH := None, BLOCK_DEVICE_PATH := None) =
      (p_nodes p)(CHAR_DEVICE_PATH := None, BLOCK_DEVICE_PATH := None)"
      by (intro exI conjI, rule c, rule v, rule n)
  qed
  then show ?thesis unfolding main_def
    by (intro clears_say clears_call [where m = "geteuid K"] clears_call [where m = "if _ then _ else _"]
      ret_rules keep_rules)
qed

end
