(* ===== verification/Client_Theorems.thy ===== *)
theory Client_Theorems
  imports Client_Nodes
begin

text \<open>
  Properties of the command line client: ownership of descriptors and rings, the device nodes it
  leaves behind, the error paths of its classes.
\<close>

section \<open>A kernel for examples\<close>

text \<open>Every call succeeds; reads give no bytes, completions transfer nothing.\<close>

definition sample_kernel :: "unit kernel" where
  "sample_kernel = \<lparr>k_euid = \<lambda>_. 0, k_strerror = \<lambda>_. ''error'', k_lookup = \<lambda>_ os. (None, os),
     k_open = \<lambda>_ _ os. (None, os), k_close = \<lambda>_ os. (None, os), k_mknod = \<lambda>_ os. (None, os),
     k_unlink = \<lambda>_ os. (None, os), k_read = \<lambda>_ _ os. (Inr [], os), k_write = \<lambda>_ bs os. (Inr (length bs), os),
     k_ioctl = \<lambda>_ _ _ os. (Inr 12, os), k_getline = \<lambda>_ os. (Inr [], os),
     k_ring_init = \<lambda>_ os. (None, os), k_get_sqe = \<lambda>_. True, k_submit = \<lambda>_ _ _ os. (None, os),
     k_wait = \<lambda>os. (Inr (Inr 0, []), os)\<rparr>"

definition sample_proc :: "(string \<rightharpoonup> inode) \<Rightarrow> unit proc" where
  "sample_proc nodes = \<lparr>p_os = (), p_nodes = nodes, p_fds = [], p_errno = ENOENT, p_out = [], p_umask = 0,
     p_stack = replicate 4096 0, p_rings = 0, p_bad = 0\<rparr>"

lemma sample_permits: "fs_permits sample_kernel"
  by (simp add: fs_permits_def sample_kernel_def)

section \<open>Ownership\<close>

lemma open_fds_held: "open_fds p = {fd. Descriptor fd \<in># held p}"
  by (auto simp: held_def split: if_splits)

lemma rings_held: "p_rings p = count (held p) Ring"
proof -
  have "count (image_mset Descriptor M) Ring = 0" for M
    by (induction M) simp_all
  then show ?thesis by (simp add: held_def)
qed

lemma held_eqD: "held q = held p \<Longrightarrow> open_fds q = open_fds p \<and> p_rings q = p_rings p"
  by (simp add: open_fds_held rings_held)

lemma count_held: "count (held p) (Descriptor fd) \<le> 1"
proof -
  have "count (image_mset Descriptor M) (Descriptor fd) = count M fd" for M
    by (induction M) simp_all
  then show ?thesis by (simp add: held_def count_mset_set')
qed

lemma pool_dev_res:
  "pool_res dev_res ds = image_mset Descriptor (mset (filter (\<lambda>fd. 0 \<le> fd) (map m_device_fd ds)))"
  by (induction ds) (simp_all add: dev_res_def fd_res_def)

lemma distinct_count: "(\<And>x. count (mset xs) x \<le> 1) \<Longrightarrow> distinct xs"
proof (induction xs)
  case (Cons a xs)
  have "count (mset xs) x \<le> 1" for x
    using Cons.prems [of x] by (simp only: mset.simps count_add_mset split: if_splits)
  moreover have "count (mset xs) a = 0" using Cons.prems [of a] by simp
  ultimately show ?case using Cons.IH by (simp add: count_mset_0_iff)
qed simp

text \<open>C22.  Descriptors are typed by their owners: after any program over an array of \<open>UringBlkDevice\<close>
  objects (methods in any order, moves between objects) each object holds \<open>-1\<close> or a descriptor that
  is open and that no other object holds, the process has opened nothing else, every ring is released,
  no descriptor was closed twice, and destroying the objects closes exactly what they opened.\<close>

theorem device_objects_typed:
  "\<exists>ds q t. pool_run (ubd_method K) always (assign_UringBlkDevice K) acts (replicate n new_UringBlkDevice) p = (Val ds, q) \<and>
     pool_destroy (destroy_UringBlkDevice K) ds q = (Val (), t) \<and>
     distinct (filter (\<lambda>fd. 0 \<le> fd) (map m_device_fd ds)) \<and>
     open_fds q = open_fds p \<union> set (filter (\<lambda>fd. 0 \<le> fd) (map m_device_fd ds)) \<and>
     open_fds p \<inter> set (map m_device_fd ds) = {} \<and>
     p_rings q = p_rings p \<and> p_bad q = p_bad p \<and>
     open_fds t = open_fds p \<and> p_rings t = p_rings p \<and> p_bad t = p_bad p"
proof -
  let ?fds = "\<lambda>ds. filter (\<lambda>fd. 0 \<le> fd) (map m_device_fd ds)"
  have z: "pool_res dev_res (replicate n new_UringBlkDevice) = {#}" by (induction n) simp_all
  obtain ds q t where r: "pool_run (ubd_method K) always (assign_UringBlkDevice K) acts (replicate n new_UringBlkDevice) p = (Val ds, q)"
      "pool_destroy (destroy_UringBlkDevice K) ds q = (Val (), t)"
    and h: "held q = held p + image_mset Descriptor (mset (?fds ds))" "p_bad q = p_bad p" "held t = held p" "p_bad t = p_bad p"
    using ubd.lifetime [OF z, of K acts p] by (auto simp: pool_dev_res)
  have c: "count (image_mset Descriptor M) (Descriptor fd) = count M fd" for M fd
    by (induction M) simp_all
  have le: "count (held p) (Descriptor fd) + count (mset (?fds ds)) fd \<le> 1" for fd
    using count_held [of q fd] h(1) c [of "mset (?fds ds)" fd] by simp
  have "distinct (?fds ds)" by (rule distinct_count) (use le in \<open>meson add_leD2\<close>)
  moreover have "open_fds p \<inter> set (map m_device_fd ds) = {}"
  proof -
    have False if "fd \<in> open_fds p" "fd \<in> set (map m_device_fd ds)" for fd
    proof -
      have "0 \<le> fd" using that(1) by (auto simp: open_fds_def fd_file_def split: if_splits)
      with that(2) have "fd \<in># mset (?fds ds)" by auto
      moreover have "Descriptor fd \<in># held p" using that(1) by (simp add: open_fds_held)
      ultimately have "1 \<le> count (held p) (Descriptor fd)" "1 \<le> count (mset (?fds ds)) fd"
        by (simp_all only: count_greater_eq_one_iff)
      with le [of fd] show False by linarith
    qed
    then show ?thesis by blast
  qed
  moreover have "open_fds q = open_fds p \<union> set (?fds ds)"
    unfolding open_fds_held h(1) by auto
  moreover have "p_rings q = p_rings p"
  proof -
    have "count (image_mset Descriptor M) Ring = 0" for M by (induction M) simp_all
    then show ?thesis unfolding rings_held h(1) by simp
  qed
  ultimately show ?thesis using r h(2,4) held_eqD [OF h(3)] by blast
qed

text \<open>C23.  Whatever the operating system answers: whenever \<open>main\<close> returns, it has closed every descriptor and left every
  ring it opened, and the descriptors it was started with are the ones that are open; it never closes a descriptor
  that is not open.  When an exception or an abort ends it, what it had opened is left to the kernel, and the
  descriptors it was started with are still open.\<close>

theorem main_releases_everything:
  "p_bad (snd (main K ND CAP H p)) = p_bad p \<and>
   (case fst (main K ND CAP H p) of
      Val c \<Rightarrow> open_fds (snd (main K ND CAP H p)) = open_fds p \<and> p_rings (snd (main K ND CAP H p)) = p_rings p
    | Throw e \<Rightarrow> open_fds p \<subseteq> open_fds (snd (main K ND CAP H p))
    | Abort \<Rightarrow> open_fds p \<subseteq> open_fds (snd (main K ND CAP H p)))"
proof -
  have h: "held p = held p + {#}" by simp
  note d = transfersD [OF neutral_main h, of K ND CAP H]
  have sub: "held p \<subseteq># held q \<Longrightarrow> open_fds p \<subseteq> open_fds q" for q :: "'a proc"
    by (auto simp: open_fds_held dest: mset_subset_eqD)
  show ?thesis
  proof (cases "fst (main K ND CAP H p)")
    case (Val c)
    from d(2) [OF Val] have "held (snd (main K ND CAP H p)) = held p" by simp
    from held_eqD [OF this] Val d(1) show ?thesis by simp
  next
    case (Throw e)
    with d(1) sub [OF d(3) [OF Throw]] show ?thesis by simp
  next
    case Abort
    with d(1) sub [OF d(4) [OF Abort]] show ?thesis by simp
  qed
qed

text \<open>C25.  A process that may manage device nodes runs \<open>main\<close> to the end on every path, and afterwards
  \<open>/dev/rwal\<close> and \<open>/dev/wal\<close> are gone, also when the WAL driver had created them; no other node changes.\<close>

theorem main_removes_nodes:
  assumes "fs_permits K"
  shows "\<exists>c q. main K ND CAP H p = (Val c, q) \<and>
    p_nodes q = (p_nodes p)(CHAR_DEVICE_PATH := None, BLOCK_DEVICE_PATH := None)"
  using clears_main [OF assms] unfolding clears_def by blast

lemma main_removes_nodes_witness:
  "\<exists>c q. main sample_kernel False (\<lambda>_. 0) True (sample_proc [''/dev/wal'' \<mapsto> wal_node S_IFBLK 0 0]) = (Val c, q) \<and>
     p_nodes q ''/dev/wal'' = None"
proof -
  obtain c q where "main sample_kernel False (\<lambda>_. 0) True (sample_proc [''/dev/wal'' \<mapsto> wal_node S_IFBLK 0 0]) = (Val c, q)"
    "p_nodes q = (p_nodes (sample_proc [''/dev/wal'' \<mapsto> wal_node S_IFBLK 0 0]))(CHAR_DEVICE_PATH := None, BLOCK_DEVICE_PATH := None)"
    using main_removes_nodes [OF sample_permits] by blast
  then show ?thesis by (simp add: BLOCK_DEVICE_PATH_def)
qed

section \<open>Error paths\<close>

text \<open>Programs that end in an exception when the character node is present.\<close>

definition throws :: "errno \<Rightarrow> ('k, 'a) io \<Rightarrow> bool" where
  "throws e m \<longleftrightarrow> (\<forall>p. p_nodes p CHAR_DEVICE_PATH \<noteq> None \<longrightarrow> fst (m p) = Throw e)"

lemma throws_first: "throws e m \<Longrightarrow> throws e (call m f)"
  unfolding throws_def call_def by (auto split: prod.splits outcome.splits)

lemma throws_after: "returns m \<Longrightarrow> keeps_nodes m \<Longrightarrow> (\<And>r. throws e (f r)) \<Longrightarrow> throws e (call m f)"
  unfolding throws_def
  by (metis keeps_nodes_def returnsE run_call snd_conv)

lemma throws_say: "throws e m \<Longrightarrow> throws e (say s m)"
  by (simp add: throws_def run_simps)

definition nodes_locked :: "errno \<Rightarrow> 'k kernel \<Rightarrow> bool" where
  "nodes_locked e K \<longleftrightarrow> (\<forall>path os. fst (k_lookup K path os) = None \<and> fst (k_unlink K path os) = Some e)"

lemma create_throws:
  fixes K :: "'k kernel"
  assumes K: "nodes_locked e K" and e: "e \<noteq> ENOENT"
  shows "throws e (create_single_device K CHAR_DEVICE_PATH ty mi)"
  unfolding throws_def
proof (intro allI impI)
  fix p :: "'k proc" assume "p_nodes p CHAR_DEVICE_PATH \<noteq> None"
  then obtain i where i: "p_nodes p CHAR_DEVICE_PATH = Some i" by blast
  obtain os where l: "k_lookup K CHAR_DEVICE_PATH (p_os p) = (None, os)"
    using K unfolding nodes_locked_def by (metis prod.collapse)
  obtain os' where u: "k_unlink K CHAR_DEVICE_PATH os = (Some e, os')"
    using K unfolding nodes_locked_def by (metis prod.collapse)
  let ?q = "printed ((''Warning: '' @ CHAR_DEVICE_PATH @ '' already exists, removing it first'') @ newline) (p\<lparr>p_os := os\<rparr>)"
  have s: "fs_exists K CHAR_DEVICE_PATH p = (Val True, p\<lparr>p_os := os\<rparr>)"
    using i l by (simp add: fs_exists_def sys_stat_def call_def return_def)
  have r: "fs_remove K CHAR_DEVICE_PATH ?q = (Throw e, ?q\<lparr>p_os := os', p_errno := e\<rparr>)"
    using i u e by (simp add: fs_remove_def sys_unlink_def call_def get_errno_def)
  show "fst (create_single_device K CHAR_DEVICE_PATH ty mi p) = Throw e"
    unfolding create_single_device_def using s r by (simp add: run_simps)
qed

text \<open>When a device node exists and may not be removed, \<open>std::filesystem::remove\<close> throws: the error
  code of \<open>create_devices\<close> is never returned, and the exception ends \<open>main\<close>.\<close>

theorem locked_node_ends_main:
  assumes "nodes_locked e K" and "e \<noteq> ENOENT" and "p_nodes p CHAR_DEVICE_PATH \<noteq> None"
  shows "fst (main K ND CAP H p) = Throw e"
proof -
  have "throws e (main K ND CAP H)"
    unfolding main_def wal_create_devices_def
    by (intro throws_say throws_first create_throws assms(1,2) throws_after [where m = "geteuid K"]
        throws_after [where m = "if _ then _ else _"] ret_rules keep_rules)
  with assms(3) show ?thesis by (simp add: throws_def)
qed

lemma locked_node_ends_main_witness:
  "fst (main (sample_kernel\<lparr>k_euid := \<lambda>_. 1000, k_unlink := \<lambda>_ os. (Some EACCES, os)\<rparr>) False (\<lambda>_. 0) True
     (sample_proc [''/dev/rwal'' \<mapsto> wal_node S_IFCHR 0 0])) = Throw EACCES"
  by (rule locked_node_ends_main)
    (simp_all add: nodes_locked_def sample_kernel_def sample_proc_def CHAR_DEVICE_PATH_def)

section \<open>Device numbers\<close>

text \<open>
  The kernel's dispatch of block nodes: a node whose number no driver has registered cannot be
  opened.  The WAL driver registers its disk under a major number \<open>M\<close> it is given, with the single
  minor number 0; no other disk is registered under \<open>DEVICE_MAJOR\<close>, which Linux keeps for local use.
\<close>

definition wal_disk_at :: "nat \<Rightarrow> 'k kernel \<Rightarrow> bool" where
  "wal_disk_at M K \<longleftrightarrow> (\<forall>path i flags os. i_type i = S_IFBLK \<and> i_major i = DEVICE_MAJOR \<and>
     (i_major i, i_minor i) \<noteq> (M, 0) \<longrightarrow>
     fst (k_open K (path, i) flags os) = Some ENXIO)"

lemma sys_open_permits:
  assumes "fs_permits K" and "p_nodes p path = Some i"
  obtains (refused) q where "sys_open K path flags p = (Val (- 1), q)" "p_nodes q = p_nodes p"
  | (opened) n q where "sys_open K path flags p = (Val (int n), q)" "p_nodes q = p_nodes p"
      "\<exists>os. fst (k_open K (path, i) flags os) = None"
proof -
  obtain os where l: "k_lookup K path (p_os p) = (None, os)" using fs_permitsE [OF assms(1)] by blast
  obtain r os' where k: "k_open K (path, i) flags os = (r, os')" by (cases "k_open K (path, i) flags os")
  show ?thesis
  proof (cases r)
    case None
    obtain n t where a: "alloc_fd (path, i) (p_fds p) = (n, t)" by (cases "alloc_fd (path, i) (p_fds p)")
    have o: "sys_open K path flags p = (Val (int n), p\<lparr>p_os := os', p_fds := t\<rparr>)"
      using l k None a assms(2) by (simp add: sys_open_def sys_stat_def call_def)
    have "\<exists>os. fst (k_open K (path, i) flags os) = None" using k None by (intro exI [of _ os]) simp
    from opened [OF o _ this] show ?thesis by simp
  next
    case (Some e)
    have "sys_open K path flags p = (Val (- 1), p\<lparr>p_os := os', p_errno := e\<rparr>)"
      using l k Some assms(2) by (simp add: sys_open_def sys_stat_def call_def)
    from refused [OF this] show ?thesis by simp
  qed
qed

text \<open>The nodes that the client creates do not lead to the WAL driver: the block node gets minor
  number 1, the driver's disk has minor number 0 only, whatever its major number \<open>M\<close> is.  So after
  \<open>create_devices\<close> succeeds, \<open>open_devices\<close> fails and leaves no descriptor open.\<close>

theorem created_nodes_miss_driver:
  assumes K: "fs_permits K" and M: "wal_disk_at M K"
  shows "\<exists>q e t. wal_create_devices K new_WAL_device_manager p = (Val (Inr (), both_created), q) \<and>
    open_devices K new_WAL_device_interface q = (Val (Inl e, new_WAL_device_interface), t) \<and>
    open_fds t = open_fds q"
proof -
  obtain q where c: "wal_create_devices K new_WAL_device_manager p = (Val (Inr (), both_created), q)"
    and n: "p_nodes q = (p_nodes p)(CHAR_DEVICE_PATH \<mapsto> wal_node S_IFCHR 0 (p_umask p),
           BLOCK_DEVICE_PATH \<mapsto> wal_node S_IFBLK 1 (p_umask p))"
    by (rule wal_create_devices_permits [OF K])
  have ch: "p_nodes q CHAR_DEVICE_PATH = Some (wal_node S_IFCHR 0 (p_umask p))"
    and bl: "p_nodes q BLOCK_DEVICE_PATH = Some (wal_node S_IFBLK 1 (p_umask p))"
    using n by (simp_all add: CHAR_DEVICE_PATH_def BLOCK_DEVICE_PATH_def)
  have block: "\<exists>t. sys_open K BLOCK_DEVICE_PATH [O_RDWR] s = (Val (- 1), t)" if "p_nodes s = p_nodes q" for s
  proof -
    have "p_nodes s BLOCK_DEVICE_PATH = Some (wal_node S_IFBLK 1 (p_umask p))" using that bl by simp
    then show ?thesis
    proof (cases rule: sys_open_permits [OF K, where flags = "[O_RDWR]", consumes 1, case_names refused opened])
      case (opened n q)
      then show ?thesis using M by (auto simp: wal_disk_at_def wal_node_def DEVICE_MAJOR_def)
    qed blast
  qed
  have "\<exists>e t. open_devices K new_WAL_device_interface q = (Val (Inl e, new_WAL_device_interface), t)"
    using ch
  proof (cases rule: sys_open_permits [OF K, where flags = "[O_RDWR]", consumes 1, case_names refused opened])
    case (refused s)
    then show ?thesis by (simp add: open_devices_def run_simps new_WAL_device_interface_def)
  next
    case (opened n s)
    from block [OF opened(2)] obtain t where "sys_open K BLOCK_DEVICE_PATH [O_RDWR] s = (Val (- 1), t)" by blast
    moreover obtain u v where "sys_close K (int n) t = (Val u, v)"
      using returns_basic(8) by (rule returnsE)
    ultimately show ?thesis
      using opened(1) by (simp add: open_devices_def run_simps new_WAL_device_interface_def)
  qed
  then obtain e t where o: "open_devices K new_WAL_device_interface q = (Val (Inl e, new_WAL_device_interface), t)" by blast
  have "transfers {#} (open_devices K new_WAL_device_interface) (\<lambda>(r, w'). wal_res w')"
    using open_devices_transfers [of new_WAL_device_interface K] by (simp add: new_WAL_device_interface_def wal_res_def)
  from transfersD(2) [OF this, of q "held q" "(Inl e, new_WAL_device_interface)"] o have "held t = held q"
    by (simp add: new_WAL_device_interface_def wal_res_def)
  with c o held_eqD show ?thesis by blast
qed

definition numbered_kernel :: "unit kernel" where
  "numbered_kernel = sample_kernel\<lparr>k_open := \<lambda>(path, i) _ os.
     (if i_type i = S_IFBLK \<and> (i_major i, i_minor i) \<noteq> (240, 0) then Some ENXIO else None, os)\<rparr>"

lemma created_nodes_miss_driver_witness:
  "\<exists>q e t. wal_create_devices numbered_kernel new_WAL_device_manager (sample_proc Map.empty) =
      (Val (Inr (), both_created), q) \<and>
    open_devices numbered_kernel new_WAL_device_interface q = (Val (Inl e, new_WAL_device_interface), t) \<and>
    open_fds t = open_fds q"
proof (rule created_nodes_miss_driver)
  show "fs_permits numbered_kernel" by (simp add: fs_permits_def numbered_kernel_def sample_kernel_def)
  show "wal_disk_at 240 numbered_kernel" by (simp add: wal_disk_at_def numbered_kernel_def)
qed

section \<open>Descriptors that are lost\<close>

text \<open>A successful \<open>open_devices\<close> adds two descriptors, whatever the object held before.\<close>

lemma open_devices_adds:
  "transfers {#} (open_devices K w) (\<lambda>(r, w'). case r of Inl _ \<Rightarrow> {#} | Inr _ \<Rightarrow> wal_res w')"
  unfolding open_devices_def Let_def wal_res_def
proof (intro transfers_call [OF transfers_sys_open] transfers_if call_part [OF transfers_sys_open])
  fix c b :: int assume c: "\<not> c < 0" and "b < 0"
  then show "transfers (fd_res b + fd_res c) (call (sys_close K c) (\<lambda>_. call get_errno (\<lambda>e.
      return (Inl e, w\<lparr>m_char_device_fd := c, m_block_device_fd := b, m_char_device_fd := - 1\<rparr>))))
    (\<lambda>(r, w'). case r of Inl _ \<Rightarrow> {#} | Inr _ \<Rightarrow> fd_res (m_char_device_fd w') + fd_res (m_block_device_fd w'))"
    by (intro transfers_call [OF transfers_cong [OF _ transfers_sys_close]] io_rules) simp_all
qed (auto intro!: io_rules)

lemma open_devices_fds:
  assumes "open_devices K w p = (Val (Inr (), w'), q)"
  shows "0 \<le> m_char_device_fd w' \<and> 0 \<le> m_block_device_fd w'"
  using assms
  by (auto simp: open_devices_def Let_def call_def say_def println_def print_def return_def get_errno_def
      split: prod.splits outcome.splits if_splits)

text \<open>Opening the devices of an object whose devices are open loses the descriptors it had: after the
  object is destroyed they are still open, and the object no longer names them.\<close>

theorem open_twice_leaks:
  assumes "open_devices K new_WAL_device_interface p = (Val (Inr (), w), q)"
    and "open_devices K w q = (Val (Inr (), v), r)"
  shows "{m_char_device_fd w, m_block_device_fd w} \<subseteq> open_fds (snd (destroy_WAL_device_interface K v r)) \<and>
    {m_char_device_fd w, m_block_device_fd w} \<inter> {m_char_device_fd v, m_block_device_fd v} = {}"
proof -
  have hq: "held q = held p + wal_res w"
    using transfersD(2) [OF open_devices_adds [of K new_WAL_device_interface], of p "held p" "(Inr (), w)"] assms(1) by simp
  have hr: "held r = held q + wal_res v"
    using transfersD(2) [OF open_devices_adds [of K w], of q "held q" "(Inr (), v)"] assms(2) by simp
  obtain u t where t: "destroy_WAL_device_interface K v r = (Val u, t)" using returns_parts(5) by (rule returnsE)
  have ht: "held t = held q"
    using transfersD(2) [OF destroy_interface_transfers [of v K] hr, of u] t by simp
  note w = open_devices_fds [OF assms(1)] and v = open_devices_fds [OF assms(2)]
  have mem: "{m_char_device_fd w, m_block_device_fd w} \<subseteq> open_fds q"
    using w by (auto simp: open_fds_held hq wal_res_def fd_res_def)
  have "fd \<notin> {m_char_device_fd v, m_block_device_fd v}" if "fd \<in> open_fds q" for fd
  proof
    assume "fd \<in> {m_char_device_fd v, m_block_device_fd v}"
    with v have "1 \<le> count (wal_res v) (Descriptor fd)" by (auto simp: wal_res_def fd_res_def)
    moreover have "1 \<le> count (held q) (Descriptor fd)" using that by (simp add: open_fds_held)
    moreover have "count (held r) (Descriptor fd) = count (held q) (Descriptor fd) + count (wal_res v) (Descriptor fd)"
      by (simp add: hr)
    ultimately show False using count_held [of r fd] by linarith
  qed
  with mem have "{m_char_device_fd w, m_block_device_fd w} \<inter> {m_char_device_fd v, m_block_device_fd v} = {}" by blast
  moreover have "open_fds t = open_fds q" using held_eqD [OF ht] by simp
  ultimately show ?thesis using mem t by simp
qed

definition wal_nodes :: "string \<rightharpoonup> inode" where
  "wal_nodes = [CHAR_DEVICE_PATH \<mapsto> wal_node S_IFCHR 0 0, BLOCK_DEVICE_PATH \<mapsto> wal_node S_IFBLK 0 0]"

lemma open_twice_leaks_witness:
  "\<exists>v r. {0, 1} \<subseteq> open_fds (snd (destroy_WAL_device_interface sample_kernel v r))"
proof -
  have n: "p_nodes (sample_proc wal_nodes) = wal_nodes" "p_fds (sample_proc wal_nodes) = []" by (simp_all add: sample_proc_def)
  have K: "k_lookup sample_kernel = (\<lambda>_ os. (None, os))" "k_open sample_kernel = (\<lambda>_ _ os. (None, os))" by (simp_all add: sample_kernel_def)
  have nd: "wal_nodes CHAR_DEVICE_PATH \<noteq> None" "wal_nodes BLOCK_DEVICE_PATH \<noteq> None" by (simp_all add: wal_nodes_def)
  have s: "\<exists>q. sys_open sample_kernel path fl p = (Val (int (fst (alloc_fd (path, i) (p_fds p)))), q) \<and>
      p_nodes q = p_nodes p \<and> p_fds q = snd (alloc_fd (path, i) (p_fds p))" if "p_nodes p path = Some i" for path fl p i
    using that by (simp add: sys_open_def sys_stat_def call_def K split: prod.splits)
  have a: "None \<notin> set t \<Longrightarrow> alloc_fd x t = (length t, t @ [Some x])" for x :: open_file and t
    by (induction x t rule: alloc_fd.induct) (auto simp: Let_def)
  obtain i where i: "wal_nodes CHAR_DEVICE_PATH = Some i" using nd by blast
  obtain j where j: "wal_nodes BLOCK_DEVICE_PATH = Some j" using nd by blast
  have o: "\<exists>q. open_devices sample_kernel w p = (Val (Inr (), \<lparr>m_char_device_fd = int (length (p_fds p)),
      m_block_device_fd = int (Suc (length (p_fds p)))\<rparr>), q) \<and> p_nodes q = wal_nodes \<and>
      length (p_fds q) = Suc (Suc (length (p_fds p))) \<and> None \<notin> set (p_fds q)"
    if p: "p_nodes p = wal_nodes" "None \<notin> set (p_fds p)" for w p
  proof -
    obtain q where q: "sys_open sample_kernel CHAR_DEVICE_PATH [O_RDWR] p = (Val (int (length (p_fds p))), q)"
      "p_nodes q = wal_nodes" "p_fds q = p_fds p @ [Some (CHAR_DEVICE_PATH, i)]"
      using s [of p CHAR_DEVICE_PATH i "[O_RDWR]"] p i a [OF p(2)] by auto
    have nq: "None \<notin> set (p_fds q)" using q(3) p(2) by auto
    obtain r where r: "sys_open sample_kernel BLOCK_DEVICE_PATH [O_RDWR] q = (Val (int (length (p_fds q))), r)"
      "p_nodes r = wal_nodes" "p_fds r = p_fds q @ [Some (BLOCK_DEVICE_PATH, j)]"
      using s [of q BLOCK_DEVICE_PATH j "[O_RDWR]"] q(2) j a [OF nq] by auto
    show ?thesis unfolding open_devices_def using q r nq by (simp add: run_simps Let_def)
  qed
  obtain q where q: "open_devices sample_kernel new_WAL_device_interface (sample_proc wal_nodes) =
      (Val (Inr (), \<lparr>m_char_device_fd = 0, m_block_device_fd = 1\<rparr>), q)"
    and "p_nodes q = wal_nodes" "None \<notin> set (p_fds q)"
    using o [of "sample_proc wal_nodes" new_WAL_device_interface] n by auto
  then obtain v r where "open_devices sample_kernel \<lparr>m_char_device_fd = 0, m_block_device_fd = 1\<rparr> q = (Val (Inr (), v), r)"
    using o by blast
  from open_twice_leaks [OF q this] show ?thesis by auto
qed

section \<open>Enumeration\<close>

lemma enumerate_loop_permits:
  "fs_permits K \<Longrightarrow> \<exists>q. enumerate_loop K is ds p =
     (Val (ds @ filter (\<lambda>s. p_nodes p s \<noteq> None) (map (\<lambda>i. ''/dev/uringblk'' @ dec i) is)), q) \<and> p_nodes q = p_nodes p"
proof (induction "is" arbitrary: ds p)
  case (Cons i "is")
  let ?path = "''/dev/uringblk'' @ dec i"
  obtain q where e: "fs_exists K ?path p = (Val (p_nodes p ?path \<noteq> None), q)" and n: "p_nodes q = p_nodes p"
    using Cons.prems by (rule fs_exists_permits)
  from Cons.IH [OF Cons.prems, of "if p_nodes p ?path \<noteq> None then ds @ [?path] else ds" q] e n show ?case
    by (auto simp: run_simps Let_def)
qed (simp add: run_simps)

text \<open>\<open>enumerate_devices\<close> returns exactly those of the paths \<open>/dev/uringblk0\<close> to \<open>/dev/uringblk15\<close> that exist,
  in the order of their numbers, and changes no node.\<close>

theorem enumerate_devices_exact:
  assumes "fs_permits K"
  shows "\<exists>q. enumerate_devices K p =
      (Val (filter (\<lambda>s. p_nodes p s \<noteq> None) (map (\<lambda>i. ''/dev/uringblk'' @ dec i) [0..<16])), q) \<and> p_nodes q = p_nodes p"
  unfolding enumerate_devices_def using enumerate_loop_permits [OF assms, of "[0..<16]" "[]" p] by simp

lemma enumerate_devices_exact_witness:
  "\<exists>q. enumerate_devices sample_kernel (sample_proc Map.empty) = (Val [], q)"
  using enumerate_devices_exact [OF sample_permits, of "sample_proc Map.empty"] by (auto simp: sample_proc_def)

section \<open>References into the object\<close>

text \<open>Reopening a device by its own path fails: the parameter refers to the member that \<open>close_device\<close>
  clears, so the open call sees the empty path; the device ends up closed.\<close>

theorem reopen_own_path_fails:
  assumes "fd_file (m_device_fd d) p = Some f" and "p_nodes p [] = None" and "fs_permits K"
  shows "\<exists>q. open_device K m_device_path d p = (Val (Inl ENOENT, new_UringBlkDevice), q) \<and>
    fd_file (m_device_fd d) q = None"
proof -
  have fd: "0 \<le> m_device_fd d" "nat (m_device_fd d) < length (p_fds p)"
    using assms(1) by (auto simp: fd_file_def split: if_splits)
  obtain r os where "k_close K f (p_os p) = (r, os)" by (cases "k_close K f (p_os p)")
  then obtain p1 where c: "sys_close K (m_device_fd d) p = (Val (), p1)"
    and p1: "p_fds p1 = (p_fds p)[nat (m_device_fd d) := None]" "p_nodes p1 = p_nodes p"
    using assms(1) by (simp add: sys_close_def)
  let ?p = "printed ((''Closed uringblk device: '' @ m_device_path d) @ newline) p1"
  have cl: "close_device K d p = (Val new_UringBlkDevice, ?p)"
    using fd c by (simp add: close_device_def run_simps new_UringBlkDevice_def)
  obtain os' where "k_lookup K [] (p_os ?p) = (None, os')" using fs_permitsE [OF assms(3)] by blast
  then have o: "sys_open K [] [O_RDWR] ?p = (Val (- 1), ?p\<lparr>p_os := os', p_errno := ENOENT\<rparr>)"
    using p1 assms(2) by (simp add: sys_open_def sys_stat_def call_def)
  have "open_device K m_device_path d p = (Val (Inl ENOENT, new_UringBlkDevice), ?p\<lparr>p_os := os', p_errno := ENOENT\<rparr>)"
    using cl o by (simp add: open_device_def run_simps new_UringBlkDevice_def)
  moreover have "fd_file (m_device_fd d) (?p\<lparr>p_os := os', p_errno := ENOENT\<rparr>) = None"
    using p1 fd by (simp add: fd_file_def)
  ultimately show ?thesis by blast
qed

lemma reopen_own_path_fails_witness:
  "\<exists>q. open_device sample_kernel m_device_path \<lparr>m_device_fd = 0, m_device_path = ''/dev/uringblk0''\<rparr>
      ((sample_proc Map.empty)\<lparr>p_fds := [Some (''/dev/uringblk0'', wal_node S_IFBLK 0 0)]\<rparr>) =
    (Val (Inl ENOENT, new_UringBlkDevice), q)"
  using reopen_own_path_fails [of "\<lparr>m_device_fd = 0, m_device_path = ''/dev/uringblk0''\<rparr>"
      "(sample_proc Map.empty)\<lparr>p_fds := [Some (''/dev/uringblk0'', wal_node S_IFBLK 0 0)]\<rparr>" _ sample_kernel]
  by (auto simp: fd_file_def sample_proc_def sample_permits)

section \<open>Text and structures\<close>

definition unhexdigit :: "char \<Rightarrow> nat" where
  "unhexdigit c = (let n = of_char c in if n < 58 then n - 48 else n - 87)"

definition unhex :: "string \<Rightarrow> nat" where
  "unhex cs = foldl (\<lambda>a c. a * 16 + unhexdigit c) 0 cs"

lemma unhexdigit_hexdigit: "d < 16 \<Longrightarrow> unhexdigit (hexdigit d) = d"
  by (simp add: unhexdigit_def hexdigit_def)

lemma unhex_hex: "unhex (hex n) = n"
proof (induction n rule: hex.induct)
  case (1 n)
  show ?case
  proof (cases "n < 16")
    case True
    then show ?thesis by (subst hex.simps) (simp add: unhex_def unhexdigit_hexdigit)
  next
    case False
    with 1 have "unhex (hex (n div 16)) = n div 16" by simp
    with False show ?thesis by (subst hex.simps) (simp add: unhex_def unhexdigit_hexdigit)
  qed
qed

lemma unhex_zeros: "unhex (replicate k (CHR ''0'') @ s) = unhex s"
  by (induction k) (simp_all add: unhex_def unhexdigit_def)

lemma length_hex: "n < 16 ^ Suc k \<Longrightarrow> length (hex n) \<le> Suc k"
proof (induction k arbitrary: n)
  case 0
  then show ?case by (subst hex.simps) simp
next
  case (Suc k)
  then have "length (hex (n div 16)) \<le> Suc k" by (intro Suc.IH) (simp add: div_less_iff_less_mult)
  then show ?case by (subst hex.simps) simp
qed

lemma length_padded_hex: "length (padded_hex 16 (unat (f :: u64))) = 16"
proof -
  have "unat f < 16 ^ Suc 15" using unsigned_less [of f, where ?'a = nat] by simp
  from length_hex [OF this] show ?thesis by (simp add: padded_hex_def)
qed

lemma and_exp_bit: "(f AND 2 ^ n \<noteq> 0) = bit (f :: u64) n"
  by (simp add: and_exp_eq_0_iff_not_bit)

lemma append_names_eq: "0 < i \<Longrightarrow> append_names i ns result = result @ concat (map ((@) '', '') ns)"
  by (induction i ns result rule: append_names.induct) simp_all

text \<open>The text of a feature set is faithful: its hexadecimal field is the bitmap, and the list in
  parentheses names exactly the features whose bits are set, separated by commas.\<close>

theorem features_text_faithful:
  "unhex (slice (format_features_bitmap f) 2 16) = unat f \<and>
   drop 20 (format_features_bitmap f) = (if feature_names f = [] then ''none'' else join '', '' (feature_names f)) @ '')'' \<and>
   feature_names f = map fst (filter (\<lambda>(name, b). bit f b) (zip [''WRITE_CACHE'', ''FUA'', ''FLUSH'', ''DISCARD'',
     ''WRITE_ZEROES'', ''ZONED'', ''POLLING''] [0, 1, 2, 3, 4, 5, 6]))"
proof -
  let ?h = "padded_hex 16 (unat f)"
  have tx: "format_features_bitmap f = ''0x'' @ ?h @ '' ('' @
      (if feature_names f = [] then ''none'' else join '', '' (feature_names f)) @ '')''"
    by (cases "feature_names f") (simp_all add: format_features_bitmap_def Let_def join_def append_names_eq)
  have "slice (format_features_bitmap f) 2 16 = ?h"
    unfolding tx by (simp add: slice_def length_padded_hex)
  then have "unhex (slice (format_features_bitmap f) 2 16) = unat f"
    by (simp add: padded_hex_def unhex_zeros unhex_hex)
  moreover have "drop 20 (format_features_bitmap f) =
      (if feature_names f = [] then ''none'' else join '', '' (feature_names f)) @ '')''"
    unfolding tx by (simp add: length_padded_hex)
  moreover have "feature_names f = map fst (filter (\<lambda>(name, b). bit f b) (zip [''WRITE_CACHE'', ''FUA'', ''FLUSH'', ''DISCARD'',
     ''WRITE_ZEROES'', ''ZONED'', ''POLLING''] [0, 1, 2, 3, 4, 5, 6]))"
    using and_exp_bit [of f 0] and_exp_bit [of f 1] and_exp_bit [of f 2] and_exp_bit [of f 3]
      and_exp_bit [of f 4] and_exp_bit [of f 5] and_exp_bit [of f 6]
    by (simp add: feature_names_def)
  ultimately show ?thesis by blast
qed

end
