(* ===== verification/Client_Drivers.thy ===== *)
theory Client_Drivers
  imports Client_Theorems Uring_Theorems Wal_Properties
begin

text \<open>
  The client against the drivers.  What Linux does between the two is a hypothesis: io\_uring refuses sends
  on a file that is not a socket and polled transfers on a file opened without \<open>O_DIRECT\<close>, and the file layer calls
  the character device with the position of the open file (\<open>char_layer\<close>).
\<close>

section \<open>Running one request\<close>

lemma ring_init_ok:
  "k_ring_init K b (p_os p) = (None, os) \<Longrightarrow> ring_init K b p = (Val None, p\<lparr>p_os := os, p_rings := Suc (p_rings p)\<rparr>)"
  by (simp add: ring_init_def)

lemma submit_and_wait_run:
  assumes "k_submit K io (fd_file (sq_fd s) p) s (p_os p) = (None, os1)"
    and "k_wait K os1 = (Inr (res, bs), os2)" and "p_rings p = Suc n"
  shows "submit_and_wait K io s p =
    (Val (case res of Inl e \<Rightarrow> Inl e | Inr n \<Rightarrow> Inr (n, bs)), p\<lparr>p_os := os2, p_rings := n\<rparr>)"
  using assms by (simp add: submit_and_wait_def call_def ring_submit_def ring_wait_def ring_exit_def return_def)

lemma fd_file_cong: "p_fds q = p_fds p \<Longrightarrow> fd_file fd q = fd_file fd p"
  by (simp add: fd_file_def)

lemma fd_file_nonneg: "fd_file fd p = Some f \<Longrightarrow> \<not> fd < 0"
  by (auto simp: fd_file_def split: if_splits)

lemma mk_sqe_fields [simp]:
  "sq_opcode (mk_sqe opc fd buf len off) = opc" "sq_fd (mk_sqe opc fd buf len off) = fd"
  "sq_buf (mk_sqe opc fd buf len off) = buf" "sq_len (mk_sqe opc fd buf len off) = len"
  "sq_off (mk_sqe opc fd buf len off) = off"
  by (simp_all add: mk_sqe_def)

section \<open>Admin commands\<close>

definition rings_work :: "'k kernel \<Rightarrow> bool" where
  "rings_work K \<longleftrightarrow> (\<forall>b os. fst (k_ring_init K b os) = None \<and> k_get_sqe K os)"

text \<open>The operation with number 26 is \<open>IORING_OP_SEND\<close>, which fails on anything but a socket.\<close>

definition send_needs_socket :: "'k kernel \<Rightarrow> bool" where
  "send_needs_socket K \<longleftrightarrow> (\<forall>f s os. sq_opcode s = 26 \<longrightarrow>
     (\<exists>os1 os2. k_submit K False (Some f) s os = (None, os1) \<and> k_wait K os1 = (Inr (Inl ENOTSOCK, []), os2)))"

lemma rings_workE:
  assumes "rings_work K"
  obtains os' where "k_ring_init K b os = (None, os')" and "k_get_sqe K os'"
  using assms unfolding rings_work_def by (metis prod.collapse)

lemma send_uring_cmd_refused:
  assumes K: "rings_work K" "send_needs_socket K" and f: "fd_file (m_device_fd d) p = Some f"
    and n: "\<not> (payload \<noteq> None \<and> payload_len > 4096)"
  shows "fst (send_uring_cmd K opc payload payload_len resp rlen d p) = Val (Inl ENOTSOCK)"
proof -
  obtain os where i: "k_ring_init K False (p_os p) = (None, os)" and g: "k_get_sqe K os"
    using K(1) by (rule rings_workE)
  let ?p = "p\<lparr>p_os := os, p_rings := Suc (p_rings p)\<rparr>"
  have s: "fst (submit_and_wait K False (mk_sqe IORING_OP_URING_CMD (m_device_fd d) buf 4108 0) ?p) = Val (Inl ENOTSOCK)" for buf
  proof -
    let ?s = "mk_sqe IORING_OP_URING_CMD (m_device_fd d) buf 4108 0"
    obtain os1 os2 where "k_submit K False (Some f) ?s os = (None, os1)" "k_wait K os1 = (Inr (Inl ENOTSOCK, []), os2)"
      using K(2) unfolding send_needs_socket_def by (metis IORING_OP_URING_CMD_def mk_sqe_fields(1))
    then show ?thesis
      using f by (subst submit_and_wait_run [where res = "Inl ENOTSOCK" and bs = "[]"])
        (auto simp: fd_file_cong [of ?p p])
  qed
  have c: "fst (call (submit_and_wait K False (mk_sqe IORING_OP_URING_CMD (m_device_fd d) buf 4108 0))
     (case_sum (\<lambda>e. return (Inl e)) g') ?p) = Val (Inl ENOTSOCK)" for buf g'
    using s [of buf] by (cases "submit_and_wait K False (mk_sqe IORING_OP_URING_CMD (m_device_fd d) buf 4108 0) ?p")
      (simp add: run_simps)
  show ?thesis using n g
    by (auto simp: send_uring_cmd_def Let_def ring_init_ok [OF i] stack_memory_def ring_get_sqe_def run_simps c)
qed

lemma query_refused:
  assumes "rings_work K" and "send_needs_socket K" and "fd_file (m_device_fd d) p = Some f"
  shows "fst (query K opc n decode d p) = Val (Inl ENOTSOCK)"
  using send_uring_cmd_refused [OF assms, of None 0 opc "Some (replicate n 0)" "of_nat n"] fd_file_nonneg [OF assms(3)]
  by (cases "send_uring_cmd K opc None 0 (Some (replicate n 0)) (of_nat n) d p") (simp add: query_def run_simps)

text \<open>C24.  No admin command of the client reaches the driver: it is submitted with the operation number
  26, which is that of a socket send, so on an open device every command returns \<open>ENOTSOCK\<close>.\<close>

theorem admin_commands_refused:
  assumes "rings_work K" and "send_needs_socket K" and "fd_file (m_device_fd d) p = Some f"
  shows "fst (identify K d p) = Val (Inl ENOTSOCK) \<and> fst (get_limits K d p) = Val (Inl ENOTSOCK) \<and>
    fst (get_features K d p) = Val (Inl ENOTSOCK) \<and> fst (set_features K features d p) = Val (Inl ENOTSOCK) \<and>
    fst (get_geometry K d p) = Val (Inl ENOTSOCK) \<and> fst (get_stats K d p) = Val (Inl ENOTSOCK)"
proof -
  have fd: "\<not> m_device_fd d < 0" using assms(3) by (rule fd_file_nonneg)
  have "fst (set_features K features d p) = Val (Inl ENOTSOCK)"
    using send_uring_cmd_refused [OF assms, of "Some (le 8 features)" 8 4 None 0] fd
    by (cases "send_uring_cmd K 4 (Some (le 8 features)) 8 None 0 d p") (simp add: set_features_def run_simps)
  then show ?thesis
    by (simp add: identify_def get_limits_def get_features_def get_geometry_def get_stats_def query_refused [OF assms])
qed

definition refusing_kernel :: "errno \<Rightarrow> unit kernel" where
  "refusing_kernel e = sample_kernel\<lparr>k_wait := \<lambda>os. (Inr (Inl e, []), os)\<rparr>"

definition open_proc :: "unit proc" where
  "open_proc = (sample_proc Map.empty)\<lparr>p_fds := [Some (''/dev/uringblk0'',
     \<lparr>i_type = S_IFBLK, i_major = 252, i_minor = 0, i_mode = 0\<rparr>)]\<rparr>"

definition open_dev :: UringBlkDevice where
  "open_dev = \<lparr>m_device_fd = 0, m_device_path = ''/dev/uringblk0''\<rparr>"

lemma admin_commands_refused_witness:
  "fst (identify (refusing_kernel ENOTSOCK) open_dev open_proc) = Val (Inl ENOTSOCK)"
proof -
  have "rings_work (refusing_kernel ENOTSOCK)" "send_needs_socket (refusing_kernel ENOTSOCK)"
    by (simp_all add: rings_work_def send_needs_socket_def refusing_kernel_def sample_kernel_def)
  moreover have "fd_file (m_device_fd open_dev) open_proc = Some (''/dev/uringblk0'',
     \<lparr>i_type = S_IFBLK, i_major = 252, i_minor = 0, i_mode = 0\<rparr>)"
    by (simp add: open_dev_def open_proc_def fd_file_def)
  ultimately show ?thesis by (rule admin_commands_refused [THEN conjunct1])
qed

section \<open>Polled transfers\<close>

text \<open>A polled ring reads and writes only files opened with \<open>O_DIRECT\<close>, which no call of the client asks for.\<close>

definition iopoll_needs_direct :: "'k kernel \<Rightarrow> bool" where
  "iopoll_needs_direct K \<longleftrightarrow> (\<forall>f s os. sq_opcode s = IORING_OP_READ \<or> sq_opcode s = IORING_OP_WRITE \<longrightarrow>
     (\<exists>os1 os2. k_submit K True (Some f) s os = (None, os1) \<and> k_wait K os1 = (Inr (Inl EOPNOTSUPP, []), os2)))"

lemma polled_run:
  assumes K: "rings_work K" "iopoll_needs_direct K" and f: "fd_file (sq_fd s) p = Some f"
    and o: "sq_opcode s = IORING_OP_READ \<or> sq_opcode s = IORING_OP_WRITE"
  obtains os q where "init_polled K p = (Val (Inr True), p\<lparr>p_os := os, p_rings := Suc (p_rings p)\<rparr>)"
    and "k_get_sqe K os"
    and "submit_and_wait K True s (p\<lparr>p_os := os, p_rings := Suc (p_rings p)\<rparr>) = (Val (Inl EOPNOTSUPP), q)"
proof -
  obtain os where i: "k_ring_init K True (p_os p) = (None, os)" and g: "k_get_sqe K os"
    using K(1) by (rule rings_workE)
  let ?p = "p\<lparr>p_os := os, p_rings := Suc (p_rings p)\<rparr>"
  obtain os1 os2 where "k_submit K True (Some f) s os = (None, os1)" "k_wait K os1 = (Inr (Inl EOPNOTSUPP, []), os2)"
    using K(2) o unfolding iopoll_needs_direct_def by blast
  with f have "submit_and_wait K True s ?p = (Val (Inl EOPNOTSUPP), ?p\<lparr>p_os := os2, p_rings := p_rings p\<rparr>)"
    by (subst submit_and_wait_run [where res = "Inl EOPNOTSUPP" and bs = "[]"]) (auto simp: fd_file_cong [of ?p p])
  moreover have "init_polled K p = (Val (Inr True), ?p)"
    by (simp add: init_polled_def ring_init_ok [OF i] run_simps)
  ultimately show ?thesis using g that by blast
qed

text \<open>The fallback to a plain ring is taken only when the polled ring cannot be set up.  Where it can,
  reads and writes fail with \<open>EOPNOTSUPP\<close>, because the device was not opened with \<open>O_DIRECT\<close>.\<close>

theorem polled_transfers_refused:
  assumes "rings_work K" and "iopoll_needs_direct K" and "fd_file (m_device_fd d) p = Some f"
  shows "fst (write_async K off buf len d p) = Val (Inl EOPNOTSUPP) \<and>
    fst (read_async K off buf len d p) = Val (Inl EOPNOTSUPP, buf)"
proof -
  have fd: "\<not> m_device_fd d < 0" using assms(3) by (rule fd_file_nonneg)
  let ?w = "(mk_sqe IORING_OP_WRITE (m_device_fd d) buf (ucast len) off)\<lparr>sq_async := True\<rparr>"
  let ?r = "(mk_sqe IORING_OP_READ (m_device_fd d) buf (ucast len) off)\<lparr>sq_async := True\<rparr>"
  have w: "fd_file (sq_fd ?w) p = Some f" and r: "fd_file (sq_fd ?r) p = Some f" using assms(3) by simp_all
  have "fst (write_async K off buf len d p) = Val (Inl EOPNOTSUPP)"
    by (rule polled_run [OF assms(1,2) w], simp) (simp add: write_async_def fd ring_get_sqe_def run_simps)
  moreover have "fst (read_async K off buf len d p) = Val (Inl EOPNOTSUPP, buf)"
    by (rule polled_run [OF assms(1,2) r], simp) (simp add: read_async_def fd ring_get_sqe_def run_simps)
  ultimately show ?thesis by blast
qed

lemma polled_transfers_refused_witness:
  "fst (write_async (refusing_kernel EOPNOTSUPP) 0 [1, 2] 2 open_dev open_proc) = Val (Inl EOPNOTSUPP)"
proof -
  have "rings_work (refusing_kernel EOPNOTSUPP)" "iopoll_needs_direct (refusing_kernel EOPNOTSUPP)"
    by (simp_all add: rings_work_def iopoll_needs_direct_def refusing_kernel_def sample_kernel_def)
  moreover have "fd_file (m_device_fd open_dev) open_proc = Some (''/dev/uringblk0'',
     \<lparr>i_type = S_IFBLK, i_major = 252, i_minor = 0, i_mode = 0\<rparr>)"
    by (simp add: open_dev_def open_proc_def fd_file_def)
  ultimately show ?thesis by (rule polled_transfers_refused [THEN conjunct1])
qed

section \<open>The WAL character device through the client\<close>

text \<open>
  The file layer: \<open>st\<close> is the position of the open file and the state of the driver; user copies
  and allocations succeed.
\<close>

definition char_layer ::
  "'k kernel \<Rightarrow> ('k \<Rightarrow> u64 \<times> wal_global) \<Rightarrow> (byte \<Rightarrow> bool) \<Rightarrow> (byte \<Rightarrow> bool) \<Rightarrow> bool" where
  "char_layer K st pr sp \<longleftrightarrow>
     (\<forall>path i bs os r pos w. i_type i = S_IFCHR \<longrightarrow>
        wal_char_write pr sp True True bs (of_nat (length bs)) (fst (st os)) (snd (st os)) = (Inr r, pos, w) \<longrightarrow>
        (\<exists>os'. k_write K (path, i) bs os = (Inr (unat r), os') \<and> st os' = (pos, w))) \<and>
     (\<forall>path i n os bs pos w. i_type i = S_IFCHR \<longrightarrow>
        wal_char_read True (of_nat n) (fst (st os)) (snd (st os)) = (Inr bs, pos, w) \<longrightarrow>
        (\<exists>os'. k_read K (path, i) n os = (Inr bs, os') \<and> st os' = (pos, w)))"

lemma char_read_message:
  "\<exists>w'. wal_char_read True 1024 0 w = (Inr WAL_RESPONSE_MSG, 15, w')"
  "\<exists>w'. wal_char_read True 1024 24 w = (Inr [], 24, w')"
  by (simp_all add: wal_char_read_def Let_def WAL_RESPONSE_LEN_def WAL_RESPONSE_MSG_def slice_def)

lemma char_write_count:
  "\<exists>w'. wal_char_write pr sp True True (bytes_of TEST_CHAR_DATA) 24 0 w = (Inr 24, 24, w')"
  by (simp add: wal_char_write_def Let_def PAGE_SIZE_def)

lemma unat_of_char: "unat (of_char c :: u8) = of_char c"
proof -
  have "unat (of_nat (of_char c) :: u8) = of_char c"
    unfolding unsigned_of_nat using nat_of_char_less_256 [of c] by (simp add: take_bit_nat_eq_self)
  then show ?thesis by (simp only: of_nat_of_char)
qed

lemma text_of_bytes: "text_of (map of_char s) = s"
  by (induction s) (simp_all add: text_of_def unat_of_char)

lemma text_of_message: "text_of WAL_RESPONSE_MSG = WAL_RESPONSE" "WAL_RESPONSE_MSG \<noteq> []"
  unfolding WAL_RESPONSE_MSG_def text_of_bytes WAL_RESPONSE_def by simp_all

lemma hex_dump_run: "\<exists>out. hex_dump bs p = (Val (), p\<lparr>p_out := out\<rparr>)"
proof (induction bs arbitrary: p)
  case Nil
  then show ?case by (auto simp: run_simps intro: exI [of _ "p_out p"])
next
  case (Cons b bs)
  from Cons.IH [of "printed (padded_hex 2 (unat b) @ '' '') p"] show ?case
    by (auto simp: run_simps printed_def)
qed

lemma printed_twice: "\<exists>out'. printed a ((printed b (p\<lparr>p_out := out\<rparr>))\<lparr>p_os := os\<rparr>) = p\<lparr>p_os := os, p_out := out'\<rparr>"
  by (rule exI [of _ "out @ [b] @ [a]"]) (simp add: printed_def)

lemma write_char_run:
  assumes "fd_file (m_char_device_fd w) p = Some f" and "k_write K f (bytes_of data) (p_os p) = (Inr n, os)"
    and "length data \<le> 64"
  shows "\<exists>out. write_char_device K data w p = (Val (Inr n), p\<lparr>p_os := os, p_out := out\<rparr>)"
proof -
  let ?p = "printed ''  Hex dump: '' (printed ((''  Raw data: '' @ dq @ data @ dq) @ newline)
      (printed (''Captured write data:'' @ newline)
       (printed ((''Writing to '' @ CHAR_DEVICE_PATH @ '': '' @ dq @ data @ dq @ '' ('' @ dec (length data) @ '' bytes)'') @ newline) p)))"
  obtain out where "hex_dump (take 64 (bytes_of data)) ?p = (Val (), ?p\<lparr>p_out := out\<rparr>)"
    using hex_dump_run by blast
  moreover have "?p\<lparr>p_out := out\<rparr> = p\<lparr>p_out := out\<rparr>" by (simp add: printed_def)
  ultimately have h: "hex_dump (take 64 (bytes_of data)) ?p = (Val (), p\<lparr>p_out := out\<rparr>)" by (simp only:)
  have fd: "\<not> m_char_device_fd w < 0" using assms(1) by (rule fd_file_nonneg)
  have s: "sys_write K (m_char_device_fd w) (bytes_of data) (printed ([] @ newline) (p\<lparr>p_out := out\<rparr>)) =
      (Val (Some n), (printed ([] @ newline) (p\<lparr>p_out := out\<rparr>))\<lparr>p_os := os\<rparr>)"
    using assms(1,2) by (simp add: sys_write_def on_file_def fd_file_cong [of "p\<lparr>p_out := out\<rparr>" p])
  show ?thesis
    unfolding write_char_device_def using fd assms(3) h s
    by (simp add: run_simps printed_twice)
qed

lemma read_char_run:
  assumes "fd_file (m_char_device_fd w) p = Some f" and "k_read K f n (p_os p) = (Inr bs, os)"
  shows "read_char_device K n w p =
    (let q = printed ((''Read from '' @ CHAR_DEVICE_PATH @ '': '' @ dq @ text_of bs @ dq @ '' ('' @
               dec (length bs) @ '' bytes)'') @ newline) (p\<lparr>p_os := os\<rparr>)
     in if bs = [] then (Val (Inr WAL_RESPONSE), printed ((''Simulated response: '' @ dq @ WAL_RESPONSE @ dq) @ newline) q)
        else (Val (Inr (text_of bs)), q))"
proof -
  have fd: "\<not> m_char_device_fd w < 0" using assms(1) by (rule fd_file_nonneg)
  have "sys_read K (m_char_device_fd w) n p = (Val (Some bs), p\<lparr>p_os := os\<rparr>)"
    using assms by (simp add: sys_read_def on_file_def)
  then show ?thesis using fd by (simp add: read_char_device_def run_simps Let_def text_of_def)
qed

text \<open>On a freshly opened character device the client reads the driver's message.  After the write of
  the client's own test the same read finds the end of the file, since the driver advances the
  position by the bytes written; the client then prints and returns a simulated message that equals
  the driver's.\<close>

theorem written_device_reads_simulated:
  assumes K: "char_layer K st pr sp" and f: "fd_file (m_char_device_fd w) p = Some (path, i)" "i_type i = S_IFCHR"
    and z: "fst (st (p_os p)) = 0"
  shows "(\<exists>q. read_char_device K 1024 w p = (Val (Inr WAL_RESPONSE), q) \<and> length (p_out q) = Suc (length (p_out p))) \<and>
    (\<exists>q q'. write_char_device K TEST_CHAR_DATA w p = (Val (Inr 24), q) \<and>
       read_char_device K 1024 w q = (Val (Inr WAL_RESPONSE), q') \<and>
       last (p_out q') = ''Simulated response: '' @ dq @ WAL_RESPONSE @ dq @ newline)"
proof (intro conjI)
  note rd = K [unfolded char_layer_def, THEN conjunct2, rule_format, OF f(2)]
  note wr = K [unfolded char_layer_def, THEN conjunct1, rule_format, OF f(2)]
  obtain w' where "wal_char_read True (of_nat 1024) (fst (st (p_os p))) (snd (st (p_os p))) = (Inr WAL_RESPONSE_MSG, 15, w')"
    using char_read_message(1) z by auto
  from rd [OF this, of path] obtain os where "k_read K (path, i) 1024 (p_os p) = (Inr WAL_RESPONSE_MSG, os)" by blast
  from read_char_run [OF f(1) this] show "\<exists>q. read_char_device K 1024 w p = (Val (Inr WAL_RESPONSE), q) \<and>
      length (p_out q) = Suc (length (p_out p))"
    by (simp add: text_of_message Let_def)
  have n: "(of_nat (length (bytes_of TEST_CHAR_DATA)) :: u64) = 24" by (simp add: bytes_of_def TEST_CHAR_DATA_def)
  obtain w1 where "wal_char_write pr sp True True (bytes_of TEST_CHAR_DATA) (of_nat (length (bytes_of TEST_CHAR_DATA)))
      (fst (st (p_os p))) (snd (st (p_os p))) = (Inr 24, 24, w1)"
    using char_write_count [of pr sp "snd (st (p_os p))"] z unfolding n by auto
  from wr [OF this, of path] obtain os1 where k: "k_write K (path, i) (bytes_of TEST_CHAR_DATA) (p_os p) = (Inr 24, os1)"
    and s1: "st os1 = (24, w1)" by auto
  obtain out where q: "write_char_device K TEST_CHAR_DATA w p = (Val (Inr 24), p\<lparr>p_os := os1, p_out := out\<rparr>)"
    using write_char_run [OF f(1) k] by (auto simp: TEST_CHAR_DATA_def)
  let ?q = "p\<lparr>p_os := os1, p_out := out\<rparr>"
  obtain w2 where "wal_char_read True (of_nat 1024) (fst (st os1)) (snd (st os1)) = (Inr [], 24, w2)"
    using char_read_message(2) s1 by auto
  from rd [OF this, of path] obtain os2 where r: "k_read K (path, i) 1024 (p_os ?q) = (Inr [], os2)" by auto
  have "fd_file (m_char_device_fd w) ?q = Some (path, i)" using f(1) by (simp add: fd_file_cong [of ?q p])
  from read_char_run [OF this r] q show "\<exists>q q'. write_char_device K TEST_CHAR_DATA w p = (Val (Inr 24), q) \<and>
       read_char_device K 1024 w q = (Val (Inr WAL_RESPONSE), q') \<and>
       last (p_out q') = ''Simulated response: '' @ dq @ WAL_RESPONSE @ dq @ newline"
    by (simp add: Let_def)
qed

definition wal_kernel :: "(u64 \<times> wal_global) kernel" where
  "wal_kernel = \<lparr>k_euid = \<lambda>_. 0, k_strerror = \<lambda>_. ''error'', k_lookup = \<lambda>_ os. (None, os),
     k_open = \<lambda>_ _ os. (None, os), k_close = \<lambda>_ os. (None, os), k_mknod = \<lambda>_ os. (None, os),
     k_unlink = \<lambda>_ os. (None, os),
     k_read = \<lambda>_ n os. (case wal_char_read True (of_nat n) (fst os) (snd os) of (r, st) \<Rightarrow> (r, st)),
     k_write = \<lambda>_ bs os. (case wal_char_write (\<lambda>_. True) (\<lambda>_. True) True True bs (of_nat (length bs)) (fst os) (snd os)
        of (r, st) \<Rightarrow> (map_sum id unat r, st)),
     k_ioctl = \<lambda>_ _ _ os. (Inr 0, os), k_getline = \<lambda>_ os. (Inr [], os),
     k_ring_init = \<lambda>_ os. (None, os), k_get_sqe = \<lambda>_. True, k_submit = \<lambda>_ _ _ os. (None, os),
     k_wait = \<lambda>os. (Inr (Inr 0, []), os)\<rparr>"

lemma written_device_reads_simulated_witness:
  "\<exists>q q' :: (u64 \<times> wal_global) proc.
     read_char_device wal_kernel 1024 \<lparr>m_char_device_fd = 0, m_block_device_fd = - 1\<rparr> q = (Val (Inr WAL_RESPONSE), q') \<and>
     last (p_out q') = ''Simulated response: '' @ dq @ WAL_RESPONSE @ dq @ newline"
proof -
  let ?i = "\<lparr>i_type = S_IFCHR, i_major = 240, i_minor = 0, i_mode = 0\<rparr>"
  let ?p = "\<lparr>p_os = (0, \<lparr>w_status = status_zero, block_data = [], wal_log = []\<rparr>), p_nodes = Map.empty,
     p_fds = [Some (''/dev/rwal'', ?i)], p_errno = ENOENT, p_out = [], p_umask = 0, p_stack = [], p_rings = 0, p_bad = 0\<rparr>"
  have "char_layer wal_kernel id (\<lambda>_. True) (\<lambda>_. True)" by (auto simp: char_layer_def wal_kernel_def)
  moreover have "fd_file (m_char_device_fd \<lparr>m_char_device_fd = 0, m_block_device_fd = - 1\<rparr>) ?p = Some (''/dev/rwal'', ?i)"
    by (simp add: fd_file_def)
  ultimately show ?thesis
    using written_device_reads_simulated [of wal_kernel id "\<lambda>_. True" "\<lambda>_. True" "\<lparr>m_char_device_fd = 0, m_block_device_fd = - 1\<rparr>" ?p "''/dev/rwal''" ?i]
    by auto
qed

end
