(* ===== verification/Spec2Isabelle.thy ===== *)
theory Spec2Isabelle
  imports Kdb_Spin Kdb_Memory Wal_Threads Uring_Progress Uring_Async Client_Drivers
begin

text \<open>
  \<^bold>\<open>Verification of the kvm\_db kernel modules and their client.\<close>

  The repository holds three Linux kernel modules in C and a client program in C++ that drives two of
  them.  The modules share no code and no state; each is a group of theories here, and so is the
  client, over one prelude.  The client meets the modules in \<open>Client_Drivers\<close> only.

  \<^bold>\<open>kdbcache\<close> (\<^verbatim>\<open>src/src/*.c\<close>) maps a database's pages into user space on demand.  A mapping has a
  context (\<open>vma_ctx\<close>) with a hash table from logical page numbers to logical page states
  (\<open>lp_state\<close>), each an array of canonical pages and a dirty bitmap; the canonical pages come from a
  pool that counts them.

    \<^item> \<open>Cp_Pool\<close>: \<^verbatim>\<open>cp_pool.c\<close>; the counters and, beside them, the references on each page.
    \<^item> \<open>Lp_State\<close>: the data and operations of \<^verbatim>\<open>lp_state.c\<close> over explicit heaps \<open>ctxs\<close> and \<open>lps\<close>, so that
      freed and shared objects are visible; \<open>lp_get_or_create\<close> is composed of its two critical sections
      and the allocation.  \<open>Lp_Invariant\<close>: well-formed tables and what each operation keeps of them.
      \<open>Lp_Lifecycle\<close>: creation and destruction of contexts, page ownership, accounting.
      \<open>Lp_Concurrent\<close>: callers of \<open>lp_get_or_create\<close> interleaved at its critical sections.
    \<^item> \<open>Kdb_Vma\<close>: the page-fault, write-notification, open and close handlers of \<^verbatim>\<open>vma.c\<close>.  \<open>Kdb_Fault\<close> and
      \<open>Kdb_Mkwrite\<close>: what they return and change, on every branch.
    \<^item> \<open>Kdb_Chrdev\<close>: \<^verbatim>\<open>chrdev.c\<close> (ioctl, mmap) and the module's entry points of \<^verbatim>\<open>kdb_main.c\<close>.
    \<^item> \<open>Kdb_Cache\<close>: the module as a step relation \<open>kdb_step\<close> over these handlers, its reachable states and
      their invariants: \<open>sys_wf\<close> in every reachable state, and \<open>sys_ok\<close>, where each mapping owns its context, as long as
      no mapping was duplicated.  \<open>Kdb_Pages\<close>: resident pages and dirty bits along steps.
      \<open>Kdb_Theorems\<close>: the properties of sequences of calls.
    \<^item> \<open>Kdb_Threads\<close>: the fault and write handlers as threads, cut at the hash lock, the lock of the logical page,
      the allocations and the atomic counters.  \<open>Kdb_Quiet\<close>: what a step leaves alone.  \<open>Kdb_Concurrent\<close>: one step of
      one of many threads.  \<open>Kdb_Parallel\<close>: what holds along every interleaving.  \<open>Kdb_Schedules\<close>: the properties
      of concurrent handlers from any reachable state.  \<open>Kdb_Spin\<close>: the same handlers with the spin locks as state: a
      lock is taken in one step, the critical section runs in others, and a handler spins on a lock that is held;
      its sections are those of \<open>Kdb_Threads\<close>.
    \<^item> \<open>Kdb_Maps\<close>: the page and the dirty bit at each offset of each mapping, before and after every handler.
      \<open>Kdb_Memory\<close>: the module in the machine around it, page table, page contents, loads and stores, against
      flat memory.

  \<^bold>\<open>wal\_driver\<close> (\<^verbatim>\<open>src/driver/wal_driver_main.c\<close>) is a character and a block device that answer with a
  fixed message and record writes in a buffer of 1 MiB.

    \<^item> \<open>Wal_Driver\<close>: all file and block operations, with the kernel messages that depend on the mode.
      \<open>Wal_Properties\<close>: bios against a flat array, reads against the message, histories of calls.
      \<open>Wal_Module\<close>: set-up and tear-down with a ledger of kernel resources, one definition per error
      label, for kernels that allocate the queue with the disk and for older ones, and the proc file.
      \<open>Wal_Theorems\<close>: the properties of sequences of calls.
    \<^item> \<open>Wal_Threads\<close>: calls as threads, cut at the status mutex, the copies from and to user space and the segments
      of a bio; memory that a call touches under the mutex may lead back into the driver (\<open>re\<close>), and the call then
      waits for the mutex.  The properties of concurrent calls.

  \<^bold>\<open>uringblk\<close> (\<^verbatim>\<open>src/driver/uringblk_main.c\<close>, \<^verbatim>\<open>uringblk_sysfs.c\<close>) is a multi-queue block driver over memory
  or another block device, with admin commands over io\_uring.

    \<^item> \<open>Uring_Backend\<close>: both backends.  \<open>Uring_Queue\<close>: \<open>uringblk_queue_rq\<close> with the synchronous loop, the
      asynchronous transfers and their completion; every end of a request is recorded.
      \<open>Uring_Requests\<close>: the range test as natural numbers, the loop against the flat specification.
    \<^item> \<open>Uring_Cmd\<close>: the admin commands with their packed little-endian responses, the latency percentile
      and the sysfs attributes.  \<open>Uring_Latency\<close>: the percentile's search loop.
    \<^item> \<open>Uring_Config\<close>: validation and the device list parser, over an explicit character buffer.
      What is allocated is entered in a resource ledger.
      \<open>Uring_Module\<close>: devices with their tag set, disk, queue limits and attributes, the admin character
      device, load and unload over the ledger.
    \<^item> \<open>Uring_Theorems\<close>, \<open>Uring_Setup\<close>, \<open>Uring_Machine\<close>: the properties of requests, of loading and unloading,
      and of a device through any sequence of events.
    \<^item> \<open>Uring_Threads\<close>: requests, admin commands and resets as threads, cut at the statistics lock, the admin
      mutex, the segments of a request and the completion by task work.  \<open>Uring_Linear\<close>: every interleaving
      follows an order of whole calls.  \<open>Uring_Schedules\<close>: the properties of concurrent calls.
      \<open>Uring_Progress\<close>: calls on either backend, racing requests included, all return.
    \<^item> \<open>Uring_Async\<close>: the transfers of the device backend with the memory they hold, as threads with the lower
      device in between; they refine the start and completion functions of \<open>Uring_Queue\<close>.

  \<^bold>\<open>The client\<close> (\<^verbatim>\<open>src/src/kvm_db.cc\<close>, \<^verbatim>\<open>kvm_uringblk.cc\<close>, \<^verbatim>\<open>kvm_wal.cc\<close>, \<^verbatim>\<open>kvm_probe.cc\<close> and their headers in
  \<^verbatim>\<open>src/include\<close>) probes KVM, creates the WAL device nodes, exercises the WAL devices, lists the uringblk
  devices and tests one of them.

    \<^item> \<open>Posix_Process\<close>: the process (descriptors, device nodes, \<open>errno\<close>, output, rings) and the system calls the
      client makes.  \<open>Posix_Ownership\<close>: a logic of who holds which descriptor and ring.
    \<^item> \<open>Client_Format\<close>: the packed structures of \<^verbatim>\<open>uringblk_uapi.h\<close> as the client reads them, and its text output.
    \<^item> \<open>Uring_Client\<close>: \<open>UringBlkDevice\<close> and \<open>UringBlkManager\<close>, with the definitions used without the driver's
      header.  \<open>Wal_Client\<close>: \<open>WAL_device_manager\<close> and \<open>WAL_device_interface\<close>.  \<open>Kvm_Probe\<close>: \<open>KVM_probe\<close>.
      \<open>Kvm_Db\<close>: \<open>main\<close>, with the destructors at the end of each scope.
    \<^item> \<open>Client_Lifetimes\<close>: programs over arrays of the client's objects.  \<open>Client_Nodes\<close>: the effect on device nodes.
      \<open>Client_Theorems\<close>: the properties.  \<open>Client_Drivers\<close>: the client running on the drivers of the other groups.

  \<^bold>\<open>Conventions\<close> (\<open>Kernel_Prelude\<close>).  C integers are words of their width, so every wrap-around is that of
  the code.  A call returns \<open>Inr\<close> of its result or \<open>Inl\<close> of a \<open>kfault\<close>: null or freed pointers, division by
  zero, accesses outside an array and reads of memory that was never written are faults, and
  theorems that a handler returns show that there is none.  Error codes are values of \<open>errno\<close>.  Kernel
  services (allocators, user copies, registration calls, \<open>hash_64\<close>, the lower block device) are
  arguments; what is assumed of them is a named hypothesis (\<open>hash_ok\<close>: the hash fits the table;
  \<open>lp_fresh\<close>, \<open>page_fresh\<close>: the allocators return objects that are not in use; \<open>lower_ok\<close>: a read
  of the lower block device that succeeds fills the whole bio).  Loops are recursions
  that are proved to end (the fill loop of the WAL driver, the device list parser); there is no fuel.  In the client a function returns
  a value, throws or aborts (\<open>outcome\<close>) and passes the process on; the operating system is the argument
  \<open>K\<close>, the capability numbers of KVM are the argument \<open>CAP\<close>, and the build's \<open>NDEBUG\<close> and
  \<open>HAVE_URINGBLK_DRIVER\<close> are the arguments \<open>ND\<close> and \<open>H\<close>.  Hypotheses on \<open>K\<close> are named after what Linux documents:
  \<open>fs_permits\<close> and \<open>nodes_locked\<close> (permission on device nodes), \<open>rings_work\<close>, \<open>send_needs_socket\<close> and \<open>iopoll_needs_direct\<close> (io\_uring), \<open>wal_disk_at\<close> (which minor number opens),
  \<open>char_layer\<close> (how reads and writes of a character device reach its driver).

  \<^bold>\<open>Interfaces.\<close>  \<open>demand_map\<close> (a map filled on demand; the logical page table implements it), \<open>byte_store\<close>
  (a backend as a byte array; the virtual backend implements it), \<open>call_machine\<close> (an invariant along
  sequences of calls; the WAL driver and the uringblk device implement it), \<open>owning_class\<close> (a class whose
  objects own descriptors; the three device classes of the client implement it), \<open>kept_threads\<close>, \<open>threads\<close>
  and \<open>wait_free\<close> (\<open>Interleaving\<close>: an invariant and a rank of interleaved threads; that some thread can always move; that every
  thread can; each gives the one before; the calls of uringblk and the handlers of kdbcache with their spin locks implement the
  second, the handlers as atomic sections and the transfers of the device backend the third), \<open>guarded_object\<close> and
  \<open>live_object\<close> (\<open>Lock_Objects\<close>: calls whose shared state is behind one mutex are linearizable, and some call can move as long as
  none waits for itself; the WAL driver implements both, and they give \<open>kept_threads\<close> and \<open>threads\<close>).  The clients' lemmas are
  proved in the locales and used through the interpretations.

  \<^bold>\<open>What is shown.\<close>  For kdbcache: the invariant of all reachable states, duplicated mappings included; no handler
  of a mapping faults until one that shares its context is closed; the functional result of faults, on every branch, and of
  write notifications; resident pages are stable and never
  shared; concurrent creation yields one state per logical page; faults and write notifications that
  run concurrently agree on the pages, lose no reference, count or dirty bit, and with their spin locks never deadlock and all end;
  what programs load and store through their mappings is what zero-filled memory of their own would give them, every page that is not
  zero is marked dirty, and an access inside a live mapping is always served; statistics;
  loading and unloading.  For the WAL driver: bios refine a flat array, the two request functions agree on transfers of one buffer,
  reads deliver the message, the mode stays valid, concurrent calls are linearizable, and all return unless the memory of one
  leads back into the driver.  For uringblk: requests on the virtual backend refine a flat
  array and end exactly once, concurrent calls are linearizable as long as requests do not race, and
  never deadlock on either backend, asynchronous transfers leak nothing and end their requests once, responses fit their
  buffers and describe the disk, a new device is a disk of zeros,
  under any concurrent calls features stay supported and the configuration stays that of the set-up, and the resource
  ledger on every load and unload path.  For the client: descriptors have one owner and are
  closed once, \<open>main\<close> has released everything whenever it returns, which nodes it leaves, and what its error paths
  return.  Several properties state where the code departs
  from what it means to do: contexts shared after fork, pages lost at close, mappings at a file offset, canonical pages above
  4 KiB, WAL calls that wait for the mutex they hold, requests of several segments that overrun the first, flushes that never
  complete, transfers cut off at one page, block sizes other than 512,
  the device list that is ignored, the path that leaks when no device is allowed, the admin device left behind by a failed
  load, nonblocking commands that wait, admin commands and polled transfers that
  never reach the driver, nodes created with a minor number the driver does not have, a simulated
  message in place of the end of the file.

  \<^bold>\<open>Bounds.\<close>  A thread has a rank that every step lowers: 6 steps are enough for a fault handler and 4 for a write
  notification (18 and fewer when taking and leaving each lock are steps of their own), two more than the number of segments
  for a request, 5 for an admin command, 3 for an asynchronous transfer, six more than the number of segments for a call of the
  WAL driver.  \<open>vm_run\<close> and
  \<open>ub_run\<close> take that many steps, and are shown to have reached the end then.

  \<^bold>\<open>Not modelled.\<close>  The statistics and latency locks of uringblk other than as the boundaries of atomic steps (the locks of the
  cache, the admin mutex and the status mutex are part of the state); copies of one segment as finer than one step, which only
  requests that race could tell; how the lower device orders bios that overlap; creation and destruction of mappings concurrent
  with handlers (the kernel's mapping lock excludes them); log lines, except where they depend on state (the WAL messages,
  the refcount warning); the kernel's own handling of page references after a fault, which the references of \<open>Cp_Pool\<close> therefore still
  count (\<open>Kdb_Memory\<close> states what Linux documents of the page table and of cleared pages around the driver,
  for mappings that no fork has duplicated); the page cache between programs and the block drivers; the limits of the WAL disk's
  queue; the tables of function pointers, which the handlers they name stand for; exhausted memory in
  the client (\<open>std::bad_alloc\<close>) and its printing without \<open>std::format\<close> (the branch of \<^verbatim>\<open>kvm_output.h\<close> for \<open>std::print\<close> is never compiled: the build
  sets another macro than the header tests); the macros of \<^verbatim>\<open>config.h\<close> that no source tests; the tests and the
  scripts.
\<close>

section \<open>From set-up to data\<close>

lemma capacity_small: "unat (capacity_bytes p) = unat (mp_capacity_mb p) * 1048576"
  "unat (capacity_bytes p) < 2 ^ 63"
proof -
  have c: "capacity_bytes p = ucast (mp_capacity_mb p) * 1048576"
    by (simp add: capacity_bytes_def mult.assoc)
  have b: "unat (mp_capacity_mb p) < 2 ^ 32" using unsigned_less [of "mp_capacity_mb p", where ?'a = nat] by simp
  then show "unat (capacity_bytes p) = unat (mp_capacity_mb p) * 1048576"
    unfolding c by (simp add: unat_word_ariths unat_u32_u64)
  with b show "unat (capacity_bytes p) < 2 ^ 63" by simp
qed

lemma virtual_device_ready:
  assumes "uringblk_init_device p URINGBLK_BACKEND_VIRTUAL env minor sl L = Inr (None, sl', L')"
  shows "vb_ok (u_backend (sl_dev sl'))"
    and "vb_content (u_backend (sl_dev sl')) = replicate (unat (mp_capacity_mb p) * 1048576) 0"
proof -
  let ?d = "sl_dev (setup_device p URINGBLK_BACKEND_VIRTUAL minor sl)"
  have "cfg_backend_type (u_config ?d) = URINGBLK_BACKEND_VIRTUAL" by (simp add: setup_device_def Let_def)
  with assms obtain b where b: "virtual_backend_init (de_vmem env) (capacity_bytes p) (u_backend ?d) = (None, b)"
    and d: "u_backend (sl_dev sl') = b"
    by (auto simp: init_device_ladder init_backend_def Let_def kres_simps split: option.splits prod.splits)
  from virtual_backend_init_ok [OF b capacity_small(2)] d capacity_small(1) [of p]
  show "vb_ok (u_backend (sl_dev sl'))"
    and "vb_content (u_backend (sl_dev sl')) = replicate (unat (mp_capacity_mb p) * 1048576) 0" by simp_all
qed

lemma sample_init_device:
  "\<exists>sl' L'. uringblk_init_device (sample_params [] []) URINGBLK_BACKEND_VIRTUAL sample_dev_env 0 slot_zero {#} = Inr (None, sl', L')"
  by (simp add: init_device_ladder setup_device_def validate_backend_config_def init_backend_def
    virtual_backend_init_def capacity_bytes_def sample_params_def sample_dev_env_def Let_def slot_zero_def
    config_zero_def backend_zero_def)



text \<open>C30.  From a device that was set up, requests, admin commands and statistics resets may run at the same time in any
  interleaving, requests that race and calls that are not finished included: at every moment the feature
  word has supported features only, the configuration, the backend's kind and its capacity are those of the set-up, and the
  latency histogram is empty, so that every percentile GET\_STATS reports is 0.\<close>

theorem concurrent_device_invariant:
  assumes "uringblk_init_device p ty env minor sl L = Inr (None, sl', L')"
    and "par_reach (ub_step sig ld lbs) (ub_init (sl_dev sl') evs) (s, ks)"
  shows "u_features (us_dev s) AND NOT supported_features = 0 \<and> u_config (us_dev s) = u_config (sl_dev sl') \<and>
    be_capacity (u_backend (us_dev s)) = be_capacity (u_backend (sl_dev sl')) \<and>
    be_type (u_backend (us_dev s)) = be_type (u_backend (sl_dev sl')) \<and>
    calculate_latency_percentile (u_latency_buckets (us_dev s)) q = 0"
proof -
  have "device_kept (sl_dev sl') (sl_dev sl')" using init_device_ok_state [OF assms(1)] by (simp add: device_kept_def)
  moreover have "device_kept (sl_dev sl') (us_dev s2)" if "ub_step sig ld lbs k s1 k' s2" "device_kept (sl_dev sl') (us_dev s1)" for k s1 k' s2
    using that ub_next_kept by (auto simp: ub_step_def)
  ultimately have "device_kept (sl_dev sl') (us_dev s)"
    using par_reach_state [OF assms(2), of "\<lambda>s. device_kept (sl_dev sl') (us_dev s)"] by simp
  then show ?thesis by (simp add: device_kept_def device_ok_def features_ok_def percentile_zero)
qed

lemma concurrent_device_invariant_witness:
  "\<exists>sl' L' (s :: ub_state) ks. uringblk_init_device (sample_params [] []) URINGBLK_BACKEND_VIRTUAL sample_dev_env 0 slot_zero {#} = Inr (None, sl', L') \<and>
     par_reach (ub_step False sample_lower 1) (ub_init (sl_dev sl') ex_calls) (s, ks) \<and> all_done ub_rank ks \<and> u_features (us_dev s) AND NOT supported_features = 0"
proof -
  from sample_init_device obtain sl' L' where
    i: "uringblk_init_device (sample_params [] []) URINGBLK_BACKEND_VIRTUAL sample_dev_env 0 slot_zero {#} = Inr (None, sl', L')"
    by blast
  obtain s ks where r: "par_reach (ub_step False sample_lower 1) (ub_init (sl_dev sl') ex_calls) (s, ks)" "all_done ub_rank ks"
    using ub.can_finish [OF ub_inv_start [OF virtual_device_ready(1) [OF i] ex_calls_ok(2-4)], of False sample_lower] by blast
  from concurrent_device_invariant [OF i r(1)] have "u_features (us_dev s) AND NOT supported_features = 0" by simp
  with i r show ?thesis by blast
qed
section \<open>What the client is told of a disk\<close>

text \<open>C28.  For a device that was set up, the replies to IDENTIFY, GET\_LIMITS and GET\_GEOMETRY, as the client decodes them,
  are the limits of the disk and of its tag set: capacity, block sizes, segments, alignment, I/O sizes,
  transfer size, queues.  The two fields for discards are 0 even when the queue accepts discards of any
  size.  The disk has the attributes exactly if their creation succeeded.\<close>

theorem replies_describe_disk:
  assumes "uringblk_init_device p ty env minor sl L = Inr (None, sl', L')"
  shows "\<exists>gd ts. sl_disk sl' = Disk gd \<and> sl_tags sl' = Some ts \<and>
    (let lbs = mp_logical_block_size p; dev = sl_dev sl';
         ident = dec_identify (enc_identify lbs dev);
         limits = dec_limits (enc_limits lbs dev);
         geo = dec_geometry (enc_geometry lbs dev)
     in id_capacity_sectors ident = gd_capacity gd \<and> ge_capacity_sectors geo = gd_capacity gd \<and>
        id_logical_block_size ident = q_logical_block_size gd \<and> ge_logical_block_size geo = q_logical_block_size gd \<and>
        id_physical_block_size ident = q_physical_block_size gd \<and>
        li_max_segments limits = q_max_segments gd \<and> id_max_segments ident = q_max_segments gd \<and>
        li_max_segment_size limits = q_max_segment_size gd \<and> id_max_segment_size ident = q_max_segment_size gd \<and>
        li_dma_alignment limits = q_dma_mask gd + 1 \<and> li_io_min limits = q_io_min gd \<and> li_io_opt limits = q_io_opt gd \<and>
        2 * li_max_hw_sectors_kb limits = q_max_hw_sectors gd \<and>
        li_nr_hw_queues limits = ts_nr_hw_queues ts \<and> li_queue_depth limits = ts_queue_depth ts \<and>
        id_queue_count ident = ts_nr_hw_queues ts \<and> id_queue_depth ident = ts_queue_depth ts \<and>
        li_discard_max_bytes limits = 0 \<and> id_discard_max_bytes ident = 0 \<and>
        q_max_discard_sectors gd = (if enable_discard (u_config dev) then - 1 else 0) \<and>
        gd_attrs gd = (if de_sysfs env = None then map fst uringblk_attrs else []))"
proof -
  let ?gd = "(setup_disk p minor (sl_dev sl'))\<lparr>gd_attrs := if de_sysfs env = None then map fst uringblk_attrs else []\<rparr>"
  let ?ts = "setup_tags (sl_dev sl')"
  from init_device_disk [OF assms] have "sl_disk sl' = Disk ?gd" "sl_tags sl' = Some ?ts" by simp_all
  then show ?thesis
    by (intro exI [of _ ?gd] exI [of _ ?ts])
      (simp add: dec_enc_identify dec_enc_limits dec_enc_geometry setup_disk_def setup_tags_def Let_def)
qed

lemma replies_describe_disk_witness:
  "\<exists>sl' L' gd. uringblk_init_device (sample_params [] []) URINGBLK_BACKEND_VIRTUAL sample_dev_env 0 slot_zero {#} =
      Inr (None, sl', L') \<and> sl_disk sl' = Disk gd \<and>
    li_max_segments (dec_limits (enc_limits 512 (sl_dev sl'))) = q_max_segments gd"
proof -
  have lbs: "mp_logical_block_size (sample_params [] []) = 512" by (simp add: sample_params_def)
  from sample_init_device obtain sl' L' where
    i: "uringblk_init_device (sample_params [] []) URINGBLK_BACKEND_VIRTUAL sample_dev_env 0 slot_zero {#} = Inr (None, sl', L')"
    by blast
  from replies_describe_disk [OF this] obtain gd where "sl_disk sl' = Disk gd"
    "li_max_segments (dec_limits (enc_limits 512 (sl_dev sl'))) = q_max_segments gd" unfolding Let_def lbs by blast
  with i show ?thesis by blast
qed

end
